(* ===== verification/Savannah_Prelude.thy ===== *)
theory Savannah_Prelude
  imports Main "HOL-Library.Word"
begin

text \<open>
  What every component of the development shares.

  \<^item> The type of results: an operation of the C code either returns a value or stops, and
    \<open>stop\<close> lists the ways it can stop.  \<open>bindr\<close> composes two operations.
  \<^item> Names of the machine types (addresses, C's \<open>int\<close>, bytes).
  \<^item> Generic facts about words: alignment to a power of two, offsets inside a region, signed
    reading of 32-bit values.

  A \<open>panic\<close> of the code is the value \<open>Inl (Panic s)\<close>, where \<open>s\<close> is the constant part of the
  message.  \<open>Fault\<close> is used where C leaves the behaviour undefined (an index past the end of an
  array).  \<open>Blocked\<close> is a polling loop whose condition never comes true in the given state.
\<close>

unbundle bit_operations_syntax

section \<open>Types\<close>

type_synonym byte = "8 word"
type_synonym cint = "32 word"
type_synonym addr = "64 word"

datatype stop =
    Panic string
  | Fault string
  | Blocked

type_synonym 'a res = "stop + 'a"

fun bindr :: "'a res \<Rightarrow> ('a \<Rightarrow> 'b res) \<Rightarrow> 'b res" where
  "bindr (Inl e) f = Inl e"
| "bindr (Inr x) f = f x"

text \<open>The bytes of a C string literal, without the terminating zero.\<close>

definition chars :: "string \<Rightarrow> byte list" where
  "chars s = map (\<lambda>c. of_nat (of_char c)) s"

text \<open>\<open>for (i = k; i < k + n; i++) body(i)\<close> on a state, stopping at the first panic.\<close>

primrec for_loop :: "nat \<Rightarrow> nat \<Rightarrow> (nat \<Rightarrow> 's \<Rightarrow> 's res) \<Rightarrow> 's \<Rightarrow> 's res" where
  "for_loop 0 k body s = Inr s"
| "for_loop (Suc n) k body s = bindr (body k s) (for_loop n (Suc k) body)"

text \<open>Statements one after the other.\<close>

primrec run :: "('s \<Rightarrow> 's res) list \<Rightarrow> 's \<Rightarrow> 's res" where
  "run [] s = Inr s"
| "run (f # fs) s = bindr (f s) (run fs)"

section \<open>Collections\<close>

named_theorems layout_simps
  \<open>offsets and sizes of the structures in memory\<close>

named_theorems const_defs
  \<open>numeric constants of the headers\<close>

section \<open>Results\<close>

lemma bindr_Inr_iff [simp]:
  "bindr m f = Inr y \<longleftrightarrow> (\<exists>x. m = Inr x \<and> f x = Inr y)"
  by (cases m) auto

lemma bindr_Inl_iff:
  "bindr m f = Inl e \<longleftrightarrow> m = Inl e \<or> (\<exists>x. m = Inr x \<and> f x = Inl e)"
  by (cases m) auto

lemma bindr_assoc: "bindr (bindr m f) g = bindr m (\<lambda>x. bindr (f x) g)"
  by (cases m) auto

lemma bindr_cong [fundef_cong]:
  "m = m' \<Longrightarrow> (\<And>x. m' = Inr x \<Longrightarrow> f x = g x) \<Longrightarrow> bindr m f = bindr m' g"
  by (cases m') auto

lemma for_loop_inv:
  assumes "\<And>k x x'. body k x = Inr x' \<Longrightarrow> Q x \<Longrightarrow> Q x'" "for_loop n k body x = Inr x'" "Q x"
  shows "Q x'"
  using assms(2,3)
proof (induction n arbitrary: k x)
  case (Suc n)
  then show ?case using assms(1) by fastforce
qed simp

lemma for_loop_keeps:
  "(\<And>k x x'. body k x = Inr x' \<Longrightarrow> h x' = h x) \<Longrightarrow> for_loop n k body x = Inr x' \<Longrightarrow> h x' = h x"
  by (rule for_loop_inv [where Q = "\<lambda>y. h y = h x"]) auto

lemma run_keeps:
  assumes "\<And>f s s'. f \<in> set fs \<Longrightarrow> f s = Inr s' \<Longrightarrow> h s' = h s" "run fs s = Inr s'"
  shows "h s' = h s"
  using assms by (induction fs arbitrary: s) (auto, metis)

section \<open>Offsets in a region\<close>

text \<open>
  A region of \<open>n\<close> bytes at \<open>a\<close> is the set of addresses \<open>x\<close> with \<open>unat (x - a) < n\<close>; it may wrap
  around the end of the address space.
\<close>

definition in_region :: "addr \<Rightarrow> nat \<Rightarrow> addr \<Rightarrow> bool" where
  "in_region a n x \<longleftrightarrow> unat (x - a) < n"

lemma len64: "LENGTH(64) = 64"
  by simp

lemma unat_of_nat_small: "n < 2 ^ LENGTH('a) \<Longrightarrow> unat (of_nat n :: 'a::len word) = n"
  by (simp add: unat_of_nat)

lemma of_nat_unat_word [simp]: "of_nat (unat w) = (w :: 'a::len word)"
  by simp

lemma in_regionI [intro]: "i < n \<Longrightarrow> i < 2 ^ 64 \<Longrightarrow> in_region a n (a + of_nat i)"
  by (simp add: in_region_def unat_of_nat_small)

lemma in_region_0 [simp]: "\<not> in_region a 0 x"
  by (simp add: in_region_def)

lemma in_region_self [simp]: "in_region a n a \<longleftrightarrow> 0 < n"
  by (simp add: in_region_def)

lemma in_regionE:
  assumes "in_region a n x"
  obtains i where "i < n" "x = a + of_nat i"
proof (rule that)
  show "unat (x - a) < n" using assms by (simp add: in_region_def)
  show "x = a + of_nat (unat (x - a))" by simp
qed

lemma in_region_mono: "in_region a n x \<Longrightarrow> n \<le> k \<Longrightarrow> in_region a k x"
  by (simp add: in_region_def)

lemma in_region_nowrap:
  assumes "unat a + n \<le> 2 ^ 64"
  shows "in_region a n x \<longleftrightarrow> unat a \<le> unat x \<and> unat x < unat a + n"
proof (cases "unat a \<le> unat x")
  case True
  then show ?thesis
    by (auto simp: in_region_def unat_sub_if')
next
  case False
  then have "unat (x - a) = unat x + 2 ^ 64 - unat a"
    by (simp add: unat_sub_if')
  with False assms show ?thesis
    by (auto simp: in_region_def)
qed

definition disjoint_regions :: "addr \<Rightarrow> nat \<Rightarrow> addr \<Rightarrow> nat \<Rightarrow> bool" where
  "disjoint_regions a n b k \<longleftrightarrow> (\<forall>x. in_region a n x \<longrightarrow> \<not> in_region b k x)"

lemma disjoint_regionsD: "disjoint_regions a n b k \<Longrightarrow> in_region a n x \<Longrightarrow> \<not> in_region b k x"
  by (simp add: disjoint_regions_def)

lemma disjoint_regions_sym: "disjoint_regions a n b k \<longleftrightarrow> disjoint_regions b k a n"
  by (auto simp: disjoint_regions_def)

lemma disjoint_regionsI:
  assumes "unat a + n \<le> 2 ^ 64" "unat b + k \<le> 2 ^ 64"
    and "unat a + n \<le> unat b \<or> unat b + k \<le> unat a"
  shows "disjoint_regions a n b k"
  using assms by (auto simp: disjoint_regions_def in_region_nowrap)

lemma disjoint_regions_mono:
  "disjoint_regions a n b k \<Longrightarrow> n' \<le> n \<Longrightarrow> k' \<le> k \<Longrightarrow> disjoint_regions a n' b k'"
  by (meson disjoint_regions_def in_region_mono)

section \<open>Signed reading of words\<close>

lemma sint_succ: "i <s n \<Longrightarrow> sint (i + 1) = sint i + 1" for i n :: cint
  using sint_lt [of n] sint_ge [of i]
  by (simp add: word_sless_alt sint_word_ariths signed_take_bit_int_eq_self)

lemma sint_eq_uint_cint: "i < 0x80000000 \<Longrightarrow> sint i = uint i" for i :: cint
  by (simp add: sint_uint word_less_def)
    (rule signed_take_bit_int_eq_self; simp add: order_trans [of _ 0])

lemma sint_of_nat_cint: "k < 2 ^ 31 \<Longrightarrow> sint (of_nat k :: cint) = int k"
proof -
  assume k: "k < 2 ^ 31"
  then have u: "unat (of_nat k :: cint) = k" by (intro unat_of_nat_small) simp
  then have "uint (of_nat k :: cint) = int k" by (metis of_nat_unat)
  moreover have "(of_nat k :: cint) < 0x80000000" using k u by (simp add: word_less_nat_alt)
  ultimately show ?thesis by (simp add: sint_eq_uint_cint)
qed

lemma scast_of_nat_cint: "k < 2 ^ 31 \<Longrightarrow> scast (of_nat k :: cint) = (of_nat k :: addr)"
  by (simp add: scast_eq sint_of_nat_cint)

lemma sint_nonneg_cint: "0 \<le> sint w \<Longrightarrow> uint w = sint w" for w :: cint
  using sint_lt [of w] by (simp add: uint_sint take_bit_int_eq_self)

lemma unat_ucast_cint: "unat w < 2 ^ 32 \<Longrightarrow> unat (ucast (w :: addr) :: cint) = unat w"
  by (simp add: unsigned_ucast_eq take_bit_nat_eq_self_iff)

lemma unat_ucast_addr: "unat (ucast w :: addr) = unat w" for w :: cint
  using unsigned_less [where ?'a = nat, of w] by (simp add: unsigned_ucast_eq take_bit_nat_eq_self)

section \<open>Alignment\<close>

lemma and_mask_unat:
  "unat (w AND mask n) = unat w mod 2 ^ n" for w :: "'a::len word"
  by (metis take_bit_eq_mask unsigned_take_bit_eq take_bit_eq_mod)

lemma aligned_iff_dvd:
  "(w AND mask n = 0) \<longleftrightarrow> 2 ^ n dvd unat w" for w :: "'a::len word"
  by (metis and_mask_unat mod_eq_0_iff_dvd unat_eq_0)

lemma and_not_mask_eq: "w AND NOT (mask n) = w - (w AND mask n)" for w :: "'a::len word"
proof -
  have "w AND NOT (mask n) = push_bit n (drop_bit n w)"
    by (rule bit_word_eqI) (auto simp: bit_simps)
  moreover have "push_bit n (drop_bit n w) + (w AND mask n) = w"
    using bits_ident [of n w] by (simp add: take_bit_eq_mask)
  ultimately show ?thesis by (metis add_diff_cancel_right')
qed

lemma unat_and_not_mask: "unat (w AND NOT (mask n)) = unat w - unat w mod 2 ^ n"
  for w :: "'a::len word"
proof -
  have "unat (w AND mask n) \<le> unat w" by (simp add: and_mask_unat)
  then show ?thesis by (simp add: and_not_mask_eq unat_sub_if' and_mask_unat)
qed

end
