(* ===== verification/Machine_Memory.thy ===== *)
theory Machine_Memory
  imports Savannah_Prelude
begin

text \<open>
  Physical memory as the processor sees it, one byte per 64-bit address, and the memory and string
  routines of \<open>src/lib/string.c\<close>.  Multi-byte accesses are little-endian, as on x86-64.

  The routines keep the loops of the source: the pointers advance byte by byte.  The lemmas give
  each loop its closed form; a string in memory is described by \<open>str_at\<close>.
  \<open>strlen\<close>, \<open>strcmp\<close> and \<open>strcpy\<close> run until they meet a zero byte, so they are partial: the value
  \<open>None\<close> is a run that never ends.
\<close>

type_synonym memory = "addr \<Rightarrow> byte"

record machine =
  mem :: memory

section \<open>Loads and stores\<close>

primrec load_le :: "nat \<Rightarrow> memory \<Rightarrow> addr \<Rightarrow> 'a::len word" where
  "load_le 0 m a = 0"
| "load_le (Suc n) m a = ucast (m a) OR push_bit 8 (load_le n m (a + 1))"

primrec store_le :: "nat \<Rightarrow> memory \<Rightarrow> addr \<Rightarrow> 'a::len word \<Rightarrow> memory" where
  "store_le 0 m a w = m"
| "store_le (Suc n) m a w = (store_le n m (a + 1) (drop_bit 8 w)) (a := ucast w)"

abbreviation load32 :: "memory \<Rightarrow> addr \<Rightarrow> cint" where
  "load32 \<equiv> load_le 4"

abbreviation load64 :: "memory \<Rightarrow> addr \<Rightarrow> addr" where
  "load64 \<equiv> load_le 8"

abbreviation store32 :: "memory \<Rightarrow> addr \<Rightarrow> cint \<Rightarrow> memory" where
  "store32 \<equiv> store_le 4"

abbreviation store64 :: "memory \<Rightarrow> addr \<Rightarrow> addr \<Rightarrow> memory" where
  "store64 \<equiv> store_le 8"

section \<open>The routines of string.c\<close>

text \<open>\<open>memcpy\<close>: \<open>while (count--) *tmp++ = *s++;\<close>\<close>

primrec memcpy_loop :: "nat \<Rightarrow> addr \<Rightarrow> addr \<Rightarrow> memory \<Rightarrow> memory" where
  "memcpy_loop 0 tmp s m = m"
| "memcpy_loop (Suc n) tmp s m = memcpy_loop n (tmp + 1) (s + 1) (m(tmp := m s))"

definition memcpy :: "addr \<Rightarrow> addr \<Rightarrow> addr \<Rightarrow> memory \<Rightarrow> memory" where
  "memcpy dest src count m = memcpy_loop (unat count) dest src m"

text \<open>\<open>memset\<close> stores the low byte of its \<open>int\<close> argument.\<close>

primrec memset_loop :: "nat \<Rightarrow> addr \<Rightarrow> byte \<Rightarrow> memory \<Rightarrow> memory" where
  "memset_loop 0 xs c m = m"
| "memset_loop (Suc n) xs c m = memset_loop n (xs + 1) c (m(xs := c))"

definition memset :: "addr \<Rightarrow> cint \<Rightarrow> addr \<Rightarrow> memory \<Rightarrow> memory" where
  "memset s c count m = memset_loop (unat count) s (ucast c) m"

primrec memcmp_loop :: "nat \<Rightarrow> addr \<Rightarrow> addr \<Rightarrow> memory \<Rightarrow> int" where
  "memcmp_loop 0 su1 su2 m = 0"
| "memcmp_loop (Suc n) su1 su2 m =
    (let res = uint (m su1) - uint (m su2) in
     if res \<noteq> 0 then res else memcmp_loop n (su1 + 1) (su2 + 1) m)"

definition memcmp :: "addr \<Rightarrow> addr \<Rightarrow> addr \<Rightarrow> memory \<Rightarrow> int" where
  "memcmp cs ct count m = memcmp_loop (unat count) cs ct m"

partial_function (option) strcpy_loop :: "addr \<Rightarrow> addr \<Rightarrow> memory \<Rightarrow> memory option" where
  "strcpy_loop dest src m =
    (let m' = m(dest := m src) in
     if m src \<noteq> 0 then strcpy_loop (dest + 1) (src + 1) m' else Some m')"

definition strcpy :: "addr \<Rightarrow> addr \<Rightarrow> memory \<Rightarrow> memory option" where
  "strcpy dest src m = strcpy_loop dest src m"

primrec strncpy_loop :: "nat \<Rightarrow> addr \<Rightarrow> addr \<Rightarrow> memory \<Rightarrow> memory" where
  "strncpy_loop 0 tmp src m = m"
| "strncpy_loop (Suc n) tmp src m =
    (let c = m src; m' = m(tmp := c) in
     strncpy_loop n (tmp + 1) (if c \<noteq> 0 then src + 1 else src) m')"

definition strncpy :: "addr \<Rightarrow> addr \<Rightarrow> addr \<Rightarrow> memory \<Rightarrow> memory" where
  "strncpy dest src count m = strncpy_loop (unat count) dest src m"

partial_function (option) strlen_loop :: "addr \<Rightarrow> memory \<Rightarrow> addr option" where
  "strlen_loop sc m = (if m sc \<noteq> 0 then strlen_loop (sc + 1) m else Some sc)"

text \<open>The pointer difference is returned as an \<open>int\<close>.\<close>

definition strlen :: "addr \<Rightarrow> memory \<Rightarrow> cint option" where
  "strlen s m = map_option (\<lambda>sc. ucast (sc - s)) (strlen_loop s m)"

partial_function (option) strcmp :: "addr \<Rightarrow> addr \<Rightarrow> memory \<Rightarrow> cint option" where
  "strcmp cs ct m =
    (let c1 = m cs; c2 = m ct in
     if c1 \<noteq> c2 then Some (if c1 < c2 then - 1 else 1)
     else if c1 = 0 then Some 0
     else strcmp (cs + 1) (ct + 1) m)"

section \<open>Strings in memory\<close>

fun bytes_at :: "memory \<Rightarrow> addr \<Rightarrow> byte list \<Rightarrow> bool" where
  "bytes_at m a [] = True"
| "bytes_at m a (b # bs) = (m a = b \<and> bytes_at m (a + 1) bs)"

fun str_at :: "memory \<Rightarrow> addr \<Rightarrow> byte list \<Rightarrow> bool" where
  "str_at m a [] = (m a = 0)"
| "str_at m a (c # cs) = (c \<noteq> 0 \<and> m a = c \<and> str_at m (a + 1) cs)"

fun put_bytes :: "memory \<Rightarrow> addr \<Rightarrow> byte list \<Rightarrow> memory" where
  "put_bytes m a [] = m"
| "put_bytes m a (b # bs) = (put_bytes m (a + 1) bs)(a := b)"

fun str_less :: "byte list \<Rightarrow> byte list \<Rightarrow> bool" where
  "str_less xs [] = False"
| "str_less [] (y # ys) = True"
| "str_less (x # xs) (y # ys) = (x < y \<or> x = y \<and> str_less xs ys)"

section \<open>Properties of loads and stores\<close>

lemma unat_diff_step: "x \<noteq> a \<Longrightarrow> unat (x - a) = Suc (unat (x - (a + 1)))" for x a :: addr
  using unat_minus_one [of "x - a"] unat_eq_0 [of "x - a"] by (simp add: algebra_simps)

lemma in_region_Suc:
  "in_region a (Suc n) x \<longleftrightarrow> x = a \<or> in_region (a + 1) n x" if "n < 2 ^ 64"
  by (cases "x = a") (simp_all add: in_region_def unat_diff_step)

lemma not_in_region_succ [simp]: "n < 2 ^ 64 \<Longrightarrow> \<not> in_region (a + 1) n a"
  by (simp add: in_region_def unsigned_minus_1_eq_mask mask_eq_exp_minus_1)

lemma bit_load_le:
  "bit (load_le n m a :: 'a::len word) i \<longleftrightarrow>
    i < LENGTH('a) \<and> i < 8 * n \<and> bit (m (a + of_nat (i div 8))) (i mod 8)"
proof (induction n arbitrary: a i)
  case (Suc n)
  show ?case
  proof (cases "i < 8")
    case True
    then show ?thesis by (auto simp: bit_simps)
  next
    case False
    then obtain k where k: "i = k + 8" by (metis add.commute le_Suc_ex not_less)
    then have d: "i div 8 = Suc (k div 8)" "i mod 8 = k mod 8" by simp_all
    show ?thesis
      using k d by (auto simp: bit_simps Suc.IH add.assoc dest: bit_imp_le_length)
  qed
qed simp

lemma store_le_apply:
  "n \<le> 2 ^ 64 \<Longrightarrow> store_le n m a w x =
    (if in_region a n x then ucast (drop_bit (8 * unat (x - a)) w) else m x)"
proof (induction n arbitrary: a w)
  case (Suc n)
  then show ?case
    by (cases "x = a") (simp_all add: in_region_Suc unat_diff_step add.commute)
qed simp

lemma load_store_same:
  assumes "LENGTH('a) = 8 * n" "n \<le> 2 ^ 64"
  shows "load_le n (store_le n m a w) a = (w :: 'a::len word)"
proof (rule bit_word_eqI)
  fix i assume i: "i < LENGTH('a)"
  then have "i div 8 < n" using assms by auto
  then have "unat (of_nat (i div 8) :: addr) = i div 8"
    using assms(2) by (intro unat_of_nat_small) auto
  moreover have "8 * (i div 8) + i mod 8 = i" by simp
  ultimately show "bit (load_le n (store_le n m a w) a :: 'a word) i = bit w i"
    using i assms \<open>i div 8 < n\<close>
    by (auto simp: bit_load_le store_le_apply in_region_def bit_simps)
qed

lemma load_cong:
  assumes "\<And>x. in_region a n x \<Longrightarrow> m x = m' x" "n \<le> 2 ^ 64"
  shows "load_le n m a = (load_le n m' a :: 'a::len word)"
proof (rule bit_word_eqI)
  fix i assume "i < LENGTH('a)"
  have "in_region a n (a + of_nat (i div 8))" if "i < 8 * n"
    using that assms(2) by (intro in_regionI) auto
  then show "bit (load_le n m a :: 'a word) i = bit (load_le n m' a :: 'a word) i"
    using assms by (auto simp: bit_load_le)
qed

lemma load_store_other:
  assumes "disjoint_regions a n b k" "n \<le> 2 ^ 64" "k \<le> 2 ^ 64"
  shows "load_le n (store_le k m b w) a = load_le n m a"
  using assms by (intro load_cong) (auto simp: store_le_apply dest: disjoint_regionsD)

lemma load_upd_other:
  assumes "\<not> in_region a n b" "n \<le> 2 ^ 64"
  shows "load_le n (m(b := v)) a = load_le n m a"
  using assms by (intro load_cong) auto

text \<open>
  Two accesses relative to one base pointer, as the fields of a structure are.
\<close>

definition sep_off :: "addr \<Rightarrow> nat \<Rightarrow> addr \<Rightarrow> nat \<Rightarrow> bool" where
  "sep_off a n b k \<longleftrightarrow> unat a + n \<le> unat b \<and> unat b + k \<le> 2 ^ 64 \<or>
     unat b + k \<le> unat a \<and> unat a + n \<le> 2 ^ 64"

lemma in_region_offset: "in_region (p + a) n (p + x) = in_region a n x"
  by (simp add: in_region_def)

lemma in_region_sub:
  assumes "in_region (p + a) n x" "unat a + n \<le> k"
  shows "in_region p k x"
proof -
  have "x - p = (x - (p + a)) + a" by simp
  then have "unat (x - p) = (unat (x - (p + a)) + unat a) mod 2 ^ 64"
    by (metis unat_word_ariths(1) len64)
  also have "\<dots> \<le> unat (x - (p + a)) + unat a" by simp
  finally show ?thesis using assms by (simp add: in_region_def)
qed

lemma store_le_outside:
  assumes "\<not> in_region p k x" "unat a + n \<le> k" "n \<le> 2 ^ 64"
  shows "store_le n m (p + a) w x = m x"
  using assms in_region_sub [of p a n x k] by (auto simp: store_le_apply)

lemma disjoint_regions_offset:
  "disjoint_regions (p + a) n (p + b) k = disjoint_regions a n b k"
proof -
  have "(\<forall>x. in_region (p + a) n x \<longrightarrow> \<not> in_region (p + b) k x) \<longleftrightarrow>
      (\<forall>x. in_region (p + a) n (p + x) \<longrightarrow> \<not> in_region (p + b) k (p + x))"
    by (metis add_diff_cancel_left' diff_add_cancel add.commute)
  then show ?thesis by (simp add: disjoint_regions_def in_region_offset)
qed

lemma sep_off_disjoint: "sep_off a n b k \<Longrightarrow> disjoint_regions (p + a) n (p + b) k"
  unfolding disjoint_regions_offset
  by (rule disjoint_regionsI) (auto simp: sep_off_def)

lemma load_store_sep:
  assumes "sep_off a n b k" "n \<le> 2 ^ 64" "k \<le> 2 ^ 64"
  shows "load_le n (store_le k m (p + b) w) (p + a) = load_le n m (p + a)"
  using assms by (intro load_store_other sep_off_disjoint)

lemma load_store_sep0:
  assumes "sep_off a n 0 k" "n \<le> 2 ^ 64" "k \<le> 2 ^ 64"
  shows "load_le n (store_le k m p w) (p + a) = load_le n m (p + a)"
  using load_store_sep [of a n 0 k m p w] assms by simp

lemma load_store_0sep:
  assumes "sep_off 0 n b k" "n \<le> 2 ^ 64" "k \<le> 2 ^ 64"
  shows "load_le n (store_le k m (p + b) w) p = load_le n m p"
  using load_store_sep [of 0 n b k m p w] assms by simp

lemma load_store_abs:
  assumes "sep_off a n b k" "n \<le> 2 ^ 64" "k \<le> 2 ^ 64"
  shows "load_le n (store_le k m b w) a = load_le n m a"
  using load_store_sep [of a n b k m 0 w] assms by simp

lemma load_zero: "load_le n (\<lambda>_. 0) a = 0"
  by (rule bit_word_eqI) (simp add: bit_load_le)

text \<open>For memories written at constant addresses.\<close>

lemmas mem_eval = load_store_same load_store_abs load_zero sep_off_def

lemmas field_simps_mem [layout_simps] =
  load_store_same load_store_sep load_store_sep0 load_store_0sep sep_off_def

section \<open>Arrays\<close>

lemma unat_slot: "w * n \<le> 2 ^ 64 \<Longrightarrow> k < n \<Longrightarrow> 0 < w \<Longrightarrow> unat (of_nat (w * k) :: addr) = w * k"
proof (rule unat_of_nat_small)
  assume "w * n \<le> 2 ^ 64" "k < n" "0 < w"
  then have "w * k < w * n" by simp
  then show "w * k < 2 ^ LENGTH(64)" using \<open>w * n \<le> 2 ^ 64\<close> by (simp only: len64)
qed

text \<open>The slots of an array lie in it and apart from each other.\<close>

lemma slot_region:
  assumes "k < n" "w * n \<le> 2 ^ 64" "in_region (a + of_nat (w * k)) w x"
  shows "in_region a (w * n) x"
proof -
  have "0 < w" using assms(3) by (cases w) (auto simp: in_region_def)
  moreover have "w * k + w \<le> w * n" using assms(1) by (metis Suc_leI mult_Suc_right mult_le_mono2 add.commute)
  ultimately show ?thesis using in_region_sub [of a "of_nat (w * k)" w x "w * n"] assms unat_slot [of w n k] by simp
qed

lemma slot_apart:
  assumes "j \<noteq> k" "j < n" "k < n" "w * n \<le> 2 ^ 64" "in_region (a + of_nat (w * k)) w x"
  shows "\<not> in_region (a + of_nat (w * j)) w x"
proof -
  have "0 < w" using assms(5) by (cases w) (auto simp: in_region_def)
  then have u: "unat (of_nat (w * l) :: addr) = w * l" if "l < n" for l using that assms(4) by (intro unat_slot)
  have b: "w * l + w \<le> 2 ^ 64" if "l < n" for l
    using that assms(4) by (metis Suc_leI mult_Suc_right mult_le_mono2 add.commute order_trans)
  have "w * j + w \<le> w * k \<or> w * k + w \<le> w * j"
    using assms(1) by (metis Suc_leI add.commute linorder_neqE_nat mult_Suc_right mult_le_mono2)
  then have "sep_off (of_nat (w * k)) w (of_nat (w * j)) w"
    unfolding sep_off_def u [OF assms(2)] u [OF assms(3)] using b [OF assms(2)] b [OF assms(3)] by auto
  then show ?thesis using assms(5) sep_off_disjoint disjoint_regionsD by blast
qed

section \<open>Closed forms of the loops\<close>

lemma memset_loop_apply:
  "n \<le> 2 ^ 64 \<Longrightarrow> memset_loop n a c m x = (if in_region a n x then c else m x)"
proof (induction n arbitrary: a m)
  case (Suc n)
  then show ?case
    by (cases "x = a") (auto simp: in_region_Suc)
qed simp

lemma unat_addr_bound [simp]:
  "unat (a :: addr) < 18446744073709551616" "unat (a :: addr) \<le> 18446744073709551616"
  using unsigned_less [of a, where ?'a = nat] by auto

lemma memset_apply:
  "memset a c n m x = (if in_region a (unat n) x then ucast c else m x)"
  by (simp add: memset_def memset_loop_apply)

text \<open>Outside the destination nothing changes, whatever the overlap.\<close>

lemma memcpy_loop_outside:
  "n \<le> 2 ^ 64 \<Longrightarrow> \<not> in_region d n x \<Longrightarrow> memcpy_loop n d s m x = m x"
  by (induction n arbitrary: d s m) (auto simp: in_region_Suc)

text \<open>
  The copy goes upwards, so it is exact unless the destination starts inside the source.
\<close>

lemma memcpy_loop_apply:
  assumes "n \<le> 2 ^ 64" "d = s \<or> n \<le> unat (d - s)"
  shows "memcpy_loop n d s m x = (if in_region d n x then m (s + (x - d)) else m x)"
  using assms
proof (induction n arbitrary: d s m)
  case (Suc n)
  have 1: "d + 1 = s + 1 \<or> n \<le> unat ((d + 1) - (s + 1))"
    using Suc.prems(2) by auto
  show ?case
  proof (cases "x = d")
    case True
    have "memcpy_loop n (d + 1) (s + 1) (m(d := m s)) d = (m(d := m s)) d"
      using Suc.prems(1) by (intro memcpy_loop_outside) auto
    with True show ?thesis by simp
  next
    case False
    have "s + (x - d) \<noteq> d" if "in_region (d + 1) n x"
    proof
      assume "s + (x - d) = d"
      then have "x - d = d - s" by (simp add: algebra_simps)
      then have "unat (d - s) < Suc n"
        using that unat_diff_step [OF False] by (simp add: in_region_def)
      with Suc.prems(2) False \<open>x - d = d - s\<close> show False by auto
    qed
    moreover have "n \<le> 2 ^ 64" "s + 1 + (x - (d + 1)) = s + (x - d)"
      using Suc.prems(1) by simp_all
    ultimately show ?thesis
      using False Suc.prems(1) by (simp add: Suc.IH [OF _ 1] in_region_Suc)
  qed
qed simp

lemma memcpy_apply:
  "d = s \<or> unat n \<le> unat (d - s) \<Longrightarrow>
    memcpy d s n m x = (if in_region d (unat n) x then m (s + (x - d)) else m x)"
  by (simp add: memcpy_def memcpy_loop_apply)

lemma memcpy_outside: "\<not> in_region d (unat n) x \<Longrightarrow> memcpy d s n m x = m x"
  by (simp add: memcpy_def memcpy_loop_outside)

lemma memcpy_copied:
  assumes "disjoint_regions d k s k" "i < k" "k < 2 ^ 64"
  shows "memcpy d s (of_nat k) m (d + of_nat i) = m (s + of_nat i)"
proof -
  have k: "unat (of_nat k :: addr) = k" using assms(3) by (intro unat_of_nat_small) simp
  have "in_region d k d" using assms(2) by simp
  with assms(1) have "\<not> in_region s k d" by (rule disjoint_regionsD)
  then have "k \<le> unat (d - s)" by (simp add: in_region_def)
  moreover have "in_region d k (d + of_nat i)" using assms(2,3) by (intro in_regionI) auto
  ultimately show ?thesis using k by (simp add: memcpy_apply)
qed

section \<open>Strings\<close>

lemma str_at_unique: "str_at m a xs \<Longrightarrow> str_at m a ys \<Longrightarrow> xs = ys"
proof (induction xs arbitrary: a ys)
  case Nil
  then show ?case by (cases ys) auto
next
  case (Cons x xs)
  then show ?case by (cases ys) auto
qed

lemma strlen_loop_str: "str_at m a xs \<Longrightarrow> strlen_loop a m = Some (a + of_nat (length xs))"
  by (induction xs arbitrary: a) (subst strlen_loop.simps; simp add: algebra_simps)+

lemma ucast_of_nat_down: "ucast (of_nat n :: addr) = (of_nat n :: cint)"
  by (rule bit_word_eqI) (auto simp: bit_simps)

lemma strlen_str: "str_at m a xs \<Longrightarrow> strlen a m = Some (of_nat (length xs))"
  by (simp add: strlen_def strlen_loop_str ucast_of_nat_down)

lemma strcmp_str:
  "str_at m a xs \<Longrightarrow> str_at m b ys \<Longrightarrow>
    strcmp a b m = Some (if xs = ys then 0 else if str_less xs ys then - 1 else 1)"
proof (induction xs arbitrary: a b ys)
  case Nil
  then show ?case
    by (cases ys) (subst strcmp.simps; auto simp: Let_def word_gt_0)+
next
  case (Cons x xs)
  show ?case
  proof (cases ys)
    case Nil
    then show ?thesis using Cons.prems
      by (subst strcmp.simps) (auto simp: Let_def)
  next
    case (Cons y ys')
    then show ?thesis using Cons.prems Cons.IH
      by (subst strcmp.simps) (auto simp: Let_def)
  qed
qed

lemma put_bytes_outside:
  "length bs \<le> 2 ^ 64 \<Longrightarrow> \<not> in_region a (length bs) x \<Longrightarrow> put_bytes m a bs x = m x"
  by (induction bs arbitrary: a) (auto simp: in_region_Suc)

lemma bytes_at_cong:
  "(\<And>x. in_region a (length bs) x \<Longrightarrow> m x = m' x) \<Longrightarrow> length bs \<le> 2 ^ 64 \<Longrightarrow>
    bytes_at m a bs = bytes_at m' a bs"
  by (induction bs arbitrary: a) (auto simp: in_region_Suc)

lemma bytes_at_put_bytes:
  assumes "length bs \<le> 2 ^ 64"
  shows "bytes_at (put_bytes m a bs) a bs"
  using assms
proof (induction bs arbitrary: a)
  case (Cons b bs)
  have "bytes_at ((put_bytes m (a + 1) bs)(a := b)) (a + 1) bs = bytes_at (put_bytes m (a + 1) bs) (a + 1) bs"
    using Cons.prems by (intro bytes_at_cong) auto
  with Cons show ?case by (simp add: fun_upd_def)
qed simp

lemma bytes_at_append:
  "bytes_at m a (xs @ ys) \<longleftrightarrow> bytes_at m a xs \<and> bytes_at m (a + of_nat (length xs)) ys"
  by (induction xs arbitrary: a) (auto simp: algebra_simps)

lemma bytes_at_nth: "bytes_at m a bs \<longleftrightarrow> (\<forall>i < length bs. m (a + of_nat i) = bs ! i)"
proof (induction bs arbitrary: a)
  case (Cons b bs)
  show ?case by (simp add: Cons All_less_Suc2 algebra_simps)
qed simp

lemma bytes_at_memcpy:
  assumes "disjoint_regions d (length bs) a (length bs)" "length bs < 2 ^ 64" "bytes_at m a bs"
  shows "bytes_at (memcpy d a (of_nat (length bs)) m) d bs"
  using assms by (simp add: bytes_at_nth memcpy_copied)

lemma bytes_at_take: "bytes_at m a bs \<Longrightarrow> bytes_at m a (take n bs)"
  by (simp add: bytes_at_nth)

lemma str_at_bytes:
  assumes "bytes_at m a (xs @ 0 # ys)" "0 \<notin> set xs"
  shows "str_at m a xs"
  using assms by (induction xs arbitrary: a) auto

lemma store_le_outside0: "\<not> in_region p k x \<Longrightarrow> n \<le> k \<Longrightarrow> n \<le> 2 ^ 64 \<Longrightarrow> store_le n m p w x = m x"
  using store_le_outside [of p k x 0 n m w] by simp

lemma str_at_cong:
  "(\<And>x. in_region a (Suc (length xs)) x \<Longrightarrow> m x = m' x) \<Longrightarrow> length xs < 2 ^ 64 \<Longrightarrow> str_at m a xs = str_at m' a xs"
proof (induction xs arbitrary: a)
  case (Cons c cs)
  have "str_at m (a + 1) cs = str_at m' (a + 1) cs"
    using Cons.prems by (intro Cons.IH) (auto simp: in_region_Suc)
  then show ?case using Cons.prems(1) [of a] by simp
qed simp

lemma str_at_nonzero: "str_at m a xs \<Longrightarrow> 0 \<notin> set xs"
  by (induction xs arbitrary: a) auto

lemma put_bytes_upd:
  "length bs < 2 ^ 64 \<Longrightarrow> put_bytes (m(a := v)) (a + 1) bs = (put_bytes m (a + 1) bs)(a := v)"
proof (rule ext)
  fix x
  have gen: "put_bytes m1 b bs x = put_bytes m2 b bs x" if "m1 x = m2 x" for b m1 m2
    using that by (induction bs arbitrary: b) auto
  assume "length bs < 2 ^ 64"
  then have "put_bytes (m(a := v)) (a + 1) bs a = v"
    using put_bytes_outside [of bs "a + 1" a "m(a := v)"] by simp
  then show "put_bytes (m(a := v)) (a + 1) bs x = ((put_bytes m (a + 1) bs)(a := v)) x"
    using gen [of "m(a := v)" m] by auto
qed

lemma strcpy_str:
  assumes "str_at m src xs" "length xs < 2 ^ 63" "disjoint_regions dst (Suc (length xs)) src (Suc (length xs))"
  shows "strcpy dst src m = Some (put_bytes m dst (xs @ [0]))"
  unfolding strcpy_def using assms
proof (induction xs arbitrary: dst src m)
  case Nil
  then show ?case by (subst strcpy_loop.simps) simp
next
  case (Cons c cs)
  have d: "\<not> in_region dst (Suc (Suc (length cs))) x \<or> \<not> in_region src (Suc (Suc (length cs))) x" for x
    using Cons.prems(3) by (auto simp: disjoint_regions_def)
  have sub: "in_region a (Suc (Suc (length cs))) x" if "in_region (a + 1) (Suc (length cs)) x" for a x
    using that Cons.prems(2) by (simp add: in_region_Suc)
  have "str_at (m(dst := c)) (src + 1) cs = str_at m (src + 1) cs"
    using d [of dst] sub [of src] Cons.prems(2) by (intro str_at_cong) auto
  then have s: "str_at (m(dst := c)) (src + 1) cs" using Cons.prems(1) by simp
  have r: "disjoint_regions (dst + 1) (Suc (length cs)) (src + 1) (Suc (length cs))"
    using d sub by (auto simp: disjoint_regions_def)
  have "strcpy_loop (dst + 1) (src + 1) (m(dst := c)) = Some (put_bytes (m(dst := c)) (dst + 1) (cs @ [0]))"
    using Cons.IH [OF s _ r] Cons.prems(2) by (simp add: fun_upd_def)
  moreover have "put_bytes (m(dst := c)) (dst + 1) (cs @ [0]) = put_bytes m dst ((c # cs) @ [0])"
    using Cons.prems(2) by (subst put_bytes_upd) simp_all
  ultimately show ?case using Cons.prems(1) by (subst strcpy_loop.simps) (simp add: Let_def)
qed

lemma str_at_put_bytes:
  "0 \<notin> set xs \<Longrightarrow> length xs < 2 ^ 63 \<Longrightarrow> str_at (put_bytes m a (xs @ [0])) a xs"
  using bytes_at_put_bytes [of "xs @ [0]" m a] by (intro str_at_bytes) simp_all

end
