(* ===== verification/Cpu_Types.thy ===== *)
theory Cpu_Types
  imports Machine_Memory
begin

text \<open>
  The structures that every program of the system shares: \<open>struct cpu_info\<close> with its parts
  (\<open>src/include/cpu.h\<close>), the constants of \<open>src/include/const.h\<close> and
  \<open>src/include/vuos/config.h\<close>, the layouts of \<open>struct message\<close>, \<open>struct file_descriptor\<close>,
  \<open>struct header\<close> and \<open>struct channel\<close> in memory, and \<open>ALIGN\<close> of \<open>src/include/macro.h\<close>.

  The table of \<open>cpu_info\<close> structures is shared by all processors.  The boot loader reserves its
  memory, and nothing else is stored there, so the model keeps it as a typed table \<open>cpus\<close> beside
  the byte memory \<open>mem\<close>.  Registers carry the prefix \<open>r_\<close>.
\<close>

section \<open>Constants\<close>

abbreviation (input) "SZ_4KB \<equiv> 0x1000"
abbreviation (input) "SZ_2MB \<equiv> 0x200000"
abbreviation (input) "SZ_1GB \<equiv> 0x40000000"

abbreviation (input) "MIN_CPUS \<equiv> 4"
abbreviation (input) "MAX_CPUS \<equiv> 255"

abbreviation (input) "NUMBER_SERVERS \<equiv> 2"
abbreviation (input) "NUMBER_USER_VMS \<equiv> 1"
abbreviation (input) "ALWAYS_BUSY \<equiv> 3"

abbreviation (input) "PM_ID \<equiv> 0"
abbreviation (input) "FS_ID \<equiv> 1"
abbreviation (input) "INIT_ID \<equiv> 2"
abbreviation (input) "KBD_ID \<equiv> 3"
abbreviation (input) "JUNK_ID \<equiv> 4"
abbreviation (input) "CONSOLE_ID \<equiv> 5"

abbreviation (input) "VM_STACK_SIZE \<equiv> 0x1000"
abbreviation (input) "USER_VMS_PAGE_SIZE \<equiv> 0x1000"
abbreviation (input) "CHANNEL_SIZE \<equiv> 0x1000"
abbreviation (input) "MAX_FD \<equiv> 32"
abbreviation (input) "MAX_CHANNELS \<equiv> 32"
abbreviation (input) "MAX_ARGV \<equiv> 16"
abbreviation (input) "MAX_ARGV_LEN \<equiv> 256"

text \<open>\<open>#define ALIGN(N, BASE) (((N) + ((BASE) - 1)) & ~((BASE) - 1))\<close>\<close>

definition ALIGN :: "addr \<Rightarrow> addr \<Rightarrow> addr" where
  "ALIGN N BASE = (N + (BASE - 1)) AND NOT (BASE - 1)"

section \<open>Processors and processes\<close>

record regs =
  r_rax :: addr
  r_rbx :: addr
  r_rcx :: addr
  r_rdx :: addr
  r_rsi :: addr
  r_rdi :: addr
  r_rsp :: addr
  r_rbp :: addr
  r_rip :: addr
  r_cs :: addr
  r_ds :: addr
  r_es :: addr
  r_fs :: addr
  r_gs :: addr
  r_ss :: addr
  r_rflags :: addr
  r_r8 :: addr
  r_r9 :: addr
  r_r10 :: addr
  r_r11 :: addr
  r_r12 :: addr
  r_r13 :: addr
  r_r14 :: addr
  r_r15 :: addr
  r_cr0 :: addr
  r_cr3 :: addr
  r_cr4 :: addr

text \<open>The values of \<open>vm_state\<close>; 0 is the value of the zeroed structure.\<close>

abbreviation (input) "RUNNING \<equiv> 1"
abbreviation (input) "WAIT_IO \<equiv> 2"
abbreviation (input) "WAIT_CHLD \<equiv> 3"
abbreviation (input) "ZOMBIE \<equiv> 4"

record vm_proc =
  vm_regs :: regs
  vm_start_paddr :: addr
  vm_end_paddr :: addr
  vm_start_vaddr :: addr
  vm_end_vaddr :: addr
  vm_code_paddr :: addr
  vm_data_paddr :: addr
  vm_rodata_paddr :: addr
  vm_bss_paddr :: addr
  vm_stack_paddr :: addr
  vm_code_vaddr :: addr
  vm_data_vaddr :: addr
  vm_rodata_vaddr :: addr
  vm_bss_vaddr :: addr
  vm_stack_vaddr :: addr
  vm_code_size :: addr
  vm_data_size :: addr
  vm_rodata_size :: addr
  vm_bss_size :: addr
  vm_stack_size :: addr
  vm_page_tables :: addr
  vm_ept :: addr
  vm_parent :: cint
  vm_exit_status :: cint
  vm_state :: cint
  vm_waiting_for :: cint
  vm_vmcs_ptr :: addr
  vm_vmxon_ptr :: addr
  vm_fds :: addr
  vm_channels :: addr

record vmm_proc =
  vmm_regs :: regs
  vmm_start_paddr :: addr
  vmm_end_paddr :: addr
  vmm_start_vaddr :: addr
  vmm_end_vaddr :: addr
  vmm_code_paddr :: addr
  vmm_data_paddr :: addr
  vmm_rodata_paddr :: addr
  vmm_bss_paddr :: addr
  vmm_stack_paddr :: addr
  vmm_code_vaddr :: addr
  vmm_data_vaddr :: addr
  vmm_rodata_vaddr :: addr
  vmm_bss_vaddr :: addr
  vmm_stack_vaddr :: addr
  vmm_code_size :: addr
  vmm_data_size :: addr
  vmm_rodata_size :: addr
  vmm_bss_size :: addr
  vmm_stack_size :: addr
  vmm_page_tables :: addr
  vmm_has_vm :: bool

record cpu_info =
  lapic_id :: byte
  cpuid :: byte
  cpu_ready :: byte
  vm_info :: vm_proc
  vmm_info :: vmm_proc
  vm_args :: addr
  ncpus :: addr
  cpu_freq :: addr
  bus_freq :: addr
  msg_input :: addr
  msg_output :: addr
  msg_ready :: addr
  msg_ready_bitmap :: addr

text \<open>The structures the boot loader clears.\<close>

definition zero_regs :: regs where
  "zero_regs = \<lparr>
    r_rax = 0, r_rbx = 0, r_rcx = 0, r_rdx = 0, r_rsi = 0, r_rdi = 0, r_rsp = 0, r_rbp = 0,
    r_rip = 0, r_cs = 0, r_ds = 0, r_es = 0, r_fs = 0, r_gs = 0, r_ss = 0, r_rflags = 0,
    r_r8 = 0, r_r9 = 0, r_r10 = 0, r_r11 = 0, r_r12 = 0, r_r13 = 0, r_r14 = 0, r_r15 = 0,
    r_cr0 = 0, r_cr3 = 0, r_cr4 = 0\<rparr>"

definition zero_vm :: vm_proc where
  "zero_vm = \<lparr>
    vm_regs = zero_regs, vm_start_paddr = 0, vm_end_paddr = 0, vm_start_vaddr = 0,
    vm_end_vaddr = 0, vm_code_paddr = 0, vm_data_paddr = 0, vm_rodata_paddr = 0,
    vm_bss_paddr = 0, vm_stack_paddr = 0, vm_code_vaddr = 0, vm_data_vaddr = 0,
    vm_rodata_vaddr = 0, vm_bss_vaddr = 0, vm_stack_vaddr = 0, vm_code_size = 0,
    vm_data_size = 0, vm_rodata_size = 0, vm_bss_size = 0, vm_stack_size = 0,
    vm_page_tables = 0, vm_ept = 0, vm_parent = 0, vm_exit_status = 0, vm_state = 0,
    vm_waiting_for = 0, vm_vmcs_ptr = 0, vm_vmxon_ptr = 0, vm_fds = 0, vm_channels = 0\<rparr>"

definition zero_vmm :: vmm_proc where
  "zero_vmm = \<lparr>
    vmm_regs = zero_regs, vmm_start_paddr = 0, vmm_end_paddr = 0, vmm_start_vaddr = 0,
    vmm_end_vaddr = 0, vmm_code_paddr = 0, vmm_data_paddr = 0, vmm_rodata_paddr = 0,
    vmm_bss_paddr = 0, vmm_stack_paddr = 0, vmm_code_vaddr = 0, vmm_data_vaddr = 0,
    vmm_rodata_vaddr = 0, vmm_bss_vaddr = 0, vmm_stack_vaddr = 0, vmm_code_size = 0,
    vmm_data_size = 0, vmm_rodata_size = 0, vmm_bss_size = 0, vmm_stack_size = 0,
    vmm_page_tables = 0, vmm_has_vm = False\<rparr>"

definition zero_cpu :: cpu_info where
  "zero_cpu = \<lparr>
    lapic_id = 0, cpuid = 0, cpu_ready = 0, vm_info = zero_vm, vmm_info = zero_vmm,
    vm_args = 0, ncpus = 0, cpu_freq = 0, bus_freq = 0, msg_input = 0, msg_output = 0,
    msg_ready = 0, msg_ready_bitmap = 0\<rparr>"

text \<open>The state all servers work on: memory and the table of processors.\<close>

record sys = machine +
  cpus :: "nat \<Rightarrow> cpu_info"

definition upd_vm :: "nat \<Rightarrow> (vm_proc \<Rightarrow> vm_proc) \<Rightarrow> 'a sys_scheme \<Rightarrow> 'a sys_scheme" where
  "upd_vm i f s = s\<lparr>cpus := (cpus s)(i := vm_info_update f (cpus s i))\<rparr>"

section \<open>Layout of the structures in memory\<close>

text \<open>\<open>struct message\<close>: 64 bytes, packed.\<close>

abbreviation (input) "MSG_SIZE \<equiv> 64"

definition message_from :: "memory \<Rightarrow> addr \<Rightarrow> addr" where
  "message_from m p = load64 m p"

definition message_number :: "memory \<Rightarrow> addr \<Rightarrow> addr" where
  "message_number m p = load64 m (p + 8)"

definition message_data :: "addr \<Rightarrow> addr" where
  "message_data p = p + 16"

text \<open>\<open>struct file_descriptor\<close>: 24 bytes, read and written field by field.\<close>

record file_descriptor =
  fd_type :: cint
  fd_length :: cint
  fd_dst :: addr
  fd_offset :: addr

definition fd_addr :: "addr \<Rightarrow> nat \<Rightarrow> addr" where
  "fd_addr fds i = fds + of_nat (24 * i)"

definition get_fd :: "memory \<Rightarrow> addr \<Rightarrow> file_descriptor" where
  "get_fd m p = \<lparr>fd_type = load32 m p, fd_length = load32 m (p + 4),
     fd_dst = load64 m (p + 8), fd_offset = load64 m (p + 16)\<rparr>"

definition put_fd :: "memory \<Rightarrow> addr \<Rightarrow> file_descriptor \<Rightarrow> memory" where
  "put_fd m p d = store64 (store64 (store32 (store32 m p (fd_type d))
      (p + 4) (fd_length d)) (p + 8) (fd_dst d)) (p + 16) (fd_offset d)"

text \<open>\<open>struct header\<close> of a file of the initial RAM disk: 56 bytes, the name first.\<close>

record header =
  hdr_type :: cint
  hdr_length :: cint
  hdr_dst :: addr
  hdr_offset :: addr

abbreviation (input) "HEADER_SIZE \<equiv> 56"

definition get_header :: "memory \<Rightarrow> addr \<Rightarrow> header" where
  "get_header m p = \<lparr>hdr_type = load32 m (p + 32), hdr_length = load32 m (p + 36),
     hdr_dst = load64 m (p + 40), hdr_offset = load64 m (p + 48)\<rparr>"

text \<open>\<open>struct channel\<close>: two flags and a result of four bytes each, then the data.\<close>

definition ready_send :: "memory \<Rightarrow> addr \<Rightarrow> cint" where
  "ready_send m c = load32 m c"

definition ready_reply :: "memory \<Rightarrow> addr \<Rightarrow> cint" where
  "ready_reply m c = load32 m (c + 4)"

definition channel_result :: "memory \<Rightarrow> addr \<Rightarrow> cint" where
  "channel_result m c = load32 m (c + 8)"

definition channel_data :: "addr \<Rightarrow> addr" where
  "channel_data c = c + 12"

section \<open>Properties\<close>

lemma get_put_fd [simp]: "get_fd (put_fd m p d) p = d"
  by (simp add: get_fd_def put_fd_def layout_simps)

lemma put_fd_outside:
  "\<not> in_region p 24 x \<Longrightarrow> put_fd m p d x = m x"
  using store_le_outside [of p 24 x 0 4] by (simp add: put_fd_def store_le_outside)

lemma ALIGN_mask: "ALIGN N (2 ^ k) = (N + mask k) AND NOT (mask k)"
  by (simp add: ALIGN_def mask_eq_exp_minus_1)

text \<open>The round-up to a page: the lowest multiple of 4096 that is not below.\<close>

lemma unat_ALIGN_4KB:
  assumes "unat x + 4095 < 2 ^ 64"
  shows "unat (ALIGN x 0x1000) = 4096 * ((unat x + 4095) div 4096)"
proof -
  have "ALIGN x 0x1000 = (x + mask 12) AND NOT (mask 12)"
    using ALIGN_mask [of x 12] by simp
  moreover have "unat (x + mask 12) = unat x + 4095"
    using assms by (simp add: unat_word_ariths mask_eq_exp_minus_1)
  ultimately show ?thesis
    by (simp only: unat_and_not_mask) (simp add: minus_mod_eq_mult_div)
qed

lemma ALIGN_4KB_ge:
  assumes "unat x + 4095 < 2 ^ 64"
  shows "unat x \<le> unat (ALIGN x 0x1000)" "unat (ALIGN x 0x1000) < unat x + 4096"
    "4096 dvd unat (ALIGN x 0x1000)"
proof -
  have "4096 * ((unat x + 4095) div 4096) + (unat x + 4095) mod 4096 = unat x + 4095"
    "(unat x + 4095) mod 4096 < 4096" by simp_all
  then show "unat x \<le> unat (ALIGN x 0x1000)" "unat (ALIGN x 0x1000) < unat x + 4096"
    unfolding unat_ALIGN_4KB [OF assms] by linarith+
  show "4096 dvd unat (ALIGN x 0x1000)" by (simp add: unat_ALIGN_4KB [OF assms])
qed

end
