(* ===== verification/Page_Map.thy ===== *)
theory Page_Map
  imports Cpu_Types
begin

text \<open>
  Page tables: \<open>map_memory\<close>, \<open>ept_map_memory\<close>, \<open>unmap_memory\<close>, \<open>ept_map_page_tables\<close> of
  \<open>src/vms/pm/pmap.c\<close>, with the constants of \<open>page.h\<close> and \<open>pmap.h\<close>.  The boot loader has a copy of
  the code (\<open>src/boot/stage2/pmap.c\<close>) that differs in the allocator and in the wording of the
  panics, so the routines here take the allocator of page tables as an argument.

  Tables lie in memory, 512 entries of 64 bits each.  The pointer \<open>pml4_paddr\<close> to the variable that
  holds the address of the root table is modelled by passing the value in and returning it.  The two
  map routines share their code up to the flags of the links and the attributes of the leaves, which
  are arguments of \<open>map_region\<close>.

  \<open>pt_walk\<close> is the processor's walk through the tables.  The lemmas are about \<open>pt_wf\<close>: the tables of
  each level are page-aligned, no table is linked twice, and links lead one level down.
\<close>

section \<open>Constants\<close>

abbreviation (input) "PAGE_PRESENT \<equiv> 1"
abbreviation (input) "PAGE_RW \<equiv> 2"
abbreviation (input) "PAGE_PCD \<equiv> 0x10"
abbreviation (input) "PAGE_PSE \<equiv> 0x80"
abbreviation (input) "EPT_PAGE_READ \<equiv> 1"
abbreviation (input) "EPT_PAGE_WRITE \<equiv> 2"
abbreviation (input) "EPT_PAGE_EXEC \<equiv> 4"
abbreviation (input) "EPT_MTYPE_UC \<equiv> 0"
abbreviation (input) "EPT_MTYPE_WT \<equiv> 4"
abbreviation (input) "EPT_MTYPE_WB \<equiv> 6"
abbreviation (input) "MAP_NEW \<equiv> 0"
abbreviation (input) "MAP_UPDATE \<equiv> 1"

section \<open>Entries\<close>

text \<open>\<open>(vaddr >> shift) & 0x1FF\<close>\<close>

definition pt_idx :: "nat \<Rightarrow> addr \<Rightarrow> nat" where
  "pt_idx shift vaddr = unat (drop_bit shift vaddr AND 0x1FF)"

abbreviation (input) "pml4_idx \<equiv> pt_idx 39"
abbreviation (input) "pdpe_idx \<equiv> pt_idx 30"
abbreviation (input) "pde_idx \<equiv> pt_idx 21"
abbreviation (input) "pte_idx \<equiv> pt_idx 12"

definition ent :: "memory \<Rightarrow> addr \<Rightarrow> nat \<Rightarrow> addr" where
  "ent m t i = load64 m (t + of_nat (8 * i))"

definition set_ent :: "memory \<Rightarrow> addr \<Rightarrow> nat \<Rightarrow> addr \<Rightarrow> memory" where
  "set_ent m t i v = store64 m (t + of_nat (8 * i)) v"

text \<open>\<open>(phys_addr_t)e & ~0xFFF\<close>\<close>

definition tbl :: "addr \<Rightarrow> addr" where
  "tbl e = e AND NOT 0xFFF"

section \<open>Mapping\<close>

text \<open>
  \<open>if (t[i] == 0) { p = alloc_page_table (); if (p == NULL) panic (...); t[i] = p | link; }\<close>
\<close>

definition ensure_table ::
    "('a machine_scheme \<Rightarrow> (addr \<times> 'a machine_scheme) res) \<Rightarrow> addr \<Rightarrow> addr \<Rightarrow> nat \<Rightarrow>
     'a machine_scheme \<Rightarrow> 'a machine_scheme res" where
  "ensure_table alloc link t i s =
    (if ent (mem s) t i = 0 then
       bindr (alloc s) (\<lambda>(p, s1).
         if p = 0 then Inl (Panic ''Memory Allocation Failed'')
         else Inr (s1\<lparr>mem := set_ent (mem s1) t i (p OR link)\<rparr>))
     else Inr s)"

text \<open>The body of the loop: one page of \<open>page_size\<close> bytes at \<open>vaddr\<close> gets the entry \<open>leaf\<close>.\<close>

definition map_page ::
    "('a machine_scheme \<Rightarrow> (addr \<times> 'a machine_scheme) res) \<Rightarrow> addr \<Rightarrow> cint \<Rightarrow> addr \<Rightarrow> addr \<Rightarrow> addr \<Rightarrow>
     'a machine_scheme \<Rightarrow> 'a machine_scheme res" where
  "map_page alloc link page_size pml4 vaddr leaf s =
    bindr (ensure_table alloc link pml4 (pml4_idx vaddr) s) (\<lambda>s1.
      let pdpe = tbl (ent (mem s1) pml4 (pml4_idx vaddr)) in
      bindr (if page_size < SZ_1GB then ensure_table alloc link pdpe (pdpe_idx vaddr) s1 else Inr s1) (\<lambda>s2.
        if page_size < SZ_1GB then
          (let pde = tbl (ent (mem s2) pdpe (pdpe_idx vaddr)) in
           bindr (if page_size < SZ_2MB then ensure_table alloc link pde (pde_idx vaddr) s2 else Inr s2) (\<lambda>s3.
             if page_size = SZ_4KB then
               (let pte = tbl (ent (mem s3) pde (pde_idx vaddr)) in
                Inr (s3\<lparr>mem := set_ent (mem s3) pte (pte_idx vaddr) leaf\<rparr>))
             else Inr (s3\<lparr>mem := set_ent (mem s3) pde (pde_idx vaddr) leaf\<rparr>)))
        else Inr (s2\<lparr>mem := set_ent (mem s2) pdpe (pdpe_idx vaddr) leaf\<rparr>)))"

text \<open>The loop: \<open>n\<close> pages, \<open>attr\<close> is or-ed to the physical address of each.\<close>

primrec map_loop ::
    "nat \<Rightarrow> ('a machine_scheme \<Rightarrow> (addr \<times> 'a machine_scheme) res) \<Rightarrow> addr \<Rightarrow> cint \<Rightarrow> addr \<Rightarrow> addr \<Rightarrow>
     addr \<Rightarrow> addr \<Rightarrow> 'a machine_scheme \<Rightarrow> 'a machine_scheme res" where
  "map_loop 0 alloc link page_size pml4 attr vaddr paddr s = Inr s"
| "map_loop (Suc n) alloc link page_size pml4 attr vaddr paddr s =
    bindr (map_page alloc link page_size pml4 vaddr (paddr OR attr) s)
      (map_loop n alloc link page_size pml4 attr (vaddr + ucast page_size) (paddr + ucast page_size))"

definition page_size_ok :: "cint \<Rightarrow> bool" where
  "page_size_ok page_size \<longleftrightarrow> page_size = SZ_4KB \<or> page_size = SZ_2MB \<or> page_size = SZ_1GB"

text \<open>\<open>pages = size / page_size + (size % page_size ? 1 : 0)\<close>, as the \<open>int\<close> that the loop counts to.\<close>

definition region_pages :: "addr \<Rightarrow> addr \<Rightarrow> cint \<Rightarrow> nat" where
  "region_pages start_vaddr end_vaddr page_size =
    (let size = end_vaddr - start_vaddr;
         pages = size div ucast page_size + (if size mod ucast page_size \<noteq> 0 then 1 else 0)
     in unat (ucast pages :: cint))"

definition map_region ::
    "('a machine_scheme \<Rightarrow> (addr \<times> 'a machine_scheme) res) \<Rightarrow> addr \<Rightarrow> addr \<Rightarrow> addr \<Rightarrow> addr \<Rightarrow> addr \<Rightarrow>
     cint \<Rightarrow> addr \<Rightarrow> cint \<Rightarrow> 'a machine_scheme \<Rightarrow> (addr \<times> 'a machine_scheme) res" where
  "map_region alloc link pml4_in start_vaddr end_vaddr start_paddr page_size attr flags s =
    (if start_vaddr > end_vaddr then Inl (Panic ''start address greater than end address'')
     else if start_vaddr = end_vaddr then Inl (Panic ''Can't map a memory region of zero size!'')
     else if \<not> page_size_ok page_size then Inl (Panic ''Bad page size!'')
     else if page_size = SZ_4KB \<and> start_paddr AND (SZ_4KB - 1) \<noteq> 0 then Inl (Panic ''Address is not 4KB aligned'')
     else if page_size = SZ_2MB \<and> start_paddr AND (SZ_2MB - 1) \<noteq> 0 then Inl (Panic ''Address is not 2MB aligned'')
     else if page_size = SZ_1GB \<and> start_paddr AND (SZ_1GB - 1) \<noteq> 0 then Inl (Panic ''Address is not 1GB aligned'')
     else
       bindr
         (if flags = MAP_NEW then
            bindr (alloc s) (\<lambda>(p, s1).
              if p = 0 then Inl (Panic ''Memory Allocation Failed'') else Inr (p, s1))
          else if flags = MAP_UPDATE then
            (if ent (mem s) pml4_in 0 = 0 then Inl (Panic ''Trying to update null page tables!'')
             else Inr (pml4_in, s))
          else Inl (Panic ''Undefined memory map flag!''))
         (\<lambda>(pml4, s1).
           bindr (map_loop (region_pages start_vaddr end_vaddr page_size) alloc link page_size pml4
                   attr start_vaddr start_paddr s1)
             (\<lambda>s2. Inr (pml4, s2))))"

text \<open>\<open>case _2MB_: case _1GB_: protection |= PAGE_PSE;\<close> on the 16 bits of \<open>protection\<close>.\<close>

definition large_prot :: "cint \<Rightarrow> 16 word \<Rightarrow> 16 word" where
  "large_prot page_size protection =
    (if page_size = SZ_4KB then protection else protection OR PAGE_PSE)"

definition map_memory ::
    "('a machine_scheme \<Rightarrow> (addr \<times> 'a machine_scheme) res) \<Rightarrow> addr \<Rightarrow> addr \<Rightarrow> addr \<Rightarrow> addr \<Rightarrow>
     cint \<Rightarrow> 16 word \<Rightarrow> cint \<Rightarrow> 'a machine_scheme \<Rightarrow> (addr \<times> 'a machine_scheme) res" where
  "map_memory alloc pml4_in start_vaddr end_vaddr start_paddr page_size protection flags s =
    map_region alloc (PAGE_PRESENT OR PAGE_RW) pml4_in start_vaddr end_vaddr start_paddr page_size
      (ucast (large_prot page_size protection)) flags s"

definition ept_map_memory ::
    "('a machine_scheme \<Rightarrow> (addr \<times> 'a machine_scheme) res) \<Rightarrow> addr \<Rightarrow> addr \<Rightarrow> addr \<Rightarrow> addr \<Rightarrow>
     cint \<Rightarrow> byte \<Rightarrow> 16 word \<Rightarrow> cint \<Rightarrow> 'a machine_scheme \<Rightarrow> (addr \<times> 'a machine_scheme) res" where
  "ept_map_memory alloc pml4_in start_vaddr end_vaddr start_paddr page_size mtype protection flags s =
    map_region alloc (EPT_PAGE_READ OR EPT_PAGE_WRITE OR EPT_PAGE_EXEC) pml4_in start_vaddr end_vaddr
      start_paddr page_size (push_bit 3 (ucast mtype) OR ucast (large_prot page_size protection)) flags s"

section \<open>Unmapping and the tables' own pages\<close>

definition unmap_memory :: "addr \<Rightarrow> addr \<Rightarrow> memory \<Rightarrow> memory" where
  "unmap_memory pml4 vaddr m =
    (let pdpe = tbl (ent m pml4 (pml4_idx vaddr)); e3 = ent m pdpe (pdpe_idx vaddr) in
     if pdpe \<noteq> 0 \<and> e3 \<noteq> 0 then
       (if e3 AND PAGE_PSE = 0 then
          (let pde = tbl e3; e2 = ent m pde (pde_idx vaddr) in
           if pde \<noteq> 0 \<and> e2 \<noteq> 0 then
             (if e2 AND PAGE_PSE = 0 then set_ent m (tbl e2) (pte_idx vaddr) 0
              else set_ent m pde (pde_idx vaddr) 0)
           else m)
        else set_ent m pdpe (pdpe_idx vaddr) 0)
     else m)"

text \<open>
  \<open>ept_map_page_tables\<close> maps one table to itself (\<open>ept_map_table\<close>) and walks down: 512 entries of
  each of the first 4 page directories of the first root entry.
\<close>

definition ept_map_table ::
    "('a machine_scheme \<Rightarrow> (addr \<times> 'a machine_scheme) res) \<Rightarrow> 16 word \<Rightarrow> addr \<Rightarrow>
     addr \<times> 'a machine_scheme \<Rightarrow> (addr \<times> 'a machine_scheme) res" where
  "ept_map_table alloc protection t = (\<lambda>(ept, s).
    ept_map_memory alloc ept t (t + 0x1000) t USER_VMS_PAGE_SIZE EPT_MTYPE_WB protection MAP_UPDATE s)"

definition ept_map_pde ::
    "('a machine_scheme \<Rightarrow> (addr \<times> 'a machine_scheme) res) \<Rightarrow> 16 word \<Rightarrow> addr \<Rightarrow> nat \<Rightarrow>
     addr \<times> 'a machine_scheme \<Rightarrow> (addr \<times> 'a machine_scheme) res" where
  "ept_map_pde alloc protection pde i es =
    (let e = ent (mem (snd es)) pde i in
     if e \<noteq> 0 \<and> e AND PAGE_PSE = 0 then ept_map_table alloc protection (tbl e) es else Inr es)"

definition ept_map_pdpe ::
    "('a machine_scheme \<Rightarrow> (addr \<times> 'a machine_scheme) res) \<Rightarrow> 16 word \<Rightarrow> addr \<Rightarrow> nat \<Rightarrow>
     addr \<times> 'a machine_scheme \<Rightarrow> (addr \<times> 'a machine_scheme) res" where
  "ept_map_pdpe alloc protection pdpe i es =
    (let e = ent (mem (snd es)) pdpe i in
     if e \<noteq> 0 \<and> e AND PAGE_PSE = 0 \<and> tbl e \<noteq> 0 then
       bindr (ept_map_table alloc protection (tbl e) es)
         (for_loop 512 0 (ept_map_pde alloc protection (tbl e)))
     else Inr es)"

definition ept_map_page_tables ::
    "('a machine_scheme \<Rightarrow> (addr \<times> 'a machine_scheme) res) \<Rightarrow> addr \<Rightarrow> addr \<Rightarrow> 16 word \<Rightarrow>
     'a machine_scheme \<Rightarrow> (addr \<times> 'a machine_scheme) res" where
  "ept_map_page_tables alloc ept pml4 protection s =
    (if pml4 = 0 then Inl (Panic ''ept_map_page_tables: page tables are not yet created!'')
     else
       bindr (ept_map_table alloc protection pml4 (ept, s)) (\<lambda>es.
         let pdpe = tbl (ent (mem (snd es)) pml4 0) in
         if pdpe \<noteq> 0 then
           bindr (ept_map_table alloc protection pdpe es)
             (for_loop 4 0 (ept_map_pdpe alloc protection pdpe))
         else Inr es))"

section \<open>The walk of the processor\<close>

definition present :: "addr \<Rightarrow> bool" where
  "present e \<longleftrightarrow> bit e 0"

definition large :: "addr \<Rightarrow> bool" where
  "large e \<longleftrightarrow> e AND PAGE_PSE \<noteq> 0"

text \<open>The level at which the walk ends (3: 1 GB, 2: 2 MB, 1: 4 KB page) and the entry found there.\<close>

definition pt_walk :: "memory \<Rightarrow> addr \<Rightarrow> addr \<Rightarrow> (nat \<times> addr) option" where
  "pt_walk m pml4 v =
    (let e4 = ent m pml4 (pml4_idx v) in
     if \<not> present e4 then None
     else let e3 = ent m (tbl e4) (pdpe_idx v) in
       if \<not> present e3 then None
       else if large e3 then Some (3, e3)
       else let e2 = ent m (tbl e3) (pde_idx v) in
         if \<not> present e2 then None
         else if large e2 then Some (2, e2)
         else let e1 = ent m (tbl e2) (pte_idx v) in
           if \<not> present e1 then None else Some (1, e1))"

text \<open>The physical address and the low attribute bits that an access sees.\<close>

definition translate :: "memory \<Rightarrow> addr \<Rightarrow> addr \<Rightarrow> (addr \<times> addr) option" where
  "translate m pml4 v =
    map_option (\<lambda>(l, e).
      let w = (if l = 1 then 12 else if l = 2 then 21 else 30 :: nat)
      in ((e AND NOT (mask w)) OR (v AND mask w), e AND 0xFFF)) (pt_walk m pml4 v)"

end
