(* ===== verification/Page_Tables.thy ===== *)
theory Page_Tables
  imports Page_Map
begin

text \<open>
  Well-formed page tables and what a write to one entry does to the walk of the processor.

  Depth 0 is the root table, depth 3 the tables of 4 KB pages.  \<open>tab d\<close> is the table that the walk
  of an address reaches at depth \<open>d\<close>, \<open>seen d\<close> the entry it reads there.  In well-formed tables the
  walks of two addresses meet in a table exactly when their indices agree down to it, so a write to
  an entry changes the walk of those addresses only that share all indices up to that entry.
\<close>

section \<open>Definitions\<close>

definition page_ok :: "addr \<Rightarrow> bool" where
  "page_ok t \<longleftrightarrow> t \<noteq> 0 \<and> 4096 dvd unat t"

definition ix :: "nat \<Rightarrow> addr \<Rightarrow> nat" where
  "ix d v = pt_idx (39 - 9 * d) v"

primrec tab :: "memory \<Rightarrow> addr \<Rightarrow> addr \<Rightarrow> nat \<Rightarrow> addr option" where
  "tab m r v 0 = Some r"
| "tab m r v (Suc d) = (case tab m r v d of None \<Rightarrow> None
     | Some t \<Rightarrow> let e = ent m t (ix d v) in if e = 0 \<or> large e then None else Some (tbl e))"

definition seen :: "memory \<Rightarrow> addr \<Rightarrow> addr \<Rightarrow> nat \<Rightarrow> addr option" where
  "seen m r v d = map_option (\<lambda>t. ent m t (ix d v)) (tab m r v d)"

text \<open>\<open>L d\<close> is the set of tables of depth \<open>d\<close>.\<close>

definition pt_wf :: "memory \<Rightarrow> addr \<Rightarrow> (nat \<Rightarrow> addr set) \<Rightarrow> bool" where
  "pt_wf m r L \<longleftrightarrow> r \<in> L 0 \<and> (\<forall>d. \<forall>t \<in> L d. page_ok t) \<and>
    (\<forall>c d. c \<noteq> d \<longrightarrow> L c \<inter> L d = {}) \<and>
    (\<forall>d<3. \<forall>t \<in> L d. \<forall>i<512. ent m t i \<noteq> 0 \<longrightarrow> present (ent m t i) \<and> (d = 0 \<longrightarrow> \<not> large (ent m t i)) \<and>
       (\<not> large (ent m t i) \<longrightarrow> tbl (ent m t i) \<in> L (Suc d))) \<and>
    (\<forall>d<3. \<forall>t \<in> L d. \<forall>t' \<in> L d. \<forall>i<512. \<forall>j<512.
       ent m t i \<noteq> 0 \<and> \<not> large (ent m t i) \<and> ent m t' j \<noteq> 0 \<and> \<not> large (ent m t' j) \<and>
       tbl (ent m t i) = tbl (ent m t' j) \<longrightarrow> t = t' \<and> i = j)"

definition agree :: "nat \<Rightarrow> addr \<Rightarrow> addr \<Rightarrow> bool" where
  "agree d v w \<longleftrightarrow> (\<forall>c\<le>d. ix c v = ix c w)"

text \<open>No large page lies on the walk of \<open>v\<close> above depth \<open>D\<close>.\<close>

definition clear_path :: "nat \<Rightarrow> memory \<Rightarrow> addr \<Rightarrow> addr \<Rightarrow> bool" where
  "clear_path D m r v \<longleftrightarrow> (\<forall>c<D. \<forall>e. seen m r v c = Some e \<longrightarrow> \<not> large e)"

definition zero_page :: "memory \<Rightarrow> addr \<Rightarrow> bool" where
  "zero_page m p \<longleftrightarrow> (\<forall>x. in_region p 4096 x \<longrightarrow> m x = 0)"

definition link_ok :: "addr \<Rightarrow> bool" where
  "link_ok link \<longleftrightarrow> link = 3 \<or> link = 7"

section \<open>Entries of tables\<close>

lemma ix_less [simp]: "ix d v < 512"
proof -
  have "unat (w AND 0x1FF) \<le> unat (0x1FF :: addr)" for w :: addr
    using word_and_le1 [of w "0x1FF"] by (simp only: word_le_nat_alt and.commute)
  then show ?thesis by (simp add: ix_def pt_idx_def less_Suc_eq_le [symmetric])
qed

lemma page_no_wrap: "4096 dvd unat t \<Longrightarrow> unat t + 4096 \<le> 2 ^ 64" for t :: addr
proof -
  assume "4096 dvd unat t"
  then obtain k where k: "unat t = 4096 * k" by (auto elim: dvdE)
  moreover have "unat t < 2 ^ 64" using unsigned_less [of t, where ?'a = nat] by simp
  ultimately show ?thesis by simp
qed

lemma ent_addr:
  fixes t :: addr
  assumes "4096 dvd unat t" "i < 512"
  shows "unat (t + of_nat (8 * i)) = unat t + 8 * i"
proof -
  have "unat (of_nat (8 * i) :: addr) = 8 * i" using assms(2) by (intro unat_of_nat_small) simp
  then show ?thesis using page_no_wrap [OF assms(1)] assms(2) by (simp add: unat_word_ariths)
qed

lemma page_apart:
  fixes t u :: addr
  assumes "4096 dvd unat t" "4096 dvd unat u" "t \<noteq> u"
  shows "unat t + 4096 \<le> unat u \<or> unat u + 4096 \<le> unat t"
proof -
  obtain a b where "unat t = 4096 * a" "unat u = 4096 * b" using assms(1,2) by (auto elim!: dvdE)
  moreover from this have "a \<noteq> b" using assms(3) by (metis word_unat_eq_iff)
  ultimately show ?thesis by (cases "a < b") auto
qed

lemma ent_set_ent:
  assumes "4096 dvd unat t" "4096 dvd unat u" "i < 512" "j < 512"
  shows "ent (set_ent m t i v) u j = (if t = u \<and> i = j then v else ent m u j)"
proof (cases "t = u \<and> i = j")
  case True
  then show ?thesis by (simp add: ent_def set_ent_def load_store_same)
next
  case False
  have a: "unat (t + of_nat (8 * i)) = unat t + 8 * i" "unat (u + of_nat (8 * j)) = unat u + 8 * j"
    by (rule ent_addr [OF assms(1,3)], rule ent_addr [OF assms(2,4)])
  have "unat u + 8 * j + 8 \<le> unat t + 8 * i \<or> unat t + 8 * i + 8 \<le> unat u + 8 * j"
  proof (cases "t = u")
    case True
    then show ?thesis using False by (cases "i < j") auto
  next
    case neq: False
    from page_apart [OF assms(1,2) neq] show ?thesis using assms(3,4) by auto
  qed
  moreover have "unat t + 8 * i + 8 \<le> 2 ^ 64" "unat u + 8 * j + 8 \<le> 2 ^ 64"
    using page_no_wrap [OF assms(1)] page_no_wrap [OF assms(2)] assms(3,4) by auto
  ultimately have "disjoint_regions (u + of_nat (8 * j)) 8 (t + of_nat (8 * i)) 8"
    by (intro disjoint_regionsI; unfold a; blast)
  then have "ent (set_ent m t i v) u j = ent m u j"
    unfolding ent_def set_ent_def by (rule load_store_other) simp_all
  then show ?thesis using False by auto
qed

lemma ent_off: "i < 512 \<Longrightarrow> unat (of_nat (8 * i) :: addr) = 8 * i"
  by (rule unat_of_nat_small) simp

lemma ent_in_page:
  fixes t :: addr
  assumes "i < 512" "in_region (t + of_nat (8 * i)) 8 x"
  shows "in_region t 4096 x"
proof (rule in_region_sub [OF assms(2)])
  show "unat (of_nat (8 * i) :: addr) + 8 \<le> 4096" using ent_off [OF assms(1)] assms(1) by linarith
qed

lemma ent_cong:
  assumes "\<And>x. in_region t 4096 x \<Longrightarrow> m x = m' x" "i < 512"
  shows "ent m t i = ent m' t i"
  unfolding ent_def using assms ent_in_page by (intro load_cong) auto

lemma ent_zero_page: "zero_page m p \<Longrightarrow> i < 512 \<Longrightarrow> ent m p i = 0"
  using ent_cong [of p m "\<lambda>_. 0" i] by (simp add: zero_page_def ent_def load_zero)

lemma set_ent_outside:
  assumes "\<not> in_region t 4096 x" "i < 512"
  shows "set_ent m t i v x = m x"
proof -
  have "unat (of_nat (8 * i) :: addr) = 8 * i" using assms(2) by (intro unat_of_nat_small) simp
  then show ?thesis
    unfolding set_ent_def using assms by (intro store_le_outside [of t 4096 x]) simp_all
qed

lemma tbl_aligned: "4096 dvd unat (tbl e)"
proof -
  have "tbl e AND 0xFFF = 0" unfolding tbl_def by (rule bit_word_eqI) (auto simp: bit_simps)
  then show ?thesis using aligned_iff_dvd [of "tbl e" 12] by (simp add: mask_eq_exp_minus_1)
qed

lemma page_bits: "4096 dvd unat p \<Longrightarrow> i < 12 \<Longrightarrow> \<not> bit p i" for p :: addr
proof -
  assume "4096 dvd unat p" "i < 12"
  then have "p AND mask 12 = 0" using aligned_iff_dvd [of p 12] by simp
  then have "\<not> bit (p AND mask 12) i" by simp
  then show "\<not> bit p i" using \<open>i < 12\<close> by (simp add: bit_and_iff bit_mask_iff possible_bit_word)
qed

lemma page_mask:
  fixes p :: addr
  assumes "4096 dvd unat p"
  shows "p AND 0xFFF = 0" "p AND NOT 0xFFF = p" "p AND 0x80 = 0" "p AND 1 = 0"
proof -
  show m: "p AND 0xFFF = 0" using assms aligned_iff_dvd [of p 12] by (simp add: mask_eq_exp_minus_1)
  have "p = (p AND 0xFFF) OR (p AND NOT 0xFFF)"
    by (simp only: bit.conj_disj_distrib [symmetric] bit.disj_cancel_right bit.conj_one_right)
  then show "p AND NOT 0xFFF = p" using m by simp
  have "p AND 0x80 = (p AND 0xFFF) AND 0x80" by (simp only: and.assoc) simp
  then show "p AND 0x80 = 0" by (simp add: m)
  have "p AND 1 = (p AND 0xFFF) AND 1" by (simp only: and.assoc) simp
  then show "p AND 1 = 0" by (simp add: m)
qed

lemma tbl_link: "4096 dvd unat p \<Longrightarrow> link_ok link \<Longrightarrow> tbl (p OR link) = p"
  unfolding tbl_def link_ok_def by (elim disjE) (simp_all add: bit.conj_disj_distrib2 page_mask page_mask(2) [simplified])

lemma present_link: "link_ok link \<Longrightarrow> present (p OR link)"
  by (auto simp: present_def link_ok_def bit_or_iff)

lemma large_link: "4096 dvd unat p \<Longrightarrow> link_ok link \<Longrightarrow> \<not> large (p OR link)"
  unfolding large_def link_ok_def by (elim disjE) (simp_all add: bit.conj_disj_distrib2 page_mask page_mask(2) [simplified])

lemma link_nonzero: "link_ok link \<Longrightarrow> p OR link \<noteq> 0"
  using present_link [of link p] by (auto simp: present_def)

section \<open>Walks\<close>

lemma pt_wfD:
  assumes "pt_wf m r L"
  shows "r \<in> L 0" "\<And>d t. t \<in> L d \<Longrightarrow> page_ok t" "\<And>c d t. t \<in> L c \<Longrightarrow> t \<in> L d \<Longrightarrow> c = d"
    "\<And>d t i. d < 3 \<Longrightarrow> t \<in> L d \<Longrightarrow> i < 512 \<Longrightarrow> ent m t i \<noteq> 0 \<Longrightarrow> present (ent m t i)"
    "\<And>t i. t \<in> L 0 \<Longrightarrow> i < 512 \<Longrightarrow> ent m t i \<noteq> 0 \<Longrightarrow> \<not> large (ent m t i)"
    "\<And>d t i. d < 3 \<Longrightarrow> t \<in> L d \<Longrightarrow> i < 512 \<Longrightarrow> ent m t i \<noteq> 0 \<Longrightarrow> \<not> large (ent m t i) \<Longrightarrow>
       tbl (ent m t i) \<in> L (Suc d)"
    "\<And>d t i t' j. d < 3 \<Longrightarrow> t \<in> L d \<Longrightarrow> t' \<in> L d \<Longrightarrow> i < 512 \<Longrightarrow> j < 512 \<Longrightarrow> ent m t i \<noteq> 0 \<Longrightarrow>
       \<not> large (ent m t i) \<Longrightarrow> ent m t' j \<noteq> 0 \<Longrightarrow> \<not> large (ent m t' j) \<Longrightarrow>
       tbl (ent m t i) = tbl (ent m t' j) \<Longrightarrow> t = t' \<and> i = j"
proof -
  show "r \<in> L 0" using assms unfolding pt_wf_def by (elim conjE)
  show "page_ok t" if "t \<in> L d" for d t using assms that unfolding pt_wf_def by blast
  show "c = d" if "t \<in> L c" "t \<in> L d" for c d t using assms that unfolding pt_wf_def by (elim conjE) blast
  note e = assms [unfolded pt_wf_def, THEN conjunct2, THEN conjunct2, THEN conjunct2, THEN conjunct1]
  show "present (ent m t i)" if "d < 3" "t \<in> L d" "i < 512" "ent m t i \<noteq> 0" for d t i
    using e that by blast
  show "\<not> large (ent m t i)" if "t \<in> L 0" "i < 512" "ent m t i \<noteq> 0" for t i
    using e [rule_format, of 0 t i] that by simp
  show "tbl (ent m t i) \<in> L (Suc d)"
    if "d < 3" "t \<in> L d" "i < 512" "ent m t i \<noteq> 0" "\<not> large (ent m t i)" for d t i
    using e that by blast
  note f = assms [unfolded pt_wf_def, THEN conjunct2, THEN conjunct2, THEN conjunct2, THEN conjunct2]
  show "t = t' \<and> i = j" if "d < 3" "t \<in> L d" "t' \<in> L d" "i < 512" "j < 512" "ent m t i \<noteq> 0"
    "\<not> large (ent m t i)" "ent m t' j \<noteq> 0" "\<not> large (ent m t' j)" "tbl (ent m t i) = tbl (ent m t' j)"
    for d t i t' j
    using f that by blast
qed

lemma tab_SucD:
  "tab m r v (Suc d) = Some t \<Longrightarrow> \<exists>u. tab m r v d = Some u \<and> ent m u (ix d v) \<noteq> 0 \<and>
     \<not> large (ent m u (ix d v)) \<and> t = tbl (ent m u (ix d v))"
  by (auto simp: Let_def split: option.splits if_splits)

lemma tab_in:
  assumes "pt_wf m r L"
  shows "tab m r v d = Some t \<Longrightarrow> d \<le> 3 \<Longrightarrow> t \<in> L d"
proof (induction d arbitrary: t)
  case 0
  then show ?case using pt_wfD(1) [OF assms] by simp
next
  case (Suc d)
  from tab_SucD [OF Suc.prems(1)] obtain u where u: "tab m r v d = Some u" "ent m u (ix d v) \<noteq> 0"
    "\<not> large (ent m u (ix d v))" "t = tbl (ent m u (ix d v))" by blast
  then show ?case using Suc.IH [OF u(1)] Suc.prems(2) pt_wfD(6) [OF assms, of d u "ix d v"] by simp
qed

lemma tab_inj:
  assumes "pt_wf m r L"
  shows "tab m r v d = Some t \<Longrightarrow> tab m r w d = Some t \<Longrightarrow> d \<le> 3 \<Longrightarrow> \<forall>c<d. ix c v = ix c w"
proof (induction d arbitrary: t)
  case (Suc d)
  from tab_SucD [OF Suc.prems(1)] obtain u where u: "tab m r v d = Some u" "ent m u (ix d v) \<noteq> 0"
    "\<not> large (ent m u (ix d v))" "t = tbl (ent m u (ix d v))" by blast
  from tab_SucD [OF Suc.prems(2)] obtain u' where u': "tab m r w d = Some u'" "ent m u' (ix d w) \<noteq> 0"
    "\<not> large (ent m u' (ix d w))" "t = tbl (ent m u' (ix d w))" by blast
  have d: "d < 3" using Suc.prems(3) by simp
  have "u \<in> L d" "u' \<in> L d" using tab_in [OF assms] u(1) u'(1) d by auto
  then have "u = u' \<and> ix d v = ix d w"
    using pt_wfD(7) [OF assms d, of u u' "ix d v" "ix d w"] u u' by simp
  then show ?case using Suc.IH [of u] u(1) u'(1) d by (auto simp: less_Suc_eq)
qed simp

lemma tab_agree: "\<forall>c<d. ix c v = ix c w \<Longrightarrow> tab m r v d = tab m r w d"
proof (induction d)
  case (Suc d)
  then have "ix d v = ix d w" "tab m r v d = tab m r w d" by simp_all
  then show ?case by (simp split: option.split)
qed simp

lemma tab_eq_iff:
  assumes "pt_wf m r L" "tab m r v d = Some t" "d \<le> 3"
  shows "tab m r w d = Some t \<and> ix d w = ix d v \<longleftrightarrow> agree d v w"
proof
  assume "tab m r w d = Some t \<and> ix d w = ix d v"
  then show "agree d v w"
    using tab_inj [OF assms(1,2) _ assms(3), of w] by (auto simp: agree_def le_less)
next
  assume a: "agree d v w"
  then have "tab m r v d = tab m r w d" by (intro tab_agree) (simp add: agree_def)
  then show "tab m r w d = Some t \<and> ix d w = ix d v" using a assms(2) by (simp add: agree_def)
qed


text \<open>A write to the entry of a table leaves every walk alone that does not read that entry.\<close>

lemma ent_other:
  assumes "pt_wf m r L" "t \<in> L d" "u \<in> L c" "i < 512" "j < 512" "\<not> (t = u \<and> i = j)"
  shows "ent (set_ent m t i w) u j = ent m u j"
  using assms pt_wfD(2) [OF assms(1)] by (subst ent_set_ent) (auto simp: page_ok_def)

lemma ent_same:
  assumes "pt_wf m r L" "t \<in> L d" "i < 512"
  shows "ent (set_ent m t i w) t i = w"
  using assms pt_wfD(2) [OF assms(1)] by (subst ent_set_ent) (auto simp: page_ok_def)

lemma tab_miss:
  assumes "pt_wf m r L" "t \<in> L d" "i < 512"
  shows "c \<le> 3 \<Longrightarrow> c \<le> d \<or> \<not> (tab m r v d = Some t \<and> ix d v = i) \<Longrightarrow>
    tab (set_ent m t i w) r v c = tab m r v c"
proof (induction c)
  case (Suc c)
  have IH: "tab (set_ent m t i w) r v c = tab m r v c" using Suc by auto
  show ?case
  proof (cases "tab m r v c")
    case (Some u)
    have "u \<in> L c" using tab_in [OF assms(1) Some] Suc.prems(1) by simp
    moreover have "\<not> (t = u \<and> i = ix c v)"
    proof
      assume a: "t = u \<and> i = ix c v"
      then have "c = d" using pt_wfD(3) [OF assms(1)] assms(2) \<open>u \<in> L c\<close> by blast
      then show False using a Some Suc.prems(2) by auto
    qed
    ultimately have "ent (set_ent m t i w) u (ix c v) = ent m u (ix c v)"
      using assms by (intro ent_other) auto
    then show ?thesis using IH Some by simp
  qed (simp add: IH)
qed simp

lemma seen_set_ent:
  assumes "pt_wf m r L" "t \<in> L d" "i < 512" "c \<le> 3"
    and "c \<le> d \<or> \<not> (tab m r v d = Some t \<and> ix d v = i)"
  shows "seen (set_ent m t i w) r v c =
    (if c = d \<and> tab m r v d = Some t \<and> ix d v = i then Some w else seen m r v c)"
proof (cases "tab m r v c")
  case None
  then show ?thesis using tab_miss [OF assms] by (auto simp: seen_def)
next
  case (Some u)
  have u: "u \<in> L c" using tab_in [OF assms(1) Some assms(4)] .
  show ?thesis
  proof (cases "t = u \<and> i = ix c v")
    case True
    then have "c = d" using pt_wfD(3) [OF assms(1)] assms(2) u by blast
    then show ?thesis using True Some tab_miss [OF assms] ent_same [OF assms(1-3)] by (simp add: seen_def)
  next
    case False
    then have "ent (set_ent m t i w) u (ix c v) = ent m u (ix c v)"
      using assms u by (intro ent_other) auto
    moreover have "\<not> (c = d \<and> tab m r v d = Some t \<and> ix d v = i)" using False Some by auto
    ultimately show ?thesis using Some tab_miss [OF assms] by (auto simp: seen_def)
  qed
qed

lemma walk_seen:
  assumes "pt_wf m r L"
  shows "pt_walk m r v =
    (case seen m r v 1 of None \<Rightarrow> None
     | Some e3 \<Rightarrow> if e3 = 0 then None else if large e3 then Some (3, e3)
       else case seen m r v 2 of None \<Rightarrow> None
       | Some e2 \<Rightarrow> if e2 = 0 then None else if large e2 then Some (2, e2)
         else case seen m r v 3 of None \<Rightarrow> None
         | Some e1 \<Rightarrow> if present e1 then Some (1, e1) else None)"
proof -
  define e4 where "e4 = ent m r (ix 0 v)"
  define e3 where "e3 = ent m (tbl e4) (ix (Suc 0) v)"
  define e2 where "e2 = ent m (tbl e3) (ix 2 v)"
  have n0: "\<not> present 0" by (simp add: present_def)
  have L: "r \<in> L 0" "e4 \<noteq> 0 \<Longrightarrow> \<not> large e4" "e4 \<noteq> 0 \<Longrightarrow> present e4"
    using pt_wfD(1,5) [OF assms] pt_wfD(4) [OF assms, of 0 r] by (auto simp: e4_def)
  have 1: "tbl e4 \<in> L 1" "e3 \<noteq> 0 \<Longrightarrow> present e3" if "e4 \<noteq> 0"
    using that L pt_wfD(6) [OF assms, of 0 r "ix 0 v"] pt_wfD(4) [OF assms, of 1 "tbl e4" "ix 1 v"]
    by (auto simp: e4_def e3_def)
  have 2: "e2 \<noteq> 0 \<Longrightarrow> present e2" if "e4 \<noteq> 0" "e3 \<noteq> 0" "\<not> large e3"
    using that 1 pt_wfD(6) [OF assms, of 1 "tbl e4" "ix 1 v"] pt_wfD(4) [OF assms, of 2 "tbl e3" "ix 2 v"]
    by (auto simp: e3_def e2_def numeral_2_eq_2)
  have t: "tab m r v 1 = (if e4 = 0 then None else Some (tbl e4))"
    using L(2) by (auto simp: e4_def Let_def)
  have t2: "tab m r v 2 = (if e4 = 0 \<or> e3 = 0 \<or> large e3 then None else Some (tbl e3))"
    using t by (auto simp: e3_def numeral_2_eq_2 Let_def)
  have t3: "tab m r v 3 = (if e4 = 0 \<or> e3 = 0 \<or> large e3 \<or> e2 = 0 \<or> large e2 then None else Some (tbl e2))"
    using t2 by (auto simp: e2_def numeral_3_eq_3 numeral_2_eq_2 Let_def)
  have w: "pt_walk m r v = (if \<not> present e4 then None else if \<not> present e3 then None
      else if large e3 then Some (3, e3) else if \<not> present e2 then None else if large e2 then Some (2, e2)
      else if \<not> present (ent m (tbl e2) (ix 3 v)) then None else Some (1, ent m (tbl e2) (ix 3 v)))"
    by (simp add: pt_walk_def Let_def e4_def e3_def e2_def ix_def)
  show ?thesis
    unfolding w seen_def t t2 t3 using L 1 2 n0
    by (cases "e4 = 0"; cases "e3 = 0"; cases "large e3"; cases "e2 = 0"; cases "large e2")
      (auto simp: e3_def [symmetric] e2_def [symmetric])
qed


section \<open>Writes that keep the tables well formed\<close>

lemma pt_wf_leaf:
  assumes wf: "pt_wf m r L" and t: "t \<in> L d" and i: "i < 512"
    and w: "w = 0 \<or> d \<ge> 3 \<or> (d \<noteq> 0 \<and> large w \<and> present w)"
  shows "pt_wf (set_ent m t i w) r L"
proof -
  have e: "ent (set_ent m t i w) u j = (if t = u \<and> i = j then w else ent m u j)"
    if "u \<in> L c" "j < 512" for u c j
    using that ent_other [OF wf t that(1) i that(2)] ent_same [OF wf t i] by auto
  have d: "c = d" if "t \<in> L c" for c using pt_wfD(3) [OF wf that t] .
  show ?thesis
    unfolding pt_wf_def
  proof (intro conjI allI impI ballI)
    fix c u j
    assume a: "c < 3" "u \<in> L c" "j < 512" "ent (set_ent m t i w) u j \<noteq> 0"
    show "present (ent (set_ent m t i w) u j)"
      using a w d pt_wfD(4) [OF wf a(1-3)] by (auto simp: e [OF a(2,3)] split: if_splits)
    show "\<not> large (ent (set_ent m t i w) u j)" if "c = 0"
      using a that w d pt_wfD(5) [OF wf, of u j] by (auto simp: e [OF a(2,3)] split: if_splits)
    show "tbl (ent (set_ent m t i w) u j) \<in> L (Suc c)" if "\<not> large (ent (set_ent m t i w) u j)"
      using a that w d pt_wfD(6) [OF wf a(1-3)] by (auto simp: e [OF a(2,3)] split: if_splits)
  next
    fix c j k :: nat and u u' :: addr
    assume a: "c < 3" "u \<in> L c" "u' \<in> L c" "j < 512" "k < 512"
    assume b: "ent (set_ent m t i w) u j \<noteq> 0 \<and> \<not> large (ent (set_ent m t i w) u j) \<and>
      ent (set_ent m t i w) u' k \<noteq> 0 \<and> \<not> large (ent (set_ent m t i w) u' k) \<and>
      tbl (ent (set_ent m t i w) u j) = tbl (ent (set_ent m t i w) u' k)"
    then have "\<not> (t = u \<and> i = j)" "\<not> (t = u' \<and> i = k)"
      using w d a by (auto simp: e [OF a(2,4)] e [OF a(3,5)] split: if_splits)
    then have "u = u' \<and> j = k"
      using b by (intro pt_wfD(7) [OF wf a]) (auto simp: e [OF a(2,4)] e [OF a(3,5)])
    then show "u = u'" "j = k" by auto
  qed (use pt_wfD(1-3) [OF wf] in auto)
qed

lemma pt_wf_link:
  assumes wf: "pt_wf m r L" and t: "t \<in> L d" and i: "i < 512" and d: "d < 3"
    and p: "\<And>c. p \<notin> L c" "page_ok p" "zero_page m p" and l: "link_ok link"
  shows "pt_wf (set_ent m t i (p OR link)) r (L(Suc d := insert p (L (Suc d))))" (is "pt_wf ?m r ?L")
proof -
  have p4: "4096 dvd unat p" using p(2) by (simp add: page_ok_def)
  have e: "ent ?m u j = (if t = u \<and> i = j then p OR link else ent m u j)"
    if "u \<in> ?L c" "j < 512" for u c j
  proof (cases "u = p")
    case True
    then have "t \<noteq> u" using t p(1) by auto
    moreover have "4096 dvd unat t" using pt_wfD(2) [OF wf t] by (simp add: page_ok_def)
    ultimately show ?thesis using True p4 that(2) i by (subst ent_set_ent) auto
  next
    case False
    then have "u \<in> L c" using that(1) by (auto split: if_splits)
    then show ?thesis using that ent_other [OF wf t _ i that(2)] ent_same [OF wf t i] by auto
  qed
  have z: "ent m p j = 0" if "j < 512" for j using ent_zero_page [OF p(3) that] .
  have new: "tbl (p OR link) = p" "\<not> large (p OR link)" "present (p OR link)"
    using tbl_link [OF p4 l] large_link [OF p4 l] present_link [OF l] by auto
  have old: "u \<in> L c" if "u \<in> ?L c" "u \<noteq> p" for u c using that by (auto split: if_splits)
  have dt: "c = d" if "t \<in> ?L c" for c
    using pt_wfD(3) [OF wf old [OF that] t] p(1) [of d] t by blast
  have sub: "u \<in> ?L c" if "u \<in> L c" for u c using that by auto
  have notp: "tbl (ent m u j) \<noteq> p" if "u \<in> L c" "c < 3" "j < 512" "ent m u j \<noteq> 0" "\<not> large (ent m u j)" for u c j
    using pt_wfD(6) [OF wf that(2,1,3-5)] p(1) by metis
  show ?thesis
    unfolding pt_wf_def
  proof (intro conjI allI impI ballI)
    show "r \<in> ?L 0" using pt_wfD(1) [OF wf] by simp
    show "page_ok u" if "u \<in> ?L c" for u c using that p(2) pt_wfD(2) [OF wf] by (auto split: if_splits)
    show "?L c \<inter> ?L c' = {}" if "c \<noteq> c'" for c c'
      using that p(1) pt_wfD(3) [OF wf] by (auto split: if_splits)
  next
    fix c u j
    assume a: "c < 3" "u \<in> ?L c" "j < 512" "ent ?m u j \<noteq> 0"
    have o: "u \<in> L c" "ent ?m u j = ent m u j" "ent m u j \<noteq> 0" if "\<not> (t = u \<and> i = j)"
      using that a(4) z [OF a(3)] old [OF a(2)] e [OF a(2,3)] by (cases "u = p"; auto)+
    have n: "ent ?m u j = p OR link" "c = d" if "t = u \<and> i = j"
      using that e [OF a(2,3)] dt a(2) by auto
    show "present (ent ?m u j)"
      using o n new pt_wfD(4) [OF wf a(1) _ a(3), of u] by (cases "t = u \<and> i = j") simp_all
    show "\<not> large (ent ?m u j)" if "c = 0"
      using o n that new pt_wfD(5) [OF wf _ a(3), of u] by (cases "t = u \<and> i = j") simp_all
    show "tbl (ent ?m u j) \<in> ?L (Suc c)" if "\<not> large (ent ?m u j)"
      using o n that new pt_wfD(6) [OF wf a(1) _ a(3), of u] by (cases "t = u \<and> i = j") auto
  next
    fix c j k :: nat and u u' :: addr
    assume a: "c < 3" "u \<in> ?L c" "u' \<in> ?L c" "j < 512" "k < 512"
    assume b: "ent ?m u j \<noteq> 0 \<and> \<not> large (ent ?m u j) \<and>
      ent ?m u' k \<noteq> 0 \<and> \<not> large (ent ?m u' k) \<and> tbl (ent ?m u j) = tbl (ent ?m u' k)"
    have c1: "u \<in> L c" "ent m u j \<noteq> 0" "\<not> large (ent m u j)" if "\<not> (t = u \<and> i = j)"
      using that b z [OF a(4)] old [OF a(2)] e [OF a(2,4)] by (cases "u = p"; auto)+
    have c2: "u' \<in> L c" "ent m u' k \<noteq> 0" "\<not> large (ent m u' k)" if "\<not> (t = u' \<and> i = k)"
      using that b z [OF a(5)] old [OF a(3)] e [OF a(3,5)] by (cases "u' = p"; auto)+
    have "u = u' \<and> j = k"
    proof (cases "t = u \<and> i = j"; cases "t = u' \<and> i = k")
      assume n: "t = u \<and> i = j" "\<not> (t = u' \<and> i = k)"
      then show ?thesis using b notp [OF c2(1) a(1,5) c2(2,3)] new e [OF a(2,4)] e [OF a(3,5)] by (auto split: if_splits)
    next
      assume n: "\<not> (t = u \<and> i = j)" "t = u' \<and> i = k"
      then show ?thesis using b notp [OF c1(1) a(1,4) c1(2,3)] new e [OF a(2,4)] e [OF a(3,5)] by (auto split: if_splits)
    next
      assume n: "\<not> (t = u \<and> i = j)" "\<not> (t = u' \<and> i = k)"
      then show ?thesis using b e [OF a(2,4)] e [OF a(3,5)]
        by (intro pt_wfD(7) [OF wf a(1) c1(1) c2(1) a(4,5)]) (auto simp del: fun_upd_apply)
    qed auto
    then show "u = u'" "j = k" by auto
  qed
qed


section \<open>What the writes do to the walks\<close>

lemma pt_wf_cong:
  assumes wf: "pt_wf m r L" and m: "\<And>d t x. t \<in> L d \<Longrightarrow> in_region t 4096 x \<Longrightarrow> m' x = m x"
  shows "pt_wf m' r L" "tab m' r v c = tab m r v c \<or> c > 3" "seen m' r v c = seen m r v c \<or> c > 3"
    "pt_walk m' r v = pt_walk m r v"
proof -
  have e: "ent m' t i = ent m t i" if "t \<in> L d" "i < 512" for t d i
    by (rule ent_cong) (use m that in auto)
  show wf': "pt_wf m' r L" using wf unfolding pt_wf_def by (simp add: e cong: ball_cong) blast
  have t: "c \<le> 3 \<Longrightarrow> tab m' r v c = tab m r v c" for c
  proof (induction c)
    case (Suc c)
    have "ent m' t (ix c v) = ent m t (ix c v)" if "tab m r v c = Some t" for t
      using tab_in [OF wf that] Suc.prems by (intro e) auto
    then show ?case using Suc by (auto split: option.splits)
  qed simp
  then show "tab m' r v c = tab m r v c \<or> c > 3" by (cases "c \<le> 3") auto
  have s: "c \<le> 3 \<Longrightarrow> seen m' r v c = seen m r v c" for c
    using t [of c] tab_in [OF wf, of v c] by (auto simp: seen_def e split: option.splits intro!: option.map_cong)
  then show "seen m' r v c = seen m r v c \<or> c > 3" by (cases "c \<le> 3") auto
  show "pt_walk m' r v = pt_walk m r v"
    unfolding walk_seen [OF wf] walk_seen [OF wf'] by (simp add: s split: option.split)
qed

lemma seen_Suc:
  "seen m r v (Suc c) = (case seen m r v c of None \<Rightarrow> None
     | Some e \<Rightarrow> if e = 0 \<or> large e then None else Some (ent m (tbl e) (ix (Suc c) v)))"
  by (auto simp: seen_def Let_def split: option.splits)

lemma seen_stop:
  "seen m r v c = Some e \<Longrightarrow> e = 0 \<or> large e \<Longrightarrow> c < c' \<Longrightarrow> seen m r v c' = None"
  by (induction c') (auto simp: seen_Suc less_Suc_eq)

text \<open>Hanging an empty table into a free entry changes no walk.\<close>

lemma link_walk:
  assumes wf: "pt_wf m r L" and t: "tab m r v d = Some t" and d: "d < 3"
    and e: "ent m t (ix d v) = 0"
    and p: "\<And>c. p \<notin> L c" "page_ok p" "zero_page m p" and l: "link_ok link"
  defines "m' \<equiv> set_ent m t (ix d v) (p OR link)"
  shows "tab m' r v (Suc d) = Some p" "tab m' r v d = Some t"
    "pt_walk m' r w = pt_walk m r w" "clear_path D m r w \<Longrightarrow> D \<le> 3 \<Longrightarrow> clear_path D m' r w"
proof -
  have tL: "t \<in> L d" using tab_in [OF wf t] d by simp
  have p4: "4096 dvd unat p" using p(2) by (simp add: page_ok_def)
  have wf': "pt_wf m' r (L(Suc d := insert p (L (Suc d))))"
    unfolding m'_def by (rule pt_wf_link [OF wf tL ix_less d p l])
  have new: "tbl (p OR link) = p" "\<not> large (p OR link)" "p OR link \<noteq> 0"
    using tbl_link [OF p4 l] large_link [OF p4 l] link_nonzero [OF l] by auto
  show td: "tab m' r v d = Some t" using tab_miss [OF wf tL ix_less, of d] t d by (simp add: m'_def)
  have "ent m' t (ix d v) = p OR link" using ent_same [OF wf tL ix_less] by (simp add: m'_def)
  then show "tab m' r v (Suc d) = Some p" using td new by simp
  have n0: "\<not> present 0" by (simp add: present_def)
  have pz: "ent m' p j = 0" if "j < 512" for j
  proof -
    have "t \<noteq> p" using tL p(1) by auto
    moreover have "4096 dvd unat t" using pt_wfD(2) [OF wf tL] by (simp add: page_ok_def)
    ultimately show ?thesis using ent_zero_page [OF p(3) that] p4 that by (simp add: m'_def ent_set_ent)
  qed
  have miss: "seen m' r w c = seen m r w c" if "\<not> (tab m r w d = Some t \<and> ix d w = ix d v)" "c \<le> 3" for c w
    using seen_set_ent [OF wf tL ix_less, of c w] that by (auto simp: m'_def)
  have hit: "seen m' r w c = (if c < d then seen m r w c else if c = d then Some (p OR link)
      else if c = Suc d then Some 0 else None) \<and>
      seen m r w c = (if c < d then seen m r w c else if c = d then Some 0 else None)"
    if h: "tab m r w d = Some t \<and> ix d w = ix d v" and "c \<le> 3" for c w
  proof -
    have 1: "seen m' r w d = Some (p OR link)"
      using seen_set_ent [OF wf tL ix_less, of d w] h d by (simp add: m'_def)
    then have 2: "seen m' r w (Suc d) = Some 0" using new pz by (simp add: seen_Suc)
    have 3: "seen m r w d = Some 0" using h e by (simp add: seen_def)
    show ?thesis
      using 1 2 3 seen_stop [OF 2, of c] seen_stop [OF 3, of c]
        seen_set_ent [OF wf tL ix_less, of c w] h that d by (auto simp: m'_def)
  qed
  show "pt_walk m' r w = pt_walk m r w"
  proof (cases "tab m r w d = Some t \<and> ix d w = ix d v")
    case True
    have h: "seen m' r w c = (if c < d then seen m r w c else if c = d then Some (p OR link)
      else if c = Suc d then Some 0 else None)" "\<not> c < d \<Longrightarrow> seen m r w c = (if c = d then Some 0 else None)"
      if "c \<le> 3" for c using hit [OF True that] by auto
    have "d = 0 \<or> d = 1 \<or> d = 2" using d by auto
    then show ?thesis unfolding walk_seen [OF wf] walk_seen [OF wf'] using h [of 1] h [of 2] h [of 3] new n0
      by (elim disjE) (auto split: option.split)
  next
    case False
    then show ?thesis unfolding walk_seen [OF wf] walk_seen [OF wf']
      using miss [OF False, of 1] miss [OF False, of 2] miss [OF False, of 3] by (simp split: option.split)
  qed
  show "clear_path D m' r w" if c: "clear_path D m r w" "D \<le> 3"
    unfolding clear_path_def
  proof (intro allI impI)
    fix k x assume k: "k < D" "seen m' r w k = Some x"
    show "\<not> large x"
    proof (cases "tab m r w d = Some t \<and> ix d w = ix d v")
      case True
      then show ?thesis using hit [OF True, of k] k c new by (auto simp: clear_path_def large_def split: if_splits)
    next
      case False
      then show ?thesis using miss [OF False, of k] k c by (auto simp: clear_path_def)
    qed
  qed
qed


text \<open>Writing a page entry changes the walks of exactly the addresses of that page.\<close>

lemma leaf_walk:
  assumes wf: "pt_wf m r L" and t: "tab m r v d = Some t" and d: "d = 1 \<or> d = 2 \<or> d = 3"
    and e: "present e" "d = 3 \<or> large e"
  defines "m' \<equiv> set_ent m t (ix d v) e"
  shows "pt_wf m' r L" "agree d v w \<Longrightarrow> pt_walk m' r w = Some (4 - d, e)"
    "\<not> agree d v w \<Longrightarrow> pt_walk m' r w = pt_walk m r w"
    "clear_path D m r w \<Longrightarrow> D \<le> d \<Longrightarrow> clear_path D m' r w"
proof -
  have tL: "t \<in> L d" using tab_in [OF wf t] d by auto
  have d3: "d \<le> 3" using d by auto
  show wf': "pt_wf m' r L" unfolding m'_def using e d by (intro pt_wf_leaf [OF wf tL ix_less]) auto
  note iff = tab_eq_iff [OF wf t d3]
  have below: "seen m' r w c = (if c = d \<and> agree d v w then Some e else seen m r w c)" if "c \<le> d" for c w
    using seen_set_ent [OF wf tL ix_less, of c w] that d3 iff by (auto simp: m'_def)
  have miss: "seen m' r w c = seen m r w c" if "\<not> agree d v w" "c \<le> 3" for c w
    using seen_set_ent [OF wf tL ix_less [of d v] that(2), of w e] that iff [of w] by (auto simp: m'_def)
  have e0: "e \<noteq> 0" using e(1) by (auto simp: present_def)
  show "pt_walk m' r w = pt_walk m r w" if n: "\<not> agree d v w"
    unfolding walk_seen [OF wf] walk_seen [OF wf']
    using miss [OF n, of 1] miss [OF n, of 2] miss [OF n, of 3] by (simp split: option.split)
  show "pt_walk m' r w = Some (4 - d, e)" if a: "agree d v w"
  proof -
    have s: "seen m' r w d = Some e" using below [of d w] a by simp
    have up: "\<exists>x. seen m' r w c = Some x \<and> x \<noteq> 0 \<and> \<not> large x" if "c < d" for c
    proof (rule ccontr)
      assume "\<not> ?thesis"
      then have "seen m' r w c = None \<or> (\<exists>x. seen m' r w c = Some x \<and> (x = 0 \<or> large x))"
        by (cases "seen m' r w c") auto
      then have "seen m' r w d = None"
      proof
        assume n: "seen m' r w c = None"
        have "c \<le> k \<Longrightarrow> seen m' r w k = None" for k
          by (induction k) (use n in \<open>auto simp: seen_Suc le_Suc_eq\<close>)
        then show ?thesis using that by simp
      next
        assume "\<exists>x. seen m' r w c = Some x \<and> (x = 0 \<or> large x)"
        then show ?thesis using seen_stop [of m' r w c _ d] that by blast
      qed
      then show False using s by simp
    qed
    show ?thesis unfolding walk_seen [OF wf'] using s up [of 1] up [of 2] d e e0 by auto
  qed
  show "clear_path D m' r w" if "clear_path D m r w" "D \<le> d"
    using that below by (auto simp: clear_path_def)
qed


text \<open>Clearing an entry takes the page, or the whole table below it, out of the walks.\<close>

lemma clear_walk:
  assumes wf: "pt_wf m r L" and t: "tab m r v d = Some t" and d: "d = 1 \<or> d = 2 \<or> d = 3"
  defines "m' \<equiv> set_ent m t (ix d v) 0"
  shows "pt_wf m' r L" "pt_walk m' r w = (if agree d v w then None else pt_walk m r w)"
proof -
  have tL: "t \<in> L d" using tab_in [OF wf t] d by auto
  have d3: "d \<le> 3" using d by auto
  show wf': "pt_wf m' r L" unfolding m'_def by (intro pt_wf_leaf [OF wf tL ix_less]) auto
  note iff = tab_eq_iff [OF wf t d3]
  have miss: "seen m' r w c = seen m r w c" if "\<not> agree d v w" "c \<le> 3" for c
    using seen_set_ent [OF wf tL ix_less [of d v] that(2), of w 0] that iff [of w] by (auto simp: m'_def)
  show "pt_walk m' r w = (if agree d v w then None else pt_walk m r w)"
  proof (cases "agree d v w")
    case True
    have s: "seen m' r w d = Some 0"
      using seen_set_ent [OF wf tL ix_less [of d v] d3, of w 0] True iff [of w] by (auto simp: m'_def)
    have up: "\<not> large x" if "c < d" "seen m' r w c = Some x" for c x
      using seen_stop [of m' r w c x d] s that by auto
    have "\<not> present 0" by (simp add: present_def)
    then show ?thesis unfolding walk_seen [OF wf'] using True s d up [of 1] up [of 2]
      by (elim disjE) (simp_all split: option.split)
  next
    case False
    then show ?thesis unfolding walk_seen [OF wf] walk_seen [OF wf']
      using miss [OF False, of 1] miss [OF False, of 2] miss [OF False, of 3] by (simp split: option.split)
  qed
qed

lemma walk_agree: "agree 3 v w \<Longrightarrow> pt_walk m r v = pt_walk m r w"
proof -
  assume a: "agree 3 v w"
  have "pt_idx 39 v = pt_idx 39 w" "pt_idx 30 v = pt_idx 30 w" "pt_idx 21 v = pt_idx 21 w" "pt_idx 12 v = pt_idx 12 w"
    using a [unfolded agree_def, rule_format, of 0] a [unfolded agree_def, rule_format, of 1]
      a [unfolded agree_def, rule_format, of 2] a [unfolded agree_def, rule_format, of 3]
    by (simp_all add: ix_def)
  then show ?thesis by (simp add: pt_walk_def Let_def)
qed

text \<open>\<open>unmap_memory\<close> takes out the page that the address lies in, whatever its size, and no other.\<close>

lemma unmap_walk:
  assumes wf: "pt_wf m r L"
  shows "pt_wf (unmap_memory r v m) r L"
    "pt_walk (unmap_memory r v m) r w =
      (case pt_walk m r v of None \<Rightarrow> pt_walk m r w
       | Some (l, e) \<Rightarrow> if agree (4 - l) v w then None else pt_walk m r w)"
proof -
  define e4 where "e4 = ent m r (ix 0 v)"
  define e3 where "e3 = ent m (tbl e4) (ix (Suc 0) v)"
  define e2 where "e2 = ent m (tbl e3) (ix 2 v)"
  define e1 where "e1 = ent m (tbl e2) (ix 3 v)"
  have L4: "e4 \<noteq> 0 \<Longrightarrow> \<not> large e4" using pt_wfD(1,5) [OF wf] by (auto simp: e4_def)
  have t1: "tab m r v 1 = (if e4 = 0 then None else Some (tbl e4))"
    using L4 by (auto simp: e4_def Let_def)
  have t2: "tab m r v 2 = (if e4 = 0 \<or> e3 = 0 \<or> large e3 then None else Some (tbl e3))"
    using t1 by (auto simp: e3_def numeral_2_eq_2 Let_def)
  have t3: "tab m r v 3 = (if e4 = 0 \<or> e3 = 0 \<or> large e3 \<or> e2 = 0 \<or> large e2 then None else Some (tbl e2))"
    using t2 by (auto simp: e2_def numeral_3_eq_3 numeral_2_eq_2 Let_def)
  have nz: "tab m r v c = Some t \<Longrightarrow> c \<le> 3 \<Longrightarrow> t \<noteq> 0" for c t
    using pt_wfD(2) [OF wf tab_in [OF wf]] by (auto simp: page_ok_def)
  have um: "unmap_memory r v m =
    (if tbl e4 \<noteq> 0 \<and> e3 \<noteq> 0 then
       if \<not> large e3 then
         if tbl e3 \<noteq> 0 \<and> e2 \<noteq> 0 then
           if \<not> large e2 then set_ent m (tbl e2) (ix 3 v) 0 else set_ent m (tbl e3) (ix 2 v) 0
         else m
       else set_ent m (tbl e4) (ix 1 v) 0
     else m)"
    by (simp add: unmap_memory_def Let_def e4_def e3_def e2_def ix_def large_def)
  have walk: "pt_walk m r v = (if e4 = 0 \<or> e3 = 0 then None else if large e3 then Some (3, e3)
      else if e2 = 0 then None else if large e2 then Some (2, e2) else if present e1 then Some (1, e1) else None)"
    unfolding walk_seen [OF wf] seen_def t1 t2 t3 by (simp add: e3_def [symmetric] e2_def [symmetric] e1_def [symmetric])
  have z4: "tbl 0 = 0" by (simp add: tbl_def)
  consider "unmap_memory r v m = m" "pt_walk m r v = None"
    | d t where "unmap_memory r v m = set_ent m t (ix d v) 0" "tab m r v d = Some t" "d = 1 \<or> d = 2 \<or> d = 3"
        "(\<exists>e. pt_walk m r v = Some (4 - d, e)) \<or> d = 3 \<and> pt_walk m r v = None \<and> \<not> present e1"
  proof (cases "e4 = 0 \<or> e3 = 0")
    case True
    then have "unmap_memory r v m = m" "pt_walk m r v = None" unfolding um walk using z4 by auto
    then show ?thesis by (rule that(1))
  next
    case False
    then have t1: "tab m r v 1 = Some (tbl e4)" unfolding t1 by simp
    then have n4: "tbl e4 \<noteq> 0" by (rule nz) simp
    show ?thesis
    proof (cases "large e3")
      case True
      then show ?thesis using False n4 by (intro that(2) [OF _ t1]) (simp_all add: um walk)
    next
      case l3: False
      then have t2: "tab m r v 2 = Some (tbl e3)" unfolding t2 using False by simp
      then have n3: "tbl e3 \<noteq> 0" by (rule nz) simp
      show ?thesis
      proof (cases "e2 = 0")
        case True
        then show ?thesis using False l3 n4 n3 by (intro that(1)) (simp_all add: um walk)
      next
        case n2: False
        show ?thesis
        proof (cases "large e2")
          case True
          then show ?thesis using False l3 n2 n4 n3 by (intro that(2) [OF _ t2]) (simp_all add: um walk)
        next
          case l2: False
          then have "tab m r v 3 = Some (tbl e2)" unfolding t3 using False l3 n2 by simp
          then show ?thesis using False l3 n2 n4 n3 l2 by (intro that(2) [of "tbl e2" 3]) (simp_all add: um walk)
        qed
      qed
    qed
  qed
  then have "pt_wf (unmap_memory r v m) r L \<and> pt_walk (unmap_memory r v m) r w =
      (case pt_walk m r v of None \<Rightarrow> pt_walk m r w
       | Some (l, e) \<Rightarrow> if agree (4 - l) v w then None else pt_walk m r w)"
  proof cases
    case 1
    then show ?thesis using wf by simp
  next
    case (2 d t)
    note c = clear_walk [OF wf 2(2,3)]
    have "4 - (4 - d) = d" using 2(3) by auto
    moreover have "pt_walk m r w = pt_walk m r v" if "agree 3 v w" using walk_agree [OF that] by simp
    ultimately show ?thesis using 2(4) c(1) c(2) [of w] unfolding 2(1) by auto
  qed
  then show "pt_wf (unmap_memory r v m) r L"
    "pt_walk (unmap_memory r v m) r w =
      (case pt_walk m r v of None \<Rightarrow> pt_walk m r w
       | Some (l, e) \<Rightarrow> if agree (4 - l) v w then None else pt_walk m r w)" by auto
qed

end
