(* ===== verification/Page_Region.thy ===== *)
theory Page_Region
  imports Page_Tables
begin

text \<open>
  Mapping a region.  The locale \<open>table_alloc\<close> is what the mapping routines ask of the allocator of
  page tables: it answers, a page it hands out is aligned, zeroed and new, and nothing else in memory
  changes.  Inside it, \<open>map_page\<close>, \<open>map_loop\<close> and \<open>map_region\<close> are shown to keep the tables
  well-formed, to make every page of the region translate to its frame, and to leave the translation
  of every other address as it was.  The allocators of the process manager and of the boot loader
  are its instances.
\<close>

section \<open>Pages and indices\<close>

text \<open>The depth of the table that holds the entries of pages of a size.\<close>

definition leaf_depth :: "cint \<Rightarrow> nat" where
  "leaf_depth page_size = (if page_size = SZ_4KB then 3 else if page_size = SZ_2MB then 2 else 1)"

definition page_shift :: "cint \<Rightarrow> nat" where
  "page_shift page_size = 39 - 9 * leaf_depth page_size"

text \<open>The number of pages that cover a region.\<close>

definition page_count :: "addr \<Rightarrow> addr \<Rightarrow> cint \<Rightarrow> nat" where
  "page_count start end_vaddr page_size =
    (unat end_vaddr - unat start + unat page_size - 1) div unat page_size"

lemma leaf_depth_range: "leaf_depth ps = 1 \<or> leaf_depth ps = 2 \<or> leaf_depth ps = 3"
  by (simp add: leaf_depth_def)

lemma page_size_shift: "page_size_ok ps \<Longrightarrow> unat ps = 2 ^ page_shift ps"
  by (auto simp: page_size_ok_def page_shift_def leaf_depth_def)

lemma ix_div: "ix d v = unat v div 2 ^ (39 - 9 * d) mod 512"
proof -
  have "unat (w AND 0x1FF) = unat w mod 512" for w :: addr
    using and_mask_unat [of w 9] by (simp add: mask_eq_exp_minus_1)
  then show ?thesis unfolding ix_def pt_idx_def by (simp only: unat_drop_bit_eq) (simp only: drop_bit_eq_div)
qed

lemma agree_div:
  assumes "d \<le> 3" "unat v < 2 ^ 48" "unat w < 2 ^ 48"
  shows "agree d v w \<longleftrightarrow> unat v div 2 ^ (39 - 9 * d) = unat w div 2 ^ (39 - 9 * d)"
  using assms(1)
proof (induction d)
  case 0
  have "unat x div 2 ^ 39 < 512" if "unat x < 2 ^ 48" for x :: addr
    using that by (intro less_mult_imp_div_less) simp
  from this [OF assms(2)] this [OF assms(3)] show ?case by (simp add: agree_def ix_div)
next
  case (Suc d)
  have sh: "39 - 9 * d = (39 - 9 * Suc d) + 9" using Suc.prems by simp
  have up: "unat x div 2 ^ (39 - 9 * d) = unat x div 2 ^ (39 - 9 * Suc d) div 512" for x :: addr
    unfolding sh power_add by (simp add: div_mult2_eq)
  have "agree (Suc d) v w \<longleftrightarrow> agree d v w \<and> ix (Suc d) v = ix (Suc d) w"
    by (auto simp: agree_def le_Suc_eq)
  also have "\<dots> \<longleftrightarrow> unat v div 2 ^ (39 - 9 * Suc d) = unat w div 2 ^ (39 - 9 * Suc d)"
    using Suc by (simp only: up ix_div) (metis Suc_leD div_mult_mod_eq)
  finally show ?case .
qed

lemma page_mask_or:
  fixes p x :: addr
  assumes "2 ^ k dvd unat p" "k < 64"
  shows "p OR (x AND mask k) = p + (x AND mask k)"
proof -
  have "p AND mask k = 0" using assms aligned_iff_dvd [of p k] by simp
  moreover have "p AND (x AND mask k) = (p AND mask k) AND x" by (simp only: ac_simps)
  ultimately have "p AND (x AND mask k) = 0" by simp
  then show ?thesis using word_plus_and_or [of p "x AND mask k"] by simp
qed

lemma leaf_address:
  fixes p a :: addr
  assumes "2 ^ k dvd unat p" "k = 12 \<or> k = 21 \<or> k = 30" "a AND NOT 0xFFF = 0"
  shows "((p OR a) AND NOT (mask k)) OR (x AND mask k) = p + (x AND mask k)" "(p OR a) AND 0xFFF = a"
proof -
  have k: "k < 64" "12 \<le> k" using assms(2) by auto
  have pk: "p AND mask k = 0" using assms(1) k aligned_iff_dvd [of p k] by simp
  have p: "p AND NOT (mask k) = p"
  proof -
    have "p = (p AND mask k) OR (p AND NOT (mask k))"
      by (simp only: bit.conj_disj_distrib [symmetric] bit.disj_cancel_right bit.conj_one_right)
    then show ?thesis using pk by simp
  qed
  have bits: "\<not> bit a i" if "12 \<le> i" for i
  proof -
    have "bit (a AND NOT (mask 12)) i = False" using assms(3) by (simp add: mask_eq_exp_minus_1)
    then show ?thesis using that by (auto simp: bit_simps dest: bit_imp_le_length)
  qed
  then have "i < k" if "bit a i" for i using that k(2) by (meson le_trans not_le)
  then have "a AND NOT (mask k) = 0" by (intro bit_word_eqI) (auto simp: bit_simps)
  then have "(p OR a) AND NOT (mask k) = p" using p by (simp add: bit.conj_disj_distrib2)
  then show "((p OR a) AND NOT (mask k)) OR (x AND mask k) = p + (x AND mask k)"
    using page_mask_or [OF assms(1) k(1)] by simp
  have "(2 ^ 12 :: nat) dvd 2 ^ k" using k(2) by (rule le_imp_power_dvd)
  then have "4096 dvd unat p" using assms(1) dvd_trans by fastforce
  moreover have "a AND 0xFFF = a"
  proof -
    have "a = (a AND 0xFFF) OR (a AND NOT 0xFFF)"
      by (simp only: bit.conj_disj_distrib [symmetric] bit.disj_cancel_right bit.conj_one_right)
    then show ?thesis using assms(3) by simp
  qed
  ultimately show "(p OR a) AND 0xFFF = a" by (simp add: bit.conj_disj_distrib2 page_mask)
qed


text \<open>Inside the region, the page of an address and its offset there.\<close>

lemma region_page:
  fixes x start :: addr
  assumes ps: "page_size_ok ps" and al: "unat ps dvd unat start"
    and r: "unat start \<le> unat x" "unat x < unat start + n * unat ps"
  defines "k \<equiv> (unat x - unat start) div unat ps"
  shows "k < n" "unat x div unat ps = unat start div unat ps + k"
    "unat start + k * unat ps + unat x mod unat ps = unat x"
proof -
  have p: "0 < unat ps" using page_size_shift [OF ps] by simp
  obtain q where q: "unat start = unat ps * q" using al by (auto elim: dvdE)
  show "k < n" unfolding k_def using r by (intro less_mult_imp_div_less) linarith
  have x: "unat x = unat ps * q + (unat x - unat start)" using q r(1) by simp
  then have "unat x div unat ps = q + (unat x - unat start) div unat ps"
    using p by (metis div_mult_self4 less_not_refl2 mult.commute add.commute)
  then show d: "unat x div unat ps = unat start div unat ps + k" using q p by (simp add: k_def)
  have "unat x = unat ps * (unat x div unat ps) + unat x mod unat ps" by simp
  then show "unat start + k * unat ps + unat x mod unat ps = unat x"
    using d q p by (simp add: algebra_simps)
qed

lemma region_pages_eq:
  assumes "page_size_ok ps" "start < end_vaddr" "unat end_vaddr \<le> 2 ^ 42"
  shows "region_pages start end_vaddr ps = page_count start end_vaddr ps" "page_count start end_vaddr ps \<le> 2 ^ 30"
    "unat start + page_count start end_vaddr ps * unat ps < unat end_vaddr + unat ps"
    "unat end_vaddr \<le> unat start + page_count start end_vaddr ps * unat ps"
proof -
  let ?n = "page_count start end_vaddr ps"
  let ?P = "unat ps" and ?a = "unat end_vaddr - unat start"
  have P: "4096 \<le> ?P" "?P \<le> 2 ^ 30" using assms(1) by (auto simp: page_size_ok_def)
  have lt: "unat start < unat end_vaddr" using assms(2) by (simp add: word_less_nat_alt)
  have u: "unat (ucast ps :: addr) = ?P"
    using unat_of_nat_small [of ?P, where ?'a = 64] P(2) by simp
  have a: "unat (end_vaddr - start) = ?a" using assms(2) by (simp add: unat_sub less_imp_le)
  have n: "?n = ?a div ?P + (if ?a mod ?P \<noteq> 0 then 1 else 0)"
  proof -
    have "(?P * k + m + ?P - 1) div ?P = k + (if m \<noteq> 0 then 1 else 0)" if "m < ?P" for k m
      using that P(1) by (intro div_nat_eqI) (auto simp: algebra_simps)
    from this [of "?a mod ?P" "?a div ?P"] P(1) show ?thesis by (simp add: page_count_def)
  qed
  have m: "?a = ?P * (?a div ?P) + ?a mod ?P" "?a mod ?P < ?P" using P(1) by simp_all
  show b: "?n \<le> 2 ^ 30"
  proof -
    have le: "4096 * (?a div ?P) \<le> ?P * (?a div ?P)" using P(1) by (rule mult_le_mono1)
    also have "\<dots> \<le> ?a" by simp
    finally have "4096 * (?a div ?P) + 4096 * (if ?a mod ?P \<noteq> 0 then 1 else 0) \<le> 2 ^ 42" if "?a mod ?P = 0"
      using that assms(3) by simp
    moreover have "4096 * (?a div ?P + 1) \<le> 2 ^ 42" if "?a mod ?P \<noteq> 0"
    proof -
      have "?a \<le> 4096 * 1073741824" using assms(3) by simp
      then have "4096 * (?a div ?P) < 4096 * 1073741824" using le m that by linarith
      then show ?thesis by simp
    qed
    ultimately show ?thesis unfolding n by (cases "?a mod ?P = 0") auto
  qed
  show "unat start + ?n * ?P < unat end_vaddr + ?P" "unat end_vaddr \<le> unat start + ?n * ?P"
  proof -
    have "?n * ?P = ?P * (?a div ?P) + (if ?a mod ?P \<noteq> 0 then ?P else 0)" unfolding n by (simp add: algebra_simps)
    then consider "?a mod ?P = 0" "?n * ?P = ?P * (?a div ?P)" | "0 < ?a mod ?P" "?n * ?P = ?P * (?a div ?P) + ?P"
      by (cases "?a mod ?P = 0") auto
    then have "unat start + ?n * ?P < unat end_vaddr + ?P \<and> unat end_vaddr \<le> unat start + ?n * ?P"
    proof cases
      case 1
      then show ?thesis using m lt P(1) by linarith
    next
      case 2
      then show ?thesis using m lt P(1) by linarith
    qed
    then show "unat start + ?n * ?P < unat end_vaddr + ?P" "unat end_vaddr \<le> unat start + ?n * ?P" by auto
  qed
  let ?w = "(end_vaddr - start) div ucast ps + (if (end_vaddr - start) mod ucast ps \<noteq> 0 then 1 else 0)"
  have "(end_vaddr - start) mod ucast ps \<noteq> 0 \<longleftrightarrow> ?a mod ?P \<noteq> 0"
    using unat_mod_distrib [of "end_vaddr - start" "ucast ps"] by (simp add: a u flip: unat_eq_0)
  moreover have "unat ((end_vaddr - start) div ucast ps) = ?a div ?P" by (simp add: unat_div_distrib a u)
  ultimately have "unat ?w = ?n" using b n by (auto simp: unat_word_ariths)
  then show "region_pages start end_vaddr ps = ?n"
    using b by (simp add: region_pages_def Let_def unat_ucast_cint)
qed

lemma translate_walk:
  assumes "pt_walk m r x = Some (4 - D, (p + of_nat ((unat x div unat ps - q) * unat ps)) OR attr)"
    "page_size_ok ps" "D = leaf_depth ps" "unat ps dvd unat p" "attr AND NOT 0xFFF = 0"
    "unat start = q * unat ps" "q \<le> unat x div unat ps"
  shows "translate m r x = Some (p + (x - start), attr)"
proof -
  let ?k = "page_shift ps" and ?b = "p + of_nat ((unat x div unat ps - q) * unat ps)"
  have P: "unat ps = 2 ^ ?k" using page_size_shift [OF assms(2)] .
  have k: "?k = 12 \<or> ?k = 21 \<or> ?k = 30" using leaf_depth_range [of ps] by (auto simp: page_shift_def)
  have w: "(if 4 - D = 1 then 12 else if 4 - D = 2 then 21 else 30) = ?k"
    using leaf_depth_range [of ps] assms(3) by (auto simp: page_shift_def)
  let ?d = "unat x div unat ps"
  have "2 ^ ?k dvd unat ?b"
  proof -
    have k64: "(2 ^ ?k :: nat) dvd 2 ^ 64" using k by (intro le_imp_power_dvd) auto
    have "(2 ^ ?k :: nat) dvd (?d - q) * unat ps" using P by simp
    then have "2 ^ ?k dvd unat (of_nat ((?d - q) * unat ps) :: addr)"
      using k64 by (simp only: unsigned_of_nat take_bit_eq_mod len64 dvd_mod of_nat_id)
    then show ?thesis using assms(4) P k64 by (simp add: unat_word_ariths dvd_mod)
  qed
  note la = leaf_address [OF this k assms(5)]
  have off: "x AND mask ?k = x - of_nat (?d * unat ps)"
  proof -
    have "x = of_nat (?d * unat ps + unat x mod unat ps)" by (simp only: div_mult_mod_eq of_nat_unat_word)
    moreover have "x AND mask ?k = of_nat (unat x mod unat ps)"
      using and_mask_unat [of x ?k] P by (metis of_nat_unat_word)
    ultimately show ?thesis by (simp only: of_nat_add) (metis add_diff_cancel_left')
  qed
  have "(of_nat ((?d - q) * unat ps) :: addr) = of_nat (?d * unat ps) - of_nat (q * unat ps)"
    using assms(7) by (simp only: diff_mult_distrib of_nat_diff mult_le_mono1)
  moreover have "of_nat (q * unat ps) = start" by (simp only: assms(6) [symmetric] of_nat_unat_word)
  ultimately have "?b + (x AND mask ?k) = p + (x - start)" unfolding off by simp
  then show ?thesis using la w assms(1) by (simp add: translate_def Let_def)
qed

lemma fresh_root:
  assumes "page_ok r" "zero_page m r"
  shows "pt_wf m r (\<lambda>d. if d = 0 then {r} else {})" "pt_walk m r v = None" "clear_path D m r v"
proof -
  have e: "ent m r i = 0" if "i < 512" for i using ent_zero_page [OF assms(2) that] .
  show "pt_wf m r (\<lambda>d. if d = 0 then {r} else {})" using assms(1) by (auto simp: pt_wf_def e)
  have "\<not> present 0" by (simp add: present_def)
  then show "pt_walk m r v = None" using e [of "pt_idx 39 v"] ix_less [of 0 v] by (simp add: pt_walk_def ix_def)
  have s: "seen m r v 0 = Some 0" by (simp add: seen_def e)
  show "clear_path D m r v"
    unfolding clear_path_def
  proof (intro allI impI)
    fix c x assume "seen m r v c = Some x"
    then show "\<not> large x" using s seen_stop [OF s, of c] by (cases "c = 0") (auto simp: large_def)
  qed
qed

section \<open>Attributes of the leaves\<close>

definition prot_ok :: "16 word \<Rightarrow> bool" where
  "prot_ok protection \<longleftrightarrow> bit protection 0 \<and> protection AND 0xF000 = 0"

lemma word16_attr:
  fixes p :: "16 word"
  assumes "prot_ok p"
  shows "present (ucast (large_prot ps p))" "ps = SZ_4KB \<or> large (ucast (large_prot ps p))"
    "(ucast (large_prot ps p) :: addr) AND NOT 0xFFF = 0"
proof -
  have hi: "\<not> bit p i" if "12 \<le> i" for i
  proof (cases "i < 16")
    case True
    have "bit (0xF000 :: 16 word) i" using True that by (auto simp: numeral_eq_Suc bit_simps less_Suc_eq)
    moreover have "bit (p AND 0xF000) i = False" using assms by (simp add: prot_ok_def)
    ultimately show ?thesis by (simp add: bit_and_iff)
  qed (use bit_imp_le_length [of p i] in auto)
  show "present (ucast (large_prot ps p))"
    using assms by (auto simp: present_def prot_ok_def large_prot_def bit_simps)
  show "ps = SZ_4KB \<or> large (ucast (large_prot ps p))"
  proof (cases "ps = SZ_4KB")
    case False
    have "bit ((ucast (p OR 0x80) :: addr) AND 0x80) 7" by (simp add: bit_simps)
    then have "(ucast (p OR 0x80) :: addr) AND 0x80 \<noteq> 0" by (metis bit_0_eq bot_apply bot_bool_def)
    then show ?thesis using False by (simp add: large_prot_def large_def)
  qed simp
  show "(ucast (large_prot ps p) :: addr) AND NOT 0xFFF = 0"
proof -
    have "\<not> bit (0x80 :: 16 word) i" if "12 \<le> i" for i
    proof -
      have "(0x80 :: 16 word) = 2 ^ 7" by simp
      then show ?thesis using that by (simp only: bit_exp_iff) simp
    qed
    then have "\<not> bit (large_prot ps p) i" if "12 \<le> i" for i
      using that hi by (simp add: large_prot_def bit_or_iff)
    then have "(ucast (large_prot ps p) :: addr) AND NOT (mask 12) = 0"
      by (intro bit_word_eqI) (auto simp: bit_simps not_less)
    then show ?thesis by (simp add: mask_eq_exp_minus_1)
  qed
qed

lemma ept_attr:
  fixes p :: "16 word" and mtype :: byte and ps :: cint
  assumes "prot_ok p"
  defines "a \<equiv> push_bit 3 (ucast mtype) OR ucast (large_prot ps p) :: addr"
  shows "present a" "ps = SZ_4KB \<or> large a" "a AND NOT 0xFFF = 0"
proof -
  note w = word16_attr [OF assms(1), of ps]
  show "present a" using w(1) by (simp add: a_def present_def bit_or_iff)
  show "ps = SZ_4KB \<or> large a" using w(2) by (auto simp: a_def large_def bit.conj_disj_distrib2 or_eq_0_iff)
  have "\<not> bit (push_bit 3 (ucast mtype) :: addr) i" if "12 \<le> i" for i
    using that bit_imp_le_length [of mtype "i - 3"] by (auto simp: bit_simps)
  then have "(push_bit 3 (ucast mtype) :: addr) AND NOT (mask 12) = 0"
    by (intro bit_word_eqI) (auto simp: bit_and_iff bit_not_iff bit_mask_iff not_less)
  then have "(push_bit 3 (ucast mtype) :: addr) AND NOT 0xFFF = 0" by (simp add: mask_eq_exp_minus_1)
  then show "a AND NOT 0xFFF = 0" using w(3) unfolding a_def bit.conj_disj_distrib2 by simp
qed

section \<open>The allocator of page tables\<close>

locale table_alloc =
  fixes alloc :: "'a machine_scheme \<Rightarrow> (addr \<times> 'a machine_scheme) res"
    and inv :: "'a machine_scheme \<Rightarrow> bool"
    and owned :: "'a machine_scheme \<Rightarrow> addr set"
    and avail :: "'a machine_scheme \<Rightarrow> nat"
  assumes alloc_total: "inv s \<Longrightarrow> \<exists>p s'. alloc s = Inr (p, s')"
    and alloc_page: "inv s \<Longrightarrow> alloc s = Inr (p, s') \<Longrightarrow> p \<noteq> 0 \<Longrightarrow>
      inv s' \<and> page_ok p \<and> p \<notin> owned s \<and> insert p (owned s) \<subseteq> owned s' \<and> zero_page (mem s') p \<and>
      (\<forall>x. \<not> in_region p 4096 x \<longrightarrow> mem s' x = mem s x)"
    and alloc_avail: "inv s \<Longrightarrow> alloc s = Inr (p, s') \<Longrightarrow>
      (if p = 0 then avail s = 0 else avail s \<le> Suc (avail s'))"
    and inv_mem: "inv s \<Longrightarrow> inv (s\<lparr>mem := m\<rparr>)"
    and owned_mem: "owned (s\<lparr>mem := m\<rparr>) = owned s"
    and avail_mem: "avail (s\<lparr>mem := m\<rparr>) = avail s"
begin

text \<open>Well-formed tables, all of them owned.\<close>

definition tables_ok :: "addr \<Rightarrow> 'a machine_scheme \<Rightarrow> bool" where
  "tables_ok r s \<longleftrightarrow> inv s \<and> (\<exists>L. pt_wf (mem s) r L \<and> (\<forall>d. L d \<subseteq> owned s))"

text \<open>From \<open>s\<close> to \<open>s'\<close> at most \<open>k\<close> tables were taken and no walk has changed.\<close>

definition same_walks :: "addr \<Rightarrow> nat \<Rightarrow> 'a machine_scheme \<Rightarrow> 'a machine_scheme \<Rightarrow> bool" where
  "same_walks r k s s' \<longleftrightarrow> tables_ok r s' \<and> owned s \<subseteq> owned s' \<and> avail s \<le> avail s' + k \<and>
    (\<forall>w. pt_walk (mem s') r w = pt_walk (mem s) r w) \<and>
    (\<forall>D w. D \<le> 3 \<longrightarrow> clear_path D (mem s) r w \<longrightarrow> clear_path D (mem s') r w)"

lemma same_walks_trans:
  "same_walks r k s s1 \<Longrightarrow> same_walks r l s1 s2 \<Longrightarrow> same_walks r (k + l) s s2"
  by (auto simp: same_walks_def)

lemma owned_page_other:
  assumes "pt_wf m r L" "t \<in> L d" "page_ok p" "p \<notin> L d" "in_region t 4096 x"
  shows "\<not> in_region p 4096 x"
proof -
  have t: "4096 dvd unat t" "4096 dvd unat p" "t \<noteq> p"
    using pt_wfD(2) [OF assms(1,2)] assms(2-4) by (auto simp: page_ok_def)
  have "disjoint_regions t 4096 p 4096"
    using page_apart [OF t] page_no_wrap [OF t(1)] page_no_wrap [OF t(2)] by (intro disjoint_regionsI) auto
  then show ?thesis using assms(5) by (auto dest: disjoint_regionsD)
qed

text \<open>
  One link of the walk.  Either the allocator has no page left, or the table is there afterwards,
  and no translation has changed.
\<close>

lemma ensure_table_ok:
  assumes ok: "tables_ok r s" and t: "tab (mem s) r v d = Some t" and d: "d < 3"
    and nl: "\<not> large (ent (mem s) t (ix d v))" and l: "link_ok link"
  shows "ensure_table alloc link t (ix d v) s = Inl (Panic ''Memory Allocation Failed'') \<and> avail s = 0 \<or>
    (\<exists>s'. ensure_table alloc link t (ix d v) s = Inr s' \<and> same_walks r 1 s s' \<and>
       tab (mem s') r v (Suc d) = Some (tbl (ent (mem s') t (ix d v))))"
proof (cases "ent (mem s) t (ix d v) = 0")
  case False
  then show ?thesis using ok t nl by (intro disjI2 exI [of _ s]) (auto simp: ensure_table_def same_walks_def)
next
  case True
  obtain L where inv: "inv s" and wf: "pt_wf (mem s) r L" and own: "\<And>d. L d \<subseteq> owned s"
    using ok by (auto simp: tables_ok_def)
  obtain p s1 where a: "alloc s = Inr (p, s1)" using alloc_total [OF inv] by blast
  show ?thesis
  proof (cases "p = 0")
    case True
    then show ?thesis
      using a \<open>ent (mem s) t (ix d v) = 0\<close> alloc_avail [OF inv a] by (simp add: ensure_table_def)
  next
    case False
    have p: "inv s1" "page_ok p" "p \<notin> owned s" "insert p (owned s) \<subseteq> owned s1" "zero_page (mem s1) p"
        "\<And>x. \<not> in_region p 4096 x \<Longrightarrow> mem s1 x = mem s x"
      using alloc_page [OF inv a False] by auto
    have pL: "\<And>c. p \<notin> L c" using own p(3) by blast
    have same: "mem s1 x = mem s x" if "u \<in> L c" "in_region u 4096 x" for c u x
      using owned_page_other [OF wf that(1) p(2) pL that(2)] p(6) by blast
    have c: "pt_wf (mem s1) r L" "\<And>x k. k \<le> 3 \<Longrightarrow> tab (mem s1) r x k = tab (mem s) r x k"
        "\<And>x k. k \<le> 3 \<Longrightarrow> seen (mem s1) r x k = seen (mem s) r x k"
        "\<And>x. pt_walk (mem s1) r x = pt_walk (mem s) r x"
      using pt_wf_cong [OF wf, of "mem s1"] same by (blast, metis not_le, metis not_le, blast)
    have tL: "t \<in> L d" using tab_in [OF wf t] d by simp
    have t1: "tab (mem s1) r v d = Some t" using c(2) [of d v] t d by auto
    have e1: "ent (mem s1) t (ix d v) = 0"
      using True ent_cong [of t "mem s1" "mem s" "ix d v"] same [OF tL] by simp
    let ?s' = "s1\<lparr>mem := set_ent (mem s1) t (ix d v) (p OR link)\<rparr>"
    note w = link_walk [OF c(1) t1 d e1 pL p(2) p(5) l]
    have wf': "pt_wf (mem ?s') r (L(Suc d := insert p (L (Suc d))))"
      using pt_wf_link [OF c(1) tL ix_less d pL p(2) p(5) l] by simp
    have "L c \<subseteq> owned s1" for c using own [of c] p(4) by blast
    then have "tables_ok r ?s'"
      unfolding tables_ok_def using wf' inv_mem [OF p(1)] p(4) owned_mem
      by (intro conjI exI [of _ "L(Suc d := insert p (L (Suc d)))"]) auto
    moreover have "tbl (p OR link) = p" using p(2) l by (simp add: page_ok_def tbl_link)
    then have "tab (mem ?s') r v (Suc d) = Some (tbl (ent (mem ?s') t (ix d v)))"
      using w(1) ent_same [OF c(1) tL ix_less] by simp
    moreover have "clear_path D (mem ?s') r x" if "D \<le> 3" "clear_path D (mem s) r x" for D x
    proof -
      have "clear_path D (mem s1) r x" using that c(3) [of _ x] by (auto simp: clear_path_def)
      then show ?thesis using w(4) that(1) by simp
    qed
    moreover have "ensure_table alloc link t (ix d v) s = Inr ?s'"
      using True a False by (simp add: ensure_table_def)
    moreover have "owned s \<subseteq> owned ?s'" using p(4) owned_mem by auto
    moreover have "avail s \<le> avail ?s' + 1" using alloc_avail [OF inv a] False avail_mem by simp
    ultimately show ?thesis using w(3) c(4) by (intro disjI2 exI [of _ ?s']) (auto simp: same_walks_def)
  qed
qed

text \<open>The entry of the page itself.\<close>

definition maps_page :: "addr \<Rightarrow> nat \<Rightarrow> addr \<Rightarrow> addr \<Rightarrow> 'a machine_scheme \<Rightarrow> 'a machine_scheme \<Rightarrow> bool" where
  "maps_page r D v leaf s s' \<longleftrightarrow> tables_ok r s' \<and> owned s \<subseteq> owned s' \<and> avail s \<le> avail s' + 3 \<and>
    (\<forall>w. pt_walk (mem s') r w = (if agree D v w then Some (4 - D, leaf) else pt_walk (mem s) r w)) \<and>
    (\<forall>w. clear_path D (mem s) r w \<longrightarrow> clear_path D (mem s') r w)"

lemma leaf_ok:
  assumes ok: "same_walks r k s s1" "k \<le> 3" and t: "tab (mem s1) r v D = Some t" and D: "D = 1 \<or> D = 2 \<or> D = 3"
    and l: "present leaf" "D = 3 \<or> large leaf"
  shows "maps_page r D v leaf s (s1\<lparr>mem := set_ent (mem s1) t (ix D v) leaf\<rparr>)"
proof -
  obtain L where inv: "inv s1" and wf: "pt_wf (mem s1) r L" and own: "\<And>d. L d \<subseteq> owned s1"
    using ok by (auto simp: same_walks_def tables_ok_def)
  note w = leaf_walk [OF wf t D l]
  have "tables_ok r (s1\<lparr>mem := set_ent (mem s1) t (ix D v) leaf\<rparr>)"
    unfolding tables_ok_def using w(1) inv_mem [OF inv] own owned_mem by auto
  moreover have "clear_path D (set_ent (mem s1) t (ix D v) leaf) r x" if "clear_path D (mem s) r x" for x
  proof -
    have "clear_path D (mem s1) r x" using ok that D by (auto simp: same_walks_def)
    then show ?thesis using w(4) by simp
  qed
  ultimately show ?thesis using ok w(2,3) owned_mem avail_mem by (auto simp: maps_page_def same_walks_def)
qed

lemma clear_entry:
  "same_walks r k s s1 \<Longrightarrow> clear_path D (mem s) r v \<Longrightarrow> d < D \<Longrightarrow> D \<le> 3 \<Longrightarrow> tab (mem s1) r v d = Some t \<Longrightarrow>
    \<not> large (ent (mem s1) t (ix d v))"
  by (auto simp: same_walks_def clear_path_def seen_def)

lemma map_page_ok:
  assumes ok: "tables_ok r s" and ps: "page_size_ok ps" and cl: "clear_path (leaf_depth ps) (mem s) r v"
    and l: "present leaf" "ps = SZ_4KB \<or> large leaf" "link_ok link"
  shows "map_page alloc link ps r v leaf s = Inl (Panic ''Memory Allocation Failed'') \<and> avail s < 3 \<or>
    (\<exists>s'. map_page alloc link ps r v leaf s = Inr s' \<and> maps_page r (leaf_depth ps) v leaf s s')"
proof -
  let ?D = "leaf_depth ps"
  have s0: "same_walks r 0 s s" using ok by (simp add: same_walks_def)
  have step: "ensure_table alloc link t (ix d v) s1 = Inl (Panic ''Memory Allocation Failed'') \<and> avail s < 3 \<or>
      (\<exists>s2. ensure_table alloc link t (ix d v) s1 = Inr s2 \<and> same_walks r (Suc d) s s2 \<and>
       tab (mem s2) r v (Suc d) = Some (tbl (ent (mem s2) t (ix d v))))"
    if "same_walks r d s s1" "tab (mem s1) r v d = Some t" "d < ?D" for s1 d t
  proof -
    have "?D \<le> 3" by (simp add: leaf_depth_def)
    moreover from this have "\<not> large (ent (mem s1) t (ix d v))" "d < 3"
      using clear_entry [OF that(1) cl that(3) _ that(2)] that(3) by auto
    moreover have "tables_ok r s1" "avail s \<le> avail s1 + d" using that(1) by (simp_all add: same_walks_def)
    ultimately show ?thesis
      using ensure_table_ok [OF _ that(2) _ _ l(3)] same_walks_trans [OF that(1), where l = 1] by fastforce
  qed
  have idx: "pt_idx 39 v = ix 0 v" "pt_idx 30 v = ix 1 v" "pt_idx 21 v = ix 2 v" "pt_idx 12 v = ix 3 v"
    by (simp_all add: ix_def)
  have fin: ?thesis if "map_page alloc link ps r v leaf s = Inr (s1\<lparr>mem := set_ent (mem s1) t (ix ?D v) leaf\<rparr>)"
    "same_walks r ?D s s1" "tab (mem s1) r v ?D = Some t" for s1 t
    using leaf_ok [OF that(2) _ that(3) leaf_depth_range l(1)] l(2) that(1) by (auto simp: leaf_depth_def)
  show ?thesis
  proof (cases "ensure_table alloc link r (ix 0 v) s")
    case (Inl e)
    then show ?thesis using step [OF s0] leaf_depth_range [of ps] by (auto simp: map_page_def idx)
  next
    case s1: (Inr s1)
    let ?t1 = "tbl (ent (mem s1) r (ix 0 v))"
    have 1: "same_walks r 1 s s1" "tab (mem s1) r v 1 = Some ?t1"
      using step [OF s0] leaf_depth_range [of ps] s1 by auto
    show ?thesis
    proof (cases "ps < SZ_1GB")
      case False
      then have "?D = 1" using ps by (auto simp: page_size_ok_def leaf_depth_def)
      then show ?thesis using False s1 1 by (intro fin [of s1 ?t1]) (simp_all add: map_page_def idx)
    next
      case lt: True
      then have D1: "1 < ?D" using ps by (auto simp: page_size_ok_def leaf_depth_def)
      show ?thesis
      proof (cases "ensure_table alloc link ?t1 (ix 1 v) s1")
        case (Inl e)
        then show ?thesis using step [OF 1 D1] s1 lt by (auto simp: map_page_def idx)
      next
        case s2: (Inr s2)
        let ?t2 = "tbl (ent (mem s2) ?t1 (ix 1 v))"
        have 2: "same_walks r 2 s s2" "tab (mem s2) r v 2 = Some ?t2"
          using step [OF 1 D1] s2 by (auto simp: numeral_2_eq_2)
        show ?thesis
        proof (cases "ps < SZ_2MB")
          case False
          then have "?D = 2" "ps \<noteq> SZ_4KB" using ps lt by (auto simp: page_size_ok_def leaf_depth_def)
          then show ?thesis using False lt s1 s2 2 by (intro fin [of s2 ?t2]) (simp_all add: map_page_def idx)
        next
          case lt2: True
          then have D2: "2 < ?D" "?D = 3" "ps = SZ_4KB" using ps by (auto simp: page_size_ok_def leaf_depth_def)
          show ?thesis
          proof (cases "ensure_table alloc link ?t2 (ix 2 v) s2")
            case (Inl e)
            then show ?thesis using step [OF 2 D2(1)] s1 s2 lt lt2 by (auto simp: map_page_def idx)
          next
            case s3: (Inr s3)
            have "same_walks r 3 s s3" "tab (mem s3) r v 3 = Some (tbl (ent (mem s3) ?t2 (ix 2 v)))"
              using step [OF 2 D2(1)] s3 by (auto simp: numeral_3_eq_3)
            then show ?thesis using lt lt2 s1 s2 s3 D2
              by (intro fin [of s3 "tbl (ent (mem s3) ?t2 (ix 2 v))"]) (simp_all add: map_page_def idx)
          qed
        qed
      qed
    qed
  qed
qed

text \<open>
  The loop.  Page number \<open>j\<close> of the address space is in the region when \<open>q \<le> j < q + n\<close>, where \<open>q\<close> is
  the number of the first page.
\<close>

lemma map_loop_ok:
  assumes "page_size_ok ps" "link_ok link" "present attr" "ps = SZ_4KB \<or> large attr"
  shows "tables_ok r s \<Longrightarrow> unat v + n * unat ps \<le> 2 ^ 48 \<Longrightarrow>
    \<forall>k<n. clear_path (leaf_depth ps) (mem s) r (v + of_nat (k * unat ps)) \<Longrightarrow>
    map_loop n alloc link ps r attr v p s = Inl (Panic ''Memory Allocation Failed'') \<and> avail s < 3 * n \<or>
    (\<exists>s'. map_loop n alloc link ps r attr v p s = Inr s' \<and> tables_ok r s' \<and> owned s \<subseteq> owned s' \<and>
      (\<forall>w. unat w < 2 ^ 48 \<longrightarrow> pt_walk (mem s') r w =
        (let j = unat w div unat ps; q = unat v div unat ps in
         if q \<le> j \<and> j < q + n then Some (4 - leaf_depth ps, (p + of_nat ((j - q) * unat ps)) OR attr)
         else pt_walk (mem s) r w)))"
proof (induction n arbitrary: v p s)
  case 0
  then show ?case by (auto simp: Let_def)
next
  case (Suc n)
  let ?D = "leaf_depth ps" and ?P = "unat ps" and ?v = "v + ucast ps" and ?p = "p + ucast ps"
  have P: "?P = 2 ^ page_shift ps" "0 < ?P" using page_size_shift [OF assms(1)] by simp_all
  have u: "ucast ps = (of_nat ?P :: addr)" by simp
  have up: "unat (ucast ps :: addr) = ?P" 
    unfolding u using unsigned_less [of ps, where ?'a = nat] by (intro unat_of_nat_small) simp
  have v': "unat ?v = unat v + ?P" using Suc.prems(2) up by (simp add: unat_word_ariths)
  have lf: "present (p OR attr)" "ps = SZ_4KB \<or> large (p OR attr)"
    using assms(3,4) by (auto simp: present_def bit_or_iff large_def bit.conj_disj_distrib2 or_eq_0_iff)
  have "clear_path ?D (mem s) r v" using Suc.prems(3) [rule_format, of 0] by simp
  from map_page_ok [OF Suc.prems(1) assms(1) this lf assms(2)] consider
      "map_page alloc link ps r v (p OR attr) s = Inl (Panic ''Memory Allocation Failed'')" "avail s < 3"
    | s1 where "map_page alloc link ps r v (p OR attr) s = Inr s1" "maps_page r ?D v (p OR attr) s s1" by blast
  then show ?case
  proof cases
    case 1
    then show ?thesis by simp
  next
    case 2
    have av: "avail s \<le> avail s1 + 3" using 2(2) by (simp add: maps_page_def)
    have ok1: "tables_ok r s1" "owned s \<subseteq> owned s1"
      "\<And>w. pt_walk (mem s1) r w = (if agree ?D v w then Some (4 - ?D, p OR attr) else pt_walk (mem s) r w)"
      "\<And>w. clear_path ?D (mem s) r w \<Longrightarrow> clear_path ?D (mem s1) r w"
      using 2(2) by (auto simp: maps_page_def)
    have "clear_path ?D (mem s1) r (?v + of_nat (k * ?P))" if "k < n" for k
    proof -
      have "?v + of_nat (k * ?P) = v + of_nat (Suc k * ?P)"
        unfolding u mult_Suc of_nat_add by (rule add.assoc)
      moreover have "clear_path ?D (mem s) r (v + of_nat (Suc k * ?P))" using Suc.prems(3) that by blast
      ultimately show ?thesis using ok1(4) by (simp only:)
    qed
    moreover have "unat ?v + n * ?P \<le> 2 ^ 48" using Suc.prems(2) v' by simp
    ultimately consider
        "map_loop n alloc link ps r attr ?v ?p s1 = Inl (Panic ''Memory Allocation Failed'')" "avail s1 < 3 * n"
      | s' where "map_loop n alloc link ps r attr ?v ?p s1 = Inr s'" "tables_ok r s'" "owned s1 \<subseteq> owned s'"
        "\<forall>w. unat w < 2 ^ 48 \<longrightarrow> pt_walk (mem s') r w =
          (let j = unat w div ?P; q = unat ?v div ?P in
           if q \<le> j \<and> j < q + n then Some (4 - ?D, (?p + of_nat ((j - q) * ?P)) OR attr)
           else pt_walk (mem s1) r w)"
      using Suc.IH [OF ok1(1)] by blast
    then show ?thesis
    proof cases
      case 1
      then show ?thesis using 2(1) av by simp
    next
      case (2 s')
      have q: "unat ?v div ?P = Suc (unat v div ?P)"
        unfolding v' using P(2) by (subst div_add_self2) auto
      have ag: "agree ?D v w \<longleftrightarrow> unat w div ?P = unat v div ?P" if "unat w < 2 ^ 48" for w
      proof -
        have "?D \<le> 3" using leaf_depth_range [of ps] by auto
        moreover have "unat v < 2 ^ 48" using Suc.prems(2) P(2) by (cases "unat v < 2 ^ 48") auto
        ultimately show ?thesis using agree_div [of ?D v w] that P(1) by (auto simp: page_shift_def)
      qed
      have pj: "?p + of_nat ((j - Suc q) * ?P) = p + of_nat ((j - q) * ?P)" if "Suc q \<le> j" for j q
      proof -
        have "(j - q) * ?P = ?P + (j - Suc q) * ?P" using that by (simp add: Suc_diff_Suc flip: mult_Suc)
        then show ?thesis by (simp only: u of_nat_add add.assoc)
      qed
      have glue: "W = (if q \<le> j \<and> j < q + Suc n then A else W0)"
        if "W = (if Suc q \<le> j \<and> j < Suc q + n then A' else W1)" "W1 = (if j = q then A0 else W0)"
          "Suc q \<le> j \<Longrightarrow> A' = A" "j = q \<Longrightarrow> A0 = A" for W W0 W1 A A' A0 :: "(nat \<times> addr) option" and j q
        using that by (cases "j = q") auto
      have "pt_walk (mem s') r w =
        (let j = unat w div ?P; q = unat v div ?P in
         if q \<le> j \<and> j < q + Suc n then Some (4 - ?D, (p + of_nat ((j - q) * ?P)) OR attr)
         else pt_walk (mem s) r w)" if w: "unat w < 2 ^ 48" for w
        unfolding Let_def
      proof (rule glue)
        show "pt_walk (mem s') r w = (if Suc (unat v div ?P) \<le> unat w div ?P \<and> unat w div ?P < Suc (unat v div ?P) + n
          then Some (4 - ?D, (?p + of_nat ((unat w div ?P - Suc (unat v div ?P)) * ?P)) OR attr)
          else pt_walk (mem s1) r w)"
          using 2(4) [rule_format, OF w] by (simp only: q Let_def)
        show "pt_walk (mem s1) r w = (if unat w div ?P = unat v div ?P then Some (4 - ?D, p OR attr)
          else pt_walk (mem s) r w)"
          using ok1(3) [of w] by (simp only: ag [OF w])
      qed (simp only: pj, simp)
      then show ?thesis
        using 2 ok1(2) \<open>map_page alloc link ps r v (p OR attr) s = Inr s1\<close>
        by (intro disjI2 exI [of _ s']) auto
    qed
  qed
qed

text \<open>The whole of \<open>map_region\<close>, on new tables and on tables that there are.\<close>

lemma map_region_ok:
  assumes ps: "page_size_ok ps" and l: "link_ok link" "present attr" "ps = SZ_4KB \<or> large attr" "attr AND NOT 0xFFF = 0"
    and reg: "start < end_vaddr" "unat end_vaddr \<le> 2 ^ 42" "unat ps dvd unat start" "unat ps dvd unat paddr"
    and start_ok: "flags = MAP_NEW \<and> inv s \<or>
      flags = MAP_UPDATE \<and> tables_ok r s \<and> ent (mem s) r 0 \<noteq> 0 \<and>
      (\<forall>k < page_count start end_vaddr ps. clear_path (leaf_depth ps) (mem s) r (start + of_nat (k * unat ps)))"
  shows "map_region alloc link r start end_vaddr paddr ps attr flags s = Inl (Panic ''Memory Allocation Failed'') \<and>
      avail s < 3 * page_count start end_vaddr ps + 1 \<or>
    (\<exists>r' s'. map_region alloc link r start end_vaddr paddr ps attr flags s = Inr (r', s') \<and> tables_ok r' s' \<and>
      owned s \<subseteq> owned s' \<and> (flags = MAP_UPDATE \<longrightarrow> r' = r) \<and> (flags = MAP_NEW \<longrightarrow> r' \<notin> owned s) \<and>
      (\<forall>x. unat x < 2 ^ 48 \<longrightarrow> translate (mem s') r' x =
        (if unat start \<le> unat x \<and> unat x < unat start + page_count start end_vaddr ps * unat ps
         then Some (paddr + (x - start), attr)
         else if flags = MAP_NEW then None else translate (mem s) r x)))"
proof -
  let ?n = "page_count start end_vaddr ps" and ?P = "unat ps" and ?D = "leaf_depth ps"
  let ?q = "unat start div ?P"
  note pg = region_pages_eq [OF ps reg(1,2)]
  have P: "?P \<le> 2 ^ 30" "0 < ?P" using ps by (auto simp: page_size_ok_def)
  have al: "ps = 0x1000 \<Longrightarrow> paddr AND 0xFFF = 0" "ps = 0x200000 \<Longrightarrow> paddr AND 0x1FFFFF = 0"
      "ps = 0x40000000 \<Longrightarrow> paddr AND 0x3FFFFFFF = 0"
    using reg(4) aligned_iff_dvd [of paddr 12] aligned_iff_dvd [of paddr 21] aligned_iff_dvd [of paddr 30]
    by (auto simp: mask_eq_exp_minus_1)
  have sq: "unat start = ?q * ?P" using reg(3) by simp
  define root where "root = (if flags = MAP_NEW then
      bindr (alloc s) (\<lambda>(p, s1). if p = 0 then Inl (Panic ''Memory Allocation Failed'') else Inr (p, s1))
    else if ent (mem s) r 0 = 0 then Inl (Panic ''Trying to update null page tables!'') else Inr (r, s))"
  have unf: "map_region alloc link r start end_vaddr paddr ps attr flags s =
    bindr root (\<lambda>(r', s1). bindr (map_loop ?n alloc link ps r' attr start paddr s1) (\<lambda>s2. Inr (r', s2)))"
    using reg(1) ps al start_ok pg(1) by (auto simp: map_region_def root_def)
  have "root = Inl (Panic ''Memory Allocation Failed'') \<and> avail s = 0 \<or>
    (\<exists>r' s1. root = Inr (r', s1) \<and> tables_ok r' s1 \<and> owned s \<subseteq> owned s1 \<and> avail s \<le> avail s1 + 1 \<and>
      (\<forall>k<?n. clear_path ?D (mem s1) r' (start + of_nat (k * ?P))) \<and>
      (flags = MAP_UPDATE \<longrightarrow> r' = r) \<and> (flags = MAP_NEW \<longrightarrow> r' \<notin> owned s) \<and>
      (\<forall>x. pt_walk (mem s1) r' x = (if flags = MAP_NEW then None else pt_walk (mem s) r x)))"
  proof (cases "flags = MAP_NEW")
    case False
    then show ?thesis using start_ok by (intro disjI2 exI [of _ r] exI [of _ s]) (auto simp: root_def)
  next
    case True
    with start_ok have inv: "inv s" by auto
    then obtain p s1 where a: "alloc s = Inr (p, s1)" using alloc_total by blast
    note av = alloc_avail [OF inv a]
    show ?thesis
    proof (cases "p = 0")
      case True
      then show ?thesis using a av \<open>flags = MAP_NEW\<close> by (simp add: root_def)
    next
      case False
      have p: "inv s1" "page_ok p" "p \<notin> owned s" "insert p (owned s) \<subseteq> owned s1" "zero_page (mem s1) p"
        using alloc_page [OF inv a False] by auto
      note f = fresh_root [OF p(2,5)]
      have "tables_ok p s1"
        unfolding tables_ok_def using p f(1) by (intro conjI exI [of _ "\<lambda>d. if d = 0 then {p} else {}"]) auto
      then show ?thesis
        using a av False True p f(2,3) by (intro disjI2 exI [of _ p] exI [of _ s1]) (auto simp: root_def)
    qed
  qed
  then show ?thesis
  proof (elim disjE exE conjE)
    assume 1: "root = Inl (Panic ''Memory Allocation Failed'')" "avail s = 0"
    then show ?thesis unfolding unf by simp
  next
    fix r' s1
    assume 2: "root = Inr (r', s1)" "tables_ok r' s1" "owned s \<subseteq> owned s1" "avail s \<le> avail s1 + 1"
      "\<forall>k<?n. clear_path ?D (mem s1) r' (start + of_nat (k * ?P))" "flags = MAP_UPDATE \<longrightarrow> r' = r"
      "flags = MAP_NEW \<longrightarrow> r' \<notin> owned s"
      "\<forall>x. pt_walk (mem s1) r' x = (if flags = MAP_NEW then None else pt_walk (mem s) r x)"
    have "unat start + ?n * ?P \<le> 2 ^ 48" using pg(3) reg(2) P(1) by simp
    from map_loop_ok [OF ps l(1-3) 2(2) this 2(5), of paddr] consider
      "map_loop ?n alloc link ps r' attr start paddr s1 = Inl (Panic ''Memory Allocation Failed'')" "avail s1 < 3 * ?n"
    | s' where "map_loop ?n alloc link ps r' attr start paddr s1 = Inr s'" "tables_ok r' s'" "owned s1 \<subseteq> owned s'"
      "\<And>w. unat w < 2 ^ 48 \<Longrightarrow> pt_walk (mem s') r' w =
        (let j = unat w div ?P; q = unat start div ?P in
         if q \<le> j \<and> j < q + ?n then Some (4 - ?D, (paddr + of_nat ((j - q) * ?P)) OR attr)
         else pt_walk (mem s1) r' w)" by blast
    then show ?thesis
    proof cases
      case 1
      then show ?thesis unfolding unf 2(1) using 2(4) by simp
    next
      case s': (2 s')
      have "translate (mem s') r' x =
        (if unat start \<le> unat x \<and> unat x < unat start + ?n * ?P then Some (paddr + (x - start), attr)
         else if flags = MAP_NEW then None else translate (mem s) r x)" if x: "unat x < 2 ^ 48" for x
      proof -
        have iff: "?q \<le> unat x div ?P \<and> unat x div ?P < ?q + ?n \<longleftrightarrow>
            unat start \<le> unat x \<and> unat x < unat start + ?n * ?P"
        proof -
          have "?q \<le> unat x div ?P \<longleftrightarrow> ?q * ?P \<le> unat x" using P(2) by (simp add: less_eq_div_iff_mult_less_eq)
          moreover have "unat x div ?P < ?q + ?n \<longleftrightarrow> unat x < (?q + ?n) * ?P" using P(2) by (simp add: div_less_iff_less_mult)
          moreover have "(?q + ?n) * ?P = unat start + ?n * ?P" using sq by (simp only: add_mult_distrib)
          ultimately show ?thesis using sq by (simp only:)
        qed
        show ?thesis
        proof (cases "?q \<le> unat x div ?P \<and> unat x div ?P < ?q + ?n")
          case True
          then have "pt_walk (mem s') r' x = Some (4 - ?D, (paddr + of_nat ((unat x div ?P - ?q) * ?P)) OR attr)"
            using s'(4) [OF x] by (simp only: Let_def if_True simp_thms)
          from translate_walk [OF this ps refl reg(4) l(4) sq] True iff show ?thesis by simp
        next
          case False
          then have "pt_walk (mem s') r' x = (if flags = MAP_NEW then None else pt_walk (mem s) r x)"
            using s'(4) [OF x] 2(8) by (simp only: Let_def if_False)
          then show ?thesis using False unfolding iff by (auto simp: translate_def)
        qed
      qed
      moreover have "map_region alloc link r start end_vaddr paddr ps attr flags s = Inr (r', s')"
        unfolding unf 2(1) using s'(1) by simp
      ultimately show ?thesis using s'(2,3) 2 by (intro disjI2 exI [of _ r'] exI [of _ s']) auto
    qed
  qed
qed

end

end
