(* ===== verification/Boot_Memory.thy ===== *)
theory Boot_Memory
  imports Page_Region
begin

text \<open>
  The memory of the second boot stage: the bump allocator of \<open>src/boot/stage2/memory.c\<close> and the page
  tables that \<open>src/boot/stage2/pmap.c\<close> builds with it.  The routines of that file are those of the
  process manager with \<open>calloc_align (1, PAGE_TABLE_SIZE, 0x1000)\<close> for \<open>alloc_page_table ()\<close>, so they
  are instances of the routines in \<open>Page_Map\<close>.  A null pointer is the address 0.

  Blocks handed out never overlap, as long as sizes and alignments are below the bounds of
  \<open>boot_step\<close>; the comparison that rejects large sizes wraps around beyond them.
\<close>

section \<open>The allocator\<close>

record boot = machine +
  memory_size :: addr
  boot_first_free :: addr

definition get_mem_size :: "'a boot_scheme \<Rightarrow> addr" where
  "get_mem_size s = memory_size s"

definition get_last_used_addr :: "'a boot_scheme \<Rightarrow> addr" where
  "get_last_used_addr s = boot_first_free s"

definition boot_uninit :: "'a boot_scheme \<Rightarrow> bool" where
  "boot_uninit s \<longleftrightarrow> memory_size s = 0 \<and> boot_first_free s = 0"

definition malloc :: "addr \<Rightarrow> 'a boot_scheme \<Rightarrow> (addr \<times> 'a boot_scheme) res" where
  "malloc size_arg s =
    (if size_arg = 0 then Inr (0, s)
     else if boot_uninit s then Inl (Panic ''Boot Stage2: Memory is not initialized!'')
     else if boot_first_free s + size_arg > memory_size s then Inr (0, s)
     else Inr (boot_first_free s, s\<lparr>boot_first_free := ALIGN (boot_first_free s + size_arg) 16\<rparr>))"

definition malloc_align :: "addr \<Rightarrow> addr \<Rightarrow> 'a boot_scheme \<Rightarrow> (addr \<times> 'a boot_scheme) res" where
  "malloc_align size_arg alignment s =
    (if size_arg = 0 then Inr (0, s)
     else if boot_uninit s then Inl (Panic ''Boot Stage2: Memory is not initialized!'')
     else if alignment \<ge> memory_size s then Inr (0, s)
     else
       (let block_start_addr = ALIGN (boot_first_free s) alignment in
        if block_start_addr + size_arg > memory_size s then Inr (0, s\<lparr>boot_first_free := block_start_addr\<rparr>)
        else Inr (block_start_addr, s\<lparr>boot_first_free := ALIGN (block_start_addr + size_arg) 16\<rparr>)))"

definition calloc :: "addr \<Rightarrow> addr \<Rightarrow> 'a boot_scheme \<Rightarrow> (addr \<times> 'a boot_scheme) res" where
  "calloc nmemb size_arg s =
    (if size_arg = 0 \<or> nmemb = 0 then Inr (0, s)
     else if boot_uninit s then Inl (Panic ''Boot Stage2: Memory is not initialized!'')
     else
       (let total_size = nmemb * size_arg; block_start_addr = boot_first_free s in
        if block_start_addr + total_size > memory_size s then Inr (0, s)
        else Inr (block_start_addr,
          s\<lparr>mem := memset block_start_addr 0 total_size (mem s),
            boot_first_free := ALIGN (block_start_addr + total_size) 16\<rparr>)))"

definition calloc_align :: "addr \<Rightarrow> addr \<Rightarrow> addr \<Rightarrow> 'a boot_scheme \<Rightarrow> (addr \<times> 'a boot_scheme) res" where
  "calloc_align nmemb size_arg alignment s =
    (if size_arg = 0 \<or> nmemb = 0 then Inr (0, s)
     else if boot_uninit s then Inl (Panic ''Boot Stage2: Memory is not initialized!'')
     else if alignment \<ge> memory_size s then Inr (0, s)
     else
       (let total_size = nmemb * size_arg; block_start_addr = ALIGN (boot_first_free s) alignment in
        if block_start_addr + total_size > memory_size s then Inr (0, s\<lparr>boot_first_free := block_start_addr\<rparr>)
        else Inr (block_start_addr,
          s\<lparr>mem := memset block_start_addr 0 total_size (mem s),
            boot_first_free := ALIGN (block_start_addr + total_size) 16\<rparr>)))"

definition boot_memory_init :: "addr \<Rightarrow> addr \<Rightarrow> 'a boot_scheme \<Rightarrow> 'a boot_scheme" where
  "boot_memory_init last_allocated_byte mem_size s =
    s\<lparr>memory_size := push_bit 10 mem_size, boot_first_free := ALIGN last_allocated_byte 16\<rparr>"

section \<open>Page tables of the boot stage\<close>

definition boot_page_table :: "'a boot_scheme \<Rightarrow> (addr \<times> 'a boot_scheme) res" where
  "boot_page_table = calloc_align 1 0x1000 0x1000"

definition boot_map_memory ::
    "addr \<Rightarrow> addr \<Rightarrow> addr \<Rightarrow> addr \<Rightarrow> cint \<Rightarrow> 16 word \<Rightarrow> cint \<Rightarrow> 'a boot_scheme \<Rightarrow> (addr \<times> 'a boot_scheme) res" where
  "boot_map_memory = map_memory boot_page_table"

definition boot_ept_map_memory ::
    "addr \<Rightarrow> addr \<Rightarrow> addr \<Rightarrow> addr \<Rightarrow> cint \<Rightarrow> byte \<Rightarrow> 16 word \<Rightarrow> cint \<Rightarrow> 'a boot_scheme \<Rightarrow>
     (addr \<times> 'a boot_scheme) res" where
  "boot_ept_map_memory = ept_map_memory boot_page_table"

definition boot_ept_map_page_tables ::
    "addr \<Rightarrow> addr \<Rightarrow> 16 word \<Rightarrow> 'a boot_scheme \<Rightarrow> (addr \<times> 'a boot_scheme) res" where
  "boot_ept_map_page_tables = ept_map_page_tables boot_page_table"

section \<open>Blocks\<close>

text \<open>
  The calls of the boot stage, with the blocks handed out so far (start and length, the latest
  first).  Sizes and alignments are at most half of the address space, alignments are powers of two.
\<close>

definition add_block :: "addr \<Rightarrow> nat \<Rightarrow> (nat \<times> nat) list \<Rightarrow> (nat \<times> nat) list" where
  "add_block p n bs = (if p = 0 then bs else (unat p, n) # bs)"

inductive boot_step :: "(nat \<times> nat) list \<times> boot \<Rightarrow> (nat \<times> nat) list \<times> boot \<Rightarrow> bool" where
  boot_malloc: "malloc n s = Inr (p, s') \<Longrightarrow> unat n \<le> 2 ^ 62 \<Longrightarrow>
    boot_step (bs, s) (add_block p (unat n) bs, s')"
| boot_malloc_align: "malloc_align n (2 ^ k) s = Inr (p, s') \<Longrightarrow> unat n \<le> 2 ^ 62 \<Longrightarrow> k \<le> 62 \<Longrightarrow>
    boot_step (bs, s) (add_block p (unat n) bs, s')"
| boot_calloc: "calloc c n s = Inr (p, s') \<Longrightarrow> unat c * unat n \<le> 2 ^ 62 \<Longrightarrow>
    boot_step (bs, s) (add_block p (unat c * unat n) bs, s')"
| boot_calloc_align: "calloc_align c n (2 ^ k) s = Inr (p, s') \<Longrightarrow> unat c * unat n \<le> 2 ^ 62 \<Longrightarrow> k \<le> 62 \<Longrightarrow>
    boot_step (bs, s) (add_block p (unat c * unat n) bs, s')"

text \<open>The blocks lie one below the other, from \<open>low\<close> up to the first free address.\<close>

primrec stacked :: "nat \<Rightarrow> (nat \<times> nat) list \<Rightarrow> nat \<Rightarrow> bool" where
  "stacked low [] hi \<longleftrightarrow> low \<le> hi"
| "stacked low (b # bs) hi \<longleftrightarrow> fst b + snd b \<le> hi \<and> stacked low bs (fst b)"

definition boot_inv :: "nat \<Rightarrow> nat \<Rightarrow> (nat \<times> nat) list \<times> 'a boot_scheme \<Rightarrow> bool" where
  "boot_inv low top_addr = (\<lambda>(bs, s). 0 < low \<and> unat (memory_size s) = top_addr \<and> top_addr \<le> 2 ^ 62 \<and>
    unat (boot_first_free s) \<le> 2 ^ 62 \<and> stacked low bs (unat (boot_first_free s)) \<and>
    (\<forall>b \<in> set bs. fst b + snd b \<le> top_addr))"

section \<open>Arithmetic of the bump pointer\<close>

lemma ALIGN_pow:
  assumes "unat x \<le> 2 ^ 62" "k \<le> 62"
  shows "unat x \<le> unat (ALIGN x (2 ^ k))" "unat (ALIGN x (2 ^ k)) \<le> 2 ^ 62" "2 ^ k dvd unat (ALIGN x (2 ^ k))"
    "unat (ALIGN x (2 ^ k)) < unat x + 2 ^ k"
proof -
  have p: "(2 :: nat) ^ k \<le> 2 ^ 62" using assms(2) by (rule power_increasing) simp
  have "unat (mask k :: addr) = 2 ^ k - 1"
  proof -
    have "(2 :: nat) ^ k - 1 < 2 ^ 64" using p by simp
    then have "unat (of_nat (2 ^ k - 1) :: addr) = 2 ^ k - 1" by (intro unat_of_nat_small) simp
    then show ?thesis by (simp only: mask_eq_exp_minus_1 of_nat_diff one_le_numeral one_le_power of_nat_power of_nat_numeral of_nat_1)
  qed
  then have "unat (x + mask k) = unat x + (2 ^ k - 1)"
    using assms(1) p by (simp add: unat_word_ariths)
  then have u: "unat (ALIGN x (2 ^ k)) = (unat x + (2 ^ k - 1)) - (unat x + (2 ^ k - 1)) mod 2 ^ k"
    using assms(2) by (simp only: ALIGN_mask unat_and_not_mask)
  have p1: "(1 :: nat) \<le> 2 ^ k" by simp
  have "(unat x + (2 ^ k - 1)) mod 2 ^ k < 2 ^ k" by simp
  then have m: "(unat x + (2 ^ k - 1)) mod 2 ^ k \<le> 2 ^ k - 1" by linarith
  show "unat x \<le> unat (ALIGN x (2 ^ k))" "unat (ALIGN x (2 ^ k)) < unat x + 2 ^ k"
    using u m p1 by linarith+
  show d: "2 ^ k dvd unat (ALIGN x (2 ^ k))" unfolding u by (simp add: minus_mod_eq_mult_div)
  show "unat (ALIGN x (2 ^ k)) \<le> 2 ^ 62"
  proof -
    obtain j where j: "unat (ALIGN x (2 ^ k)) = 2 ^ k * j" using d by (auto elim: dvdE)
    have "(2 :: nat) ^ 62 = 2 ^ k * 2 ^ (62 - k)" using assms(2) by (simp flip: power_add)
    moreover have "unat (ALIGN x (2 ^ k)) < 2 ^ 62 + 2 ^ k" using u m p1 assms(1) by linarith
    ultimately have "2 ^ k * j < 2 ^ k * (2 ^ (62 - k) + 1)" using j by (simp only: distrib_left mult_1_right)
    then have "j < 2 ^ (62 - k) + 1" by (rule mult_less_cancel1 [THEN iffD1, THEN conjunct2])
    then have "j \<le> 2 ^ (62 - k)" by simp
    then have "2 ^ k * j \<le> 2 ^ k * 2 ^ (62 - k)" by (rule mult_le_mono2)
    then show ?thesis using j \<open>(2 :: nat) ^ 62 = 2 ^ k * 2 ^ (62 - k)\<close> by (simp only:)
  qed
qed


lemma ALIGN_fix:
  assumes "unat x \<le> 2 ^ 62" "k \<le> 62" "2 ^ k dvd unat x"
  shows "ALIGN x (2 ^ k) = x"
proof -
  note al = ALIGN_pow [OF assms(1,2)]
  obtain i where i: "unat x = 2 ^ k * i" using assms(3) by (auto elim: dvdE)
  obtain j where j: "unat (ALIGN x (2 ^ k)) = 2 ^ k * j" using al(3) by (auto elim: dvdE)
  have "2 ^ k * j < 2 ^ k * (i + 1)" using al(4) i j by (simp only: distrib_left mult_1_right)
  then have "j < i + 1" by (rule mult_less_cancel1 [THEN iffD1, THEN conjunct2])
  moreover have "i \<le> j" using al(1) i j by simp
  ultimately have "i = j" by simp
  then show ?thesis using i j by (simp add: word_unat_eq_iff)
qed

lemma stacked_mono: "stacked low bs hi \<Longrightarrow> hi \<le> hi' \<Longrightarrow> stacked low bs hi'"
  by (cases bs) auto

lemma stacked_le: "stacked low bs hi \<Longrightarrow> low \<le> hi"
  by (induction bs arbitrary: hi) fastforce+

lemma stacked_in: "stacked low bs hi \<Longrightarrow> b \<in> set bs \<Longrightarrow> low \<le> fst b \<and> fst b + snd b \<le> hi"
  by (induction bs arbitrary: hi) (auto dest: stacked_le, fastforce)

lemma stacked_disjoint:
  "stacked low bs hi \<Longrightarrow> i < j \<Longrightarrow> j < length bs \<Longrightarrow> fst (bs ! j) + snd (bs ! j) \<le> fst (bs ! i)"
proof (induction bs arbitrary: hi i j)
  case (Cons b bs)
  obtain j' where j: "j = Suc j'" using Cons.prems(2) by (cases j) auto
  show ?case
  proof (cases i)
    case 0
    then show ?thesis using Cons.prems j stacked_in [of low bs "fst b" "bs ! j'"] by simp
  next
    case (Suc i')
    then show ?thesis using Cons.prems j Cons.IH [of "fst b" i' j'] by simp
  qed
qed simp

lemma boot_bump:
  assumes inv: "boot_inv low T (bs, s)" and a: "unat (boot_first_free s) \<le> unat a" "unat a \<le> 2 ^ 62"
    and n: "unat w = n" "n \<le> 2 ^ 62" "\<not> a + w > memory_size s"
    and s': "memory_size s' = memory_size s" "boot_first_free s' = ALIGN (a + w) 16"
  shows "boot_inv low T (add_block a n bs, s')" "a \<noteq> 0" "unat a + n \<le> T"
proof -
  have i: "0 < low" "unat (memory_size s) = T" "T \<le> 2 ^ 62" "stacked low bs (unat (boot_first_free s))"
    "\<forall>b \<in> set bs. fst b + snd b \<le> T" using inv by (auto simp: boot_inv_def)
  have aw: "unat (a + w) = unat a + n" using a(2) n(1,2) by (simp add: unat_word_ariths)
  then show t: "unat a + n \<le> T" using n(3) i(2) by (simp add: word_less_nat_alt not_less)
  have "unat (a + w) \<le> 2 ^ 62" using aw t i(3) by simp
  from ALIGN_pow [OF this, of 4] have al: "unat a + n \<le> unat (ALIGN (a + w) 16)" "unat (ALIGN (a + w) 16) \<le> 2 ^ 62"
    using aw by auto
  have "0 < unat a" using i(1) stacked_le [OF i(4)] a(1) by simp
  then show a0: "a \<noteq> 0" by auto
  show "boot_inv low T (add_block a n bs, s')"
    using i al t s' a0 stacked_mono [OF i(4) a(1)] by (auto simp: boot_inv_def add_block_def)
qed

lemma boot_skip: "boot_inv low T (bs, s) \<Longrightarrow> unat (boot_first_free s) \<le> unat a \<Longrightarrow> unat a \<le> 2 ^ 62 \<Longrightarrow>
    boot_inv low T (add_block 0 n bs, s\<lparr>boot_first_free := a\<rparr>)"
  by (auto simp: boot_inv_def add_block_def intro: stacked_mono)

lemma boot_stay: "boot_inv low T (bs, s) \<Longrightarrow> boot_inv low T (add_block 0 n bs, s)"
  by (simp add: add_block_def)

lemma boot_first: "boot_inv low T (bs, s) \<Longrightarrow> unat (boot_first_free s) \<le> 2 ^ 62"
  by (simp add: boot_inv_def)

text \<open>What a call can do: nothing, move the pointer, or hand out a block at \<open>a\<close> of \<open>w\<close> bytes.\<close>

definition bumped :: "addr \<Rightarrow> addr \<Rightarrow> addr \<Rightarrow> 'a boot_scheme \<Rightarrow> 'a boot_scheme \<Rightarrow> bool" where
  "bumped a w p s s' \<longleftrightarrow> p = 0 \<and> s' = s \<or> p = 0 \<and> s' = s\<lparr>boot_first_free := a\<rparr> \<or>
    p = a \<and> \<not> a + w > memory_size s \<and> memory_size s' = memory_size s \<and> boot_first_free s' = ALIGN (a + w) 16"

lemma malloc_bumped: "malloc n s = Inr (p, s') \<Longrightarrow> bumped (boot_first_free s) n p s s'"
  by (auto simp: malloc_def bumped_def split: if_splits)

lemma malloc_align_bumped:
  "malloc_align n k s = Inr (p, s') \<Longrightarrow> bumped (ALIGN (boot_first_free s) k) n p s s'"
  by (auto simp: malloc_align_def bumped_def Let_def split: if_splits)

lemma calloc_bumped: "calloc c n s = Inr (p, s') \<Longrightarrow> bumped (boot_first_free s) (c * n) p s s'"
  by (auto simp: calloc_def bumped_def Let_def split: if_splits)

lemma calloc_align_bumped:
  "calloc_align c n k s = Inr (p, s') \<Longrightarrow> bumped (ALIGN (boot_first_free s) k) (c * n) p s s'"
  by (auto simp: calloc_align_def bumped_def Let_def split: if_splits)

lemma bumped_inv:
  assumes "bumped a w p s s'" "boot_inv low T (bs, s)" "unat w = n" "n \<le> 2 ^ 62"
    and a: "unat (boot_first_free s) \<le> unat a" "unat a \<le> 2 ^ 62"
  shows "boot_inv low T (add_block p n bs, s')"
  using assms(1) unfolding bumped_def
proof (elim disjE conjE)
  assume "p = a" "\<not> a + w > memory_size s" "memory_size s' = memory_size s" "boot_first_free s' = ALIGN (a + w) 16"
  then show ?thesis using boot_bump(1) [OF assms(2) a assms(3,4)] by simp
qed (use boot_stay [OF assms(2)] boot_skip [OF assms(2) a] in simp_all)

lemma boot_step_inv:
  assumes "boot_step c c'" "boot_inv low T c"
  shows "boot_inv low T c'"
  using assms
proof (induction rule: boot_step.induct)
  case (boot_malloc n s p s' bs)
  show ?case
    by (rule bumped_inv [OF malloc_bumped [OF boot_malloc.hyps(1)] boot_malloc.prems refl boot_malloc.hyps(2)
          order_refl boot_first [OF boot_malloc.prems]])
next
  case (boot_malloc_align n k s p s' bs)
  note al = ALIGN_pow [OF boot_first [OF boot_malloc_align.prems] boot_malloc_align.hyps(3)]
  show ?case
    by (rule bumped_inv [OF malloc_align_bumped [OF boot_malloc_align.hyps(1)] boot_malloc_align.prems refl
          boot_malloc_align.hyps(2) al(1,2)])
next
  case (boot_calloc c n s p s' bs)
  have u: "unat (c * n) = unat c * unat n" using boot_calloc.hyps(2) by (simp add: unat_word_ariths)
  show ?case
    by (rule bumped_inv [OF calloc_bumped [OF boot_calloc.hyps(1)] boot_calloc.prems u boot_calloc.hyps(2)
          order_refl boot_first [OF boot_calloc.prems]])
next
  case (boot_calloc_align c n k s p s' bs)
  note al = ALIGN_pow [OF boot_first [OF boot_calloc_align.prems] boot_calloc_align.hyps(3)]
  have u: "unat (c * n) = unat c * unat n" using boot_calloc_align.hyps(2) by (simp add: unat_word_ariths)
  show ?case
    by (rule bumped_inv [OF calloc_align_bumped [OF boot_calloc_align.hyps(1)] boot_calloc_align.prems u
          boot_calloc_align.hyps(2) al(1,2)])
qed

section \<open>The allocator as a provider of page tables\<close>

definition boot_ok :: "'a boot_scheme \<Rightarrow> bool" where
  "boot_ok s \<longleftrightarrow> 0 < boot_first_free s \<and> unat (boot_first_free s) \<le> 2 ^ 62 \<and> unat (memory_size s) \<le> 2 ^ 62"

definition below_free :: "'a boot_scheme \<Rightarrow> addr set" where
  "below_free s = {p. unat p + 4096 \<le> unat (boot_first_free s)}"

definition boot_pages :: "'a boot_scheme \<Rightarrow> nat" where
  "boot_pages s = (unat (memory_size s) - unat (ALIGN (boot_first_free s) 0x1000)) div 4096"

lemma boot_page_table_cases:
  assumes "boot_ok s"
  defines "a \<equiv> ALIGN (boot_first_free s) 0x1000"
  obtains s' where "boot_page_table s = Inr (0, s')" "boot_pages s = 0"
  | "boot_page_table s = Inr (a, s\<lparr>mem := memset a 0 0x1000 (mem s), boot_first_free := a + 0x1000\<rparr>)"
      "page_ok a" "unat (boot_first_free s) \<le> unat a" "unat (a + 0x1000) = unat a + 4096"
      "unat a + 4096 \<le> unat (memory_size s)"
proof -
  have ok: "0 < unat (boot_first_free s)" "unat (boot_first_free s) \<le> 2 ^ 62" "unat (memory_size s) \<le> 2 ^ 62"
    using assms(1) by (auto simp: boot_ok_def word_gt_0 unat_gt_0)
  note al = ALIGN_pow [OF ok(2), of 12]
  have a: "unat (boot_first_free s) \<le> unat a" "unat a \<le> 2 ^ 62" "4096 dvd unat a"
    using al by (simp_all add: a_def)
  have a1: "unat (a + 0x1000) = unat a + 4096" using a(2) by (simp add: unat_word_ariths)
  have nz: "a \<noteq> 0" using a(1) ok(1) by auto
  have nu: "\<not> boot_uninit s" using ok(1) by (auto simp: boot_uninit_def)
  show ?thesis
  proof (cases "unat a + 4096 \<le> unat (memory_size s)")
    case True
    have "\<not> 0x1000 \<ge> memory_size s"
      using True a(1) ok(1) by (simp add: word_le_nat_alt)
    moreover have "\<not> a + 0x1000 > memory_size s" using True a1 by (simp add: word_less_nat_alt)
    moreover have "ALIGN (a + 0x1000) 16 = a + 0x1000"
    proof -
      have "(16 :: nat) dvd 4096" by simp
      then have "16 dvd unat a" using a(3) by (rule dvd_trans)
      then have "16 dvd unat (a + 0x1000)" unfolding a1 by (simp add: dvd_add)
      then show ?thesis using ALIGN_fix [of "a + 0x1000" 4] a1 True ok(3) by simp
    qed
    ultimately have "boot_page_table s = Inr (a, s\<lparr>mem := memset a 0 0x1000 (mem s), boot_first_free := a + 0x1000\<rparr>)"
      using nu by (simp add: boot_page_table_def calloc_align_def Let_def a_def [symmetric])
    then show ?thesis using that(2) a a1 True nz by (simp add: page_ok_def)
  next
    case False
    have "a + 0x1000 > memory_size s" using False a1 by (simp add: word_less_nat_alt)
    then have "\<exists>s'. boot_page_table s = Inr (0, s')"
      using nu by (auto simp: boot_page_table_def calloc_align_def Let_def a_def [symmetric])
    moreover have "boot_pages s = 0" using False by (simp add: boot_pages_def a_def [symmetric])
    ultimately show ?thesis using that(1) by blast
  qed
qed


interpretation bt: table_alloc boot_page_table boot_ok below_free boot_pages
proof
  fix s :: "'a boot_scheme" and m
  show "boot_ok (s\<lparr>mem := m\<rparr>)" if "boot_ok s" using that by (simp add: boot_ok_def)
  show "below_free (s\<lparr>mem := m\<rparr>) = below_free s" by (simp add: below_free_def)
  show "boot_pages (s\<lparr>mem := m\<rparr>) = boot_pages s" by (simp add: boot_pages_def)
next
  fix s :: "'a boot_scheme" assume "boot_ok s"
  then show "\<exists>p s'. boot_page_table s = Inr (p, s')" by (rule boot_page_table_cases) auto
next
  fix s s' :: "'a boot_scheme" and p
  assume ok: "boot_ok s" and a: "boot_page_table s = Inr (p, s')" and p: "p \<noteq> 0"
  let ?a = "ALIGN (boot_first_free s) 0x1000"
  from boot_page_table_cases [OF ok] show "boot_ok s' \<and> page_ok p \<and> p \<notin> below_free s \<and>
      insert p (below_free s) \<subseteq> below_free s' \<and> zero_page (mem s') p \<and>
      (\<forall>x. \<not> in_region p 4096 x \<longrightarrow> mem s' x = mem s x)"
  proof cases
    case 1
    then show ?thesis using a p by simp
  next
    case 2
    have e: "p = ?a" "s' = s\<lparr>mem := memset ?a 0 0x1000 (mem s), boot_first_free := ?a + 0x1000\<rparr>" using 2(1) a by auto
    have "boot_ok s'" using ok 2(4,5) e by (auto simp: boot_ok_def word_gt_0 simp flip: unat_eq_0)
    then show ?thesis using e 2 by (auto simp: below_free_def zero_page_def memset_apply)
  qed
next
  fix s s' :: "'a boot_scheme" and p
  assume ok: "boot_ok s" and a: "boot_page_table s = Inr (p, s')"
  let ?a = "ALIGN (boot_first_free s) 0x1000"
  from boot_page_table_cases [OF ok]
  show "if p = 0 then boot_pages s = 0 else boot_pages s \<le> Suc (boot_pages s')"
  proof cases
    case 1
    then show ?thesis using a by simp
  next
    case 2
    have e: "p = ?a" "s' = s\<lparr>mem := memset ?a 0 0x1000 (mem s), boot_first_free := ?a + 0x1000\<rparr>" using 2(1) a by auto
    have "ALIGN (?a + 0x1000) 0x1000 = ?a + 0x1000"
      using ALIGN_fix [of "?a + 0x1000" 12] 2(2,4,5) ok by (simp add: page_ok_def boot_ok_def)
    then have "boot_pages s' = (unat (memory_size s) - (unat ?a + 4096)) div 4096"
      using e 2(4) by (simp add: boot_pages_def)
    moreover have "boot_pages s = (unat (memory_size s) - (unat ?a + 4096) + 4096) div 4096"
      using 2(5) by (simp add: boot_pages_def)
    ultimately show ?thesis using e 2(2) by (simp add: page_ok_def)
  qed
qed


section \<open>Properties\<close>

definition zero_boot :: boot where
  "zero_boot = \<lparr>mem = (\<lambda>_. 0), memory_size = 0, boot_first_free = 0\<rparr>"

lemma boot_init_inv:
  assumes "0 < last_byte" "unat last_byte \<le> 2 ^ 61" "unat kb \<le> 2 ^ 52"
  shows "boot_inv (unat last_byte) (1024 * unat kb) ([], boot_memory_init last_byte kb s)"
proof -
  have "unat last_byte \<le> 2 ^ 62" using assms(2) by simp
  from ALIGN_pow [OF this, of 4] have "unat last_byte \<le> unat (ALIGN last_byte 16)" "unat (ALIGN last_byte 16) \<le> 2 ^ 62"
    by auto
  moreover have "unat (push_bit 10 kb) = 1024 * unat kb"
    using assms(3) by (simp add: push_bit_eq_mult unat_word_ariths)
  ultimately show ?thesis
    using assms by (simp add: boot_inv_def boot_memory_init_def word_gt_0 unat_gt_0)
qed

lemma boot_steps_inv: "boot_step\<^sup>*\<^sup>* c c' \<Longrightarrow> boot_inv low T c \<Longrightarrow> boot_inv low T c'"
  by (induction rule: rtranclp_induct) (auto intro: boot_step_inv)


lemma demo_boot_steps:
  "boot_step\<^sup>*\<^sup>* ([], boot_memory_init 0x100008 0x800 zero_boot)
     ([(0x101000, 0x1000), (0x100010, 0x30)],
      zero_boot\<lparr>mem := memset 0x101000 0 0x1000 (\<lambda>_. 0), memory_size := 0x200000, boot_first_free := 0x102000\<rparr>)"
proof -
  let ?s0 = "boot_memory_init 0x100008 0x800 zero_boot"
  let ?s1 = "zero_boot\<lparr>memory_size := 0x200000, boot_first_free := 0x100040\<rparr>"
  let ?s2 = "zero_boot\<lparr>mem := memset 0x101000 0 0x1000 (\<lambda>_. 0), memory_size := 0x200000, boot_first_free := 0x102000\<rparr>"
  have 0: "?s0 = zero_boot\<lparr>memory_size := 0x200000, boot_first_free := 0x100010\<rparr>"
    by (simp add: boot_memory_init_def ALIGN_def push_bit_eq_mult)
  have "malloc 0x30 ?s0 = Inr (0x100010, ?s1)"
    unfolding 0 by (simp add: malloc_def boot_uninit_def ALIGN_def zero_boot_def)
  from boot_step.boot_malloc [OF this, of "[]"] have 1: "boot_step ([], ?s0) ([(0x100010, 0x30)], ?s1)"
    by (simp add: add_block_def)
  have "calloc_align 1 0x1000 (2 ^ 12) ?s1 = Inr (0x101000, ?s2)"
    by (simp add: calloc_align_def boot_uninit_def ALIGN_def zero_boot_def Let_def)
  from boot_step.boot_calloc_align [OF this, of "[(0x100010, 0x30)]"]
  have "boot_step ([(0x100010, 0x30)], ?s1) ([(0x101000, 0x1000), (0x100010, 0x30)], ?s2)"
    by (simp add: add_block_def)
  with 1 show ?thesis by (meson rtranclp.rtrancl_into_rtrancl rtranclp.rtrancl_refl)
qed


text \<open>
  C22.  With pages left for the tables, \<open>map_memory\<close> of the boot stage makes every address of the
  region, and no other, translate to its place in the physical region, as the processor walks the
  tables it built; the tables lie in memory that was free before.
\<close>

theorem boot_map_memory_translates:
  assumes "page_size_ok ps" "start < end_vaddr" "unat end_vaddr \<le> 2 ^ 42" "unat ps dvd unat start" "unat ps dvd unat paddr"
    "bit protection 0" "protection AND 0xF000 = 0" "boot_ok s" "3 * page_count start end_vaddr ps < boot_pages s"
  shows "\<exists>r s'. boot_map_memory 0 start end_vaddr paddr ps protection MAP_NEW s = Inr (r, s') \<and> boot_ok s' \<and>
    r \<notin> below_free s \<and>
    (\<forall>x. unat x < 2 ^ 48 \<longrightarrow> translate (mem s') r x =
      (if unat start \<le> unat x \<and> unat x < unat start + page_count start end_vaddr ps * unat ps
       then Some (paddr + (x - start), ucast (large_prot ps protection)) else None))"
proof -
  have p: "prot_ok protection" using assms(6,7) by (simp add: prot_ok_def)
  have l: "link_ok 3" by (simp add: link_ok_def)
  from bt.map_region_ok [OF assms(1) l word16_attr [OF p] assms(2-5), of MAP_NEW s 0] assms(8,9)
  show ?thesis by (auto simp: boot_map_memory_def map_memory_def bt.tables_ok_def)
qed


text \<open>16 MB of memory, used up to 1 MB.\<close>

definition demo_boot :: boot where
  "demo_boot = zero_boot\<lparr>memory_size := 0x1000000, boot_first_free := 0x100000\<rparr>"

theorem boot_map_memory_translates_witness:
  "\<exists>r s. boot_map_memory 0 0x200000 0x400000 0x600000 SZ_2MB 3 MAP_NEW demo_boot = Inr (r, s) \<and>
     translate (mem s) r 0x212345 = Some (0x612345, 0x83) \<and> translate (mem s) r 0x412345 = None"
proof -
  have ok: "boot_ok demo_boot" by (simp add: boot_ok_def demo_boot_def)
  have pg: "page_count 0x200000 0x400000 SZ_2MB = 1" "boot_pages demo_boot = 3840"
    by (simp_all add: page_count_def boot_pages_def demo_boot_def ALIGN_def)
  have "page_size_ok SZ_2MB" by (simp add: page_size_ok_def)
  from boot_map_memory_translates [OF this _ _ _ _ _ _ ok, of "0x200000" "0x400000" "0x600000" 3] pg
  obtain r s where *: "boot_map_memory 0 0x200000 0x400000 0x600000 SZ_2MB 3 MAP_NEW demo_boot = Inr (r, s)"
    "\<forall>x. unat x < 2 ^ 48 \<longrightarrow> translate (mem s) r x =
      (if 0x200000 \<le> unat x \<and> unat x < 0x400000
       then Some (0x600000 + (x - 0x200000), ucast (large_prot SZ_2MB 3)) else None)"
    by auto
  from *(2) [rule_format, of "0x212345"] *(2) [rule_format, of "0x412345"]
  have "translate (mem s) r 0x212345 = Some (0x612345, 0x83)" "translate (mem s) r 0x412345 = None"
    by (simp_all add: large_prot_def)
  with *(1) show ?thesis by blast
qed

text \<open>
  The test \<open>first_free_addr + size > memory_size\<close> wraps around: a request that reaches past
  the end of the address space is granted, however little memory there is.
\<close>

lemma malloc_wraps:
  assumes "\<not> boot_uninit s" "boot_first_free s \<le> memory_size s" "2 ^ 64 \<le> unat (boot_first_free s) + unat n"
  shows "\<exists>s'. malloc n s = Inr (boot_first_free s, s') \<and> unat (memory_size s) < unat (boot_first_free s) + unat n"
proof -
  have m: "unat (memory_size s) < 2 ^ 64" "unat n < 2 ^ 64"
    using unsigned_less [of "memory_size s", where ?'a = nat] unsigned_less [of n, where ?'a = nat] by simp_all
  have f: "unat (boot_first_free s) < 2 ^ 64" using unsigned_less [of "boot_first_free s", where ?'a = nat] by simp
  have "(unat (boot_first_free s) + unat n) mod 2 ^ 64 = (unat (boot_first_free s) + unat n - 2 ^ 64) mod 2 ^ 64"
    using assms(3) by (rule le_mod_geq)
  also have "\<dots> = unat (boot_first_free s) + unat n - 2 ^ 64"
    using m(2) f assms(3) by (intro mod_less) linarith
  finally have "unat (boot_first_free s + n) = unat (boot_first_free s) + unat n - 2 ^ 64"
    by (simp only: unat_word_ariths len64)
  then have "\<not> boot_first_free s + n > memory_size s"
    using assms(2) m(2) unfolding word_less_nat_alt word_le_nat_alt by linarith
  moreover have "n \<noteq> 0"
  proof
    assume "n = 0"
    then have "2 ^ 64 \<le> unat (boot_first_free s)" using assms(3) by (simp only: unsigned_0 add_0_right)
    then show False using f by linarith
  qed
  moreover have "unat (memory_size s) < unat (boot_first_free s) + unat n" using m(1) assms(3) by linarith
  ultimately show ?thesis using assms(1) by (simp add: malloc_def)
qed

lemma malloc_wraps_witness:
  "\<exists>s'. malloc (- 0x1000) demo_boot = Inr (0x100000, s') \<and> (2 :: nat) ^ 24 < unat (- 0x1000 :: addr)"
proof -
  have "\<not> boot_uninit demo_boot" "boot_first_free demo_boot \<le> memory_size demo_boot"
    "2 ^ 64 \<le> unat (boot_first_free demo_boot) + unat (- 0x1000 :: addr)"
    by (simp_all add: boot_uninit_def demo_boot_def)
  from malloc_wraps [OF this] show ?thesis by (auto simp: demo_boot_def)
qed

end
