(* ===== verification/Ipc.thy ===== *)
theory Ipc
  imports Cpu_Types
begin

text \<open>
  Messages between programs: \<open>src/lib/bitmap.c\<close>, \<open>src/lib/ipc.c\<close> and \<open>src/lib/misc.c\<close>.

  A program writes its request into its own output box and sets its bit in the bitmap of the
  server.  The server polls its bitmap, clears the bit and reads the box of the sender.  The reply
  goes to a box in the input page of the program, one box per possible sender; a non-zero number
  marks a full box, so the number is written last.

  The polling loops are modelled on one memory: each loop either finds what it waits for or gives
  \<open>Blocked\<close>.  The static counters are passed and returned.  \<open>1 << bit\<close> of the bitmap routines has
  type \<open>int\<close>: it is sign-extended to the 64 bits of the map, and a shift outside 0 to 31 is
  undefined in C.
\<close>

section \<open>Definitions\<close>

definition one_shl :: "cint \<Rightarrow> cint res" where
  "one_shl k = (if k < 32 then Inr (push_bit (unat k) 1) else Inl (Fault ''shift''))"

definition set_bit_map :: "addr \<Rightarrow> cint \<Rightarrow> memory \<Rightarrow> memory res" where
  "set_bit_map bitmap k m =
    bindr (one_shl k) (\<lambda>b. Inr (store64 m bitmap (load64 m bitmap OR scast b)))"

definition clear_bit_map :: "addr \<Rightarrow> cint \<Rightarrow> memory \<Rightarrow> memory res" where
  "clear_bit_map bitmap k m =
    bindr (one_shl k) (\<lambda>b. Inr (store64 m bitmap (load64 m bitmap AND scast (NOT b))))"

definition check_bit_map :: "addr \<Rightarrow> cint \<Rightarrow> memory \<Rightarrow> cint res" where
  "check_bit_map bitmap k m =
    bindr (one_shl k) (\<lambda>b. Inr (ucast (drop_bit (unat k) (load64 m bitmap AND scast b))))"

definition check_server :: "cpu_info \<Rightarrow> bool" where
  "check_server c \<longleftrightarrow> \<not> NUMBER_SERVERS < cpuid c"

definition is_driver :: "addr \<Rightarrow> bool" where
  "is_driver i \<longleftrightarrow> i = KBD_ID \<or> i = CONSOLE_ID \<or> i = JUNK_ID"

definition msg_send :: "cpu_info \<Rightarrow> cint \<Rightarrow> cint \<Rightarrow> addr \<Rightarrow> cint \<Rightarrow> memory \<Rightarrow> memory res" where
  "msg_send c dest num dat sz m =
    (let id = ucast (cpuid c) :: cint;
         m1 = store64 m (msg_output c) (scast id);
         m2 = store64 m1 (msg_output c + 8) (scast num);
         m3 = memcpy (message_data (msg_output c)) dat (scast sz) m2
     in set_bit_map (msg_ready_bitmap c + 8 * scast dest) id m3)"

text \<open>
  The inner loop of \<open>msg_receive (ANY)\<close>: scan the boxes from \<open>i\<close>, stop behind the first full one.
\<close>

function receive_scan :: "addr \<Rightarrow> cint \<Rightarrow> cint \<Rightarrow> memory \<Rightarrow> cint \<times> cint option \<times> memory" where
  "receive_scan inp i n m =
    (if i <s n then
       (if load64 m (inp + MSG_SIZE * scast i + 8) \<noteq> 0
        then (i + 1, Some i, store64 m (inp + MSG_SIZE * scast i + 8) 0)
        else receive_scan inp (i + 1) n m)
     else (i, None, m))"
  by pat_completeness auto

termination receive_scan
  by (relation "measure (\<lambda>(inp, i, n, m). nat (sint n - sint i))")
    (auto simp: word_sless_alt sint_succ)

text \<open>
  One round of the outer loop, and the outer loop: a second round starts at box 0, and when it finds
  nothing no later round does.
\<close>

definition receive_round :: "cpu_info \<Rightarrow> cint \<Rightarrow> memory \<Rightarrow> cint \<times> cint option \<times> memory" where
  "receive_round c i m =
    (let n = ucast (ncpus c); (i', r, m') = receive_scan (msg_input c) i n m
     in (if i' <s n then i' else 0, r, m'))"

definition msg_receive :: "cpu_info \<Rightarrow> cint \<Rightarrow> cint \<Rightarrow> memory \<Rightarrow> (cint \<times> cint \<times> memory) res" where
  "msg_receive c i sender m =
    (if sender = - 1 then
       (case receive_round c i m of
          (i1, Some f, m1) \<Rightarrow> Inr (i1, f, m1)
        | (i1, None, m1) \<Rightarrow>
           (case receive_round c i1 m1 of
              (i2, Some f, m2) \<Rightarrow> Inr (i2, f, m2)
            | (i2, None, m2) \<Rightarrow> Inl Blocked))
     else
       (let p = msg_input c + MSG_SIZE * scast sender + 8 in
        if load64 m p \<noteq> 0 then Inr (i, sender, store64 m p 0) else Inl Blocked))"

text \<open>The scan of \<open>msg_check\<close>: the first processor whose bit is read as 1, or -1.\<close>

function check_scan :: "addr \<Rightarrow> cint \<Rightarrow> addr \<Rightarrow> memory \<Rightarrow> cint res" where
  "check_scan bitmap i n m =
    (if scast i < n then
       bindr (check_bit_map bitmap i m)
         (\<lambda>b. if b = 1 then Inr i else check_scan bitmap (i + 1) n m)
     else Inr (- 1))"
  by pat_completeness auto

termination check_scan
proof (relation "measure (\<lambda>(bitmap, i, n, m). 32 - unat i)")
  fix bitmap i n m b
  assume "check_bit_map bitmap i m = Inr b"
  then have "i < 32"
    by (auto simp: check_bit_map_def one_shl_def split: if_splits)
  then have "unat i < 32" "unat (i + 1) = Suc (unat i)"
    by (auto simp: word_less_nat_alt unat_word_ariths)
  then show "((bitmap, i + 1, n, m), bitmap, i, n, m) \<in> measure (\<lambda>(bitmap, i, n, m). 32 - unat i)"
    by simp
qed simp

declare receive_scan.simps [simp del] check_scan.simps [simp del]

definition msg_check :: "cpu_info \<Rightarrow> memory \<Rightarrow> (addr \<times> memory) res" where
  "msg_check c m =
    (let id = ucast (cpuid c) :: cint; bitmap = msg_ready_bitmap c + 8 * scast id in
     if \<not> check_server c then Inr (msg_input c, m)
     else if load64 m bitmap = 0 then Inl Blocked
     else bindr (check_scan bitmap 0 (ncpus c) m)
       (\<lambda>sender. bindr (clear_bit_map bitmap sender m)
         (\<lambda>m'. Inr (msg_output c - scast (SZ_4KB * id) + scast (SZ_4KB * sender), m'))))"

definition msg_reply ::
    "cpu_info \<Rightarrow> cint \<Rightarrow> cint \<Rightarrow> cint \<Rightarrow> addr \<Rightarrow> cint \<Rightarrow> memory \<Rightarrow> memory res" where
  "msg_reply c sender dest num dat sz m =
    (if \<not> check_server c then Inl (Panic ''Only Servers can use msg_reply!'')
     else
       (let id = ucast (cpuid c) :: cint;
            inbox = msg_input c - scast (SZ_4KB * id) + scast (SZ_4KB * dest);
            p = inbox + MSG_SIZE * scast sender;
            m1 = store64 m p (scast sender);
            m2 = memcpy (message_data p) dat (scast sz) m1
        in Inr (store64 m2 (p + 8) (scast num))))"

section \<open>Layout of the boxes and the set of pending senders\<close>

text \<open>
  The boot loader gives processor \<open>k\<close> the 4 KB piece number \<open>k\<close> of the input and of the output
  page, and all processors the same array of bitmaps, one word per server.
\<close>

definition ipc_layout :: "(nat \<Rightarrow> cpu_info) \<Rightarrow> nat \<Rightarrow> addr \<Rightarrow> addr \<Rightarrow> addr \<Rightarrow> bool" where
  "ipc_layout cs n inb outb bm \<longleftrightarrow>
    n \<le> MAX_CPUS \<and> sep_off outb (4096 * n) bm (8 * n) \<and>
    sep_off inb (4096 * n) bm (8 * n) \<and> sep_off inb (4096 * n) outb (4096 * n) \<and>
    (\<forall>k<n. cpuid (cs k) = of_nat k \<and> ncpus (cs k) = of_nat n \<and>
       msg_input (cs k) = inb + of_nat (4096 * k) \<and>
       msg_output (cs k) = outb + of_nat (4096 * k) \<and> msg_ready_bitmap (cs k) = bm)"

definition pending :: "memory \<Rightarrow> addr \<Rightarrow> nat \<Rightarrow> nat \<Rightarrow> bool" where
  "pending m bm srv k \<longleftrightarrow> bit (load64 m (bm + of_nat (8 * srv))) k"

text \<open>A machine with 32 processors whose boxes lie at 4 MB and 6 MB and whose bitmaps at 8 MB.\<close>

definition demo_cpus :: "nat \<Rightarrow> cpu_info" where
  "demo_cpus k = zero_cpu\<lparr>cpuid := of_nat k, ncpus := 32, msg_input := 0x400000 + of_nat (4096 * k),
     msg_output := 0x600000 + of_nat (4096 * k), msg_ready_bitmap := 0x800000\<rparr>"

text \<open>The memory after the first three writes of \<open>msg_send\<close>, with \<open>k\<close> bytes of data.\<close>

definition box_written :: "cpu_info \<Rightarrow> cint \<Rightarrow> addr \<Rightarrow> nat \<Rightarrow> memory \<Rightarrow> memory" where
  "box_written c num dat k m =
    memcpy (message_data (msg_output c)) dat (of_nat k)
      (store64 (store64 m (msg_output c) (ucast (cpuid c))) (msg_output c + 8) (scast num))"

text \<open>Box \<open>k\<close> of an input piece: full when its number is not zero.\<close>

definition box_full :: "memory \<Rightarrow> addr \<Rightarrow> nat \<Rightarrow> bool" where
  "box_full m inp k \<longleftrightarrow> load64 m (inp + of_nat (64 * k) + 8) \<noteq> 0"

definition empty_box :: "addr \<Rightarrow> nat \<Rightarrow> memory \<Rightarrow> memory" where
  "empty_box inp k m = store64 m (inp + of_nat (64 * k) + 8) 0"

text \<open>
  \<open>*bitmap |= 1 << bit\<close> reads the word and then writes it back, and other processors run between
  the two.  \<open>tgt k\<close> is the word on which processor \<open>k\<close> works.
\<close>

datatype rmw_pc = Before | Loaded addr | After

inductive rmw_step ::
    "(nat \<Rightarrow> addr) \<Rightarrow> memory \<times> (nat \<Rightarrow> rmw_pc) \<Rightarrow> memory \<times> (nat \<Rightarrow> rmw_pc) \<Rightarrow> bool"
  for tgt :: "nat \<Rightarrow> addr" where
  rmw_load: "pc k = Before \<Longrightarrow> k < 31 \<Longrightarrow>
    rmw_step tgt (m, pc) (m, pc(k := Loaded (load64 m (tgt k))))"
| rmw_store: "pc k = Loaded v \<Longrightarrow> k < 31 \<Longrightarrow>
    rmw_step tgt (m, pc) (store64 m (tgt k) (v OR 2 ^ k), pc(k := After))"

section \<open>The bitmap\<close>

lemma one_shl_ok [simp]: "k < 32 \<Longrightarrow> one_shl (of_nat k) = Inr (2 ^ k)"
  by (simp add: one_shl_def unat_of_nat_small word_less_nat_alt)

lemma scast_one_shl: "k < 31 \<Longrightarrow> scast (2 ^ k :: cint) = (2 ^ k :: addr)"
  by (rule bit_word_eqI) (auto simp: bit_simps min_def)

lemma scast_not_one_shl: "k < 31 \<Longrightarrow> scast (NOT (2 ^ k) :: cint) = (NOT (2 ^ k) :: addr)"
  by (rule bit_word_eqI) (auto simp: bit_simps min_def)

lemma set_bit_map_ok:
  "k < 31 \<Longrightarrow> set_bit_map p (of_nat k) m = Inr (store64 m p (load64 m p OR 2 ^ k))"
  by (simp add: set_bit_map_def scast_one_shl)

lemma clear_bit_map_ok:
  "k < 31 \<Longrightarrow> clear_bit_map p (of_nat k) m = Inr (store64 m p (load64 m p AND NOT (2 ^ k)))"
  by (simp add: clear_bit_map_def scast_not_one_shl)

lemma check_bit_map_ok:
  "k < 31 \<Longrightarrow> check_bit_map p (of_nat k) m = Inr (if bit (load64 m p) k then 1 else 0)"
  by (auto simp: check_bit_map_def scast_one_shl unat_of_nat_small intro!: bit_word_eqI)
    (auto simp: bit_simps min_def split: if_splits)

text \<open>
  The scan meets the senders in the order of their numbers: it stops at the first pending one.
\<close>

lemma check_scan_skip:
  assumes "k \<le> 31" "of_nat k \<le> n" "\<And>j. j < k \<Longrightarrow> \<not> bit (load64 m p) j"
  shows "check_scan p 0 n m = check_scan p (of_nat k) n m"
  using assms
proof (induction k)
  case (Suc k)
  have "(of_nat k :: addr) < of_nat (Suc k)"
    using Suc.prems(1) by (simp add: word_less_nat_alt unat_of_nat_small del: of_nat_Suc)
  then have "(of_nat k :: addr) < n" using Suc.prems(2) by (rule less_le_trans)
  moreover have "check_scan p 0 n m = check_scan p (of_nat k) n m"
    using Suc.prems \<open>(of_nat k :: addr) < n\<close> by (intro Suc.IH) auto
  moreover have "of_nat k + 1 = (of_nat (Suc k) :: cint)" by simp
  moreover have "check_bit_map p (of_nat k) m = Inr 0"
    using Suc.prems by (simp add: check_bit_map_ok)
  moreover have "scast (of_nat k :: cint) = (of_nat k :: addr)"
    using Suc.prems(1) by (intro scast_of_nat_cint) simp
  ultimately show ?case
    using check_scan.simps [of p "of_nat k" n m] by (simp del: of_nat_Suc)
qed simp

lemma check_scan_first:
  assumes "k < 31" "of_nat k < n" "bit (load64 m p) k"
    and "\<And>j. j < k \<Longrightarrow> \<not> bit (load64 m p) j"
  shows "check_scan p 0 n m = Inr (of_nat k)"
proof -
  have "check_scan p 0 n m = check_scan p (of_nat k) n m"
    using assms by (intro check_scan_skip) auto
  then show ?thesis
    using assms by (subst (asm) (2) check_scan.simps) (simp add: check_bit_map_ok scast_of_nat_cint)
qed

section \<open>Requests\<close>

lemma sep_off_disjoint_abs: "sep_off a n b k \<Longrightarrow> disjoint_regions a n b k"
  using sep_off_disjoint [of a n b k 0] by simp

lemma piece_disjoint:
  assumes "sep_off a n b k" "unat i + n' \<le> n" "unat j + k' \<le> k"
  shows "disjoint_regions (a + i) n' (b + j) k'"
  using sep_off_disjoint_abs [OF assms(1)] assms(2,3)
  by (meson disjoint_regions_def in_region_sub)

lemma ucast_cpuid: "k < 256 \<Longrightarrow> ucast (of_nat k :: byte) = (of_nat k :: cint)"
  by (simp only: unsigned_of_nat) (subst take_bit_nat_eq_self; simp)

lemma ucast_cpuid_addr: "k < 256 \<Longrightarrow> ucast (of_nat k :: byte) = (of_nat k :: addr)"
  by (simp only: unsigned_of_nat) (subst take_bit_nat_eq_self; simp)

text \<open>What the layout says of one processor and of the words of the bitmap array.\<close>

lemma ipc_layoutD:
  assumes "ipc_layout cs n inb outb bm" "k < n"
  shows "cpuid (cs k) = of_nat k" "ncpus (cs k) = of_nat n"
    "msg_input (cs k) = inb + of_nat (4096 * k)" "msg_output (cs k) = outb + of_nat (4096 * k)"
    "msg_ready_bitmap (cs k) = bm" "n \<le> 255" "k < 255"
  using assms by (auto simp: ipc_layout_def)

lemma bitmap_word_addr: "k < 255 \<Longrightarrow> bm + 8 * scast (of_nat k :: cint) = (bm + of_nat (8 * k) :: addr)"
  by (simp add: scast_of_nat_cint)

lemma box_bitmap_disjoint:
  assumes "ipc_layout cs n inb outb bm" "k < n" "j < n" "unat x + l \<le> 4096"
  shows "disjoint_regions (outb + of_nat (4096 * k) + x) l (bm + of_nat (8 * j)) 8"
proof -
  have "unat (of_nat (4096 * k) :: addr) = 4096 * k" "unat (of_nat (8 * j) :: addr) = 8 * j"
    using assms(2,3) ipc_layoutD(6) [OF assms(1,2)] by (intro unat_of_nat_small; simp)+
  then have "unat (of_nat (4096 * k) + x) \<le> 4096 * k + unat x"
    by (simp add: unat_word_ariths)
  moreover have "4096 * k + 4096 \<le> 4096 * n" using assms(2) by simp
  ultimately have "unat (of_nat (4096 * k) + x) + l \<le> 4096 * n" using assms(4) by linarith
  moreover have "unat (of_nat (8 * j) :: addr) + 8 \<le> 8 * n"
    using assms(3) \<open>unat (of_nat (8 * j) :: addr) = 8 * j\<close> by simp
  ultimately show ?thesis
    using assms(1) unfolding ipc_layout_def add.assoc by (intro piece_disjoint) auto
qed

lemma unat_of_nat_addr: "k \<le> 4096 \<Longrightarrow> unat (of_nat k :: addr) = k"
  by (intro unat_of_nat_small) simp

lemma box_written_outside:
  assumes "\<not> in_region (msg_output c) 64 x" "k \<le> 48"
  shows "box_written c num dat k m x = m x"
proof -
  let ?o = "msg_output c"
  have "\<not> in_region (?o + 16) k x" using assms in_region_sub [of ?o 16 k x 64] by auto
  then show ?thesis
    using assms store_le_outside [of ?o 64 x 0 8]
    by (simp add: box_written_def message_data_def memcpy_outside unat_of_nat_addr store_le_outside)
qed

lemma load_box_written_header:
  assumes "k \<le> 48"
  shows "load64 (box_written c num dat k m) (msg_output c) = ucast (cpuid c)"
    "load64 (box_written c num dat k m) (msg_output c + 8) = scast num"
proof -
  let ?o = "msg_output c" and ?m = "store64 (store64 m (msg_output c) (ucast (cpuid c))) (msg_output c + 8) (scast num)"
  have off: "\<not> in_region (?o + 16) k x" if "in_region (?o + a) 8 x" "a = 0 \<or> a = 8" for a x
    using that disjoint_regionsD [OF sep_off_disjoint [of a 8 16 k ?o]] assms
    by (auto simp: sep_off_def)
  have "load64 (box_written c num dat k m) (?o + a) = load64 ?m (?o + a)" if "a = 0 \<or> a = 8" for a
    using assms off [OF _ that]
    by (intro load_cong) (auto simp: box_written_def message_data_def memcpy_outside unat_of_nat_addr)
  from this [of 0] this [of 8]
  show "load64 (box_written c num dat k m) (msg_output c) = ucast (cpuid c)"
    "load64 (box_written c num dat k m) (msg_output c + 8) = scast num"
    by (simp_all add: layout_simps)
qed

lemma box_written_data:
  assumes "disjoint_regions dat k (msg_output c) 64" "i < k" "k \<le> 48"
  shows "box_written c num dat k m (message_data (msg_output c) + of_nat i) = m (dat + of_nat i)"
proof -
  let ?o = "msg_output c"
  have "in_region dat k (dat + of_nat i)" using assms by (intro in_regionI) auto
  then have no: "\<not> in_region ?o 64 (dat + of_nat i)" using assms(1) by (rule disjoint_regionsD [rotated])
  have "disjoint_regions (?o + 16) k dat k"
    using assms(1,3) by (auto simp: disjoint_regions_def dest: in_region_sub [of ?o 16 k _ 64])
  then show ?thesis
    using no assms store_le_outside [of ?o 64 "dat + of_nat i" 0 8]
    by (simp add: box_written_def message_data_def memcpy_copied store_le_outside)
qed

lemma msg_send_ok:
  assumes "ipc_layout cs n inb outb bm" "src < n" "src < 31" "srv < n" "k \<le> 48"
  shows "msg_send (cs src) (of_nat srv) num dat (of_nat k) m =
    Inr (store64 (box_written (cs src) num dat k m) (bm + of_nat (8 * srv))
      (load64 m (bm + of_nat (8 * srv)) OR 2 ^ src))"
proof -
  let ?w = "bm + of_nat (8 * srv)"
  note l = ipc_layoutD [OF assms(1,2)]
  have "load64 (box_written (cs src) num dat k m) ?w = load64 m ?w"
    using box_bitmap_disjoint [OF assms(1,2,4), of 0 64] l assms(5)
    by (intro load_cong box_written_outside) (auto dest: disjoint_regionsD)
  then show ?thesis
    using assms l bitmap_word_addr [of srv bm]
    by (simp add: msg_send_def box_written_def ucast_cpuid scast_of_nat_cint set_bit_map_ok Let_def
        ucast_cpuid_addr)
qed

lemma msg_check_ok:
  assumes "ipc_layout cs n inb outb bm" "srv < n" "srv \<le> 2" "k < n" "k < 31"
    and "pending m bm srv k" "\<And>j. j < k \<Longrightarrow> \<not> pending m bm srv j"
  shows "msg_check (cs srv) m = Inr (msg_output (cs k),
    store64 m (bm + of_nat (8 * srv)) (load64 m (bm + of_nat (8 * srv)) AND NOT (2 ^ k)))"
proof -
  let ?w = "bm + of_nat (8 * srv)"
  note l = ipc_layoutD [OF assms(1,2)] and lk = ipc_layoutD [OF assms(1,4)]
  have "load64 m ?w \<noteq> 0" using assms(6) by (auto simp: pending_def)
  moreover have "check_scan ?w 0 (of_nat n) m = Inr (of_nat k)"
    using assms l by (intro check_scan_first) (auto simp: pending_def word_less_nat_alt unat_of_nat_small)
  moreover have "scast (SZ_4KB * of_nat srv :: cint) = (of_nat (4096 * srv) :: addr)"
    "scast (SZ_4KB * of_nat k :: cint) = (of_nat (4096 * k) :: addr)"
    using assms(3,5) scast_of_nat_cint [of "4096 * srv"] scast_of_nat_cint [of "4096 * k"] by simp_all
  moreover have "check_server (cs srv)"
    using l assms(3) by (simp add: check_server_def word_less_nat_alt unat_of_nat_small)
  ultimately show ?thesis
    using l lk assms(5) bitmap_word_addr [of srv bm]
    by (simp add: msg_check_def ucast_cpuid clear_bit_map_ok Let_def)
qed

lemma or_and_not_cancel:
  "\<not> bit x k \<Longrightarrow> (x OR 2 ^ k) AND NOT (2 ^ k) = (x :: 'a::len word)"
  by (rule bit_word_eqI) (auto simp: bit_simps)

lemma box_written_frame:
  assumes "\<not> in_region (msg_output c) (16 + k) x" "k \<le> 48"
  shows "box_written c num dat k m x = m x"
proof -
  let ?o = "msg_output c"
  have "\<not> in_region (?o + 16) k x" using assms in_region_sub [of ?o 16 k x "16 + k"] by auto
  then show ?thesis
    using assms
    by (simp add: box_written_def message_data_def memcpy_outside unat_of_nat_addr
        store_le_outside [where k = "16 + k"] store_le_outside0 [where k = "16 + k"])
qed

lemma msg_delivered:
  assumes "ipc_layout cs n inb outb bm" "src < n" "src < 31" "srv < n" "srv \<le> 2" "k \<le> 48"
    and "disjoint_regions dat k (msg_output (cs src)) 64"
    and "\<And>j. j \<le> src \<Longrightarrow> \<not> pending m bm srv j"
  shows "\<exists>m1 m2. msg_send (cs src) (of_nat srv) num dat (of_nat k) m = Inr m1 \<and>
    msg_check (cs srv) m1 = Inr (msg_output (cs src), m2) \<and>
    message_from m2 (msg_output (cs src)) = of_nat src \<and>
    message_number m2 (msg_output (cs src)) = scast num \<and>
    (\<forall>i<k. m2 (message_data (msg_output (cs src)) + of_nat i) = m (dat + of_nat i)) \<and>
    load64 m2 (bm + of_nat (8 * srv)) = load64 m (bm + of_nat (8 * srv)) \<and>
    (\<forall>x. \<not> in_region (msg_output (cs src)) (16 + k) x \<longrightarrow> \<not> in_region (bm + of_nat (8 * srv)) 8 x \<longrightarrow> m2 x = m x)"
proof -
  let ?o = "msg_output (cs src)" and ?w = "bm + of_nat (8 * srv)" and ?b = "box_written (cs src) num dat k m"
  define m1 where "m1 = store64 ?b ?w (load64 m ?w OR 2 ^ src)"
  define m2 where "m2 = store64 m1 ?w (load64 m1 ?w AND NOT (2 ^ src))"
  note l = ipc_layoutD [OF assms(1,2)]
  have w1: "load64 m1 ?w = load64 m ?w OR 2 ^ src" by (simp add: m1_def load_store_same)
  have "msg_send (cs src) (of_nat srv) num dat (of_nat k) m = Inr m1"
    unfolding m1_def by (rule msg_send_ok) (use assms in auto)
  moreover have "msg_check (cs srv) m1 = Inr (?o, m2)"
    unfolding m2_def using assms w1
    by (intro msg_check_ok) (auto simp: pending_def bit_simps)
  moreover have box: "m2 x = ?b x" if "in_region ?o 64 x" for x
    using that box_bitmap_disjoint [OF assms(1,2,4), of 0 64] l
    by (auto simp: m2_def m1_def store_le_apply dest: disjoint_regionsD)
  have "load64 m2 (?o + a) = load64 ?b (?o + a)" if "unat a \<le> 56" for a
    using that by (intro load_cong box) (auto intro: in_region_sub)
  from this [of 0] this [of 8] have "load64 m2 ?o = load64 ?b ?o" "load64 m2 (?o + 8) = load64 ?b (?o + 8)"
    by simp_all
  then have "message_from m2 ?o = ucast (cpuid (cs src))" "message_number m2 ?o = scast num"
    by (simp_all only: message_from_def message_number_def load_box_written_header [OF assms(6)])
  moreover have "ucast (cpuid (cs src)) = (of_nat src :: addr)"
    unfolding l(1) using l(7) by (intro ucast_cpuid_addr) simp
  moreover have "m2 (message_data ?o + of_nat i) = m (dat + of_nat i)" if "i < k" for i
  proof -
    have "in_region (?o + 16) k (?o + 16 + of_nat i)" using that assms(6) by (intro in_regionI) auto
    then have "in_region ?o 64 (?o + 16 + of_nat i)" by (rule in_region_sub) (use assms(6) in auto)
    then show ?thesis
      using box box_written_data [OF assms(7) that assms(6)] by (simp add: message_data_def)
  qed
  moreover have "load64 m2 ?w = load64 m ?w"
    using assms(8) [of src] w1
    by (simp add: m2_def load_store_same or_and_not_cancel pending_def)
  moreover have "m2 x = m x" if "\<not> in_region ?o (16 + k) x" "\<not> in_region ?w 8 x" for x
    using that box_written_frame [OF that(1) assms(6)] by (simp add: m2_def m1_def store_le_apply)
  ultimately show ?thesis
    by (intro exI [of _ m1] exI [of _ m2] conjI allI impI) simp_all
qed


lemma demo_layout: "ipc_layout demo_cpus 32 0x400000 0x600000 0x800000"
  by (simp add: ipc_layout_def demo_cpus_def zero_cpu_def sep_off_def)

lemma demo_fields:
  "msg_output (demo_cpus k) = 0x600000 + of_nat (4096 * k)"
  "msg_input (demo_cpus k) = 0x400000 + of_nat (4096 * k)"
  by (simp_all add: demo_cpus_def zero_cpu_def)

lemma load_zero_upd:
  "\<not> in_region a n b \<Longrightarrow> n \<le> 2 ^ 64 \<Longrightarrow> load_le n ((\<lambda>_. 0)(b := v)) a = 0"
  by (simp add: load_upd_other load_zero)


section \<open>Replies\<close>

lemma receive_scan_find:
  assumes "i \<le> n" "n < 2 ^ 30"
  shows "receive_scan inp (of_nat i) (of_nat n) m =
    (case find (box_full m inp) [i..<n] of
       None \<Rightarrow> (of_nat n, None, m)
     | Some k \<Rightarrow> (of_nat (Suc k), Some (of_nat k), empty_box inp k m))"
  using assms
proof (induction "n - i" arbitrary: i)
  case 0
  then show ?case by (subst receive_scan.simps) (simp add: word_sless_alt)
next
  case (Suc d)
  then have "i < n" by simp
  then have s: "(of_nat i :: cint) <s of_nat n"
    using Suc.prems by (simp add: word_sless_alt sint_of_nat_cint)
  have b: "inp + MSG_SIZE * scast (of_nat i :: cint) + 8 = inp + of_nat (64 * i) + 8"
    using \<open>i < n\<close> Suc.prems by (simp add: scast_of_nat_cint)
  have u: "[i..<n] = i # [Suc i..<n]" using \<open>i < n\<close> by (rule upt_conv_Cons)
  have "receive_scan inp (of_nat (Suc i)) (of_nat n) m = (case find (box_full m inp) [Suc i..<n] of
       None \<Rightarrow> (of_nat n, None, m)
     | Some k \<Rightarrow> (of_nat (Suc k), Some (of_nat k), empty_box inp k m))"
    using Suc.hyps Suc.prems \<open>i < n\<close> by (intro Suc.hyps(1)) auto
  moreover have "of_nat i + 1 = (of_nat (Suc i) :: cint)" by simp
  ultimately show ?case
    unfolding u by (subst receive_scan.simps)
      (simp add: s b box_full_def empty_box_def del: of_nat_Suc of_nat_mult)
qed

lemma receive_round_find:
  assumes "i \<le> n" "n < 2 ^ 30" "ncpus c = of_nat n"
  shows "receive_round c (of_nat i) m =
    (case find (box_full m (msg_input c)) [i..<n] of
       None \<Rightarrow> (0, None, m)
     | Some k \<Rightarrow> (if Suc k < n then of_nat (Suc k) else 0, Some (of_nat k), empty_box (msg_input c) k m))"
proof -
  have u: "ucast (of_nat n :: addr) = (of_nat n :: cint)" by (rule ucast_of_nat_down)
  have "k < n" if "find (box_full m (msg_input c)) [i..<n] = Some k" for k
    using that by (auto simp: find_Some_iff)
  then have "(of_nat (Suc k) :: cint) <s of_nat n \<longleftrightarrow> Suc k < n"
    if "find (box_full m (msg_input c)) [i..<n] = Some k" for k
    using that assms(2) by (fastforce simp: word_sless_alt sint_of_nat_cint simp del: of_nat_Suc)
  then show ?thesis
    using assms unfolding receive_round_def u assms(3) Let_def
    by (auto simp: receive_scan_find word_sless_alt [of "of_nat n"] split: option.split
        simp del: of_nat_Suc)
qed

text \<open>
  \<open>msg_receive (ANY)\<close> waits exactly while every box is empty.  Otherwise it takes the first full
  box at or behind its static counter, or the first of all when there is none behind it, and
  empties it.
\<close>

lemma msg_receive_any:
  assumes "i < n" "n \<le> MAX_CPUS" "ncpus c = of_nat n"
  shows "msg_receive c (of_nat i) (- 1) m =
    (case find (box_full m (msg_input c)) ([i..<n] @ [0..<n]) of
       None \<Rightarrow> Inl Blocked
     | Some k \<Rightarrow> Inr (if Suc k < n then of_nat (Suc k) else 0, of_nat k,
         empty_box (msg_input c) k m))"
proof -
  have f: "find P (xs @ ys) = (case find P xs of None \<Rightarrow> find P ys | Some x \<Rightarrow> Some x)"
    for P and xs ys :: "nat list"
    by (induction xs) auto
  have "receive_round c (of_nat i) m = (case find (box_full m (msg_input c)) [i..<n] of
       None \<Rightarrow> (0, None, m)
     | Some k \<Rightarrow> (if Suc k < n then of_nat (Suc k) else 0, Some (of_nat k), empty_box (msg_input c) k m))"
    by (rule receive_round_find) (use assms in auto)
  moreover have "receive_round c 0 m = (case find (box_full m (msg_input c)) [0..<n] of
       None \<Rightarrow> (0, None, m)
     | Some k \<Rightarrow> (if Suc k < n then of_nat (Suc k) else 0, Some (of_nat k), empty_box (msg_input c) k m))"
    using receive_round_find [of 0 n c m] assms by (simp del: of_nat_Suc)
  ultimately show ?thesis
    by (simp add: msg_receive_def f split: option.split)
qed

lemma msg_receive_any_witness:
  "msg_receive (zero_cpu\<lparr>ncpus := 4\<rparr>) (of_nat 2) (- 1) (store64 (\<lambda>_. 0) 72 7) =
    Inr (2, of_nat 1, empty_box 0 1 (store64 (\<lambda>_. 0) 72 7))"
proof -
  have "find (box_full (store64 (\<lambda>_. 0) 72 7) 0) ([2..<4] @ [0..<4]) = Some 1"
    by code_simp
  then show ?thesis
    using msg_receive_any [of 2 4 "zero_cpu\<lparr>ncpus := 4\<rparr>" "store64 (\<lambda>_. 0) 72 7"]
    by (simp add: zero_cpu_def)
qed

text \<open>The box that processor \<open>srv\<close> fills for processor \<open>dest\<close>.\<close>

lemma msg_reply_ok:
  assumes "ipc_layout cs n inb outb bm" "srv < n" "srv \<le> 2" "dest < n"
  shows "msg_reply (cs srv) (of_nat srv) (of_nat dest) num dat (of_nat k) m =
    (let p = msg_input (cs dest) + of_nat (64 * srv) in
     Inr (store64 (memcpy (p + 16) dat (scast (of_nat k :: cint)) (store64 m p (of_nat srv)))
       (p + 8) (scast num)))"
proof -
  note l = ipc_layoutD [OF assms(1,2)] and ld = ipc_layoutD [OF assms(1,4)]
  have "scast (SZ_4KB * of_nat srv :: cint) = (of_nat (4096 * srv) :: addr)"
    "scast (SZ_4KB * of_nat dest :: cint) = (of_nat (4096 * dest) :: addr)"
    using assms(3) ld(7) scast_of_nat_cint [of "4096 * srv"] scast_of_nat_cint [of "4096 * dest"]
    by simp_all
  moreover have "check_server (cs srv)"
    using l assms(3) by (simp add: check_server_def word_less_nat_alt unat_of_nat_small)
  ultimately show ?thesis
    using l ld by (simp add: msg_reply_def ucast_cpuid scast_of_nat_cint message_data_def Let_def add_ac)
qed

text \<open>
  A reply is received.  After \<open>msg_reply\<close> of server \<open>srv\<close> to processor \<open>dest\<close>, that processor's
  \<open>msg_receive (srv)\<close> returns; the box then holds the data of the reply and is empty again for the
  next one.
\<close>

lemma msg_reply_received:
  assumes "ipc_layout cs n inb outb bm" "srv < n" "srv \<le> 2" "dest < n" "k \<le> 48" "scast num \<noteq> (0 :: addr)"
    and "disjoint_regions dat k (msg_input (cs dest) + of_nat (64 * srv)) 64"
  shows "\<exists>m1 m2. msg_reply (cs srv) (of_nat srv) (of_nat dest) num dat (of_nat k) m = Inr m1 \<and>
    message_number m1 (msg_input (cs dest) + of_nat (64 * srv)) = scast num \<and>
    msg_receive (cs dest) i (of_nat srv) m1 = Inr (i, of_nat srv, m2) \<and>
    message_from m2 (msg_input (cs dest) + of_nat (64 * srv)) = of_nat srv \<and>
    message_number m2 (msg_input (cs dest) + of_nat (64 * srv)) = 0 \<and>
    (\<forall>j<k. m2 (message_data (msg_input (cs dest) + of_nat (64 * srv)) + of_nat j) = m (dat + of_nat j))"
proof -
  define p where "p = msg_input (cs dest) + of_nat (64 * srv)"
  define m0 where "m0 = memcpy (p + 16) dat (of_nat k) (store64 m p (of_nat srv))"
  define m1 where "m1 = store64 m0 (p + 8) (scast num)"
  define m2 where "m2 = store64 m1 (p + 8) 0"
  have sz: "scast (of_nat k :: cint) = (of_nat k :: addr)" using assms(5) by (intro scast_of_nat_cint) simp
  have "msg_reply (cs srv) (of_nat srv) (of_nat dest) num dat (of_nat k) m = Inr m1"
    using msg_reply_ok [OF assms(1-4), of num dat k m] by (simp add: m1_def m0_def p_def sz Let_def)
  moreover have n1: "load64 m1 (p + 8) = scast num" by (simp add: m1_def load_store_same)
  moreover have "msg_receive (cs dest) i (of_nat srv) m1 = Inr (i, of_nat srv, m2)"
  proof -
    have q: "msg_input (cs dest) + MSG_SIZE * scast (of_nat srv :: cint) + 8 = p + 8"
      using assms(3) by (simp add: p_def scast_of_nat_cint)
    have "(of_nat srv :: cint) \<noteq> - 1"
    proof
      assume "of_nat srv = (- 1 :: cint)"
      then have "sint (of_nat srv :: cint) = - 1" by simp
      then show False using sint_of_nat_cint [of srv] assms(3) by simp
    qed
    then show ?thesis using n1 assms(6) by (simp only: msg_receive_def q Let_def) (simp add: m2_def)
  qed
  moreover have "load64 m2 p = of_nat srv"
  proof -
    have "load64 m0 p = load64 (store64 m p (of_nat srv)) p"
    proof (rule load_cong)
      fix x assume "in_region p 8 x"
      then have "\<not> in_region (p + 16) k x"
        using disjoint_regionsD [OF sep_off_disjoint [of 0 8 16 k p]] assms(5) by (auto simp: sep_off_def)
      then show "m0 x = store64 m p (of_nat srv) x"
        using assms(5) by (simp add: m0_def memcpy_outside unat_of_nat_addr)
    qed simp
    then show ?thesis by (simp add: m2_def m1_def layout_simps)
  qed
  moreover have "m2 (p + 16 + of_nat j) = m (dat + of_nat j)" if "j < k" for j
  proof -
    have r: "in_region dat k (dat + of_nat j)" "in_region (p + 16) k (p + 16 + of_nat j)"
      using that assms(5) by (auto intro!: in_regionI)
    have "\<not> in_region (p + 8) 8 (p + 16 + of_nat j)"
      using r(2) disjoint_regionsD [OF sep_off_disjoint [of 16 k 8 8 p]] assms(5) by (auto simp: sep_off_def)
    moreover have "disjoint_regions (p + 16) k dat k"
      using assms(5,7) unfolding p_def [symmetric]
      by (auto simp: disjoint_regions_def dest: in_region_sub [of p 16 k _ 64])
    moreover have "\<not> in_region p 64 (dat + of_nat j)"
      using r(1) assms(7) unfolding p_def [symmetric] by (auto dest: disjoint_regionsD)
    moreover from this have "\<not> in_region p 8 (dat + of_nat j)"
      using in_region_mono [of p 8 "dat + of_nat j" 64] by auto
    ultimately show ?thesis
      using that assms(5) by (simp add: m2_def m1_def m0_def store_le_apply memcpy_copied)
  qed
  ultimately show ?thesis
    unfolding p_def [symmetric] message_number_def message_from_def message_data_def
    by (intro exI [of _ m1] exI [of _ m2]) (simp add: m2_def load_store_same)
qed

lemma msg_reply_received_witness:
  "\<exists>m1 m2. msg_reply (demo_cpus 1) 1 3 5 0x1000 1 ((\<lambda>_. 0)(0x1000 := 7)) = Inr m1 \<and>
    msg_receive (demo_cpus 3) 0 1 m1 = Inr (0, 1, m2) \<and> m2 0x403050 = 7"
proof -
  have "disjoint_regions 0x1000 1 (msg_input (demo_cpus 3) + of_nat (64 * 1)) 64"
    by (rule disjoint_regionsI) (simp_all add: demo_fields)
  then show ?thesis
    using msg_reply_received [OF demo_layout, of 1 3 1 5 "0x1000" "(\<lambda>_. 0)(0x1000 := 7)" 0]
    by (auto simp: demo_fields message_data_def)
qed

section \<open>Processor 31, and concurrent senders\<close>

text \<open>
  C32.  The bitmap has 64 bits and the configuration allows 255 processors, but \<open>1 << 31\<close> is the
  smallest \<open>int\<close>: a request of processor 31 sets bits 31 to 63, its bit is read back as -1, and
  \<open>msg_check\<close> of the server runs into a shift outside the width of \<open>int\<close> instead of returning the
  box of processor 31.
\<close>

theorem msg_send_cpu31_lost:
  assumes "ipc_layout cs n inb outb bm" "32 \<le> n" "srv \<le> 2" "k \<le> 48"
    and "load64 m (bm + of_nat (8 * srv)) = 0"
  shows "\<exists>m1. msg_send (cs 31) (of_nat srv) num dat (of_nat k) m = Inr m1 \<and>
    msg_check (cs srv) m1 = Inl (Fault ''shift'')"
proof -
  let ?w = "bm + of_nat (8 * srv)" and ?b = "box_written (cs 31) num dat k m"
  have n: "31 < n" "srv < n" using assms by auto
  note l = ipc_layoutD [OF assms(1) n(1)] and ls = ipc_layoutD [OF assms(1) n(2)]
  define m1 where "m1 = store64 ?b ?w (- 2147483648)"
  have "load64 ?b ?w = load64 m ?w"
    using box_bitmap_disjoint [OF assms(1) n, of 0 64] l assms(4)
    by (intro load_cong box_written_outside) (auto dest: disjoint_regionsD)
  then have "msg_send (cs 31) (of_nat srv) num dat (of_nat k) m = Inr m1"
    using assms(3-5) l bitmap_word_addr [of srv bm]
    by (simp add: msg_send_def m1_def box_written_def scast_of_nat_cint set_bit_map_def
        one_shl_def Let_def)
  moreover have "msg_check (cs srv) m1 = Inl (Fault ''shift'')"
  proof -
    have w: "load64 m1 ?w = - 2147483648" by (simp add: m1_def load_store_same)
    have eq: "(- 2147483648 :: addr) = NOT (mask 31)"
      using minus_exp_eq_not_mask [of 31, where ?'a = addr] by simp
    have "\<not> bit (load64 m1 ?w) j" if "j < 31" for j
      unfolding w eq using that by (simp only: bit_not_iff bit_mask_iff) simp
    then have "check_scan ?w 0 (of_nat n) m1 = check_scan ?w (of_nat 31) (of_nat n) m1"
      using n l(6) by (intro check_scan_skip) (auto simp: word_le_nat_alt unat_of_nat_small)
    also have "\<dots> = check_scan ?w 32 (of_nat n) m1"
      using n(1) l(6) by (subst check_scan.simps)
        (simp add: check_bit_map_def one_shl_def w word_less_nat_alt unat_of_nat_small
          del: of_nat_mult)
    also have "\<dots> = (if 32 < n then Inl (Fault ''shift'') else Inr (- 1))"
      using l(6) by (subst check_scan.simps)
        (simp add: check_bit_map_def one_shl_def word_less_nat_alt unat_of_nat_small)
    finally have "check_scan ?w 0 (of_nat n) m1 = (if 32 < n then Inl (Fault ''shift'') else Inr (- 1))" .
    moreover have "one_shl (- 1) = Inl (Fault ''shift'')" by (simp add: one_shl_def)
    ultimately show ?thesis
      using ls assms(3) bitmap_word_addr [of srv bm] w
      by (simp add: msg_check_def ucast_cpuid check_server_def word_less_nat_alt unat_of_nat_small
          clear_bit_map_def Let_def)
  qed
  ultimately show ?thesis by blast
qed

theorem msg_send_cpu31_lost_witness:
  "\<exists>m1. msg_send (demo_cpus 31) 1 9 0x1000 1 (\<lambda>_. 0) = Inr m1 \<and>
    msg_check (demo_cpus 1) m1 = Inl (Fault ''shift'')"
  using msg_send_cpu31_lost [OF demo_layout, of 1 1 "\<lambda>_. 0" 9 "0x1000"] by (simp add: load_zero)



definition rmw_inv :: "(nat \<Rightarrow> addr) \<Rightarrow> memory \<Rightarrow> memory \<Rightarrow> (nat \<Rightarrow> rmw_pc) \<Rightarrow> nat \<Rightarrow> bool" where
  "rmw_inv tgt m0 m pc k \<longleftrightarrow> (case pc k of
     Before \<Rightarrow> load64 m (tgt k) = load64 m0 (tgt k)
   | Loaded v \<Rightarrow> load64 m (tgt k) = load64 m0 (tgt k) \<and> v = load64 m0 (tgt k)
   | After \<Rightarrow> k < 31 \<and> load64 m (tgt k) = load64 m0 (tgt k) OR 2 ^ k)"

lemma rmw_inv_step:
  assumes "rmw_step tgt (m, pc) (m', pc')" "\<And>k. k < 31 \<Longrightarrow> rmw_inv tgt m0 m pc k"
    and "\<And>i j. i < 31 \<Longrightarrow> j < 31 \<Longrightarrow> i \<noteq> j \<Longrightarrow> disjoint_regions (tgt i) 8 (tgt j) 8" "k < 31"
  shows "rmw_inv tgt m0 m' pc' k"
  using assms(1)
proof cases
  case (rmw_load i)
  then show ?thesis using assms(2) [of k] assms(2) [of i] assms(4) by (auto simp: rmw_inv_def)
next
  case (rmw_store i v)
  then show ?thesis
    using assms(2) [of k] assms(2) [of i] assms(3) [of k i] assms(4)
    by (cases "k = i") (auto simp: rmw_inv_def load_store_same load_store_other split: rmw_pc.split)
qed

text \<open>
  Senders to different servers do not disturb each other: when every processor works on a word
  of its own, in every interleaving the bit of each processor that has finished is set.
\<close>

lemma set_bit_distinct_servers:
  assumes "\<And>i j. i < 31 \<Longrightarrow> j < 31 \<Longrightarrow> i \<noteq> j \<Longrightarrow> disjoint_regions (tgt i) 8 (tgt j) 8"
    and "(rmw_step tgt)\<^sup>*\<^sup>* (m, \<lambda>_. Before) (m', pc')" "pc' k = After" "k < 31"
  shows "bit (load64 m' (tgt k)) k \<and> load64 m' (tgt k) = load64 m (tgt k) OR 2 ^ k"
proof -
  have "rmw_inv tgt m m' pc' k" if "k < 31" for k
    using assms(2) that
  proof (induction "(m', pc')" arbitrary: m' pc' k rule: rtranclp_induct)
    case base
    then show ?case by (simp add: rmw_inv_def)
  next
    case (step s)
    then show ?case by (cases s) (auto intro: rmw_inv_step assms(1))
  qed
  from this [of k] show ?thesis using assms(3,4) by (auto simp: rmw_inv_def bit_simps)
qed

lemma set_bit_distinct_servers_witness:
  "\<exists>m' pc'. (rmw_step (\<lambda>k. of_nat (8 * k)))\<^sup>*\<^sup>* (\<lambda>_. 0, \<lambda>_. Before) (m', pc') \<and>
    pc' 3 = After \<and> bit (load64 m' 24) 3"
proof -
  let ?t = "\<lambda>k. of_nat (8 * k) :: addr" and ?m = "\<lambda>_. 0 :: byte"
  let ?m' = "store64 ?m 24 (0 OR 2 ^ 3)" and ?p1 = "(\<lambda>_. Before)(3 := Loaded 0)"
  have "rmw_step ?t (?m, \<lambda>_. Before) (?m, ?p1)"
    using rmw_load [of "\<lambda>_. Before" 3 ?t ?m] by (simp add: load_zero)
  moreover have "rmw_step ?t (?m, ?p1) (?m', ?p1(3 := After))"
    using rmw_store [of ?p1 3 0 ?t ?m] by simp
  ultimately have r: "(rmw_step ?t)\<^sup>*\<^sup>* (?m, \<lambda>_. Before) (?m', ?p1(3 := After))"
    by (meson converse_rtranclp_into_rtranclp rtranclp.rtrancl_refl)
  moreover have "disjoint_regions (?t i) 8 (?t j) 8" if "i < 31" "j < 31" "i \<noteq> j" for i j
  proof (rule disjoint_regionsI)
    have "unat (?t i) = 8 * i" "unat (?t j) = 8 * j" using that by (intro unat_of_nat_small; simp)+
    then show "unat (?t i) + 8 \<le> 2 ^ 64" "unat (?t j) + 8 \<le> 2 ^ 64"
      "unat (?t i) + 8 \<le> unat (?t j) \<or> unat (?t j) + 8 \<le> unat (?t i)" using that by auto
  qed
  then have "bit (load64 ?m' (?t 3)) 3 \<and> load64 ?m' (?t 3) = load64 ?m (?t 3) OR 2 ^ 3"
    by (rule set_bit_distinct_servers [OF _ r]) simp_all
  then have "bit (load64 ?m' (?t 3)) 3" by (rule conjunct1)
  then have "bit (load64 ?m' 24) 3" by simp
  with r show ?thesis by (intro exI [of _ ?m'] exI [of _ "?p1(3 := After)"]) simp
qed

end
