(* ===== verification/Channel.thy ===== *)
theory Channel
  imports Ipc
begin

text \<open>
  Channels between a program and a driver (\<open>src/lib/channel.c\<close>) and the translation of a program's
  addresses (\<open>virt2phys\<close> of \<open>src/lib/lib_mem.c\<close>).

  A channel is a page shared by the two sides.  The program sets \<open>ready_send\<close>; the driver finds it
  by polling the list of its channels, whose used part ends at the first zero, and answers with a
  result and \<open>ready_reply\<close>.  The static counter of \<open>cnl_receive_any\<close> is passed and returned.
\<close>

section \<open>Definitions\<close>

definition cnl_send :: "addr \<Rightarrow> memory \<Rightarrow> memory res" where
  "cnl_send cnl m =
    (if cnl = 0 then Inl (Panic ''cnl_send: No channel specified'')
     else Inr (store32 (store32 m (cnl + 4) 0) cnl 1))"

text \<open>The inner loop of \<open>cnl_receive_any\<close>.\<close>

function channel_scan :: "addr \<Rightarrow> nat \<Rightarrow> memory \<Rightarrow> nat \<times> addr option \<times> memory" where
  "channel_scan channels i m =
    (if i < MAX_CHANNELS then
       (let from_cnl = load64 m (channels + of_nat (8 * i)) in
        if from_cnl = 0 then (0, None, m)
        else if ready_send m from_cnl = 1 then (i + 1, Some from_cnl, store32 m from_cnl 0)
        else channel_scan channels (i + 1) m)
     else (i, None, m))"
  by pat_completeness auto

termination channel_scan
  by (relation "measure (\<lambda>(channels, i, m). MAX_CHANNELS - i)") auto

declare channel_scan.simps [simp del]

text \<open>
  The outer loop.  A round that finds nothing leaves the counter at 0, so the second round looks at
  every channel.
\<close>

definition channel_round :: "addr \<Rightarrow> nat \<Rightarrow> memory \<Rightarrow> nat \<times> addr option \<times> memory" where
  "channel_round channels i m =
    (let (i', r, m') = channel_scan channels i m in (if MAX_CHANNELS \<le> i' then 0 else i', r, m'))"

definition cnl_receive_any :: "cpu_info \<Rightarrow> nat \<Rightarrow> memory \<Rightarrow> (nat \<times> addr \<times> memory) res" where
  "cnl_receive_any c i m =
    (if \<not> is_driver (ucast (cpuid c)) then Inl (Panic ''This must be called from drivers!'')
     else
       (case channel_round (vm_channels (vm_info c)) i m of
          (i1, Some cnl, m1) \<Rightarrow> Inr (i1, cnl, m1)
        | (i1, None, m1) \<Rightarrow>
           (case channel_round (vm_channels (vm_info c)) i1 m1 of
              (i2, Some cnl, m2) \<Rightarrow> Inr (i2, cnl, m2)
            | (i2, None, m2) \<Rightarrow> Inl Blocked)))"

definition cnl_receive :: "addr \<Rightarrow> memory \<Rightarrow> memory res" where
  "cnl_receive channel m =
    (if channel = 0 then Inl (Panic ''Channel can not be null!'')
     else if ready_reply m channel = 1 then Inr (store32 m (channel + 4) 0)
     else Inl Blocked)"

definition cnl_reply :: "addr \<Rightarrow> cint \<Rightarrow> memory \<Rightarrow> memory res" where
  "cnl_reply cnl count m =
    (if cnl = 0 then Inl (Panic ''cnl_reply: No channel specified'')
     else Inr (store32 (store32 m (cnl + 8) count) (cnl + 4) 1))"

text \<open>The segments of a program in virtual memory, in the order in which \<open>virt2phys\<close> tests them.\<close>

definition virt2phys :: "cpu_info \<Rightarrow> addr \<Rightarrow> addr res" where
  "virt2phys c vaddr =
    (let v = vm_info c in
     if vm_code_vaddr v \<le> vaddr \<and> vaddr < vm_data_vaddr v
     then Inr (vm_code_paddr v + (vaddr - vm_code_vaddr v))
     else if vm_data_vaddr v \<le> vaddr \<and> vaddr < vm_rodata_vaddr v
     then Inr (vm_data_paddr v + (vaddr - vm_data_vaddr v))
     else if vm_rodata_vaddr v \<le> vaddr \<and> vaddr < vm_bss_vaddr v
     then Inr (vm_rodata_paddr v + (vaddr - vm_rodata_vaddr v))
     else if vm_bss_vaddr v \<le> vaddr \<and> vaddr < vm_stack_vaddr v
     then Inr (vm_bss_paddr v + (vaddr - vm_bss_vaddr v))
     else if vm_stack_vaddr v \<le> vaddr \<and> vaddr \<le> vm_end_vaddr v
     then Inr (vm_stack_paddr v + (vaddr - vm_stack_vaddr v))
     else Inl (Panic ''virt2phys: address out of range''))"

text \<open>
  The specification of the scan: the used channels from \<open>i\<close> on, and the first of them that has
  something to say.
\<close>

definition channel_at :: "memory \<Rightarrow> addr \<Rightarrow> nat \<Rightarrow> addr" where
  "channel_at m channels i = load64 m (channels + of_nat (8 * i))"

definition used_from :: "memory \<Rightarrow> addr \<Rightarrow> nat \<Rightarrow> nat list" where
  "used_from m channels i = takeWhile (\<lambda>k. channel_at m channels k \<noteq> 0) [i..<MAX_CHANNELS]"

definition wants :: "memory \<Rightarrow> addr \<Rightarrow> nat \<Rightarrow> bool" where
  "wants m channels k \<longleftrightarrow> ready_send m (channel_at m channels k) = 1"

text \<open>The translation the layout of a program stands for: its segments as a list.\<close>

definition segments :: "vm_proc \<Rightarrow> (addr \<times> addr \<times> addr) list" where
  "segments v =
    [(vm_code_vaddr v, vm_data_vaddr v, vm_code_paddr v),
     (vm_data_vaddr v, vm_rodata_vaddr v, vm_data_paddr v),
     (vm_rodata_vaddr v, vm_bss_vaddr v, vm_rodata_paddr v),
     (vm_bss_vaddr v, vm_stack_vaddr v, vm_bss_paddr v),
     (vm_stack_vaddr v, vm_end_vaddr v + 1, vm_stack_paddr v)]"

definition ordered_segments :: "vm_proc \<Rightarrow> bool" where
  "ordered_segments v \<longleftrightarrow>
    vm_code_vaddr v \<le> vm_data_vaddr v \<and> vm_data_vaddr v \<le> vm_rodata_vaddr v \<and>
    vm_rodata_vaddr v \<le> vm_bss_vaddr v \<and> vm_bss_vaddr v \<le> vm_stack_vaddr v \<and>
    vm_stack_vaddr v \<le> vm_end_vaddr v \<and> vm_end_vaddr v < - 1"

text \<open>A driver (the console, processor 5) with two channels, the second of which is ready.\<close>

definition demo_driver :: cpu_info where
  "demo_driver = zero_cpu\<lparr>cpuid := 5, vm_info := zero_vm\<lparr>vm_channels := 0x1000\<rparr>\<rparr>"

definition demo_channels :: memory where
  "demo_channels = store32 (store64 (store64 (\<lambda>_. 0) 0x1000 0x3000) 0x1008 0x4000) 0x4000 1"

definition demo_program :: cpu_info where
  "demo_program = zero_cpu\<lparr>vm_info := zero_vm\<lparr>
     vm_end_vaddr := 0x5FFF, vm_code_paddr := 0x101000, vm_data_paddr := 0x202000,
     vm_rodata_paddr := 0x303000, vm_bss_paddr := 0x404000, vm_stack_paddr := 0x505000,
     vm_code_vaddr := 0x1000, vm_data_vaddr := 0x2000, vm_rodata_vaddr := 0x3000,
     vm_bss_vaddr := 0x4000, vm_stack_vaddr := 0x5000\<rparr>\<rparr>"

section \<open>Channels\<close>

lemma channel_scan_find:
  assumes "i \<le> MAX_CHANNELS"
  shows "channel_scan channels i m =
    (case find (wants m channels) (used_from m channels i) of
       Some k \<Rightarrow> (Suc k, Some (channel_at m channels k), store32 m (channel_at m channels k) 0)
     | None \<Rightarrow> (if i + length (used_from m channels i) < MAX_CHANNELS then 0 else MAX_CHANNELS, None, m))"
  using assms
proof (induction "MAX_CHANNELS - i" arbitrary: i)
  case 0
  then show ?case by (subst channel_scan.simps) (simp add: used_from_def)
next
  case (Suc d)
  then have "i < MAX_CHANNELS" by simp
  then have u: "[i..<MAX_CHANNELS] = i # [Suc i..<MAX_CHANNELS]" by (rule upt_conv_Cons)
  have IH: "channel_scan channels (Suc i) m =
    (case find (wants m channels) (used_from m channels (Suc i)) of
       Some k \<Rightarrow> (Suc k, Some (channel_at m channels k), store32 m (channel_at m channels k) 0)
     | None \<Rightarrow> (if Suc i + length (used_from m channels (Suc i)) < MAX_CHANNELS then 0 else MAX_CHANNELS, None, m))"
    using Suc.hyps Suc.prems \<open>i < MAX_CHANNELS\<close> by (intro Suc.hyps(1)) auto
  have c: "load64 m (channels + of_nat (8 * i)) = channel_at m channels i"
    by (simp add: channel_at_def)
  show ?case
  proof (cases "channel_at m channels i = 0")
    case True
    then have "used_from m channels i = []" by (simp add: used_from_def u)
    then show ?thesis
      using True \<open>i < MAX_CHANNELS\<close> by (subst channel_scan.simps) (simp add: c del: of_nat_mult)
  next
    case False
    then have "used_from m channels i = i # used_from m channels (Suc i)"
      by (simp add: used_from_def u)
    then show ?thesis
      using False \<open>i < MAX_CHANNELS\<close> IH
      by (subst channel_scan.simps) (simp add: c wants_def Let_def del: of_nat_mult)
  qed
qed

lemma channel_round_find:
  assumes "i \<le> MAX_CHANNELS"
  shows "channel_round channels i m =
    (case find (wants m channels) (used_from m channels i) of
       Some k \<Rightarrow> (Suc k mod MAX_CHANNELS, Some (channel_at m channels k),
                  store32 m (channel_at m channels k) 0)
     | None \<Rightarrow> (0, None, m))"
proof -
  have "k < MAX_CHANNELS" if "find (wants m channels) (used_from m channels i) = Some k" for k
  proof -
    from that have "k \<in> set (used_from m channels i)" by (auto simp: find_Some_iff)
    then show ?thesis by (auto simp: used_from_def dest: set_takeWhileD)
  qed
  then have "k = 31" if "find (wants m channels) (used_from m channels i) = Some k" "31 \<le> k" for k
    using that by fastforce
  then show ?thesis
    using assms by (fastforce simp: channel_round_def channel_scan_find split: option.split)
qed

lemma cnl_receive_any_find:
  assumes "is_driver (ucast (cpuid c))" "i < MAX_CHANNELS" "channels = vm_channels (vm_info c)"
  shows "cnl_receive_any c i m =
    (case find (wants m channels) (used_from m channels i @ used_from m channels 0) of
       None \<Rightarrow> Inl Blocked
     | Some k \<Rightarrow> Inr (Suc k mod MAX_CHANNELS, channel_at m channels k,
                    store32 m (channel_at m channels k) 0))"
proof -
  have f: "find P (xs @ ys) = (case find P xs of None \<Rightarrow> find P ys | Some x \<Rightarrow> Some x)"
    for P and xs ys :: "nat list"
    by (induction xs) auto
  show ?thesis
    using assms(1,2) channel_round_find [of i channels m] channel_round_find [of 0 channels m]
    by (simp add: cnl_receive_any_def f flip: assms(3) split: option.split)
qed

text \<open>
  C20.  \<open>cnl_receive_any\<close> of a driver waits exactly while no used channel has \<open>ready_send\<close> set.
  Otherwise it returns the first such channel behind its counter, or the first of all, clears the
  flag, and moves the counter behind that channel.
\<close>

theorem cnl_receive_any_round_robin:
  assumes "is_driver (ucast (cpuid c))" "i < MAX_CHANNELS" "channels = vm_channels (vm_info c)"
  shows "cnl_receive_any c i m =
    (case find (wants m channels) (used_from m channels i @ used_from m channels 0) of
       None \<Rightarrow> Inl Blocked
     | Some k \<Rightarrow> Inr (Suc k mod MAX_CHANNELS, channel_at m channels k,
                    store32 m (channel_at m channels k) 0))"
  by (rule cnl_receive_any_find [OF assms])

theorem cnl_receive_any_round_robin_witness:
  "\<exists>m'. cnl_receive_any demo_driver 0 demo_channels = Inr (2, 0x4000, m')"
proof -
  have u: "[0..<MAX_CHANNELS] = 0 # 1 # 2 # [3..<MAX_CHANNELS]"
    by (simp add: upt_conv_Cons)
  have "is_driver (ucast (cpuid demo_driver))" "vm_channels (vm_info demo_driver) = 0x1000"
    by (simp_all add: demo_driver_def zero_cpu_def zero_vm_def is_driver_def)
  moreover have "find (wants demo_channels 0x1000)
      (used_from demo_channels 0x1000 0 @ used_from demo_channels 0x1000 0) = Some 1"
    unfolding used_from_def u
    by (simp add: channel_at_def wants_def ready_send_def demo_channels_def mem_eval)
  moreover have "channel_at demo_channels 0x1000 1 = 0x4000"
    by (simp add: channel_at_def demo_channels_def mem_eval)
  ultimately show ?thesis
    using cnl_receive_any_round_robin [of demo_driver 0 "0x1000" demo_channels] by simp
qed

lemma channel_flags [layout_simps]:
  "ready_send (store32 m c v) c = v"
  "ready_send (store32 m (c + 4) v) c = ready_send m c"
  "ready_send (store32 m (c + 8) v) c = ready_send m c"
  "ready_reply (store32 m c v) c = ready_reply m c"
  "ready_reply (store32 m (c + 4) v) c = v"
  "ready_reply (store32 m (c + 8) v) c = ready_reply m c"
  "channel_result (store32 m c v) c = channel_result m c"
  "channel_result (store32 m (c + 4) v) c = channel_result m c"
  "channel_result (store32 m (c + 8) v) c = v"
  by (simp_all add: ready_send_def ready_reply_def channel_result_def layout_simps)

lemma store32_outside:
  "\<not> in_region c 12 x \<Longrightarrow> a = 0 \<or> a = 4 \<or> a = 8 \<Longrightarrow> store32 m (c + a) v x = m x"
  by (rule store_le_outside) auto



section \<open>Addresses\<close>

lemma virt2phys_segment:
  assumes "ordered_segments (vm_info c)" "virt2phys c v = Inr p"
  shows "\<exists>(lo, hi, q) \<in> set (segments (vm_info c)).
    lo \<le> v \<and> v < hi \<and> p = q + (v - lo)"
proof -
  have "v \<le> vm_end_vaddr (vm_info c) \<Longrightarrow> v < vm_end_vaddr (vm_info c) + 1"
    using assms(1) by (auto simp: ordered_segments_def word_le_nat_alt word_less_nat_alt unat_word_ariths
        unsigned_minus_1_eq_mask mask_eq_exp_minus_1)
  then show ?thesis
    using assms(2) by (auto simp: virt2phys_def segments_def Let_def split: if_splits)
qed

lemma segment_in_region:
  "lo \<le> v \<Longrightarrow> v < hi \<Longrightarrow> in_region q (unat (hi - lo)) (q + (v - lo))" for lo :: addr
  by (auto simp: in_region_def word_le_nat_alt word_less_nat_alt unat_sub)

lemma sorted_wrt_cases:
  "sorted_wrt R xs \<Longrightarrow> x \<in> set xs \<Longrightarrow> y \<in> set xs \<Longrightarrow> x = y \<or> R x y \<or> R y x"
  by (induction xs) auto

text \<open>
  \<open>virt2phys\<close> answers exactly for the addresses from the start of the code to the end of the
  stack, panics for all others, and two different addresses of a program never meet in physical
  memory when the physical copies of its segments do not overlap.
\<close>

lemma virt2phys_total_injective:
  assumes "ordered_segments (vm_info c)"
    and "sorted_wrt (\<lambda>(lo, hi, p) (lo', hi', p').
           disjoint_regions p (unat (hi - lo)) p' (unat (hi' - lo'))) (segments (vm_info c))"
  shows "((\<exists>p. virt2phys c v = Inr p) \<longleftrightarrow>
      vm_code_vaddr (vm_info c) \<le> v \<and> v \<le> vm_end_vaddr (vm_info c)) \<and>
    (virt2phys c v = Inr p \<and> virt2phys c w = Inr p \<longrightarrow> v = w)"
proof (intro conjI impI)
  show "(\<exists>p. virt2phys c v = Inr p) \<longleftrightarrow> vm_code_vaddr (vm_info c) \<le> v \<and> v \<le> vm_end_vaddr (vm_info c)"
    using assms(1) by (auto simp: virt2phys_def ordered_segments_def Let_def)
  assume "virt2phys c v = Inr p \<and> virt2phys c w = Inr p"
  then have "virt2phys c v = Inr p" "virt2phys c w = Inr p" by auto
  from virt2phys_segment [OF assms(1) this(1)] virt2phys_segment [OF assms(1) this(2)]
  obtain lo hi q lo' hi' q' where
    s: "(lo, hi, q) \<in> set (segments (vm_info c))" "lo \<le> v" "v < hi" "p = q + (v - lo)"
    and s': "(lo', hi', q') \<in> set (segments (vm_info c))" "lo' \<le> w" "w < hi'" "p = q' + (w - lo')"
    by fast
  have "in_region q (unat (hi - lo)) p"
    unfolding s(4) by (rule segment_in_region [OF s(2,3)])
  moreover have "in_region q' (unat (hi' - lo')) p"
    unfolding s'(4) by (rule segment_in_region [OF s'(2,3)])
  ultimately have "\<not> disjoint_regions q (unat (hi - lo)) q' (unat (hi' - lo'))"
    "\<not> disjoint_regions q' (unat (hi' - lo')) q (unat (hi - lo))"
    by (auto dest: disjoint_regionsD)
  then have "lo = lo'" "q = q'"
    using sorted_wrt_cases [OF assms(2) s(1) s'(1)] by auto
  then show "v = w" using s(4) s'(4) by simp
qed

lemma virt2phys_total_injective_witness:
  "ordered_segments (vm_info demo_program) \<and> (\<exists>p. virt2phys demo_program 0x2010 = Inr p)"
proof -
  have "ordered_segments (vm_info demo_program)"
    by (simp add: ordered_segments_def demo_program_def word_less_nat_alt unsigned_minus_1_eq_mask
        mask_eq_exp_minus_1)
  moreover have "sorted_wrt (\<lambda>(lo, hi, p) (lo', hi', p').
      disjoint_regions p (unat (hi - lo)) p' (unat (hi' - lo'))) (segments (vm_info demo_program))"
    by (auto simp: segments_def demo_program_def intro!: disjoint_regionsI)
  ultimately show ?thesis
    using virt2phys_total_injective [of demo_program "0x2010" 0 0]
    by (simp add: demo_program_def)
qed

end
