(* ===== verification/Block_Alloc.thy ===== *)
theory Block_Alloc
  imports Cpu_Types
begin

text \<open>
  The physical memory allocator of the process manager (\<open>src/vms/pm/memory.c\<close>).

  Memory above \<open>first_free_addr\<close> is divided into blocks of 4 KB pages.  Node \<open>i\<close> of
  \<open>block_node_array\<close> belongs to page \<open>i\<close>; the nodes of the pages at which a block starts are linked
  into a list that covers the memory from left to right.  A block is free when its reference count
  is 0.  Allocation takes the first free block that is large enough and splits it; the last release
  of a block merges it with its free neighbours.

  A pointer to a node is the index of the node, \<open>NULL\<close> is \<open>None\<close>.  The array lies below the memory
  it manages, so it is kept as a typed table beside \<open>mem\<close>.  An index that the range check lets
  through although the array does not have it (the check allows one too many) is a \<open>Fault\<close>.
  \<open>array_base\<close> is the address of the array, which is only compared with \<open>NULL\<close>.
\<close>

record block_node =
  b_start_addr :: addr
  b_pages :: cint
  b_ref :: cint
  b_next :: "nat option"
  b_pre :: "nat option"

record alloc = sys +
  block_node_array :: "nat \<Rightarrow> block_node"
  array_base :: addr
  blist :: "nat option"
  block_node_array_last_idx :: cint
  first_free_addr :: addr
  all_nodes :: addr
  available_memory :: addr
  available_free_memory :: addr

abbreviation (input) "MIN_MEM_BLOCK_SIZE \<equiv> 0x1000"
abbreviation (input) "BLOCK_NODE_SIZE \<equiv> 32"
abbreviation (input) "PAGE_TABLE_SIZE \<equiv> 0x1000"

section \<open>Nodes\<close>

abbreviation node :: "'a alloc_scheme \<Rightarrow> nat \<Rightarrow> block_node" where
  "node s i \<equiv> block_node_array s i"

definition upd_node :: "nat \<Rightarrow> (block_node \<Rightarrow> block_node) \<Rightarrow> 'a alloc_scheme \<Rightarrow> 'a alloc_scheme" where
  "upd_node i f s = s\<lparr>block_node_array := (block_node_array s)(i := f (node s i))\<rparr>"

text \<open>\<open>&block_node_array[idx]\<close> for the \<open>int\<close> computed from an address.\<close>

definition node_idx :: "addr \<Rightarrow> 'a alloc_scheme \<Rightarrow> cint" where
  "node_idx paddr s = ucast ((paddr - first_free_addr s) div MIN_MEM_BLOCK_SIZE)"

definition node_ptr :: "cint \<Rightarrow> 'a alloc_scheme \<Rightarrow> nat res" where
  "node_ptr idx s =
    (if 0 \<le>s idx \<and> idx <s block_node_array_last_idx s then Inr (unat idx)
     else Inl (Fault ''block_node_array''))"

text \<open>The checks that the routines make on an address before they look at its node.\<close>

definition block_of_addr :: "addr \<Rightarrow> 'a alloc_scheme \<Rightarrow> nat res" where
  "block_of_addr paddr s =
    (if paddr AND 0xFFF \<noteq> 0 then Inl (Panic ''memory address is not 4KB aligned!'')
     else if paddr < first_free_addr s then Inl (Panic ''physical address under range!'')
     else if block_node_array_last_idx s <s node_idx paddr s
     then Inl (Panic ''block index is over block array size'')
     else node_ptr (node_idx paddr s) s)"

definition alloc_block_node :: "addr \<Rightarrow> 'a alloc_scheme \<Rightarrow> nat res" where
  "alloc_block_node paddr s =
    bindr (block_of_addr paddr s) (\<lambda>block.
      if b_ref (node s block) > 0 then Inl (Panic ''block is already allocated!'')
      else Inr block)"

section \<open>Initialisation\<close>

primrec clear_nodes :: "nat \<Rightarrow> 'a alloc_scheme \<Rightarrow> 'a alloc_scheme" where
  "clear_nodes 0 s = s"
| "clear_nodes (Suc n) s = upd_node n (\<lambda>b. b\<lparr>b_ref := 0, b_pages := 0\<rparr>) (clear_nodes n s)"

definition init_block_node :: "'a alloc_scheme \<Rightarrow> 'a alloc_scheme res" where
  "init_block_node s =
    (let nodes = available_free_memory s div MIN_MEM_BLOCK_SIZE +
           (if available_free_memory s mod MIN_MEM_BLOCK_SIZE \<noteq> 0 then 1 else 0);
         s1 = s\<lparr>all_nodes := nodes\<rparr>
     in if nodes * BLOCK_NODE_SIZE + first_free_addr s1 > available_memory s1
        then Inl (Panic ''Not enough memory!'')
        else
          (let first = ALIGN (first_free_addr s1 + nodes * BLOCK_NODE_SIZE) MIN_MEM_BLOCK_SIZE;
               s2 = s1\<lparr>array_base := first_free_addr s1,
                       block_node_array_last_idx := ucast nodes, first_free_addr := first,
                       available_free_memory := available_memory s1 - first\<rparr>
           in Inr (clear_nodes (nat (sint (block_node_array_last_idx s2))) s2)))"

definition init_block_list :: "'a alloc_scheme \<Rightarrow> 'a alloc_scheme res" where
  "init_block_list s =
    (let all_free_pages = available_free_memory s div MIN_MEM_BLOCK_SIZE in
     bindr (alloc_block_node (first_free_addr s) s) (\<lambda>b.
       if array_base s + of_nat (BLOCK_NODE_SIZE * b) = 0 then Inl (Panic ''Failed to initialize memory!'')
       else Inr (upd_node b (\<lambda>_. \<lparr>b_start_addr = first_free_addr s, b_pages = ucast all_free_pages,
              b_ref = 0, b_next = None, b_pre = None\<rparr>) (s\<lparr>blist := Some b\<rparr>))))"

definition memory_init :: "addr \<Rightarrow> addr \<Rightarrow> 'a alloc_scheme \<Rightarrow> 'a alloc_scheme res" where
  "memory_init last_allocated_byte mem_size s =
    (let s1 = s\<lparr>available_memory := mem_size, first_free_addr := last_allocated_byte\<rparr> in
     if available_memory s1 < first_free_addr s1 then Inl (Panic ''Misconfigured memory parameters!'')
     else
       bindr (init_block_node
               (s1\<lparr>available_free_memory := available_memory s1 - first_free_addr s1\<rparr>))
         init_block_list)"

section \<open>Allocation\<close>

text \<open>The split of block \<open>i\<close> after its first \<open>n\<close> pages.\<close>

definition split_block :: "addr \<Rightarrow> nat \<Rightarrow> 'a alloc_scheme \<Rightarrow> (addr \<times> 'a alloc_scheme) res" where
  "split_block n i s =
    (let new_node_paddr = b_start_addr (node s i) + n * MIN_MEM_BLOCK_SIZE in
     bindr (alloc_block_node new_node_paddr s) (\<lambda>new.
       let s1 = upd_node new (\<lambda>b. b\<lparr>b_start_addr := new_node_paddr,
                  b_pages := ucast (scast (b_pages (node s i)) - n),
                  b_next := b_next (node s i), b_pre := Some i\<rparr>) s;
           s2 = (case b_next (node s1 i) of
                   Some k \<Rightarrow> upd_node k (\<lambda>b. b\<lparr>b_pre := Some new\<rparr>) s1
                 | None \<Rightarrow> s1);
           s3 = upd_node new (\<lambda>b. b\<lparr>b_ref := 0\<rparr>) s2;
           s4 = upd_node i (\<lambda>b. b\<lparr>b_pages := ucast n, b_ref := 1, b_next := Some new\<rparr>) s3
       in Inr (b_start_addr (node s4 i), s4)))"

text \<open>
  The loop over the list.  A list that visits no node twice has at most
  \<open>block_node_array_last_idx\<close> nodes; a walk that is still going after that many steps has come back
  to a node it has seen in the same state and never ends.
\<close>

fun alloc_loop :: "nat \<Rightarrow> addr \<Rightarrow> nat option \<Rightarrow> 'a alloc_scheme \<Rightarrow> (addr \<times> 'a alloc_scheme) res" where
  "alloc_loop fuel n None s = Inr (0, s)"
| "alloc_loop 0 n (Some i) s = Inl Blocked"
| "alloc_loop (Suc fuel) n (Some i) s =
    (if b_ref (node s i) > 0 \<or> scast (b_pages (node s i)) < n
     then alloc_loop fuel n (b_next (node s i)) s
     else if scast (b_pages (node s i)) = n
     then (let s' = upd_node i (\<lambda>b. b\<lparr>b_ref := 1\<rparr>) s in Inr (b_start_addr (node s' i), s'))
     else split_block n i s)"

definition alloc_mem_pages :: "addr \<Rightarrow> 'a alloc_scheme \<Rightarrow> (addr \<times> 'a alloc_scheme) res" where
  "alloc_mem_pages n s =
    (if n = 0 then Inr (0, s)
     else alloc_loop (Suc (unat (block_node_array_last_idx s))) n (blist s) s)"

definition reallocable :: "addr \<Rightarrow> 'a alloc_scheme \<Rightarrow> bool" where
  "reallocable paddr s \<longleftrightarrow>
    first_free_addr s < paddr \<and> node_idx paddr s <s block_node_array_last_idx s"

definition realloc_mem_block :: "addr \<Rightarrow> 'a alloc_scheme \<Rightarrow> (addr \<times> 'a alloc_scheme) res" where
  "realloc_mem_block paddr s =
    bindr (block_of_addr paddr s) (\<lambda>block.
      if b_ref (node s block) = 0 then Inl (Panic ''Can't reallocate a free memory block!'')
      else Inr (paddr, upd_node block (\<lambda>b. b\<lparr>b_ref := b_ref b + 1\<rparr>) s))"

definition alloc_clean_mem_pages :: "addr \<Rightarrow> 'a alloc_scheme \<Rightarrow> (addr \<times> 'a alloc_scheme) res" where
  "alloc_clean_mem_pages n s =
    bindr (alloc_mem_pages n s) (\<lambda>(found_block, s').
      if found_block > 0
      then Inr (found_block, s'\<lparr>mem := memset found_block 0 (n * MIN_MEM_BLOCK_SIZE) (mem s')\<rparr>)
      else Inr (found_block, s'))"

definition alloc_page_table :: "'a alloc_scheme \<Rightarrow> (addr \<times> 'a alloc_scheme) res" where
  "alloc_page_table s =
    bindr (alloc_mem_pages 1 s) (\<lambda>(found_block, s').
      if found_block > 0
      then Inr (found_block, s'\<lparr>mem := memset found_block 0 PAGE_TABLE_SIZE (mem s')\<rparr>)
      else Inr (found_block, s'))"

section \<open>Release\<close>

text \<open>\<open>if (block->next && block->next->b_ref == 0)\<close>: take the free block behind into this one.\<close>

definition merge_next :: "nat \<Rightarrow> 'a alloc_scheme \<Rightarrow> 'a alloc_scheme res" where
  "merge_next block s =
    (case b_next (node s block) of
       None \<Rightarrow> Inr s
     | Some next_node \<Rightarrow>
        if b_ref (node s next_node) = 0 then
          (if blist s = Some next_node then Inl (Panic ''Memory block list is corrupted!!'')
           else if b_pre (node s next_node) \<noteq> Some block then Inl (Panic ''Memory block list is corrupted!!'')
           else
             (let s1 = upd_node block (\<lambda>b. b\<lparr>b_pages := b_pages b + b_pages (node s next_node),
                         b_next := b_next (node s next_node)\<rparr>) s;
                  s2 = (case b_next (node s1 next_node) of
                          Some k \<Rightarrow> upd_node k (\<lambda>b. b\<lparr>b_pre := Some block\<rparr>) s1
                        | None \<Rightarrow> s1)
              in Inr (upd_node next_node (\<lambda>b. b\<lparr>b_ref := 0\<rparr>) s2)))
        else Inr s)"

text \<open>\<open>if (block->pre && block->pre->b_ref == 0)\<close>: give this block to the free one in front.\<close>

definition merge_pre :: "nat \<Rightarrow> 'a alloc_scheme \<Rightarrow> 'a alloc_scheme res" where
  "merge_pre block s =
    (case b_pre (node s block) of
       None \<Rightarrow> Inr s
     | Some previous_node \<Rightarrow>
        if b_ref (node s previous_node) = 0 then
          (if b_next (node s previous_node) \<noteq> Some block then Inl (Panic ''Memory block list is corrupted!!'')
           else
             (let s1 = upd_node previous_node (\<lambda>b. b\<lparr>b_pages := b_pages b + b_pages (node s block),
                         b_next := b_next (node s block)\<rparr>) s;
                  s2 = (case b_next (node s1 block) of
                          Some k \<Rightarrow> upd_node k (\<lambda>b. b\<lparr>b_pre := Some previous_node\<rparr>) s1
                        | None \<Rightarrow> s1)
              in Inr (upd_node previous_node (\<lambda>b. b\<lparr>b_ref := 0\<rparr>) s2)))
        else Inr s)"

definition free_mem_pages :: "addr \<Rightarrow> 'a alloc_scheme \<Rightarrow> 'a alloc_scheme res" where
  "free_mem_pages paddr s =
    bindr (block_of_addr paddr s) (\<lambda>block.
      if b_ref (node s block) = 0 then Inl (Panic ''Can't free a free memory block!'')
      else if b_ref (node s block) > 1
      then Inr (upd_node block (\<lambda>b. b\<lparr>b_ref := b_ref b - 1\<rparr>) s)
      else
        bindr (merge_next block s) (\<lambda>s1.
          bindr (merge_pre block s1) (\<lambda>s2.
            Inr (upd_node block (\<lambda>b. b\<lparr>b_ref := 0\<rparr>) s2))))"

end
