(* ===== verification/Block_Spec.thy ===== *)
theory Block_Spec
  imports Savannah_Prelude
begin

text \<open>
  What a page allocator with reference counts promises, apart from the pointers of
  \<open>src/vms/pm/memory.c\<close>: memory is a list of blocks (first page, number of pages, references) that
  tiles the pages 0 to N; the view of a client is the number of references of each page.

  The lemmas show of first-fit allocation that it finds the lowest run of free pages that is long
  enough whenever there is one, of release that it only lowers the count of the block's pages, and
  that both keep neighbouring free blocks merged, which is why no run of free pages is ever missed.
\<close>

type_synonym ablock = "nat \<times> nat \<times> nat"

section \<open>Definitions\<close>

fun aalloc :: "nat \<Rightarrow> ablock list \<Rightarrow> (nat \<times> ablock list) option" where
  "aalloc n [] = None"
| "aalloc n ((a, p, r) # bs) =
    (if r = 0 \<and> n \<le> p
     then Some (a, if n = p then (a, p, 1) # bs else (a, n, 1) # (a + n, p - n, 0) # bs)
     else map_option (\<lambda>(x, bs'). (x, (a, p, r) # bs')) (aalloc n bs))"

definition map_ref :: "(nat \<Rightarrow> nat) \<Rightarrow> nat \<Rightarrow> ablock list \<Rightarrow> ablock list" where
  "map_ref f a bs = map (\<lambda>(x, p, r). (x, p, if x = a then f r else r)) bs"

fun merge :: "ablock list \<Rightarrow> ablock list" where
  "merge [] = []"
| "merge [b] = [b]"
| "merge ((a, p, r) # (b, q, t) # bs) =
    (if r = 0 \<and> t = 0 then merge ((a, p + q, 0) # bs) else (a, p, r) # merge ((b, q, t) # bs))"

definition afree :: "nat \<Rightarrow> ablock list \<Rightarrow> ablock list" where
  "afree a bs = merge (map_ref (\<lambda>r. r - 1) a bs)"

fun page_ref :: "ablock list \<Rightarrow> nat \<Rightarrow> nat" where
  "page_ref [] k = 0"
| "page_ref ((a, p, r) # bs) k = (if a \<le> k \<and> k < a + p then r else page_ref bs k)"

fun tiled :: "nat \<Rightarrow> ablock list \<Rightarrow> nat \<Rightarrow> bool" where
  "tiled a [] N \<longleftrightarrow> a = N"
| "tiled a ((x, p, r) # bs) N \<longleftrightarrow> x = a \<and> 0 < p \<and> tiled (a + p) bs N"

fun coalesced :: "ablock list \<Rightarrow> bool" where
  "coalesced ((a, p, r) # (b, q, t) # bs) \<longleftrightarrow> (r > 0 \<or> t > 0) \<and> coalesced ((b, q, t) # bs)"
| "coalesced bs = True"

definition free_run :: "ablock list \<Rightarrow> nat \<Rightarrow> nat \<Rightarrow> bool" where
  "free_run bs a n \<longleftrightarrow> (\<forall>k \<in> {a..<a + n}. page_ref bs k = 0)"

section \<open>Tilings\<close>

lemma tiled_le: "tiled a bs N \<Longrightarrow> a \<le> N"
  by (induction bs arbitrary: a) fastforce+

lemma tiled_append: "tiled a (xs @ ys) N \<longleftrightarrow> (\<exists>b. tiled a xs b \<and> tiled b ys N)"
  by (induction xs arbitrary: a) auto

lemma tiled_starts: "tiled a bs N \<Longrightarrow> (x, p, r) \<in> set bs \<Longrightarrow> a \<le> x \<and> 0 < p \<and> x + p \<le> N"
  by (induction bs arbitrary: a) (auto dest: tiled_le, fastforce+)

lemma tiled_map_ref [simp]: "tiled a (map_ref f x bs) N = tiled a bs N"
  unfolding map_ref_def by (induction bs arbitrary: a) auto

lemma page_ref_outside: "tiled a bs N \<Longrightarrow> k < a \<or> N \<le> k \<Longrightarrow> page_ref bs k = 0"
proof (induction bs arbitrary: a)
  case (Cons b bs)
  obtain x p r where b: "b = (x, p, r)" by (cases b)
  with Cons.prems have "tiled (a + p) bs N" "x = a" "a + p \<le> N" by (auto dest: tiled_le)
  with Cons b show ?case by auto
qed simp

lemma page_ref_block:
  "tiled a bs N \<Longrightarrow> (x, p, r) \<in> set bs \<Longrightarrow> x \<le> k \<Longrightarrow> k < x + p \<Longrightarrow> page_ref bs k = r"
proof (induction bs arbitrary: a)
  case (Cons b bs)
  obtain y q t where b: "b = (y, q, t)" by (cases b)
  with Cons.prems have t: "tiled (a + q) bs N" "y = a" by auto
  show ?case
  proof (cases "(x, p, r) = b")
    case False
    then have "(x, p, r) \<in> set bs" using Cons.prems by auto
    with t Cons b tiled_starts [OF t(1) this] show ?thesis by auto
  qed (use b Cons.prems in auto)
qed simp

lemma tiled_merge: "tiled a bs N \<Longrightarrow> tiled a (merge bs) N"
  by (induction bs arbitrary: a rule: merge.induct) (auto simp: add.assoc)

lemma page_ref_merge: "tiled a bs N \<Longrightarrow> page_ref (merge bs) k = page_ref bs k"
  by (induction bs arbitrary: a rule: merge.induct) (auto simp: add.assoc)

lemma merge_hd: "merge ((a, p, r) # bs) \<noteq> [] \<and> (\<exists>q. hd (merge ((a, p, r) # bs)) = (a, q, r))"
  by (induction "(a, p, r) # bs" arbitrary: p r bs rule: merge.induct) (auto split: if_splits)

lemma coalesced_Cons:
  "coalesced ((a, p, r) # bs) \<longleftrightarrow> coalesced bs \<and> (bs = [] \<or> r > 0 \<or> snd (snd (hd bs)) > 0)"
  by (cases bs) auto

lemma coalesced_append:
  "coalesced (xs @ (a, p, r) # ys) \<longleftrightarrow> coalesced xs \<and> coalesced ((a, p, r) # ys) \<and>
    (xs = [] \<or> r > 0 \<or> snd (snd (last xs)) > 0)"
proof (induction xs)
  case (Cons x xs)
  obtain b q t where "x = (b, q, t)" by (cases x)
  with Cons show ?case by (cases xs) (auto simp: coalesced_Cons)
qed simp

lemma coalesced_merge: "coalesced (merge bs)"
proof (induction bs rule: merge.induct)
  case (3 a p r b q t bs)
  then show ?case
    using merge_hd [of b q t bs] by (auto simp: coalesced_Cons)
qed auto

lemma merge_id: "coalesced bs \<Longrightarrow> merge bs = bs"
  by (induction bs rule: merge.induct) auto

section \<open>Allocation\<close>

lemma aalloc_tiled:
  "aalloc n bs = Some (x, bs') \<Longrightarrow> tiled a bs N \<Longrightarrow> 0 < n \<Longrightarrow>
    tiled a bs' N \<and> a \<le> x \<and> x + n \<le> N"
proof (induction bs arbitrary: a bs')
  case (Cons b bs)
  obtain y p r where b: "b = (y, p, r)" by (cases b)
  with Cons.prems have t: "tiled (a + p) bs N" "y = a" "0 < p" by auto
  then have le: "a + p \<le> N" by (auto dest: tiled_le)
  show ?case
    using Cons.prems t le b Cons.IH [of _ "a + p"] by (auto split: if_splits)
qed simp

lemma aalloc_page_ref:
  "aalloc n bs = Some (x, bs') \<Longrightarrow> tiled a bs N \<Longrightarrow> 0 < n \<Longrightarrow>
    page_ref bs' k = (if x \<le> k \<and> k < x + n then 1 else page_ref bs k) \<and>
    (x \<le> k \<and> k < x + n \<longrightarrow> page_ref bs k = 0)"
proof (induction bs arbitrary: a bs')
  case (Cons b bs)
  obtain y p r where b: "b = (y, p, r)" by (cases b)
  with Cons.prems have t: "tiled (a + p) bs N" "y = a" "0 < p" by auto
  show ?case
  proof (cases "r = 0 \<and> n \<le> p")
    case True
    then show ?thesis using Cons.prems t b by (auto split: if_splits)
  next
    case False
    with Cons.prems b obtain bs2 where r: "aalloc n bs = Some (x, bs2)" "bs' = b # bs2"
      by auto
    moreover have "a + p \<le> x" using aalloc_tiled [OF r(1) t(1) Cons.prems(3)] by simp
    ultimately show ?thesis using Cons.IH [OF r(1) t(1) Cons.prems(3)] t(2) b by auto
  qed
qed simp

lemma aalloc_block: "aalloc n bs = Some (x, bs') \<Longrightarrow> (x, n, 1) \<in> set bs'"
  by (induction bs arbitrary: bs') (auto split: if_splits)

lemma aalloc_hd_ref:
  "aalloc n bs = Some (x, bs') \<Longrightarrow> bs \<noteq> [] \<and> bs' \<noteq> [] \<and>
    (snd (snd (hd bs')) > 0 \<or> snd (snd (hd bs')) = snd (snd (hd bs)))"
  by (cases bs) (auto split: if_splits)

lemma aalloc_coalesced:
  "aalloc n bs = Some (x, bs') \<Longrightarrow> coalesced bs \<Longrightarrow> coalesced bs'"
proof (induction bs arbitrary: bs')
  case (Cons b bs)
  obtain y p r where b: "b = (y, p, r)" by (cases b)
  show ?case
  proof (cases "r = 0 \<and> n \<le> p")
    case True
    then show ?thesis using Cons.prems b by (auto simp: coalesced_Cons split: if_splits)
  next
    case False
    with Cons.prems b obtain bs2 where r: "aalloc n bs = Some (x, bs2)" "bs' = b # bs2"
      by auto
    moreover have "coalesced bs" using Cons.prems(2) b by (simp add: coalesced_Cons)
    moreover from this have "coalesced bs2" by (rule Cons.IH [OF r(1)])
    ultimately show ?thesis
      using Cons.prems(2) b aalloc_hd_ref [OF r(1)] by (simp add: coalesced_Cons) linarith
  qed
qed simp

text \<open>First fit finds the lowest free run, and fails only when there is none.\<close>

lemma aalloc_lowest:
  assumes "tiled a bs N" "coalesced bs" "0 < n" "a \<le> b" "b + n \<le> N" "free_run bs b n"
  shows "\<exists>x bs'. aalloc n bs = Some (x, bs') \<and> x \<le> b"
  using assms
proof (induction bs arbitrary: a)
  case Nil
  then show ?case by simp
next
  case (Cons c bs)
  obtain y p r where c: "c = (y, p, r)" by (cases c)
  with Cons.prems have t: "tiled (a + p) bs N" "y = a" "0 < p" by auto
  show ?case
  proof (cases "r = 0 \<and> n \<le> p")
    case True
    then show ?thesis using c t Cons.prems by auto
  next
    case False
    have "a + p \<le> b"
    proof (rule ccontr)
      assume "\<not> a + p \<le> b"
      then have "b \<in> {b..<b + n}" "a \<le> b" "b < a + p" using Cons.prems by auto
      then have "page_ref (c # bs) b = 0" using Cons.prems(6) unfolding free_run_def by blast
      then have "r = 0" using c t \<open>a \<le> b\<close> \<open>b < a + p\<close> by simp
      with False have "p < n" by simp
      then have run: "a + p \<in> {b..<b + n}" "a + p < N" using Cons.prems \<open>b < a + p\<close> by auto
      then obtain z q u bs2 where bs: "bs = (z, q, u) # bs2"
        using t(1) by (cases bs) auto
      with t Cons.prems(2) c \<open>r = 0\<close> have "u > 0" "z = a + p" "0 < q" by auto
      moreover have "page_ref (c # bs) (a + p) = 0" using run Cons.prems(6) unfolding free_run_def by blast
      ultimately show False using c bs t by auto
    qed
    moreover have "free_run bs b n"
      using Cons.prems(6) c t \<open>a + p \<le> b\<close> by (auto simp: free_run_def)
    ultimately have "\<exists>x bs'. aalloc n bs = Some (x, bs') \<and> x \<le> b"
      using Cons.prems c t by (intro Cons.IH [OF t(1)]) (auto simp: coalesced_Cons)
    then show ?thesis using False c by auto
  qed
qed

section \<open>Release\<close>

lemma page_ref_map_ref:
  assumes "tiled a bs N" "(x, p, r) \<in> set bs"
  shows "page_ref (map_ref f x bs) k =
    (if x \<le> k \<and> k < x + p then f (page_ref bs k) else page_ref bs k)"
  using assms
proof (induction bs arbitrary: a)
  case (Cons b bs)
  obtain y q t where b: "b = (y, q, t)" by (cases b)
  with Cons.prems have tl: "tiled (a + q) bs N" "y = a" "0 < q" by auto
  show ?case
  proof (cases "(x, p, r) = b")
    case True
    have "y' \<noteq> x" if "(y', q', t') \<in> set bs" for y' q' t'
      using tiled_starts [OF tl(1) that] True b tl by auto
    then have "map_ref f x bs = bs"
      by (auto simp: map_ref_def intro!: map_idI)
    then show ?thesis using True b by (auto simp: map_ref_def)
  next
    case False
    then have i: "(x, p, r) \<in> set bs" using Cons.prems by auto
    with tiled_starts [OF tl(1) i] have "a + q \<le> x" "0 < p" by auto
    then show ?thesis
      using Cons.IH [OF tl(1) i] b tl by (auto simp: map_ref_def)
  qed
qed simp

lemma afree_page_ref:
  assumes "tiled a bs N" "(x, p, r) \<in> set bs"
  shows "page_ref (afree x bs) k = (if x \<le> k \<and> k < x + p then page_ref bs k - 1 else page_ref bs k)"
  using assms page_ref_merge [of a "map_ref (\<lambda>r. r - 1) x bs" N]
  by (simp add: afree_def page_ref_map_ref)

lemma afree_wf: "tiled a bs N \<Longrightarrow> tiled a (afree x bs) N \<and> coalesced (afree x bs)"
  by (simp add: afree_def tiled_merge coalesced_merge)

text \<open>Releasing what was just allocated gives the list back as it was.\<close>

lemma merge_Cons_merge: "merge (b # merge bs) = merge (b # bs)"
proof (induction bs arbitrary: b rule: merge.induct)
  case (3 a p r c q t bs)
  then show ?case by (cases b) (auto simp: add.assoc)
qed auto

lemma merge_join:
  "merge (xs @ (a, p, 0) # (b, q, 0) # ys) = merge (xs @ (a, p + q, 0) # ys)"
proof (induction xs)
  case (Cons x xs)
  then show ?case by (metis append_Cons merge_Cons_merge)
qed simp

lemma map_ref_split:
  assumes "tiled a (xs @ (x, p, r) # ys) N"
  shows "map_ref f x (xs @ (x, p, r) # ys) = xs @ (x, p, f r) # ys"
proof -
  have "tiled a xs x" "0 < p" "tiled (x + p) ys N" using assms by (auto simp: tiled_append)
  then have "map_ref f x xs = xs" "map_ref f x ys = ys"
    using tiled_starts [of a xs x] tiled_starts [of "x + p" ys N]
    by (fastforce simp: map_ref_def intro!: map_idI)+
  then show ?thesis by (simp add: map_ref_def)
qed

lemma afree_aalloc:
  assumes "aalloc n bs = Some (x, bs')" "tiled a bs N" "coalesced bs" "0 < n"
  shows "afree x bs' = bs"
proof -
  have "merge (map_ref (\<lambda>r. r - 1) x bs') = merge bs"
    using assms(1,2,4)
  proof (induction bs arbitrary: a bs')
    case (Cons b bs)
    obtain y p r where b: "b = (y, p, r)" by (cases b)
    with Cons.prems have t: "tiled (a + p) bs N" "y = a" "0 < p" by auto
    have id: "map_ref f z bs = bs" if "z < a + p" for f z
      using that tiled_starts [OF t(1)] by (fastforce simp: map_ref_def intro!: map_idI)
    show ?case
    proof (cases "r = 0 \<and> n \<le> p")
      case True
      then show ?thesis
        using Cons.prems b t id [of a] id [of "a + n"]
        by (auto simp: map_ref_def split: if_splits)
    next
      case False
      with Cons.prems b obtain bs2 where r: "aalloc n bs = Some (x, bs2)" "bs' = b # bs2"
        by auto
      have "a + p \<le> x" using aalloc_tiled [OF r(1) t(1) Cons.prems(3)] by simp
      then have "map_ref (\<lambda>r. r - 1) x bs' = b # map_ref (\<lambda>r. r - 1) x bs2"
        using r(2) b t by (auto simp: map_ref_def)
      moreover have "merge (map_ref (\<lambda>r. r - 1) x bs2) = merge bs"
        by (rule Cons.IH [OF r(1) t(1) Cons.prems(3)])
      ultimately show ?thesis by (metis merge_Cons_merge)
    qed
  qed simp
  then show ?thesis using assms(3) by (simp add: afree_def merge_id)
qed

end
