(* ===== verification/Block_Refine.thy ===== *)
theory Block_Refine
  imports Block_Alloc Block_Spec
begin

text \<open>
  The allocator of \<open>src/vms/pm/memory.c\<close> implements the abstract one: \<open>alloc_inv\<close> ties the linked
  nodes to a list of blocks, every routine keeps it, and each routine does on the list what its
  abstract counterpart does.  The invariant holds after \<open>memory_init\<close>, so it holds after every
  sequence of calls.
\<close>

section \<open>Definitions\<close>

definition hd_or :: "'b list \<Rightarrow> 'b option \<Rightarrow> 'b option" where
  "hd_or xs t = (case xs of [] \<Rightarrow> t | x # _ \<Rightarrow> Some x)"

definition last_or :: "'b option \<Rightarrow> 'b list \<Rightarrow> 'b option" where
  "last_or p xs = (if xs = [] then p else Some (last xs))"

text \<open>The nodes \<open>ns\<close> are doubly linked, after the node \<open>p\<close> and before the node \<open>t\<close>.\<close>

fun dlinked :: "(nat \<Rightarrow> block_node) \<Rightarrow> nat option \<Rightarrow> nat list \<Rightarrow> nat option \<Rightarrow> bool" where
  "dlinked h p [] t \<longleftrightarrow> True"
| "dlinked h p (i # is) t \<longleftrightarrow>
    b_pre (h i) = p \<and> b_next (h i) = hd_or is t \<and> dlinked h (Some i) is t"

definition abs_block :: "'a alloc_scheme \<Rightarrow> nat \<Rightarrow> ablock" where
  "abs_block s i = (i, unat (b_pages (node s i)), unat (b_ref (node s i)))"

abbreviation blocks :: "'a alloc_scheme \<Rightarrow> nat list \<Rightarrow> ablock list" where
  "blocks s ns \<equiv> map (abs_block s) ns"

abbreviation last_idx :: "'a alloc_scheme \<Rightarrow> nat" where
  "last_idx s \<equiv> unat (block_node_array_last_idx s)"

definition page_addr :: "'a alloc_scheme \<Rightarrow> nat \<Rightarrow> addr" where
  "page_addr s i = first_free_addr s + of_nat (4096 * i)"

definition arena_ok :: "nat \<Rightarrow> 'a alloc_scheme \<Rightarrow> bool" where
  "arena_ok N s \<longleftrightarrow> 0 < N \<and> N \<le> last_idx s \<and> last_idx s < 2 ^ 31 \<and>
    0 < first_free_addr s \<and> first_free_addr s AND 0xFFF = 0 \<and>
    unat (first_free_addr s) + 4096 * N \<le> 2 ^ 64"

definition alloc_inv :: "nat \<Rightarrow> nat list \<Rightarrow> 'a alloc_scheme \<Rightarrow> bool" where
  "alloc_inv N ns s \<longleftrightarrow> arena_ok N s \<and>
    blist s = hd_or ns None \<and> dlinked (block_node_array s) None ns None \<and>
    tiled 0 (blocks s ns) N \<and> coalesced (blocks s ns) \<and>
    (\<forall>i \<in> set ns. b_start_addr (node s i) = page_addr s i) \<and>
    (\<forall>i < last_idx s. i \<notin> set ns \<longrightarrow> b_ref (node s i) = 0)"

text \<open>What the routines leave alone: everything but the nodes.\<close>

definition same_but_nodes :: "'a alloc_scheme \<Rightarrow> 'a alloc_scheme \<Rightarrow> bool" where
  "same_but_nodes s s' \<longleftrightarrow> (\<exists>h. s' = s\<lparr>block_node_array := h\<rparr>)"

section \<open>Linked nodes\<close>

lemma hd_or_simps [simp]: "hd_or [] t = t" "hd_or (x # xs) t = Some x"
  by (simp_all add: hd_or_def)

lemma hd_or_append: "hd_or (xs @ ys) t = hd_or xs (hd_or ys t)"
  by (cases xs) auto

lemma last_or_simps [simp]: "last_or p [] = p" "last_or p (xs @ [x]) = Some x"
  by (simp_all add: last_or_def)

lemma last_or_Cons: "last_or p (x # xs) = last_or (Some x) xs"
  by (simp add: last_or_def)

lemma dlinked_append:
  "dlinked h p (xs @ ys) t \<longleftrightarrow> dlinked h p xs (hd_or ys t) \<and> dlinked h (last_or p xs) ys t"
  by (induction xs arbitrary: p) (auto simp: hd_or_append last_or_Cons)

lemma dlinked_cong:
  "(\<And>i. i \<in> set ns \<Longrightarrow> b_pre (h i) = b_pre (h' i) \<and> b_next (h i) = b_next (h' i)) \<Longrightarrow>
    dlinked h p ns t = dlinked h' p ns t"
  by (induction ns arbitrary: p) auto

section \<open>Updates of nodes\<close>

lemma node_upd_node [simp]: "node (upd_node i f s) j = (if j = i then f (node s i) else node s j)"
  by (simp add: upd_node_def)

lemma upd_node_fields [simp]:
  "first_free_addr (upd_node i f s) = first_free_addr s"
  "block_node_array_last_idx (upd_node i f s) = block_node_array_last_idx s"
  "blist (upd_node i f s) = blist s"
  "mem (upd_node i f s) = mem s"
  "cpus (upd_node i f s) = cpus s"
  by (simp_all add: upd_node_def)

lemma same_but_nodes_refl [simp]: "same_but_nodes s s"
  by (auto simp: same_but_nodes_def intro: exI [of _ "block_node_array s"])

lemma same_but_nodes_upd [simp]: "same_but_nodes s t \<Longrightarrow> same_but_nodes s (upd_node i f t)"
  by (auto simp: same_but_nodes_def upd_node_def)

lemma same_but_nodes_trans: "same_but_nodes s t \<Longrightarrow> same_but_nodes t u \<Longrightarrow> same_but_nodes s u"
  by (auto simp: same_but_nodes_def)

lemma same_but_nodes_fields:
  assumes "same_but_nodes s s'"
  shows "first_free_addr s' = first_free_addr s"
    "block_node_array_last_idx s' = block_node_array_last_idx s"
    "blist s' = blist s" "mem s' = mem s" "cpus s' = cpus s"
    "alloc.more s' = alloc.more s" "page_addr s' i = page_addr s i" "arena_ok N s' = arena_ok N s"
  using assms by (auto simp: same_but_nodes_def page_addr_def arena_ok_def)

section \<open>Words of the nodes\<close>

lemma unat_eq_of_nat: "unat w = n \<longleftrightarrow> w = of_nat n" if "n < 2 ^ LENGTH('a)" for w :: "'a::len word"
  using that by (metis of_nat_unat_word unat_of_nat_small)

lemma scast_pages: "unat (w :: cint) < 2 ^ 31 \<Longrightarrow> unat (scast w :: addr) = unat w"
  using scast_of_nat_cint [of "unat w"] unat_of_nat_small [of "unat w", where ?'a = 64] by simp

text \<open>The index computed from the address of page \<open>i\<close> is \<open>i\<close>, and the checks let it pass.\<close>

lemma page_addr_unat:
  assumes "arena_ok N s" "i < N"
  shows "unat (page_addr s i) = unat (first_free_addr s) + 4096 * i"
proof -
  have "4096 * i < 2 ^ 64" using assms by (simp add: arena_ok_def)
  then have "unat (of_nat (4096 * i) :: addr) = 4096 * i" by (intro unat_of_nat_small) simp
  then show ?thesis
    using assms unfolding page_addr_def arena_ok_def by (simp add: unat_word_ariths)
qed

lemma and_0xFFF_iff: "w AND 0xFFF = 0 \<longleftrightarrow> 4096 dvd unat w" for w :: addr
  using aligned_iff_dvd [of w 12] by (simp add: mask_eq_exp_minus_1)

lemma block_of_page:
  assumes "arena_ok N s" "i < N"
  shows "block_of_addr (page_addr s i) s = Inr i"
proof -
  note u = page_addr_unat [OF assms]
  have "page_addr s i AND 0xFFF = 0"
    using assms u by (simp add: and_0xFFF_iff arena_ok_def)
  moreover have "\<not> page_addr s i < first_free_addr s" using u by (simp add: word_less_nat_alt)
  moreover have i: "node_idx (page_addr s i) s = of_nat i"
  proof -
    have "page_addr s i - first_free_addr s = of_nat (4096 * i)" by (simp add: page_addr_def)
    moreover have "of_nat (4096 * i) div MIN_MEM_BLOCK_SIZE = (of_nat i :: addr)"
    proof (rule unsigned_word_eqI)
      have "4096 * i < 2 ^ 64" using assms by (simp add: arena_ok_def)
      then have "unat (of_nat (4096 * i) :: addr) = 4096 * i" "unat (of_nat i :: addr) = i"
        by (intro unat_of_nat_small; simp)+
      then show "unat (of_nat (4096 * i) div MIN_MEM_BLOCK_SIZE :: addr) = unat (of_nat i :: addr)"
        by (simp add: unat_div_distrib)
    qed
    ultimately show ?thesis by (simp only: node_idx_def ucast_of_nat_down)
  qed
  moreover have "(of_nat i :: cint) <s block_node_array_last_idx s" "0 \<le>s (of_nat i :: cint)"
  proof -
    have l: "i < 2 ^ 31" "last_idx s < 2 ^ 31" "i < last_idx s" using assms by (auto simp: arena_ok_def)
    have "sint (block_node_array_last_idx s) = int (last_idx s)"
      using sint_of_nat_cint [OF l(2)] by simp
    then show "(of_nat i :: cint) <s block_node_array_last_idx s" "0 \<le>s (of_nat i :: cint)"
      using l by (simp_all only: word_sless_alt word_sle_eq sint_of_nat_cint) simp_all
  qed
  moreover have "unat (of_nat i :: cint) = i" using assms by (intro unat_of_nat_small) (simp add: arena_ok_def)
  ultimately show ?thesis
    by (simp add: block_of_addr_def node_ptr_def)
qed

section \<open>The invariant\<close>

lemma alloc_invD:
  assumes "alloc_inv N ns s"
  shows "arena_ok N s" "blist s = hd_or ns None" "dlinked (block_node_array s) None ns None"
    "tiled 0 (blocks s ns) N" "coalesced (blocks s ns)"
    "i \<in> set ns \<Longrightarrow> b_start_addr (node s i) = page_addr s i"
    "i < last_idx s \<Longrightarrow> i \<notin> set ns \<Longrightarrow> b_ref (node s i) = 0"
  using assms by (auto simp: alloc_inv_def)

lemma block_in_arena:
  assumes "alloc_inv N ns s" "i \<in> set ns"
  shows "0 < unat (b_pages (node s i))" "i + unat (b_pages (node s i)) \<le> N"
    "unat (b_pages (node s i)) < 2 ^ 31" "i < N"
    "unat (scast (b_pages (node s i)) :: addr) = unat (b_pages (node s i))"
proof -
  have m: "(i, unat (b_pages (node s i)), unat (b_ref (node s i))) \<in> set (blocks s ns)"
    using assms(2) by (auto simp: abs_block_def)
  show p: "0 < unat (b_pages (node s i))" "i + unat (b_pages (node s i)) \<le> N"
    using tiled_starts [OF alloc_invD(4) [OF assms(1)] m] by auto
  then show "i < N" by simp
  show q: "unat (b_pages (node s i)) < 2 ^ 31"
    using p alloc_invD(1) [OF assms(1)] by (simp add: arena_ok_def)
  show "unat (scast (b_pages (node s i)) :: addr) = unat (b_pages (node s i))"
    by (rule scast_pages [OF q])
qed

lemma tiled_sorted: "tiled a bs N \<Longrightarrow> sorted_wrt (\<lambda>(x, p, r) (y, q, t). x + p \<le> y) bs"
  by (induction bs arbitrary: a) (auto dest: tiled_starts)

lemma blocks_sorted:
  assumes "alloc_inv N ns s"
  shows "sorted_wrt (\<lambda>i j. i + unat (b_pages (node s i)) \<le> j) ns"
  using tiled_sorted [OF alloc_invD(4) [OF assms]] by (simp add: sorted_wrt_map abs_block_def)

lemma blocks_distinct:
  assumes "alloc_inv N ns s"
  shows "distinct ns"
proof -
  have "sorted_wrt (<) ns"
    by (rule sorted_wrt_mono_rel [OF _ blocks_sorted [OF assms]])
      (use block_in_arena(1) [OF assms] in fastforce)
  then show ?thesis by (simp add: strict_sorted_iff)
qed

section \<open>Allocation\<close>

definition fits :: "'a alloc_scheme \<Rightarrow> nat \<Rightarrow> nat \<Rightarrow> bool" where
  "fits s n i \<longleftrightarrow> b_ref (node s i) = 0 \<and> n \<le> unat (b_pages (node s i))"

text \<open>The walk ends at the first block that fits, with fuel to spare.\<close>

lemma alloc_loop_walk:
  assumes "dlinked (block_node_array s) p ns None" "length ns \<le> fuel"
    and "\<And>i. i \<in> set ns \<Longrightarrow> unat (scast (b_pages (node s i)) :: addr) = unat (b_pages (node s i))"
  shows "alloc_loop fuel n (hd_or ns None) s =
    (case dropWhile (\<lambda>i. \<not> fits s (unat n) i) ns of
       [] \<Rightarrow> Inr (0, s)
     | i # _ \<Rightarrow> if unat (b_pages (node s i)) = unat n
                then (let s' = upd_node i (\<lambda>b. b\<lparr>b_ref := 1\<rparr>) s in Inr (b_start_addr (node s i), s'))
                else split_block n i s)"
  using assms
proof (induction ns arbitrary: p fuel)
  case Nil
  then show ?case by simp
next
  case (Cons i ns)
  then obtain k where fuel: "fuel = Suc k" by (cases fuel) auto
  have c: "unat (scast (b_pages (node s i)) :: addr) = unat (b_pages (node s i))"
    using Cons.prems by simp
  have "alloc_loop k n (b_next (node s i)) s =
    (case dropWhile (\<lambda>i. \<not> fits s (unat n) i) ns of
       [] \<Rightarrow> Inr (0, s)
     | i # _ \<Rightarrow> if unat (b_pages (node s i)) = unat n
                then (let s' = upd_node i (\<lambda>b. b\<lparr>b_ref := 1\<rparr>) s in Inr (b_start_addr (node s i), s'))
                else split_block n i s)"
    using Cons.prems fuel Cons.IH [of "Some i" k] by simp
  moreover have "(scast (b_pages (node s i)) = n) = (unat (b_pages (node s i)) = unat n)"
    using c by (metis word_unat_eq_iff)
  moreover have "(scast (b_pages (node s i)) < n) = (unat (b_pages (node s i)) < unat n)"
    using c by (simp add: word_less_nat_alt)
  ultimately show ?case
    using fuel by (auto simp: fits_def word_gt_0)
qed

lemma aalloc_dropWhile:
  "aalloc n (blocks s ns) =
    (case dropWhile (\<lambda>i. \<not> fits s n i) ns of
       [] \<Rightarrow> None
     | i # ys \<Rightarrow> Some (i, blocks s (takeWhile (\<lambda>i. \<not> fits s n i) ns) @
         (if n = unat (b_pages (node s i)) then (i, n, 1) # blocks s ys
          else (i, n, 1) # (i + n, unat (b_pages (node s i)) - n, 0) # blocks s ys)))"
proof (induction ns)
  case (Cons i ns)
  have "abs_block s i = (i, unat (b_pages (node s i)), unat (b_ref (node s i)))"
    by (simp add: abs_block_def)
  moreover have "fits s n i \<longleftrightarrow> unat (b_ref (node s i)) = 0 \<and> n \<le> unat (b_pages (node s i))"
    by (simp add: fits_def unat_eq_0)
  ultimately have "aalloc n (blocks s (i # ns)) =
      (if fits s n i then Some (i, if n = unat (b_pages (node s i)) then (i, n, 1) # blocks s ns
          else (i, n, 1) # (i + n, unat (b_pages (node s i)) - n, 0) # blocks s ns)
       else map_option (\<lambda>(x, bs'). (x, abs_block s i # bs')) (aalloc n (blocks s ns)))"
    by auto
  then show ?case
    using Cons.IH by (cases "dropWhile (\<lambda>i. \<not> fits s n i) ns")
      (simp_all del: dropWhile_eq_Nil_conv dropWhile_eq_Cons_conv)
qed simp

text \<open>
  A step that changes node \<open>i\<close> of the list \<open>xs @ i # ys\<close>, the new node \<open>j\<close> right behind it (if
  any), and the back pointer of the first node of \<open>ys\<close>.
\<close>

lemma dlinked_insert:
  assumes "dlinked h None (xs @ i # ys) None" "distinct (xs @ i # ys)" "j \<notin> set (xs @ i # ys)"
    and "\<And>k. k \<in> set xs \<Longrightarrow> h' k = h k"
    and "b_pre (h' i) = b_pre (h i)" "b_next (h' i) = Some j"
    and "b_pre (h' j) = Some i" "b_next (h' j) = b_next (h i)"
    and "\<And>k. k \<in> set ys \<Longrightarrow> b_next (h' k) = b_next (h k)"
    and "\<And>k. k \<in> set ys \<Longrightarrow> b_pre (h' k) = (if b_next (h i) = Some k then Some j else b_pre (h k))"
  shows "dlinked h' None (xs @ i # j # ys) None"
proof -
  have l: "dlinked h None xs (Some i)" "b_pre (h i) = last_or None xs"
    "b_next (h i) = hd_or ys None" "dlinked h (Some i) ys None"
    using assms(1) by (auto simp: dlinked_append)
  have "dlinked h' None xs (Some i)"
    using l(1) dlinked_cong [of xs h' h None "Some i"] assms(4) by auto
  moreover have "dlinked h' (Some j) ys None"
  proof (cases ys)
    case (Cons k zs)
    then have "dlinked h (Some k) zs None" "k \<notin> set zs" using l(4) assms(2) by auto
    moreover have "dlinked h' (Some k) zs None = dlinked h (Some k) zs None"
      using assms(9,10) l(3) Cons \<open>k \<notin> set zs\<close> by (intro dlinked_cong) auto
    ultimately show ?thesis using Cons assms(9,10) l(3,4) by auto
  qed simp
  ultimately show ?thesis
    using l assms(5-8) by (auto simp: dlinked_append)
qed

lemma blocks_cong: "(\<And>k. k \<in> set ns \<Longrightarrow> abs_block s k = abs_block s' k) \<Longrightarrow> blocks s ns = blocks s' ns"
  by simp

text \<open>The refinement of the split.\<close>

lemma split_block_ok:
  assumes "alloc_inv N (xs @ i # ys) s" "b_ref (node s i) = 0" "0 < n" "unat n < unat (b_pages (node s i))"
  shows "\<exists>s'. split_block n i s = Inr (page_addr s i, s') \<and> same_but_nodes s s' \<and>
    alloc_inv N (xs @ i # (i + unat n) # ys) s' \<and>
    blocks s' (xs @ i # (i + unat n) # ys) = blocks s xs @ (i, unat n, 1) #
      (i + unat n, unat (b_pages (node s i)) - unat n, 0) # blocks s ys"
proof -
  let ?ns = "xs @ i # ys" and ?j = "i + unat n" and ?p = "unat (b_pages (node s i))"
  note inv = alloc_invD [OF assms(1)] and bi = block_in_arena [OF assms(1), of i]
  have d: "distinct ?ns" by (rule blocks_distinct [OF assms(1)])
  have n0: "0 < unat n" using assms(3) by (simp add: word_gt_0 unat_gt_0)
  have jN: "?j < N" "?p < 2 ^ 31" "i + ?p \<le> N" using bi assms(4) by auto
  have srt: "sorted_wrt (\<lambda>i j. i + unat (b_pages (node s i)) \<le> j) ?ns"
    by (rule blocks_sorted [OF assms(1)])
  have jnew: "?j \<notin> set ?ns"
  proof
    assume "?j \<in> set ?ns"
    then consider "?j \<in> set xs" | "?j \<in> set ys" using n0 by auto
    then show False
    proof cases
      case 1
      then have "?j + unat (b_pages (node s ?j)) \<le> i" using srt by (auto simp: sorted_wrt_append)
      then show False using n0 by simp
    next
      case 2
      then have "i + ?p \<le> ?j" using srt by (auto simp: sorted_wrt_append)
      then show False using assms(4) by simp
    qed
  qed
  have addr: "b_start_addr (node s i) + n * MIN_MEM_BLOCK_SIZE = page_addr s ?j"
    using inv(6) [of i] by (simp add: page_addr_def algebra_simps)
  have "?j < last_idx s" using jN inv(1) by (simp add: arena_ok_def)
  then have "b_ref (node s ?j) = 0" using jnew inv(7) by blast
  then have ab: "alloc_block_node (page_addr s ?j) s = Inr ?j"
    using block_of_page [OF inv(1) jN(1)] by (simp add: alloc_block_node_def)
  have nx: "b_next (node s i) = hd_or ys None" using inv(3) by (simp add: dlinked_append)
  have ij: "i \<noteq> ?j" using n0 by simp
  have kij: "k \<noteq> i \<and> k \<noteq> ?j" if "b_next (node s i) = Some k" for k
    using that nx d jnew by (cases ys) auto
  let ?bj = "(node s ?j)\<lparr>b_start_addr := page_addr s ?j, b_pages := ucast (scast (b_pages (node s i)) - n),
      b_next := b_next (node s i), b_pre := Some i, b_ref := 0\<rparr>"
  let ?bi = "(node s i)\<lparr>b_pages := ucast n, b_ref := 1, b_next := Some ?j\<rparr>"
  define s1 where "s1 = upd_node ?j (\<lambda>b. b\<lparr>b_start_addr := page_addr s ?j,
      b_pages := ucast (scast (b_pages (node s i)) - n), b_next := b_next (node s i), b_pre := Some i\<rparr>) s"
  define s2 where "s2 = (case b_next (node s1 i) of
      Some k \<Rightarrow> upd_node k (\<lambda>b. b\<lparr>b_pre := Some ?j\<rparr>) s1 | None \<Rightarrow> s1)"
  define s' where "s' = upd_node i (\<lambda>b. b\<lparr>b_pages := ucast n, b_ref := 1, b_next := Some ?j\<rparr>)
      (upd_node ?j (\<lambda>b. b\<lparr>b_ref := 0\<rparr>) s2)"
  have n1: "b_next (node s1 i) = b_next (node s i)" using ij by (simp add: s1_def)
  have n2: "node s2 k = (if b_next (node s i) = Some k then (node s1 k)\<lparr>b_pre := Some ?j\<rparr> else node s1 k)" for k
    by (cases "b_next (node s i)") (auto simp: s2_def n1)
  have ni: "node s' i = ?bi" using ij kij by (auto simp: s'_def n2 s1_def)
  have nj: "node s' ?j = ?bj" using ij kij by (auto simp: s'_def n2 s1_def)
  have nk: "node s' k = (if b_next (node s i) = Some k then (node s k)\<lparr>b_pre := Some ?j\<rparr> else node s k)"
    if "k \<noteq> i" "k \<noteq> ?j" for k using that by (simp add: s'_def n2 s1_def)
  have "split_block n i s = Inr (b_start_addr (node s' i), s')"
    by (simp only: split_block_def addr ab bindr.simps Let_def s'_def s2_def s1_def)
  then have split: "split_block n i s = Inr (page_addr s i, s')" using ni inv(6) [of i] by simp
  have same: "same_but_nodes s s'"
    by (cases "b_next (node s1 i)") (simp_all add: s'_def s2_def s1_def)
  have un: "unat (ucast n :: cint) = unat n"
    using assms(4) jN(2) by (intro unat_ucast_cint) simp
  have up: "unat (ucast (scast (b_pages (node s i)) - n) :: cint) = ?p - unat n"
  proof -
    have "unat (scast (b_pages (node s i)) - n) = ?p - unat n"
      using assms(4) bi(5) by (simp add: unat_sub_if')
    moreover have "?p - unat n < 2 ^ 32" using jN(2) by simp
    ultimately show ?thesis by (metis unat_ucast_cint)
  qed
  have abs: "abs_block s' k = abs_block s k" if "k \<noteq> i" "k \<noteq> ?j" for k
    using nk [OF that] by (simp add: abs_block_def)
  have bl: "blocks s' (xs @ i # ?j # ys) = blocks s xs @ (i, unat n, 1) # (?j, ?p - unat n, 0) # blocks s ys"
  proof -
    have "blocks s' xs = blocks s xs" "blocks s' ys = blocks s ys"
      using d jnew by (auto intro!: abs)
    moreover have "abs_block s' i = (i, unat n, 1)" "abs_block s' ?j = (?j, ?p - unat n, 0)"
      using ni nj un up by (simp_all add: abs_block_def)
    ultimately show ?thesis by simp
  qed
  have old: "blocks s ?ns = blocks s xs @ (i, ?p, 0) # blocks s ys"
    using assms(2) by (simp add: abs_block_def)
  note f = same_but_nodes_fields [OF same]
  have "alloc_inv N (xs @ i # ?j # ys) s'"
    unfolding alloc_inv_def
  proof (intro conjI ballI allI impI)
    show "arena_ok N s'" using inv(1) f by simp
    show "blist s' = hd_or (xs @ i # ?j # ys) None" using inv(2) f by (simp add: hd_or_append)
    show "dlinked (block_node_array s') None (xs @ i # ?j # ys) None"
    proof (rule dlinked_insert [OF inv(3) d jnew])
      have hd: "k \<in> set ys" if "b_next (node s i) = Some k" for k
        using that nx by (cases ys) auto
      show "node s' k = node s k" if k: "k \<in> set xs" for k
      proof -
        have "k \<noteq> i" "k \<noteq> ?j" "k \<notin> set ys" using k d jnew by auto
        then have "b_next (node s i) \<noteq> Some k" using hd by blast
        then show ?thesis using nk [OF \<open>k \<noteq> i\<close> \<open>k \<noteq> ?j\<close>] by simp
      qed
      show "b_next (node s' k) = b_next (node s k)"
        "b_pre (node s' k) = (if b_next (node s i) = Some k then Some ?j else b_pre (node s k))"
        if "k \<in> set ys" for k
      proof -
        have "k \<noteq> i" "k \<noteq> ?j" using that d jnew by auto
        from nk [OF this]
        show "b_next (node s' k) = b_next (node s k)"
          "b_pre (node s' k) = (if b_next (node s i) = Some k then Some ?j else b_pre (node s k))"
          by simp_all
      qed
    qed (simp_all add: ni nj)
    show "tiled 0 (blocks s' (xs @ i # ?j # ys)) N"
      using inv(4) assms(4) n0 unfolding bl old by (auto simp: tiled_append)
    show "coalesced (blocks s' (xs @ i # ?j # ys))"
      using inv(5) unfolding bl old by (simp add: coalesced_append coalesced_Cons)
  next
    fix k assume "k \<in> set (xs @ i # ?j # ys)"
    then show "b_start_addr (node s' k) = page_addr s' k"
      using inv(6) [of k] ni nj nk [of k] f by (cases "k = i"; cases "k = ?j") auto
  next
    fix k assume "k < last_idx s'" "k \<notin> set (xs @ i # ?j # ys)"
    then show "b_ref (node s' k) = 0" using inv(7) [of k] nk [of k] f by auto
  qed
  then show ?thesis using split same bl by blast
qed

text \<open>
  A change of reference counts only.  The counts may become anything that leaves no two neighbours
  free.
\<close>

lemma upd_ref_inv:
  assumes "alloc_inv N (xs @ i # ys) s" "s' = upd_node i (\<lambda>b. b\<lparr>b_ref := r\<rparr>) s"
    and "coalesced (blocks s xs @ (i, unat (b_pages (node s i)), unat r) # blocks s ys)"
  shows "alloc_inv N (xs @ i # ys) s'" "same_but_nodes s s'"
    "blocks s' (xs @ i # ys) = blocks s xs @ (i, unat (b_pages (node s i)), unat r) # blocks s ys"
proof -
  note inv = alloc_invD [OF assms(1)]
  have d: "distinct (xs @ i # ys)" by (rule blocks_distinct [OF assms(1)])
  show same: "same_but_nodes s s'" by (simp add: assms(2))
  note f = same_but_nodes_fields [OF same]
  have "blocks s' xs = blocks s xs" "blocks s' ys = blocks s ys"
    using d by (auto simp: abs_block_def assms(2))
  then show bl: "blocks s' (xs @ i # ys) = blocks s xs @ (i, unat (b_pages (node s i)), unat r) # blocks s ys"
    by (simp add: abs_block_def assms(2))
  show "alloc_inv N (xs @ i # ys) s'"
    unfolding alloc_inv_def
  proof (intro conjI ballI allI impI)
    show "arena_ok N s'" "blist s' = hd_or (xs @ i # ys) None" using inv(1,2) f by simp_all
    have "dlinked (block_node_array s') None (xs @ i # ys) None =
        dlinked (block_node_array s) None (xs @ i # ys) None"
      by (rule dlinked_cong) (simp add: assms(2))
    then show "dlinked (block_node_array s') None (xs @ i # ys) None" using inv(3) by simp
    show "tiled 0 (blocks s' (xs @ i # ys)) N"
      using inv(4) unfolding bl by (auto simp: tiled_append abs_block_def)
    show "coalesced (blocks s' (xs @ i # ys))" unfolding bl by (rule assms(3))
  next
    fix k assume "k \<in> set (xs @ i # ys)"
    then show "b_start_addr (node s' k) = page_addr s' k" using inv(6) [of k] f(7) by (auto simp: assms(2))
  next
    fix k assume "k < last_idx s'" "k \<notin> set (xs @ i # ys)"
    then show "b_ref (node s' k) = 0" using inv(7) [of k] by (simp add: assms(2))
  qed
qed

lemma length_ns:
  assumes "alloc_inv N ns s"
  shows "length ns \<le> last_idx s"
proof -
  have "set ns \<subseteq> {..<N}" using block_in_arena(4) [OF assms] by auto
  then have "card (set ns) \<le> N" using card_mono [of "{..<N}"] by simp
  then show ?thesis
    using distinct_card [OF blocks_distinct [OF assms]] alloc_invD(1) [OF assms]
    by (simp add: arena_ok_def)
qed

text \<open>Allocation refines first fit.\<close>

lemma alloc_mem_pages_refines:
  assumes "alloc_inv N ns s" "0 < n"
  shows "case aalloc (unat n) (blocks s ns) of
      None \<Rightarrow> alloc_mem_pages n s = Inr (0, s)
    | Some (a, bs) \<Rightarrow> \<exists>s' ns'. alloc_mem_pages n s = Inr (page_addr s a, s') \<and>
        alloc_inv N ns' s' \<and> blocks s' ns' = bs \<and> same_but_nodes s s'"
proof -
  note inv = alloc_invD [OF assms(1)]
  let ?P = "\<lambda>i. \<not> fits s (unat n) i"
  have "n \<noteq> 0" using assms(2) by auto
  then have walk: "alloc_mem_pages n s =
    (case dropWhile ?P ns of
       [] \<Rightarrow> Inr (0, s)
     | i # _ \<Rightarrow> if unat (b_pages (node s i)) = unat n
                then (let s' = upd_node i (\<lambda>b. b\<lparr>b_ref := 1\<rparr>) s in Inr (b_start_addr (node s i), s'))
                else split_block n i s)"
    unfolding alloc_mem_pages_def inv(2)
    using length_ns [OF assms(1)] block_in_arena(5) [OF assms(1)]
    by (simp add: alloc_loop_walk [OF inv(3)])
  show ?thesis
  proof (cases "dropWhile ?P ns")
    case Nil
    then have "aalloc (unat n) (blocks s ns) = None" "alloc_mem_pages n s = Inr (0, s)"
      unfolding aalloc_dropWhile walk Nil by (simp_all only: list.case)
    then show ?thesis by simp
  next
    case (Cons i ys)
    define xs where "xs = takeWhile ?P ns"
    have ns: "ns = xs @ i # ys" using Cons takeWhile_dropWhile_id [of ?P ns] by (simp add: xs_def)
    have fit: "fits s (unat n) i" using Cons by (metis (lifting) dropWhile_eq_Cons_conv)
    have ref: "b_ref (node s i) = 0" using fit by (simp add: fits_def)
    have st: "b_start_addr (node s i) = page_addr s i" using inv(6) [of i] ns by simp
    have aa: "aalloc (unat n) (blocks s ns) = Some (i, blocks s xs @
         (if unat n = unat (b_pages (node s i)) then (i, unat n, 1) # blocks s ys
          else (i, unat n, 1) # (i + unat n, unat (b_pages (node s i)) - unat n, 0) # blocks s ys))"
      using Cons aalloc_dropWhile [of "unat n" s ns] by (simp add: xs_def)
    show ?thesis
    proof (cases "unat (b_pages (node s i)) = unat n")
      case True
      have "coalesced (blocks s xs @ (i, unat (b_pages (node s i)), 0) # blocks s ys)"
        using inv(5) ref by (simp add: ns abs_block_def)
      then have "coalesced (blocks s xs @ (i, unat (b_pages (node s i)), unat (1 :: cint)) # blocks s ys)"
        by (simp add: coalesced_append coalesced_Cons)
      then have "alloc_inv N (xs @ i # ys) (upd_node i (\<lambda>b. b\<lparr>b_ref := 1\<rparr>) s)"
        "same_but_nodes s (upd_node i (\<lambda>b. b\<lparr>b_ref := 1\<rparr>) s)"
        "blocks (upd_node i (\<lambda>b. b\<lparr>b_ref := 1\<rparr>) s) (xs @ i # ys) =
           blocks s xs @ (i, unat (b_pages (node s i)), unat (1 :: cint)) # blocks s ys"
        using upd_ref_inv [OF assms(1) [unfolded ns] refl] by blast+
      then show ?thesis
        using walk Cons True aa st by (auto simp: Let_def intro!: exI)
    next
      case False
      then have "unat n < unat (b_pages (node s i))" using fit by (simp add: fits_def)
      from split_block_ok [OF assms(1) [unfolded ns] ref assms(2) this] obtain s' where
        s': "split_block n i s = Inr (page_addr s i, s')" "same_but_nodes s s'"
          "alloc_inv N (xs @ i # (i + unat n) # ys) s'"
          "blocks s' (xs @ i # (i + unat n) # ys) = blocks s xs @ (i, unat n, 1) #
            (i + unat n, unat (b_pages (node s i)) - unat n, 0) # blocks s ys"
        by blast
      have "alloc_mem_pages n s = Inr (page_addr s i, s')" using walk Cons False s'(1) by simp
      moreover have "aalloc (unat n) (blocks s ns) = Some (i, blocks s' (xs @ i # (i + unat n) # ys))"
        using aa False s'(4) by simp
      ultimately show ?thesis using s'(2,3) by auto
    qed
  qed
qed

section \<open>Release\<close>

text \<open>The block behind: pages of the two blocks are joined, and its node leaves the list.\<close>

lemma dlinked_remove:
  assumes "dlinked h None (xs @ i # j # ys) None" "distinct (xs @ i # j # ys)"
    and "\<And>k. k \<in> set xs \<Longrightarrow> h' k = h k"
    and "b_pre (h' i) = b_pre (h i)" "b_next (h' i) = b_next (h j)"
    and "\<And>k. k \<in> set ys \<Longrightarrow> b_next (h' k) = b_next (h k)"
    and "\<And>k. k \<in> set ys \<Longrightarrow> b_pre (h' k) = (if b_next (h j) = Some k then Some i else b_pre (h k))"
  shows "dlinked h' None (xs @ i # ys) None"
proof -
  have l: "dlinked h None xs (Some i)" "b_pre (h i) = last_or None xs"
    "b_next (h j) = hd_or ys None" "dlinked h (Some j) ys None"
    using assms(1) by (auto simp: dlinked_append)
  have "dlinked h' None xs (Some i)"
    using l(1) dlinked_cong [of xs h' h None "Some i"] assms(3) by auto
  moreover have "dlinked h' (Some i) ys None"
  proof (cases ys)
    case (Cons k zs)
    then have "dlinked h (Some k) zs None" "k \<notin> set zs" using l(4) assms(2) by auto
    moreover have "dlinked h' (Some k) zs None = dlinked h (Some k) zs None"
      using assms(6,7) l(3) Cons \<open>k \<notin> set zs\<close> by (intro dlinked_cong) auto
    ultimately show ?thesis using Cons assms(6,7) l(3,4) by auto
  qed simp
  ultimately show ?thesis
    using l assms(4,5) by (auto simp: dlinked_append)
qed

text \<open>
  Joining \<open>i\<close> with the free block \<open>j\<close> behind it, whatever the count of \<open>i\<close>: the core of both merges.
  \<open>r\<close> is the count that \<open>i\<close> has afterwards, and node \<open>j\<close> has count 0.
\<close>

lemma join_inv:
  assumes "alloc_inv N (xs @ i # j # ys) s" "same_but_nodes s s'"
    and "node s' i = (node s i)\<lparr>b_pages := b_pages (node s i) + b_pages (node s j), b_ref := r,
           b_next := b_next (node s j)\<rparr>"
    and "b_ref (node s' j) = 0"
    and "\<And>k. k \<noteq> i \<Longrightarrow> k \<noteq> j \<Longrightarrow> node s' k =
           (if b_next (node s j) = Some k then (node s k)\<lparr>b_pre := Some i\<rparr> else node s k)"
    and "coalesced (blocks s xs @ (i, unat (b_pages (node s i)) + unat (b_pages (node s j)), unat r) # blocks s ys)"
  shows "alloc_inv N (xs @ i # ys) s' \<and>
    blocks s' (xs @ i # ys) = blocks s xs @
      (i, unat (b_pages (node s i)) + unat (b_pages (node s j)), unat r) # blocks s ys"
proof -
  let ?ns = "xs @ i # j # ys" and ?p = "unat (b_pages (node s i)) + unat (b_pages (node s j))"
  note inv = alloc_invD [OF assms(1)] and f = same_but_nodes_fields [OF assms(2)]
  have d: "distinct ?ns" by (rule blocks_distinct [OF assms(1)])
  have t: "tiled 0 (blocks s xs) i" "tiled (i + ?p) (blocks s ys) N" "0 < unat (b_pages (node s i))"
    using inv(4) by (auto simp: tiled_append abs_block_def add.assoc)
  then have "?p < 2 ^ 32"
    using inv(1) tiled_le [OF t(2)] by (simp add: arena_ok_def)
  then have p: "unat (b_pages (node s i) + b_pages (node s j)) = ?p"
    by (simp add: unat_word_ariths)
  have nj: "b_next (node s j) = hd_or ys None" using inv(3) by (simp add: dlinked_append)
  have xsk: "node s' k = node s k" if "k \<in> set xs" for k
  proof -
    have "k \<noteq> i" "k \<noteq> j" "k \<notin> set ys" using that d by auto
    then have "b_next (node s j) \<noteq> Some k" using nj by (cases ys) auto
    then show ?thesis using assms(5) [OF \<open>k \<noteq> i\<close> \<open>k \<noteq> j\<close>] by simp
  qed
  have ysk: "node s' k = (if b_next (node s j) = Some k then (node s k)\<lparr>b_pre := Some i\<rparr> else node s k)"
    if "k \<in> set ys" for k using that d by (intro assms(5)) auto
  have bl: "blocks s' (xs @ i # ys) = blocks s xs @ (i, ?p, unat r) # blocks s ys"
    using xsk ysk p by (auto simp: abs_block_def assms(3))
  have "alloc_inv N (xs @ i # ys) s'"
    unfolding alloc_inv_def
  proof (intro conjI ballI allI impI)
    show "arena_ok N s'" "blist s' = hd_or (xs @ i # ys) None"
      using inv(1,2) f by (simp_all add: hd_or_append)
    show "dlinked (block_node_array s') None (xs @ i # ys) None"
      by (rule dlinked_remove [OF inv(3) d]) (simp_all add: xsk ysk assms(3))
    show "tiled 0 (blocks s' (xs @ i # ys)) N"
      using t unfolding bl by (auto simp: tiled_append)
    show "coalesced (blocks s' (xs @ i # ys))" unfolding bl by (rule assms(6))
  next
    fix k assume "k \<in> set (xs @ i # ys)"
    then show "b_start_addr (node s' k) = page_addr s' k"
      using inv(6) [of k] f(7) xsk [of k] ysk [of k] by (auto simp: assms(3))
  next
    fix k assume k: "k < last_idx s'" "k \<notin> set (xs @ i # ys)"
    show "b_ref (node s' k) = 0"
    proof (cases "k = j")
      case False
      then show ?thesis using k inv(7) [of k] f(2) assms(5) [of k] by auto
    qed (use assms(4) in simp)
  qed
  then show ?thesis using bl by simp
qed

lemma ref_positive: "snd (snd (abs_block s i)) > 0 \<longleftrightarrow> b_ref (node s i) \<noteq> 0"
  by (auto simp: abs_block_def unat_gt_0)

lemma merge_next_ok:
  assumes "alloc_inv N (xs @ i # ys) s" "b_ref (node s i) = 1"
  shows "\<exists>s1 ys1. merge_next i s = Inr s1 \<and> same_but_nodes s s1 \<and> alloc_inv N (xs @ i # ys1) s1 \<and>
    b_ref (node s1 i) = 1 \<and> (ys1 = [] \<or> b_ref (node s1 (hd ys1)) \<noteq> 0) \<and>
    merge (blocks s1 xs @ (i, unat (b_pages (node s1 i)), 0) # blocks s1 ys1) =
    merge (blocks s xs @ (i, unat (b_pages (node s i)), 0) # blocks s ys)"
proof (cases "ys \<noteq> [] \<and> b_ref (node s (hd ys)) = 0")
  case False
  have "b_next (node s i) = hd_or ys None" using alloc_invD(3) [OF assms(1)] by (simp add: dlinked_append)
  with False have "merge_next i s = Inr s" by (cases ys) (auto simp: merge_next_def)
  then show ?thesis using assms False by (intro exI [of _ s] exI [of _ ys]) simp
next
  case True
  then obtain j zs where ys: "ys = j # zs" and rj: "b_ref (node s j) = 0" by (cases ys) auto
  note inv = alloc_invD [OF assms(1) [unfolded ys]]
  have d: "distinct (xs @ i # j # zs)" using blocks_distinct [OF assms(1)] by (simp add: ys)
  have l: "b_next (node s i) = Some j" "b_pre (node s j) = Some i" "b_next (node s j) = hd_or zs None"
    using inv(3) by (simp_all add: dlinked_append)
  have k: "k \<noteq> i \<and> k \<noteq> j" if "b_next (node s j) = Some k" for k
    using that l(3) d by (cases zs) auto
  have bl: "blist s \<noteq> Some j" using inv(2) d by (cases xs) (auto simp: hd_or_append)
  define s1 where "s1 = upd_node i (\<lambda>b. b\<lparr>b_pages := b_pages b + b_pages (node s j),
      b_next := b_next (node s j)\<rparr>) s"
  define s2 where "s2 = (case b_next (node s1 j) of
      Some k \<Rightarrow> upd_node k (\<lambda>b. b\<lparr>b_pre := Some i\<rparr>) s1 | None \<Rightarrow> s1)"
  define s3 where "s3 = upd_node j (\<lambda>b. b\<lparr>b_ref := 0\<rparr>) s2"
  have m: "merge_next i s = Inr s3"
    by (simp only: merge_next_def l(1,2) bl rj option.case simp_thms if_True if_False Let_def
        s3_def s2_def s1_def)
  have same: "same_but_nodes s s3"
    by (cases "b_next (node s1 j)") (simp_all add: s3_def s2_def s1_def)
  have n1: "b_next (node s1 j) = b_next (node s j)" using d by (simp add: s1_def)
  have n2: "node s2 m = (if b_next (node s j) = Some m then (node s1 m)\<lparr>b_pre := Some i\<rparr> else node s1 m)" for m
    by (cases "b_next (node s j)") (auto simp: s2_def n1)
  have ij: "i \<noteq> j" using d by auto
  have ni: "node s3 i = (node s i)\<lparr>b_pages := b_pages (node s i) + b_pages (node s j), b_ref := 1,
      b_next := b_next (node s j)\<rparr>"
    using ij k assms(2) by (auto simp: s3_def n2 s1_def)
  have "alloc_inv N (xs @ i # zs) s3 \<and> blocks s3 (xs @ i # zs) = blocks s xs @
      (i, unat (b_pages (node s i)) + unat (b_pages (node s j)), unat (1 :: cint)) # blocks s zs"
  proof (rule join_inv [OF assms(1) [unfolded ys] same ni])
    show "b_ref (node s3 j) = 0" by (simp add: s3_def)
    show "node s3 m = (if b_next (node s j) = Some m then (node s m)\<lparr>b_pre := Some i\<rparr> else node s m)"
      if "m \<noteq> i" "m \<noteq> j" for m using that by (simp add: s3_def n2 s1_def)
    show "coalesced (blocks s xs @ (i, unat (b_pages (node s i)) + unat (b_pages (node s j)),
        unat (1 :: cint)) # blocks s zs)"
      using inv(5) by (simp add: coalesced_append abs_block_def coalesced_Cons)
  qed
  then have i3: "alloc_inv N (xs @ i # zs) s3" and b3: "blocks s3 xs = blocks s xs" "blocks s3 zs = blocks s zs"
      "unat (b_pages (node s3 i)) = unat (b_pages (node s i)) + unat (b_pages (node s j))"
    by (simp_all add: append_eq_append_conv abs_block_def)
  have "zs = [] \<or> b_ref (node s (hd zs)) \<noteq> 0"
    using inv(5) rj by (cases zs) (auto simp: coalesced_append abs_block_def unat_gt_0)
  then have "zs = [] \<or> b_ref (node s3 (hd zs)) \<noteq> 0"
    using b3(2) by (cases zs) (auto simp: abs_block_def unat_eq_0)
  moreover have "blocks s ys = (j, unat (b_pages (node s j)), 0) # blocks s zs"
    using rj by (simp add: ys abs_block_def)
  then have "merge (blocks s3 xs @ (i, unat (b_pages (node s3 i)), 0) # blocks s3 zs) =
      merge (blocks s xs @ (i, unat (b_pages (node s i)), 0) # blocks s ys)"
    unfolding b3 by (simp only: merge_join)
  moreover have "b_ref (node s3 i) = 1" by (simp add: ni)
  ultimately show ?thesis using m same i3 by blast
qed

text \<open>The block in front, and the final reset of the count.\<close>

lemma merge_pre_ok:
  assumes "alloc_inv N (xs @ i # ys) s" "b_ref (node s i) = 1" "ys = [] \<or> b_ref (node s (hd ys)) \<noteq> 0"
  shows "\<exists>s2 ns. merge_pre i s = Inr s2 \<and>
    same_but_nodes s (upd_node i (\<lambda>b. b\<lparr>b_ref := 0\<rparr>) s2) \<and>
    alloc_inv N ns (upd_node i (\<lambda>b. b\<lparr>b_ref := 0\<rparr>) s2) \<and>
    blocks (upd_node i (\<lambda>b. b\<lparr>b_ref := 0\<rparr>) s2) ns =
      merge (blocks s xs @ (i, unat (b_pages (node s i)), 0) # blocks s ys)"
proof -
  note inv = alloc_invD [OF assms(1)]
  have hdys: "ys = [] \<or> snd (snd (hd (blocks s ys))) > 0"
    using assms(3) by (cases ys) (auto simp: ref_positive)
  have cs: "coalesced (blocks s xs)" "coalesced (blocks s ys)"
    using inv(5) assms(2) by (auto simp: coalesced_append abs_block_def coalesced_Cons)
  have pre: "b_pre (node s i) = last_or None xs" using inv(3) by (simp add: dlinked_append)
  show ?thesis
  proof (cases "xs \<noteq> [] \<and> b_ref (node s (last xs)) = 0")
    case False
    then have m: "merge_pre i s = Inr s" using pre by (auto simp: merge_pre_def last_or_def)
    have "coalesced (blocks s xs @ (i, unat (b_pages (node s i)), unat (0 :: cint)) # blocks s ys)"
    proof -
      have "xs = [] \<or> snd (snd (last (blocks s xs))) > 0"
        using False by (cases xs rule: rev_cases) (auto simp: ref_positive)
      then show ?thesis using cs hdys by (auto simp: coalesced_append coalesced_Cons)
    qed
    from upd_ref_inv [OF assms(1) refl this] this m show ?thesis
      by (intro exI [of _ s] exI [of _ "xs @ i # ys"]) (simp add: merge_id)
  next
    case True
    then obtain ws j where xs: "xs = ws @ [j]" and rj: "b_ref (node s j) = 0"
      by (cases xs rule: rev_cases) auto
    have d: "distinct (ws @ j # i # ys)" using blocks_distinct [OF assms(1)] by (simp add: xs)
    have i1: "alloc_inv N (ws @ j # i # ys) s" using assms(1) by (simp add: xs)
    have l: "b_pre (node s i) = Some j" "b_next (node s j) = Some i" "b_next (node s i) = hd_or ys None"
      using alloc_invD(3) [OF i1] by (simp_all add: dlinked_append)
    have k: "k \<noteq> i \<and> k \<noteq> j" if "b_next (node s i) = Some k" for k
      using that l(3) d by (cases ys) auto
    define s1 where "s1 = upd_node j (\<lambda>b. b\<lparr>b_pages := b_pages b + b_pages (node s i),
        b_next := b_next (node s i)\<rparr>) s"
    define s2 where "s2 = (case b_next (node s1 i) of
        Some k \<Rightarrow> upd_node k (\<lambda>b. b\<lparr>b_pre := Some j\<rparr>) s1 | None \<Rightarrow> s1)"
    define s3 where "s3 = upd_node j (\<lambda>b. b\<lparr>b_ref := 0\<rparr>) s2"
    define s4 where "s4 = upd_node i (\<lambda>b. b\<lparr>b_ref := 0\<rparr>) s3"
    have m: "merge_pre i s = Inr s3"
      by (simp only: merge_pre_def l(1,2) rj option.case simp_thms if_True if_False Let_def
          s3_def s2_def s1_def)
    have same: "same_but_nodes s s4"
      by (cases "b_next (node s1 i)") (simp_all add: s4_def s3_def s2_def s1_def)
    have ij: "i \<noteq> j" using d by auto
    have n1: "b_next (node s1 i) = b_next (node s i)" using ij by (simp add: s1_def)
    have n2: "node s2 m = (if b_next (node s i) = Some m then (node s1 m)\<lparr>b_pre := Some j\<rparr> else node s1 m)" for m
      by (cases "b_next (node s i)") (auto simp: s2_def n1)
    have nj: "node s4 j = (node s j)\<lparr>b_pages := b_pages (node s j) + b_pages (node s i), b_ref := 0,
        b_next := b_next (node s i)\<rparr>"
      using ij k by (auto simp: s4_def s3_def n2 s1_def)
    have c: "coalesced (blocks s ws @ (j, unat (b_pages (node s j)) + unat (b_pages (node s i)),
        unat (0 :: cint)) # blocks s ys)"
      using cs hdys rj by (auto simp: xs coalesced_append coalesced_Cons abs_block_def)
    have "alloc_inv N (ws @ j # ys) s4 \<and> blocks s4 (ws @ j # ys) = blocks s ws @
        (j, unat (b_pages (node s j)) + unat (b_pages (node s i)), unat (0 :: cint)) # blocks s ys"
    proof (rule join_inv [OF i1 same nj _ _ c])
      show "b_ref (node s4 i) = 0" by (simp add: s4_def)
      show "node s4 m = (if b_next (node s i) = Some m then (node s m)\<lparr>b_pre := Some j\<rparr> else node s m)"
        if "m \<noteq> j" "m \<noteq> i" for m using that by (simp add: s4_def s3_def n2 s1_def)
    qed
    moreover have "merge (blocks s xs @ (i, unat (b_pages (node s i)), 0) # blocks s ys) =
        merge (blocks s ws @ (j, unat (b_pages (node s j)) + unat (b_pages (node s i)), 0) # blocks s ys)"
      using merge_join [of "blocks s ws" j "unat (b_pages (node s j))" i] rj
      by (simp add: xs abs_block_def)
    ultimately show ?thesis
      using m same c by (intro exI [of _ s3] exI [of _ "ws @ j # ys"]) (simp add: s4_def merge_id)
  qed
qed

text \<open>Release refines the abstract release.\<close>

lemma free_mem_pages_refines:
  assumes "alloc_inv N ns s" "i \<in> set ns" "b_ref (node s i) \<noteq> 0"
  shows "\<exists>s' ns'. free_mem_pages (page_addr s i) s = Inr s' \<and> alloc_inv N ns' s' \<and>
    blocks s' ns' = afree i (blocks s ns) \<and> same_but_nodes s s'"
proof -
  obtain xs ys where ns: "ns = xs @ i # ys" using assms(2) by (meson split_list)
  note inv = alloc_invD [OF assms(1)] and invx = assms(1) [unfolded ns]
  have blk: "block_of_addr (page_addr s i) s = Inr i"
    by (rule block_of_page [OF inv(1) block_in_arena(4) [OF assms(1,2)]])
  let ?r = "b_ref (node s i)" and ?p = "unat (b_pages (node s i))"
  have "blocks s ns = blocks s xs @ (i, ?p, unat ?r) # blocks s ys" by (simp add: ns abs_block_def)
  then have af: "afree i (blocks s ns) = merge (blocks s xs @ (i, ?p, unat ?r - 1) # blocks s ys)"
    using inv(4) by (simp add: afree_def map_ref_split)
  show ?thesis
  proof (cases "?r = 1")
    case True
    from merge_next_ok [OF invx True] obtain s1 ys1 where
      1: "merge_next i s = Inr s1" "same_but_nodes s s1" "alloc_inv N (xs @ i # ys1) s1"
        "b_ref (node s1 i) = 1" "ys1 = [] \<or> b_ref (node s1 (hd ys1)) \<noteq> 0"
        "merge (blocks s1 xs @ (i, unat (b_pages (node s1 i)), 0) # blocks s1 ys1) =
         merge (blocks s xs @ (i, ?p, 0) # blocks s ys)"
      by blast
    from merge_pre_ok [OF 1(3-5)] obtain s2 ns' where
      2: "merge_pre i s1 = Inr s2" "same_but_nodes s1 (upd_node i (\<lambda>b. b\<lparr>b_ref := 0\<rparr>) s2)"
        "alloc_inv N ns' (upd_node i (\<lambda>b. b\<lparr>b_ref := 0\<rparr>) s2)"
        "blocks (upd_node i (\<lambda>b. b\<lparr>b_ref := 0\<rparr>) s2) ns' =
          merge (blocks s1 xs @ (i, unat (b_pages (node s1 i)), 0) # blocks s1 ys1)"
      by blast
    have "free_mem_pages (page_addr s i) s = Inr (upd_node i (\<lambda>b. b\<lparr>b_ref := 0\<rparr>) s2)"
      using blk True 1(1) 2(1) by (simp add: free_mem_pages_def)
    then show ?thesis
      using 1(6) 2(2-4) True af same_but_nodes_trans [OF 1(2)] by auto
  next
    case False
    then have r: "1 < ?r" "unat (?r - 1) = unat ?r - 1" "0 < unat (?r - 1)"
    proof -
      have "unat ?r \<noteq> 0" "unat ?r \<noteq> 1"
        using assms(3) False unat_eq_of_nat [of 1 ?r] by (auto simp: unat_eq_0)
      then have "1 < unat ?r" by simp
      then show "1 < ?r" "unat (?r - 1) = unat ?r - 1" "0 < unat (?r - 1)"
        by (simp_all add: word_less_nat_alt unat_sub_if')
    qed
    have "coalesced (blocks s xs @ (i, ?p, unat (?r - 1)) # blocks s ys)"
      using inv(5) r(3) by (simp add: ns coalesced_append coalesced_Cons abs_block_def)
    from upd_ref_inv [OF invx refl this] this show ?thesis
      using blk r assms(3) af
      by (intro exI [of _ "upd_node i (\<lambda>b. b\<lparr>b_ref := ?r - 1\<rparr>) s"] exI [of _ ns])
        (simp add: free_mem_pages_def ns merge_id upd_node_def)
  qed
qed

end
