(* ===== verification/Block_Props.thy ===== *)
theory Block_Props
  imports Block_Refine
begin

text \<open>
  The properties of the page allocator of \<open>src/vms/pm/memory.c\<close> as its callers see it: what
  \<open>memory_init\<close> sets up, what \<open>alloc_mem_pages\<close>, \<open>realloc_mem_block\<close> and \<open>free_mem_pages\<close> do to the
  reference counts of the pages, which calls panic, and that the allocator stays well-formed under
  every sequence of calls.

  \<open>block_list\<close> follows the list in memory, \<open>refs\<close> reads the count of a page off it, and
  \<open>alloc_ok N\<close> says that the list is well-formed and covers the \<open>N\<close> pages from
  \<open>first_free_addr\<close> on.
\<close>

section \<open>Definitions\<close>

primrec walk :: "nat \<Rightarrow> (nat \<Rightarrow> block_node) \<Rightarrow> nat option \<Rightarrow> nat list" where
  "walk 0 h c = []"
| "walk (Suc f) h c = (case c of None \<Rightarrow> [] | Some i \<Rightarrow> i # walk f h (b_next (h i)))"

definition block_list :: "'a alloc_scheme \<Rightarrow> nat list" where
  "block_list s = walk (last_idx s) (block_node_array s) (blist s)"

definition abstr :: "'a alloc_scheme \<Rightarrow> ablock list" where
  "abstr s = blocks s (block_list s)"

definition alloc_ok :: "nat \<Rightarrow> 'a alloc_scheme \<Rightarrow> bool" where
  "alloc_ok N s \<longleftrightarrow> alloc_inv N (block_list s) s"

definition refs :: "'a alloc_scheme \<Rightarrow> nat \<Rightarrow> nat" where
  "refs s k = page_ref (abstr s) k"

text \<open>A block that starts at page \<open>a\<close> and has \<open>n\<close> pages.\<close>

definition is_block :: "'a alloc_scheme \<Rightarrow> nat \<Rightarrow> nat \<Rightarrow> bool" where
  "is_block s a n \<longleftrightarrow> (\<exists>r. (a, n, r) \<in> set (abstr s))"

text \<open>The calls that the other parts of the process manager make, in any order.\<close>

inductive alloc_step :: "'a alloc_scheme \<Rightarrow> 'a alloc_scheme \<Rightarrow> bool" where
  step_alloc: "alloc_mem_pages n s = Inr (p, s') \<Longrightarrow> alloc_step s s'"
| step_clean: "alloc_clean_mem_pages n s = Inr (p, s') \<Longrightarrow> alloc_step s s'"
| step_table: "alloc_page_table s = Inr (p, s') \<Longrightarrow> alloc_step s s'"
| step_realloc: "realloc_mem_block p s = Inr (q, s') \<Longrightarrow> \<forall>i. b_ref (node s i) \<noteq> - 1 \<Longrightarrow> alloc_step s s'"
| step_free: "free_mem_pages p s = Inr s' \<Longrightarrow> alloc_step s s'"

text \<open>1 MB of memory from 1 MB on, 254 pages after the array of nodes.\<close>

definition zero_alloc :: alloc where
  "zero_alloc = \<lparr>mem = (\<lambda>_. 0), cpus = (\<lambda>_. zero_cpu),
     block_node_array = (\<lambda>_. \<lparr>b_start_addr = 0, b_pages = 0, b_ref = 0, b_next = None, b_pre = None\<rparr>),
     array_base = 0, blist = None, block_node_array_last_idx = 0, first_free_addr = 0,
     all_nodes = 0, available_memory = 0, available_free_memory = 0\<rparr>"

definition demo_alloc :: alloc where
  "demo_alloc = (case memory_init 0x100000 0x200000 zero_alloc of Inr s \<Rightarrow> s | Inl _ \<Rightarrow> zero_alloc)"

text \<open>Where \<open>memory_init\<close> puts things, in numbers.\<close>

definition node_count :: "addr \<Rightarrow> addr \<Rightarrow> nat" where
  "node_count low high = (unat high - unat low + 4095) div 4096"

definition arena_start :: "addr \<Rightarrow> addr \<Rightarrow> nat" where
  "arena_start low high = 4096 * ((unat low + 32 * node_count low high + 4095) div 4096)"

text \<open>
  The bounds under which the pages can be counted in an \<open>int\<close>: at most 4 TB of memory, and one page
  left after the array of nodes.
\<close>

definition init_ok :: "addr \<Rightarrow> addr \<Rightarrow> bool" where
  "init_ok low high \<longleftrightarrow> 0 < low \<and> low \<le> high \<and> unat high \<le> 2 ^ 42 \<and> arena_start low high + 4096 \<le> unat high"

section \<open>The list in memory\<close>

lemma walk_dlinked:
  "dlinked h p ns None \<Longrightarrow> length ns \<le> f \<Longrightarrow> walk f h (hd_or ns None) = ns"
proof (induction ns arbitrary: p f)
  case Nil
  then show ?case by (cases f) auto
next
  case (Cons i ns)
  then obtain g where "f = Suc g" by (cases f) auto
  with Cons show ?case by auto
qed

lemma block_list_unique: "alloc_inv N ns s \<Longrightarrow> block_list s = ns"
  using length_ns [of N ns s] walk_dlinked [of "block_node_array s" None ns "last_idx s"]
  by (simp add: block_list_def alloc_invD)

lemma alloc_okI: "alloc_inv N ns s \<Longrightarrow> alloc_ok N s \<and> abstr s = blocks s ns"
  using block_list_unique [of N ns s] by (simp add: alloc_ok_def abstr_def)

lemma alloc_okD:
  assumes "alloc_ok N s"
  shows "alloc_inv N (block_list s) s" "tiled 0 (abstr s) N" "coalesced (abstr s)" "arena_ok N s"
  using assms by (auto simp: alloc_ok_def abstr_def alloc_inv_def)

lemma alloc_ok_page_addr: "same_but_nodes s s' \<Longrightarrow> page_addr s' = page_addr s"
  using same_but_nodes_fields(7) by blast

section \<open>Allocation\<close>

lemma alloc_mem_pages_run:
  assumes "alloc_ok N s" "0 < n"
  shows "(\<exists>a s'. alloc_mem_pages n s = Inr (page_addr s a, s') \<and> page_addr s a \<noteq> 0 \<and>
      alloc_ok N s' \<and> same_but_nodes s s' \<and> a + unat n \<le> N \<and> free_run (abstr s) a (unat n) \<and>
      (\<forall>b<a. \<not> free_run (abstr s) b (unat n)) \<and> is_block s' a (unat n) \<and>
      (\<forall>k. refs s' k = (if a \<le> k \<and> k < a + unat n then 1 else refs s k))) \<or>
    alloc_mem_pages n s = Inr (0, s) \<and> (\<forall>b. b + unat n \<le> N \<longrightarrow> \<not> free_run (abstr s) b (unat n))"
proof -
  note ok = alloc_okD [OF assms(1)]
  have n: "0 < unat n" using assms(2) by (simp add: word_gt_0 unat_gt_0)
  note low = aalloc_lowest [OF ok(2,3) n]
  show ?thesis
  proof (cases "aalloc (unat n) (abstr s)")
    case None
    then have "alloc_mem_pages n s = Inr (0, s)"
      using alloc_mem_pages_refines [OF ok(1) assms(2)] by (simp add: abstr_def)
    moreover have "\<not> free_run (abstr s) b (unat n)" if "b + unat n \<le> N" for b
      using low [of b] that None by auto
    ultimately show ?thesis by blast
  next
    case (Some r)
    obtain a bs where r: "aalloc (unat n) (abstr s) = Some (a, bs)" using Some by (cases r) auto
    then obtain s' ns' where s': "alloc_mem_pages n s = Inr (page_addr s a, s')"
        "alloc_inv N ns' s'" "blocks s' ns' = bs" "same_but_nodes s s'"
      using alloc_mem_pages_refines [OF ok(1) assms(2)] by (auto simp: abstr_def)
    note ok' = alloc_okI [OF s'(2)]
    note t = aalloc_tiled [OF r ok(2) n] and pr = aalloc_page_ref [OF r ok(2) n]
    have "page_addr s a \<noteq> 0"
    proof -
      have "a < N" using t n by simp
      then have "unat (page_addr s a) = unat (first_free_addr s) + 4096 * a"
        by (rule page_addr_unat [OF ok(4)])
      moreover have "0 < unat (first_free_addr s)" using ok(4) by (simp add: arena_ok_def word_gt_0 unat_gt_0)
      ultimately show ?thesis by auto
    qed
    moreover have "\<not> free_run (abstr s) b (unat n)" if "b < a" for b
      using low [of b] r that t by auto
    moreover have "free_run (abstr s) a (unat n)" using pr by (auto simp: free_run_def)
    moreover have "is_block s' a (unat n)"
      using aalloc_block [OF r] ok' s'(3) by (auto simp: is_block_def)
    moreover have "refs s' k = (if a \<le> k \<and> k < a + unat n then 1 else refs s k)" for k
      using pr [of k] ok' s'(3) by (simp add: refs_def)
    ultimately show ?thesis using s' ok' t by blast
  qed
qed

text \<open>
  C2.  \<open>alloc_mem_pages n\<close> takes the lowest run of \<open>n\<close> free pages: it returns its address, the
  pages of the run, which had no reference, have one, and no other page's count, nor anything
  outside the allocator, changes.  It returns 0, and changes nothing, exactly when no run of \<open>n\<close>
  free pages is left.  The allocator stays well-formed.
\<close>

theorem alloc_mem_pages_lowest_run:
  assumes "alloc_ok N s" "0 < n"
  shows "(\<exists>a s'. alloc_mem_pages n s = Inr (page_addr s a, s') \<and> page_addr s a \<noteq> 0 \<and>
      alloc_ok N s' \<and> same_but_nodes s s' \<and> a + unat n \<le> N \<and> free_run (abstr s) a (unat n) \<and>
      (\<forall>b<a. \<not> free_run (abstr s) b (unat n)) \<and> is_block s' a (unat n) \<and>
      (\<forall>k. refs s' k = (if a \<le> k \<and> k < a + unat n then 1 else refs s k))) \<or>
    alloc_mem_pages n s = Inr (0, s) \<and> (\<forall>b. b + unat n \<le> N \<longrightarrow> \<not> free_run (abstr s) b (unat n))"
  by (rule alloc_mem_pages_run [OF assms])

section \<open>Initialisation\<close>

lemma clear_nodes_node:
  "node (clear_nodes n s) i = (if i < n then (node s i)\<lparr>b_ref := 0, b_pages := 0\<rparr> else node s i)"
  by (induction n) auto

lemma clear_nodes_same: "same_but_nodes s (clear_nodes n s)"
  by (induction n) auto

lemma div_ceil: "(a + 4095) div 4096 = a div 4096 + (if a mod 4096 \<noteq> 0 then 1 else 0)" for a :: nat
proof -
  have "(4096 * q + r + 4095) div 4096 = q + (if r \<noteq> 0 then 1 else 0)" if "r < 4096" for q r :: nat
    using that by (intro div_nat_eqI) auto
  from this [of "a mod 4096" "a div 4096"] show ?thesis by simp
qed

lemma init_nodes_word:
  fixes low high :: addr
  assumes "low \<le> high"
  shows "(high - low) div 0x1000 + (if (high - low) mod 0x1000 \<noteq> 0 then 1 else 0) =
    of_nat (node_count low high)"
proof -
  let ?a = "unat high - unat low"
  have u: "unat (high - low) = ?a" using assms by (simp add: unat_sub)
  have m: "((high - low) mod 0x1000 \<noteq> 0) = (?a mod 4096 \<noteq> 0)"
    using u by (simp add: unat_mod_distrib flip: unat_eq_0)
  have d: "(high - low) div 0x1000 = of_nat (?a div 4096)"
  proof -
    have "unat ((high - low) div 0x1000) = ?a div 4096" using u by (simp add: unat_div_distrib)
    then show ?thesis by (metis of_nat_unat_word)
  qed
  have "node_count low high = ?a div 4096 + (if ?a mod 4096 \<noteq> 0 then 1 else 0)"
    unfolding node_count_def by (rule div_ceil)
  then show ?thesis unfolding m d by simp
qed

lemma node_count_bounds:
  assumes "init_ok low high"
  shows "0 < node_count low high" "node_count low high \<le> 2 ^ 30"
    "unat low + 32 * node_count low high \<le> arena_start low high"
    "arena_start low high < unat low + 32 * node_count low high + 4096"
    "(unat high - arena_start low high) div 4096 \<le> node_count low high"
    "0 < (unat high - arena_start low high) div 4096"
proof -
  let ?n = "node_count low high" and ?x = "unat low + 32 * node_count low high"
  have n: "4096 * ?n \<le> unat high - unat low + 4095" "unat high - unat low \<le> 4096 * ?n"
  proof -
    have "4096 * ?n + (unat high - unat low + 4095) mod 4096 = unat high - unat low + 4095"
      "(unat high - unat low + 4095) mod 4096 < 4096" unfolding node_count_def by simp_all
    then show "4096 * ?n \<le> unat high - unat low + 4095" "unat high - unat low \<le> 4096 * ?n" by linarith+
  qed
  have a: "4096 * ((?x + 4095) div 4096) + (?x + 4095) mod 4096 = ?x + 4095" "(?x + 4095) mod 4096 < 4096"
    by simp_all
  then show s: "?x \<le> arena_start low high" "arena_start low high < ?x + 4096"
    unfolding arena_start_def by linarith+
  have h: "unat low \<le> unat high" "unat high \<le> 2 ^ 42" "arena_start low high + 4096 \<le> unat high"
    using assms by (auto simp: init_ok_def word_le_nat_alt)
  show "0 < ?n" using n(2) h(3) s(1) by (cases "?n = 0") simp_all
  show "?n \<le> 2 ^ 30" using n(1) h(2) by simp
  show "(unat high - arena_start low high) div 4096 \<le> ?n"
  proof -
    have "unat high - arena_start low high \<le> 4096 * ?n" using n(2) s(1) by simp
    then show ?thesis by (metis div_le_mono nonzero_mult_div_cancel_left zero_neq_numeral)
  qed
  show "0 < (unat high - arena_start low high) div 4096" using h(3) by (simp add: div_greater_zero_iff)
qed

lemma memory_init_ok:
  assumes "init_ok low high"
  shows "\<exists>s'. memory_init low high s = Inr s' \<and> alloc_ok ((unat high - arena_start low high) div 4096) s' \<and>
    unat (first_free_addr s') = arena_start low high \<and> last_idx s' = node_count low high \<and>
    (\<forall>k. refs s' k = 0) \<and> mem s' = mem s \<and> cpus s' = cpus s \<and> alloc.more s' = alloc.more s"
proof -
  let ?n = "node_count low high" and ?first = "of_nat (arena_start low high) :: addr"
  let ?N = "(unat high - arena_start low high) div 4096"
  note b = node_count_bounds [OF assms]
  have h: "low \<le> high" "unat low \<le> unat high" "unat high \<le> 2 ^ 42" "arena_start low high + 4096 \<le> unat high" "0 < low"
    using assms by (auto simp: init_ok_def word_le_nat_alt)
  have un: "unat (of_nat ?n * 32 :: addr) = 32 * ?n"
    using b(2) unat_of_nat_small [of "32 * ?n", where ?'a = 64] by (simp add: mult.commute)
  have "unat (low + of_nat ?n * 32) = unat low + 32 * ?n"
    using un b(2) h(2,3) by (simp add: unat_word_ariths)
  then have "unat (ALIGN (low + of_nat ?n * 32) 0x1000) = arena_start low high"
    using unat_ALIGN_4KB [of "low + of_nat ?n * 32"] b(2) h(2,3) by (simp add: arena_start_def)
  then have first: "ALIGN (low + of_nat ?n * 32) 0x1000 = ?first" and uf: "unat ?first = arena_start low high"
    by (metis of_nat_unat_word)+
  define s2 where "s2 = s\<lparr>available_memory := high, all_nodes := of_nat ?n, array_base := low,
    block_node_array_last_idx := of_nat ?n, first_free_addr := ?first,
    available_free_memory := high - ?first\<rparr>"
  define s3 where "s3 = clear_nodes ?n s2"
  define s4 where "s4 = upd_node 0 (\<lambda>_. \<lparr>b_start_addr = ?first, b_pages = of_nat ?N, b_ref = 0,
    b_next = None, b_pre = None\<rparr>) (s3\<lparr>blist := Some 0\<rparr>)"
  have li: "unat (of_nat ?n :: cint) = ?n" "nat (sint (of_nat ?n :: cint)) = ?n"
    using b(2) unat_of_nat_small [of ?n, where ?'a = 32] sint_of_nat_cint [of ?n] by simp_all
  have f3: "first_free_addr s3 = ?first" "block_node_array_last_idx s3 = of_nat ?n" "array_base s3 = low"
    "available_free_memory s3 = high - ?first" "mem s3 = mem s" "cpus s3 = cpus s" "alloc.more s3 = alloc.more s"
    using clear_nodes_same [of s2 ?n] by (auto simp: s3_def s2_def same_but_nodes_def)
  have "init_block_node (s\<lparr>available_memory := high, first_free_addr := low, available_free_memory := high - low\<rparr>)
      = Inr s3"
  proof -
    have "\<not> high < of_nat ?n * 32 + low"
    proof -
      have "unat (of_nat ?n * 32 + low) = unat low + 32 * ?n" using un b(2) h(2,3) by (simp add: unat_word_ariths)
      then show ?thesis using b(3) h(4) by (simp add: word_less_nat_alt)
    qed
    then show ?thesis
      using init_nodes_word [OF h(1)] first li(2)
      by (simp add: init_block_node_def s3_def s2_def Let_def ucast_of_nat_down)
  qed
  moreover have "init_block_list s3 = Inr s4"
  proof -
    have "arena_ok 1 s3"
      using b h f3 li uf by (simp add: arena_ok_def and_0xFFF_iff word_gt_0 arena_start_def flip: unat_gt_0)
    then have "block_of_addr (page_addr s3 0) s3 = Inr 0" by (rule block_of_page) simp
    moreover have "(high - ?first) div 0x1000 = of_nat ?N"
    proof -
      have "unat ((high - ?first) div 0x1000) = ?N"
        using h(4) uf by (simp add: unat_div_distrib unat_sub_if')
      then show ?thesis by (metis of_nat_unat_word)
    qed
    moreover have "b_ref (node s3 0) = 0" using b(1) by (simp add: s3_def clear_nodes_node)
    ultimately show ?thesis
      using f3 h(5) by (simp add: init_block_list_def alloc_block_node_def page_addr_def s4_def
          Let_def ucast_of_nat_down)
  qed
  ultimately have "memory_init low high s = Inr s4"
    using h(1) by (simp add: memory_init_def Let_def)
  moreover have f4: "first_free_addr s4 = ?first" "block_node_array_last_idx s4 = of_nat ?n" "mem s4 = mem s"
    "cpus s4 = cpus s" "alloc.more s4 = alloc.more s" "blist s4 = Some 0"
    using f3 by (simp_all add: s4_def upd_node_def)
  moreover have abs: "abs_block s4 0 = (0, ?N, 0)"
    using b(2,5) unat_of_nat_small [of ?N, where ?'a = 32] by (simp add: s4_def abs_block_def)
  have "alloc_inv ?N [0] s4"
    unfolding alloc_inv_def
  proof (intro conjI ballI allI impI)
    show "arena_ok ?N s4"
      using b h f4 li uf by (simp add: arena_ok_def and_0xFFF_iff word_gt_0 arena_start_def flip: unat_gt_0)
    show "dlinked (block_node_array s4) None [0] None" by (simp add: s4_def)
    show "blist s4 = hd_or [0] None" "tiled 0 (blocks s4 [0]) ?N" "coalesced (blocks s4 [0])"
      using f4 abs b(6) by simp_all
    show "b_start_addr (node s4 i) = page_addr s4 i" if "i \<in> set [0]" for i
      using that f4 by (simp add: page_addr_def) (simp add: s4_def)
    show "b_ref (node s4 i) = 0" if "i < last_idx s4" "i \<notin> set [0]" for i
      using that f4 li by (simp add: s4_def s3_def clear_nodes_node)
  qed
  from alloc_okI [OF this] abs have "alloc_ok ?N s4" "\<forall>k. refs s4 k = 0"
    by (auto simp: refs_def)
  ultimately show ?thesis using uf li(1) by auto
qed

lemma demo_init_ok: "init_ok 0x100000 0x200000"
  by (simp add: init_ok_def arena_start_def node_count_def)

lemma demo_alloc_ok:
  "alloc_ok 254 demo_alloc" "unat (first_free_addr demo_alloc) = 0x102000" "refs demo_alloc k = 0"
  "last_idx demo_alloc = 256"
  using memory_init_ok [OF demo_init_ok, of zero_alloc]
  by (auto simp: demo_alloc_def arena_start_def node_count_def)

text \<open>
  \<open>memory_init\<close> sets up a well-formed allocator in which every page from the end of its own
  node array to the end of memory is free, and touches neither memory nor the processor table.
\<close>

lemma memory_init_establishes:
  assumes "init_ok low high"
  shows "\<exists>s'. memory_init low high s = Inr s' \<and>
    alloc_ok ((unat high - unat (first_free_addr s')) div 4096) s' \<and>
    unat low + 32 * node_count low high \<le> unat (first_free_addr s') \<and>
    (\<forall>k. refs s' k = 0) \<and> mem s' = mem s \<and> cpus s' = cpus s"
  using memory_init_ok [OF assms, of s] node_count_bounds(3) [OF assms] by auto

lemma memory_init_establishes_witness:
  "\<exists>s'. memory_init 0x100000 0x200000 zero_alloc = Inr s' \<and> alloc_ok 254 s' \<and> unat (first_free_addr s') = 0x102000"
proof -
  from memory_init_establishes [OF demo_init_ok, of zero_alloc]
  obtain s' where "memory_init 0x100000 0x200000 zero_alloc = Inr s'"
    "alloc_ok ((unat (0x200000 :: addr) - unat (first_free_addr s')) div 4096) s'" by blast
  then show ?thesis using demo_alloc_ok(2) by (simp add: demo_alloc_def)
qed

theorem alloc_mem_pages_lowest_run_witness:
  "\<exists>a s'. alloc_mem_pages 3 demo_alloc = Inr (page_addr demo_alloc a, s') \<and> a = 0 \<and>
     refs s' 2 = 1 \<and> refs s' 3 = 0"
proof -
  have fr: "free_run (abstr demo_alloc) b 3" for b
    using demo_alloc_ok(3) by (simp add: free_run_def refs_def)
  from alloc_mem_pages_lowest_run [OF demo_alloc_ok(1), of 3] obtain a s' where
    *: "alloc_mem_pages 3 demo_alloc = Inr (page_addr demo_alloc a, s')"
      "\<forall>b<a. \<not> free_run (abstr demo_alloc) b 3"
      "\<forall>k. refs s' k = (if a \<le> k \<and> k < a + 3 then 1 else refs demo_alloc k)"
    using fr by (auto dest: spec [of _ 0])
  then have "a = 0" using fr by blast
  with * demo_alloc_ok(3) show ?thesis by (intro exI [of _ a] exI [of _ s']) simp
qed

section \<open>Release\<close>

lemma is_block_node:
  assumes "alloc_ok N s" "is_block s a n"
  shows "a \<in> set (block_list s)" "n = unat (b_pages (node s a))" "refs s a = unat (b_ref (node s a))"
    "(a, n, unat (b_ref (node s a))) \<in> set (abstr s)"
proof -
  obtain r where r: "(a, n, r) \<in> set (abstr s)" using assms(2) by (auto simp: is_block_def)
  then show a: "a \<in> set (block_list s)" and n: "n = unat (b_pages (node s a))"
    and m: "(a, n, unat (b_ref (node s a))) \<in> set (abstr s)"
    by (auto simp: abstr_def abs_block_def)
  have "0 < n" using block_in_arena(1) [OF alloc_okD(1) [OF assms(1)] a] n by simp
  then show "refs s a = unat (b_ref (node s a))"
    using page_ref_block [OF alloc_okD(2) [OF assms(1)] m] by (simp add: refs_def)
qed

lemma free_block_ok:
  assumes "alloc_ok N s" "is_block s a n" "0 < refs s a"
  shows "\<exists>s'. free_mem_pages (page_addr s a) s = Inr s' \<and> alloc_ok N s' \<and> same_but_nodes s s' \<and>
    abstr s' = afree a (abstr s)"
proof -
  note nd = is_block_node [OF assms(1,2)]
  have "b_ref (node s a) \<noteq> 0" using assms(3) nd(3) by auto
  from free_mem_pages_refines [OF alloc_okD(1) [OF assms(1)] nd(1) this]
  obtain s' ns' where s': "free_mem_pages (page_addr s a) s = Inr s'" "alloc_inv N ns' s'"
    "blocks s' ns' = afree a (blocks s (block_list s))" "same_but_nodes s s'" by blast
  then show ?thesis using alloc_okI [OF s'(2)] by (auto simp: abstr_def)
qed

text \<open>
  C6.  \<open>free_mem_pages\<close> on the first page of an allocated block takes one reference off every page
  of that block, leaves every other page alone and keeps the allocator well-formed, free neighbours
  merged.
\<close>

theorem free_mem_pages_releases:
  assumes "alloc_ok N s" "is_block s a n" "0 < refs s a"
  shows "\<exists>s'. free_mem_pages (page_addr s a) s = Inr s' \<and> alloc_ok N s' \<and> same_but_nodes s s' \<and>
    (\<forall>k. refs s' k = (if a \<le> k \<and> k < a + n then refs s k - 1 else refs s k))"
proof -
  from free_block_ok [OF assms] obtain s' where
    s': "free_mem_pages (page_addr s a) s = Inr s'" "alloc_ok N s'" "same_but_nodes s s'"
    "abstr s' = afree a (abstr s)" by blast
  have "refs s' k = (if a \<le> k \<and> k < a + n then refs s k - 1 else refs s k)" for k
    using afree_page_ref [OF alloc_okD(2) [OF assms(1)] is_block_node(4) [OF assms(1,2)]] s'(4)
    by (simp add: refs_def)
  with s' show ?thesis by blast
qed

lemma demo_alloc_3:
  "\<exists>s1. alloc_mem_pages 3 demo_alloc = Inr (page_addr demo_alloc 0, s1) \<and> page_addr demo_alloc 0 \<noteq> 0 \<and>
    alloc_ok 254 s1 \<and> same_but_nodes demo_alloc s1 \<and> is_block s1 0 3 \<and> refs s1 0 = 1"
proof -
  note ok = alloc_okD [OF demo_alloc_ok(1)]
  have "\<exists>x bs'. aalloc 3 (abstr demo_alloc) = Some (x, bs') \<and> x \<le> 0"
    using demo_alloc_ok(3) by (intro aalloc_lowest [OF ok(2,3)]) (auto simp: free_run_def refs_def)
  then obtain bs where r: "aalloc 3 (abstr demo_alloc) = Some (0, bs)" by auto
  then obtain s1 ns' where s1: "alloc_mem_pages 3 demo_alloc = Inr (page_addr demo_alloc 0, s1)"
      "alloc_inv 254 ns' s1" "blocks s1 ns' = bs" "same_but_nodes demo_alloc s1"
    using alloc_mem_pages_refines [OF ok(1), of 3] by (auto simp: abstr_def)
  moreover have "page_addr demo_alloc 0 \<noteq> 0"
    using demo_alloc_ok(2) by (auto simp: page_addr_def)
  ultimately show ?thesis
    using alloc_okI [OF s1(2)] aalloc_block [OF r] aalloc_page_ref [OF r ok(2), of 0]
    by (auto simp: is_block_def refs_def)
qed

theorem free_mem_pages_releases_witness:
  "\<exists>s1 s2. alloc_mem_pages 3 demo_alloc = Inr (page_addr s1 0, s1) \<and>
    free_mem_pages (page_addr s1 0) s1 = Inr s2 \<and> refs s1 0 = 1 \<and> refs s2 0 = 0"
proof -
  from demo_alloc_3 obtain s1 where s1: "alloc_mem_pages 3 demo_alloc = Inr (page_addr demo_alloc 0, s1)"
    "alloc_ok 254 s1" "same_but_nodes demo_alloc s1" "is_block s1 0 3" "refs s1 0 = 1" by blast
  from free_mem_pages_releases [OF s1(2,4)] s1(5) obtain s2 where
    "free_mem_pages (page_addr s1 0) s1 = Inr s2" "refs s2 0 = 0" by auto
  then show ?thesis
    using s1 alloc_ok_page_addr [OF s1(3)] by (intro exI [of _ s1] exI [of _ s2]) simp
qed

text \<open>
  Allocating and releasing again gives back exactly the blocks there were: the split is undone.
\<close>

lemma alloc_free_round_trip:
  assumes "alloc_ok N s" "0 < n" "alloc_mem_pages n s = Inr (p, s1)" "p \<noteq> 0"
  shows "\<exists>s2. free_mem_pages p s1 = Inr s2 \<and> alloc_ok N s2 \<and> abstr s2 = abstr s"
proof -
  note ok = alloc_okD [OF assms(1)]
  have n: "0 < unat n" using assms(2) by (simp add: word_gt_0 unat_gt_0)
  show ?thesis
  proof (cases "aalloc (unat n) (abstr s)")
    case None
    then show ?thesis
      using alloc_mem_pages_refines [OF ok(1) assms(2)] assms(3,4) by (simp add: abstr_def)
  next
    case (Some r)
    obtain a bs where r: "aalloc (unat n) (abstr s) = Some (a, bs)" using Some by (cases r) auto
    then obtain ns' where s1: "p = page_addr s a" "alloc_inv N ns' s1" "blocks s1 ns' = bs" "same_but_nodes s s1"
      using alloc_mem_pages_refines [OF ok(1) assms(2)] assms(3) by (auto simp: abstr_def)
    note ok1 = alloc_okI [OF s1(2)]
    have "is_block s1 a (unat n)" "0 < refs s1 a"
      using aalloc_block [OF r] ok1 s1(3) aalloc_page_ref [OF r ok(2) n, of a] n
      by (auto simp: is_block_def refs_def)
    from free_block_ok [OF conjunct1 [OF ok1] this] show ?thesis
      using ok1 s1 afree_aalloc [OF r ok(2,3) n] alloc_ok_page_addr [OF s1(4)] by auto
  qed
qed

lemma alloc_free_round_trip_witness:
  "\<exists>p s1 s2. alloc_mem_pages 3 demo_alloc = Inr (p, s1) \<and> free_mem_pages p s1 = Inr s2 \<and>
    abstr s2 = abstr demo_alloc"
proof -
  from demo_alloc_3 obtain s1 where s1: "alloc_mem_pages 3 demo_alloc = Inr (page_addr demo_alloc 0, s1)"
    "page_addr demo_alloc 0 \<noteq> 0" by blast
  from alloc_free_round_trip [OF demo_alloc_ok(1) _ s1] s1(1) show ?thesis by auto
qed

section \<open>Sharing and errors\<close>

lemma block_of_addr_less: "block_of_addr p s = Inr i \<Longrightarrow> i < last_idx s"
proof -
  assume "block_of_addr p s = Inr i"
  then have *: "0 \<le>s node_idx p s" "node_idx p s <s block_node_array_last_idx s" "i = unat (node_idx p s)"
    by (auto simp: block_of_addr_def node_ptr_def split: if_splits)
  then have "0 \<le> sint (node_idx p s)" "sint (node_idx p s) < sint (block_node_array_last_idx s)"
    by (simp_all add: word_sle_eq word_sless_alt)
  then have "uint (node_idx p s) < uint (block_node_array_last_idx s)"
    using sint_nonneg_cint [of "node_idx p s"] sint_nonneg_cint [of "block_node_array_last_idx s"] by linarith
  then show ?thesis using *(3) by (simp add: unat_mono word_less_def)
qed

text \<open>Whoever passes the checks is treated as the page whose node it hits.\<close>

lemma block_of_addr_page:
  assumes "alloc_ok N s" "block_of_addr p s = Inr i" "b_ref (node s i) \<noteq> 0"
  shows "i \<in> set (block_list s)" "block_of_addr (page_addr s i) s = Inr i"
proof -
  note inv = alloc_okD(1) [OF assms(1)]
  show i: "i \<in> set (block_list s)"
    using alloc_invD(7) [OF inv block_of_addr_less [OF assms(2)]] assms(3) by blast
  show "block_of_addr (page_addr s i) s = Inr i"
    by (rule block_of_page [OF alloc_invD(1) [OF inv] block_in_arena(4) [OF inv i]])
qed

lemma realloc_inv:
  assumes "alloc_ok N s" "i \<in> set (block_list s)" "b_ref (node s i) \<noteq> 0" "b_ref (node s i) \<noteq> - 1"
  defines "s' \<equiv> upd_node i (\<lambda>b. b\<lparr>b_ref := b_ref b + 1\<rparr>) s"
  shows "alloc_ok N s' \<and> abstr s' = map_ref Suc i (abstr s) \<and> same_but_nodes s s'"
proof -
  obtain xs ys where ns: "block_list s = xs @ i # ys" using assms(2) by (meson split_list)
  note inv = alloc_okD(1) [OF assms(1), unfolded ns]
  let ?r = "b_ref (node s i)" and ?p = "unat (b_pages (node s i))"
  have r: "unat (?r + 1) = Suc (unat ?r)"
    using assms(4) unatSuc [of ?r] by (simp add: add.commute eq_neg_iff_add_eq_0)
  have old: "abstr s = blocks s xs @ (i, ?p, unat ?r) # blocks s ys" by (simp add: abstr_def ns abs_block_def)
  have "coalesced (blocks s xs @ (i, ?p, unat (?r + 1)) # blocks s ys)"
    using alloc_okD(3) [OF assms(1)] r unfolding old by (simp add: coalesced_append coalesced_Cons)
  note u = upd_ref_inv [OF inv refl this]
  have eq: "upd_node i (\<lambda>b. b\<lparr>b_ref := ?r + 1\<rparr>) s = s'" by (simp add: s'_def upd_node_def)
  have "map_ref Suc i (abstr s) = blocks s xs @ (i, ?p, unat (?r + 1)) # blocks s ys"
    using alloc_okD(2) [OF assms(1)] r unfolding old by (simp add: map_ref_split)
  then show ?thesis using u alloc_okI [OF u(1)] unfolding eq by simp
qed

text \<open>
  \<open>realloc_mem_block\<close> shares an allocated block: it returns its address and every page of the
  block has one more reference, so that one more release is needed.
\<close>

lemma realloc_mem_block_shares:
  assumes "alloc_ok N s" "is_block s a n" "0 < refs s a" "refs s a < 2 ^ 32 - 1"
  shows "\<exists>s'. realloc_mem_block (page_addr s a) s = Inr (page_addr s a, s') \<and> alloc_ok N s' \<and>
    same_but_nodes s s' \<and> is_block s' a n \<and>
    (\<forall>k. refs s' k = (if a \<le> k \<and> k < a + n then refs s k + 1 else refs s k))"
proof -
  note nd = is_block_node [OF assms(1,2)]
  define s' where "s' = upd_node a (\<lambda>b. b\<lparr>b_ref := b_ref b + 1\<rparr>) s"
  have r: "b_ref (node s a) \<noteq> 0" "b_ref (node s a) \<noteq> - 1"
    using assms(3,4) nd(3) by (auto simp: unsigned_minus_1_eq_mask mask_eq_exp_minus_1)
  have i: "alloc_ok N s' \<and> abstr s' = map_ref Suc a (abstr s) \<and> same_but_nodes s s'"
    unfolding s'_def by (rule realloc_inv [OF assms(1) nd(1) r])
  have "block_of_addr (page_addr s a) s = Inr a"
    using alloc_okD(1) [OF assms(1)] nd(1) by (intro block_of_page block_in_arena alloc_invD)
  then have "realloc_mem_block (page_addr s a) s = Inr (page_addr s a, s')"
    using r(1) by (simp add: realloc_mem_block_def s'_def)
  moreover have "is_block s' a n"
    using i nd(4) by (force simp: is_block_def map_ref_def)
  moreover have "refs s' k = (if a \<le> k \<and> k < a + n then refs s k + 1 else refs s k)" for k
    using i page_ref_map_ref [OF alloc_okD(2) [OF assms(1)] nd(4)] by (simp add: refs_def)
  ultimately show ?thesis using i by blast
qed

lemma realloc_mem_block_shares_witness:
  "\<exists>s1 s2. alloc_mem_pages 3 demo_alloc = Inr (page_addr s1 0, s1) \<and>
    realloc_mem_block (page_addr s1 0) s1 = Inr (page_addr s1 0, s2) \<and> refs s2 0 = 2"
proof -
  from demo_alloc_3 obtain s1 where s1: "alloc_mem_pages 3 demo_alloc = Inr (page_addr demo_alloc 0, s1)"
    "alloc_ok 254 s1" "same_but_nodes demo_alloc s1" "is_block s1 0 3" "refs s1 0 = 1" by blast
  from realloc_mem_block_shares [OF s1(2,4)] s1(5) obtain s2 where
    "realloc_mem_block (page_addr s1 0) s1 = Inr (page_addr s1 0, s2)" "refs s2 0 = 2" by auto
  then show ?thesis
    using s1 alloc_ok_page_addr [OF s1(3)] by (intro exI [of _ s1] exI [of _ s2]) simp
qed



text \<open>
  The range check of \<open>memory.c\<close> is one too large: the array has \<open>block_node_array_last_idx\<close>
  nodes, but only indices above that number are refused, so the address right behind the last
  node's page makes \<open>free_mem_pages\<close> (and the other routines) read a node that does not exist.
\<close>

lemma block_index_check_off_by_one:
  assumes "alloc_ok N s" "unat (first_free_addr s) + 4096 * (last_idx s + 1) < 2 ^ 64" "last_idx s + 1 < 2 ^ 31"
  shows "free_mem_pages (page_addr s (last_idx s)) s = Inl (Fault ''block_node_array'') \<and>
    free_mem_pages (page_addr s (last_idx s + 1)) s = Inl (Panic ''block index is over block array size'')"
proof -
  note ok = alloc_okD(4) [OF assms(1), unfolded arena_ok_def]
  have chk: "page_addr s k AND 0xFFF = 0" "\<not> page_addr s k < first_free_addr s" "node_idx (page_addr s k) s = of_nat k"
    if "k \<le> last_idx s + 1" for k
  proof -
    have k: "unat (of_nat (4096 * k) :: addr) = 4096 * k"
      using that assms(2) by (intro unat_of_nat_small) simp
    then have u: "unat (page_addr s k) = unat (first_free_addr s) + 4096 * k"
      using that assms(2) unfolding page_addr_def by (simp add: unat_word_ariths)
    then show "page_addr s k AND 0xFFF = 0" using ok by (simp add: and_0xFFF_iff)
    show "\<not> page_addr s k < first_free_addr s" using u by (simp add: word_less_nat_alt)
    have "unat ((page_addr s k - first_free_addr s) div MIN_MEM_BLOCK_SIZE) = k"
      using k by (simp add: page_addr_def unat_div_distrib)
    then show "node_idx (page_addr s k) s = of_nat k"
      unfolding node_idx_def by (metis of_nat_unat_word ucast_of_nat_down)
  qed
  have l: "sint (block_node_array_last_idx s) = int (last_idx s)"
    "sint (of_nat (last_idx s) :: cint) = int (last_idx s)"
    "sint (of_nat (last_idx s + 1) :: cint) = int (last_idx s + 1)"
    using ok sint_of_nat_cint [of "last_idx s"] sint_of_nat_cint [OF assms(3)]
    by (simp_all only: of_nat_unat_word)
  have "\<not> block_node_array_last_idx s <s of_nat (last_idx s)" "\<not> (of_nat (last_idx s) <s block_node_array_last_idx s)"
    "block_node_array_last_idx s <s of_nat (last_idx s + 1)"
    unfolding word_sless_alt l by simp_all
  then show ?thesis
    using chk [of "last_idx s"] chk [of "last_idx s + 1"]
    by (simp only: free_mem_pages_def block_of_addr_def node_ptr_def le_add1 le_refl) simp
qed

lemma block_index_check_off_by_one_witness:
  "free_mem_pages (page_addr demo_alloc 256) demo_alloc = Inl (Fault ''block_node_array'')"
  using block_index_check_off_by_one [OF demo_alloc_ok(1)] demo_alloc_ok(2,4) by simp

section \<open>Every sequence of calls\<close>

lemma abs_block_mem: "abs_block (s\<lparr>mem := m\<rparr>) = abs_block s"
  by (simp add: fun_eq_iff abs_block_def)

lemma alloc_ok_mem [simp]: "alloc_ok N (s\<lparr>mem := m\<rparr>) = alloc_ok N s" "abstr (s\<lparr>mem := m\<rparr>) = abstr s"
  "refs (s\<lparr>mem := m\<rparr>) = refs s"
  by (simp_all add: alloc_ok_def block_list_def alloc_inv_def arena_ok_def page_addr_def abstr_def
      abs_block_mem refs_def fun_eq_iff)

lemma alloc_mem_pages_ok: "alloc_ok N s \<Longrightarrow> alloc_mem_pages n s = Inr (p, s') \<Longrightarrow> alloc_ok N s' \<and> same_but_nodes s s'"
  using alloc_mem_pages_refines [of N "block_list s" s n]
  by (cases "n = 0") (auto simp: alloc_mem_pages_def [of 0] word_gt_0 alloc_okD dest: alloc_okI split: option.splits)

lemma free_mem_pages_ok:
  assumes "alloc_ok N s" "free_mem_pages p s = Inr s'"
  shows "alloc_ok N s'"
proof -
  obtain i where i: "block_of_addr p s = Inr i" "b_ref (node s i) \<noteq> 0"
    using assms(2) by (auto simp: free_mem_pages_def split: if_splits)
  note pg = block_of_addr_page [OF assms(1) i]
  have "free_mem_pages (page_addr s i) s = Inr s'"
    using assms(2) i(1) pg(2) by (simp add: free_mem_pages_def)
  then show ?thesis
    using free_mem_pages_refines [OF alloc_okD(1) [OF assms(1)] pg(1) i(2)] alloc_okI by auto
qed

lemma alloc_step_ok: "alloc_step s s' \<Longrightarrow> alloc_ok N s \<Longrightarrow> alloc_ok N s'"
proof (induction rule: alloc_step.induct)
  case (step_realloc p s q s')
  then obtain i where i: "block_of_addr p s = Inr i" "b_ref (node s i) \<noteq> 0"
      "s' = upd_node i (\<lambda>b. b\<lparr>b_ref := b_ref b + 1\<rparr>) s"
    by (auto simp: realloc_mem_block_def split: if_splits)
  then show ?case
    using realloc_inv [OF step_realloc(3) block_of_addr_page(1) [OF step_realloc(3) i(1,2)] i(2)] step_realloc(2)
    by blast
qed (auto simp: alloc_clean_mem_pages_def alloc_page_table_def dest: alloc_mem_pages_ok free_mem_pages_ok
     split: if_splits)

text \<open>
  C5.  From \<open>memory_init\<close> on, after every sequence of successful calls of the allocator's routines
  the node list is well-formed and covers the managed pages, with free neighbours merged.
\<close>

theorem alloc_ok_reachable:
  assumes "init_ok low high" "memory_init low high s0 = Inr s" "alloc_step\<^sup>*\<^sup>* s s'"
  shows "alloc_ok ((unat high - arena_start low high) div 4096) s'"
  using assms(3)
proof (induction rule: rtranclp_induct)
  case base
  then show ?case using memory_init_ok [OF assms(1), of s0] assms(2) by auto
next
  case (step t u)
  then show ?case by (blast intro: alloc_step_ok)
qed

theorem alloc_ok_reachable_witness:
  "\<exists>p s'. alloc_mem_pages 3 demo_alloc = Inr (p, s') \<and> alloc_ok 254 s'"
proof -
  obtain s where s: "memory_init 0x100000 0x200000 zero_alloc = Inr s" "demo_alloc = s"
    using memory_init_ok [OF demo_init_ok, of zero_alloc] by (auto simp: demo_alloc_def)
  obtain p s' where *: "alloc_mem_pages 3 s = Inr (p, s')" using demo_alloc_3 s(2) by blast
  then have "alloc_step\<^sup>*\<^sup>* s s'" by (blast intro: alloc_step.intros)
  from alloc_ok_reachable [OF demo_init_ok s(1) this] * s(2) show ?thesis
    by (auto simp: arena_start_def node_count_def)
qed

end
