(* ===== verification/Process_Tables.thy ===== *)
theory Process_Tables
  imports Block_Props Page_Region
begin

text \<open>
  The page tables of the process manager: the page allocator of \<open>memory.c\<close> provides what the mapping
  routines of \<open>pmap.c\<close> ask for, through \<open>alloc_page_table\<close>.  A page is owned when it has a reference,
  and available when it has none.  The properties are those of \<open>map_memory\<close>, \<open>ept_map_memory\<close> and
  \<open>unmap_memory\<close> as the process manager uses them.
\<close>

section \<open>Definitions\<close>

definition owned_pages :: "nat \<Rightarrow> 'a alloc_scheme \<Rightarrow> addr set" where
  "owned_pages N s = page_addr s ` {k. k < N \<and> 0 < refs s k}"

definition free_pages :: "nat \<Rightarrow> 'a alloc_scheme \<Rightarrow> nat" where
  "free_pages N s = card {k. k < N \<and> refs s k = 0}"

text \<open>The allocator is well-formed, and what is not the business of the mapping routines is as it was.\<close>

definition map_inv :: "nat \<Rightarrow> 'a alloc_scheme \<Rightarrow> 'a alloc_scheme \<Rightarrow> bool" where
  "map_inv N s0 s \<longleftrightarrow> alloc_ok N s \<and> cpus s = cpus s0 \<and> alloc.more s = alloc.more s0 \<and>
    page_addr s = page_addr s0 \<and> (\<forall>k. 0 < refs s0 k \<longrightarrow> refs s k = refs s0 k)"

text \<open>Well-formed page tables whose pages have all been taken from the allocator.\<close>

definition tables_in :: "nat \<Rightarrow> addr \<Rightarrow> 'a alloc_scheme \<Rightarrow> bool" where
  "tables_in N r s \<longleftrightarrow> alloc_ok N s \<and> (\<exists>L. pt_wf (mem s) r L \<and> (\<forall>d. L d \<subseteq> owned_pages N s))"

definition region_ok :: "addr \<Rightarrow> addr \<Rightarrow> addr \<Rightarrow> cint \<Rightarrow> bool" where
  "region_ok start end_vaddr paddr page_size \<longleftrightarrow> page_size_ok page_size \<and> start < end_vaddr \<and>
    unat end_vaddr \<le> 2 ^ 42 \<and> unat page_size dvd unat start \<and> unat page_size dvd unat paddr"

text \<open>No page of the region lies in a larger page that is mapped already.\<close>

definition region_clear :: "memory \<Rightarrow> addr \<Rightarrow> addr \<Rightarrow> addr \<Rightarrow> cint \<Rightarrow> bool" where
  "region_clear m r start end_vaddr page_size \<longleftrightarrow>
    (\<forall>k < page_count start end_vaddr page_size.
       clear_path (leaf_depth page_size) m r (start + of_nat (k * unat page_size)))"

text \<open>The addresses that the pages of the region cover.\<close>

definition in_pages :: "addr \<Rightarrow> addr \<Rightarrow> cint \<Rightarrow> addr \<Rightarrow> bool" where
  "in_pages start end_vaddr page_size x \<longleftrightarrow> unat start \<le> unat x \<and>
    unat x < unat start + page_count start end_vaddr page_size * unat page_size"

section \<open>The allocator as a provider of tables\<close>

lemma page_addr_ok:
  assumes "alloc_ok N s" "k < N"
  shows "page_ok (page_addr s k)"
proof -
  note a = alloc_okD(4) [OF assms(1)]
  have "4096 dvd unat (first_free_addr s)" using a by (simp add: arena_ok_def and_0xFFF_iff)
  then have "4096 dvd unat (page_addr s k)" using page_addr_unat [OF a assms(2)] by simp
  moreover have "0 < unat (first_free_addr s)" using a by (simp add: arena_ok_def word_gt_0 unat_gt_0)
  then have "page_addr s k \<noteq> 0" using page_addr_unat [OF a assms(2)] by (intro notI) simp
  ultimately show ?thesis by (simp add: page_ok_def)
qed

lemma page_addr_inj:
  assumes "alloc_ok N s" "j < N" "k < N" "page_addr s j = page_addr s k"
  shows "j = k"
proof -
  note a = alloc_okD(4) [OF assms(1)]
  have "unat (first_free_addr s) + 4096 * j = unat (first_free_addr s) + 4096 * k"
    using page_addr_unat [OF a assms(2)] page_addr_unat [OF a assms(3)] assms(4) by (simp only:)
  then show ?thesis by simp
qed

lemma page_addr_mem [simp]: "page_addr (s\<lparr>mem := m\<rparr>) = page_addr s"
  by (simp add: page_addr_def fun_eq_iff)

lemma alloc_page_table_cases:
  assumes "alloc_ok N s"
  obtains "alloc_page_table s = Inr (0, s)" "\<And>k. k < N \<Longrightarrow> 0 < refs s k"
  | k s' where "alloc_page_table s = Inr (page_addr s k, s')" "k < N" "refs s k = 0" "alloc_ok N s'"
      "refs s' = (refs s)(k := 1)" "page_addr s' = page_addr s" "cpus s' = cpus s" "alloc.more s' = alloc.more s"
      "mem s' = memset (page_addr s k) 0 0x1000 (mem s)" "page_addr s k \<noteq> 0"
proof -
  have run: "free_run bs k (Suc 0) \<longleftrightarrow> page_ref bs k = 0" for bs k by (auto simp: free_run_def)
  have "0 < (1 :: addr)" by simp
  from alloc_mem_pages_run [OF assms this] show ?thesis
  proof (elim disjE exE conjE)
    fix k s1
    assume a: "alloc_mem_pages 1 s = Inr (page_addr s k, s1)" "page_addr s k \<noteq> 0" "alloc_ok N s1"
      "same_but_nodes s s1" "k + unat (1 :: addr) \<le> N" "free_run (abstr s) k (unat (1 :: addr))"
      "\<forall>j. refs s1 j = (if k \<le> j \<and> j < k + unat (1 :: addr) then 1 else refs s j)"
    show ?thesis
    proof (rule that(2))
      show "alloc_page_table s = Inr (page_addr s k, s1\<lparr>mem := memset (page_addr s k) 0 0x1000 (mem s1)\<rparr>)"
        using a(1,2) by (simp add: alloc_page_table_def word_gt_0)
      show "refs (s1\<lparr>mem := memset (page_addr s k) 0 0x1000 (mem s1)\<rparr>) = (refs s)(k := 1)"
        using a(7) by (auto simp: fun_eq_iff)
      show "refs s k = 0" using a(6) run by (simp add: refs_def)
    qed (use a(2,3,5) same_but_nodes_fields [OF a(4)] alloc_ok_page_addr [OF a(4)] in simp_all)
  next
    assume a: "alloc_mem_pages 1 s = Inr (0, s)" "\<forall>b. b + unat (1 :: addr) \<le> N \<longrightarrow> \<not> free_run (abstr s) b (unat (1 :: addr))"
    then show ?thesis by (intro that(1)) (auto simp: alloc_page_table_def refs_def run)
  qed
qed

interpretation pm: table_alloc alloc_page_table "map_inv N s0" "owned_pages N" "free_pages N" for N s0
proof
  fix s m
  show "map_inv N s0 (s\<lparr>mem := m\<rparr>)" if "map_inv N s0 s" using that by (simp add: map_inv_def)
  show "owned_pages N (s\<lparr>mem := m\<rparr>) = owned_pages N s" by (simp add: owned_pages_def)
  show "free_pages N (s\<lparr>mem := m\<rparr>) = free_pages N s" by (simp add: free_pages_def)
next
  fix s assume "map_inv N s0 s"
  then have ok: "alloc_ok N s" by (simp add: map_inv_def)
  show "\<exists>p s'. alloc_page_table s = Inr (p, s')" by (rule alloc_page_table_cases [OF ok]) auto
next
  fix s p s'
  assume i: "map_inv N s0 s" and a: "alloc_page_table s = Inr (p, s')" and p: "p \<noteq> 0"
  then have ok: "alloc_ok N s" by (simp add: map_inv_def)
  from alloc_page_table_cases [OF ok] obtain k where k: "p = page_addr s k" "k < N" "refs s k = 0" "alloc_ok N s'"
      "refs s' = (refs s)(k := 1)" "page_addr s' = page_addr s" "cpus s' = cpus s" "alloc.more s' = alloc.more s"
      "mem s' = memset (page_addr s k) 0 0x1000 (mem s)"
  proof cases
    case 1
    then show ?thesis using a p by simp
  next
    case (2 k s2)
    then show ?thesis using that [of k] a by simp
  qed
  have "map_inv N s0 s'" using i k by (auto simp: map_inv_def)
  moreover have "p \<notin> owned_pages N s"
  proof
    assume "p \<in> owned_pages N s"
    then obtain j where "p = page_addr s j" "j < N" "0 < refs s j" by (auto simp: owned_pages_def)
    then show False using k(1-3) page_addr_inj [OF ok, of j k] by auto
  qed
  moreover have "insert p (owned_pages N s) \<subseteq> owned_pages N s'" using k by (auto simp: owned_pages_def)
  moreover have "zero_page (mem s') p" "\<forall>x. \<not> in_region p 4096 x \<longrightarrow> mem s' x = mem s x"
    using k by (auto simp: zero_page_def memset_apply)
  ultimately show "map_inv N s0 s' \<and> page_ok p \<and> p \<notin> owned_pages N s \<and> insert p (owned_pages N s) \<subseteq> owned_pages N s' \<and>
      zero_page (mem s') p \<and> (\<forall>x. \<not> in_region p 4096 x \<longrightarrow> mem s' x = mem s x)"
    using page_addr_ok [OF ok k(2)] k(1) by simp
next
  fix s p s'
  assume i: "map_inv N s0 s" and a: "alloc_page_table s = Inr (p, s')"
  then have ok: "alloc_ok N s" by (simp add: map_inv_def)
  from alloc_page_table_cases [OF ok]
  show "if p = 0 then free_pages N s = 0 else free_pages N s \<le> Suc (free_pages N s')"
  proof cases
    case 1
    have e: "{k. k < N \<and> refs s k = 0} = {}" using 1(2) by fastforce
    show ?thesis unfolding free_pages_def e using 1(1) a by simp
  next
    case (2 k s2)
    have e: "{j. j < N \<and> refs s j = 0} = insert k {j. j < N \<and> refs s2 j = 0}" using 2 by auto
    show ?thesis unfolding free_pages_def e using 2(1,5,10) a by simp
  qed
qed


section \<open>Mapping\<close>

lemma pm_tables_ok: "pm.tables_ok N s r s \<longleftrightarrow> tables_in N r s"
  by (simp add: pm.tables_ok_def tables_in_def map_inv_def)

lemma pm_tablesD: "pm.tables_ok N s0 r s \<Longrightarrow> tables_in N r s \<and> map_inv N s0 s"
  by (auto simp: pm.tables_ok_def tables_in_def map_inv_def)

lemma map_region_pm:
  assumes "region_ok start end_vaddr paddr ps" "link_ok link" "present attr" "ps = SZ_4KB \<or> large attr"
    "attr AND NOT 0xFFF = 0" "3 * page_count start end_vaddr ps < free_pages N s"
    "flags = MAP_NEW \<and> alloc_ok N s \<or>
     flags = MAP_UPDATE \<and> tables_in N r s \<and> ent (mem s) r 0 \<noteq> 0 \<and> region_clear (mem s) r start end_vaddr ps"
  shows "\<exists>r' s'. map_region alloc_page_table link r start end_vaddr paddr ps attr flags s = Inr (r', s') \<and>
    tables_in N r' s' \<and> map_inv N s s' \<and> (flags = MAP_UPDATE \<longrightarrow> r' = r) \<and>
    (\<forall>x. unat x < 2 ^ 48 \<longrightarrow> translate (mem s') r' x =
      (if in_pages start end_vaddr ps x then Some (paddr + (x - start), attr)
       else if flags = MAP_NEW then None else translate (mem s) r x))"
proof -
  have "flags = MAP_NEW \<and> map_inv N s s \<or>
     flags = MAP_UPDATE \<and> pm.tables_ok N s r s \<and> ent (mem s) r 0 \<noteq> 0 \<and>
     (\<forall>k < page_count start end_vaddr ps. clear_path (leaf_depth ps) (mem s) r (start + of_nat (k * unat ps)))"
    using assms(7) by (auto simp: pm_tables_ok region_clear_def map_inv_def)
  from pm.map_region_ok [OF _ assms(2-5) _ _ _ _ this, of paddr] assms(1,6) show ?thesis
    unfolding region_ok_def in_pages_def by (auto dest: pm_tablesD)
qed

text \<open>
  C1.  With free pages for the tables, \<open>map_memory\<close> returns tables in which every address of
  the region translates to the same offset in the physical region, with the protection asked for,
  and every other address translates as before (to nothing, in new tables).  The tables stay
  well-formed and no page that was in use, nor the processor table, is touched.
\<close>

theorem map_memory_translates:
  assumes "region_ok start end_vaddr paddr ps" "prot_ok protection" "3 * page_count start end_vaddr ps < free_pages N s"
    "flags = MAP_NEW \<and> alloc_ok N s \<or>
     flags = MAP_UPDATE \<and> tables_in N r s \<and> ent (mem s) r 0 \<noteq> 0 \<and> region_clear (mem s) r start end_vaddr ps"
  shows "\<exists>r' s'. map_memory alloc_page_table r start end_vaddr paddr ps protection flags s = Inr (r', s') \<and>
    tables_in N r' s' \<and> map_inv N s s' \<and> (flags = MAP_UPDATE \<longrightarrow> r' = r) \<and>
    (\<forall>x. unat x < 2 ^ 48 \<longrightarrow> translate (mem s') r' x =
      (if in_pages start end_vaddr ps x then Some (paddr + (x - start), ucast (large_prot ps protection))
       else if flags = MAP_NEW then None else translate (mem s) r x))"
  unfolding map_memory_def using assms(3,4)
  by (intro map_region_pm [OF assms(1) _ word16_attr [OF assms(2)]]) (auto simp: link_ok_def)

text \<open>
  C7.  The same for \<open>ept_map_memory\<close>, whose leaves also carry the memory type.
\<close>

theorem ept_map_memory_translates:
  assumes "region_ok start end_vaddr paddr ps" "prot_ok protection" "3 * page_count start end_vaddr ps < free_pages N s"
    "flags = MAP_NEW \<and> alloc_ok N s \<or>
     flags = MAP_UPDATE \<and> tables_in N r s \<and> ent (mem s) r 0 \<noteq> 0 \<and> region_clear (mem s) r start end_vaddr ps"
  shows "\<exists>r' s'. ept_map_memory alloc_page_table r start end_vaddr paddr ps mtype protection flags s = Inr (r', s') \<and>
    tables_in N r' s' \<and> map_inv N s s' \<and> (flags = MAP_UPDATE \<longrightarrow> r' = r) \<and>
    (\<forall>x. unat x < 2 ^ 48 \<longrightarrow> translate (mem s') r' x =
      (if in_pages start end_vaddr ps x
       then Some (paddr + (x - start), push_bit 3 (ucast mtype) OR ucast (large_prot ps protection))
       else if flags = MAP_NEW then None else translate (mem s) r x))"
  unfolding ept_map_memory_def using assms(3,4)
  by (intro map_region_pm [OF assms(1) _ ept_attr [OF assms(2)]]) (auto simp: link_ok_def)


text \<open>
  C18.  \<open>unmap_memory\<close> takes the page that holds the address out of the translation, whatever its
  size, and leaves the translation of every address outside that page alone; an address that is not
  mapped changes nothing.
\<close>

theorem unmap_memory_removes:
  assumes "tables_in N r s"
  shows "tables_in N r (s\<lparr>mem := unmap_memory r v (mem s)\<rparr>) \<and>
    (\<forall>x. unat v < 2 ^ 48 \<and> unat x < 2 ^ 48 \<longrightarrow> translate (unmap_memory r v (mem s)) r x =
      (case pt_walk (mem s) r v of None \<Rightarrow> translate (mem s) r x
       | Some (l, e) \<Rightarrow> if unat x div 2 ^ (3 + 9 * l) = unat v div 2 ^ (3 + 9 * l) then None
          else translate (mem s) r x))"
proof -
  obtain L where ok: "alloc_ok N s" and wf: "pt_wf (mem s) r L" and own: "\<And>d. L d \<subseteq> owned_pages N s"
    using assms by (auto simp: tables_in_def)
  note u = unmap_walk [OF wf, of v]
  have "tables_in N r (s\<lparr>mem := unmap_memory r v (mem s)\<rparr>)"
    using ok u(1) own by (auto simp: tables_in_def owned_pages_def)
  moreover have "translate (unmap_memory r v (mem s)) r x =
      (case pt_walk (mem s) r v of None \<Rightarrow> translate (mem s) r x
       | Some (l, e) \<Rightarrow> if unat x div 2 ^ (3 + 9 * l) = unat v div 2 ^ (3 + 9 * l) then None
          else translate (mem s) r x)" if x: "unat v < 2 ^ 48" "unat x < 2 ^ 48" for x
  proof (cases "pt_walk (mem s) r v")
    case None
    then show ?thesis using u(2) [of x] by (simp add: translate_def)
  next
    case (Some le)
    obtain l e where le: "le = (l, e)" by (cases le)
    have "l = 1 \<or> l = 2 \<or> l = 3" using Some le by (auto simp: pt_walk_def Let_def split: if_splits)
    then have "39 - 9 * (4 - l) = 3 + 9 * l" "4 - l \<le> 3" by auto
    then have "agree (4 - l) v x \<longleftrightarrow> unat x div 2 ^ (3 + 9 * l) = unat v div 2 ^ (3 + 9 * l)"
      using agree_div [of "4 - l" v x] x by (auto simp only:)
    then show ?thesis using Some le u(2) [of x] by (simp add: translate_def)
  qed
  ultimately show ?thesis by blast
qed

section \<open>A mapping in the example allocator\<close>

lemma demo_free: "free_pages 254 demo_alloc = 254"
  by (simp add: free_pages_def demo_alloc_ok(3))

text \<open>One page of 2 MB at 4 MB, mapped to 6 MB, readable and writable.\<close>

definition demo_map :: "(addr \<times> alloc) res" where
  "demo_map = map_memory alloc_page_table 0 0x400000 0x600000 0x600000 SZ_2MB 3 MAP_NEW demo_alloc"

lemma demo_region: "region_ok 0x400000 0x600000 0x600000 SZ_2MB" "page_count 0x400000 0x600000 SZ_2MB = 1"
  by (auto simp: region_ok_def page_size_ok_def page_count_def)

lemma demo_prot: "prot_ok 3"
  by (simp add: prot_ok_def)

theorem map_memory_translates_witness:
  "\<exists>r s. demo_map = Inr (r, s) \<and> tables_in 254 r s \<and> translate (mem s) r 0x412345 = Some (0x612345, 0x83) \<and>
     translate (mem s) r 0x3FFFFF = None"
proof -
  from map_memory_translates [OF demo_region(1) demo_prot, of 254 demo_alloc MAP_NEW 0] demo_region(2) demo_free
    demo_alloc_ok(1)
  obtain r s where "demo_map = Inr (r, s)" "tables_in 254 r s"
    "\<forall>x. unat x < 2 ^ 48 \<longrightarrow> translate (mem s) r x =
      (if in_pages 0x400000 0x600000 SZ_2MB x then Some (0x600000 + (x - 0x400000), ucast (large_prot SZ_2MB 3)) else None)"
    by (auto simp: demo_map_def)
  moreover from this(3) [rule_format, of "0x412345"] this(3) [rule_format, of "0x3FFFFF"]
  have "translate (mem s) r 0x412345 = Some (0x612345, 0x83)" "translate (mem s) r 0x3FFFFF = None"
    by (auto simp: in_pages_def demo_region(2) large_prot_def)
  ultimately show ?thesis by blast
qed

theorem ept_map_memory_translates_witness:
  "\<exists>r s. ept_map_memory alloc_page_table 0 0x400000 0x600000 0x600000 SZ_2MB 6 7 MAP_NEW demo_alloc = Inr (r, s) \<and>
     translate (mem s) r 0x412345 = Some (0x612345, 0xB7)"
proof -
  have "prot_ok 7" by (simp add: prot_ok_def)
  from ept_map_memory_translates [OF demo_region(1) this, of 254 demo_alloc MAP_NEW 0 6] demo_region(2) demo_free
    demo_alloc_ok(1)
  obtain r s where "ept_map_memory alloc_page_table 0 0x400000 0x600000 0x600000 SZ_2MB 6 7 MAP_NEW demo_alloc = Inr (r, s)"
    "\<forall>x. unat x < 2 ^ 48 \<longrightarrow> translate (mem s) r x =
      (if in_pages 0x400000 0x600000 SZ_2MB x
       then Some (0x600000 + (x - 0x400000), push_bit 3 (ucast (6 :: byte)) OR ucast (large_prot SZ_2MB 7)) else None)"
    by auto
  moreover from this(2) [rule_format, of "0x412345"]
  have "translate (mem s) r 0x412345 = Some (0x612345, 0xB7)"
    by (auto simp: in_pages_def demo_region(2) large_prot_def push_bit_eq_mult)
  ultimately show ?thesis by blast
qed


lemma demo_map_ok: "\<exists>r s. demo_map = Inr (r, s) \<and> tables_in 254 r s \<and> translate (mem s) r 0x412345 \<noteq> None"
proof -
  have "\<exists>r' s'. map_region alloc_page_table 3 0 0x400000 0x600000 0x600000 SZ_2MB (ucast (large_prot SZ_2MB 3)) MAP_NEW demo_alloc
      = Inr (r', s') \<and> tables_in 254 r' s' \<and> map_inv 254 demo_alloc s' \<and> (MAP_NEW = (MAP_UPDATE :: cint) \<longrightarrow> r' = 0) \<and>
    (\<forall>x. unat x < 2 ^ 48 \<longrightarrow> translate (mem s') r' x =
      (if in_pages 0x400000 0x600000 SZ_2MB x then Some (0x600000 + (x - 0x400000), ucast (large_prot SZ_2MB 3))
       else if MAP_NEW = (MAP_NEW :: cint) then None else translate (mem demo_alloc) 0 x))"
    using demo_region(2) demo_free demo_alloc_ok(1)
    by (intro map_region_pm [OF demo_region(1) _ word16_attr [OF demo_prot]]) (auto simp: link_ok_def)
  then obtain r s where *: "map_region alloc_page_table 3 0 0x400000 0x600000 0x600000 SZ_2MB (ucast (large_prot SZ_2MB 3)) MAP_NEW demo_alloc
      = Inr (r, s)" "tables_in 254 r s"
    "\<forall>x. unat x < 2 ^ 48 \<longrightarrow> translate (mem s) r x =
      (if in_pages 0x400000 0x600000 SZ_2MB x then Some (0x600000 + (x - 0x400000), ucast (large_prot SZ_2MB 3)) else None)"
    by auto
  have "in_pages 0x400000 0x600000 SZ_2MB 0x412345" by (simp add: in_pages_def demo_region(2))
  then show ?thesis using * by (auto simp: demo_map_def map_memory_def)
qed

theorem unmap_memory_removes_witness:
  "\<exists>r s. demo_map = Inr (r, s) \<and> translate (mem s) r 0x412345 \<noteq> None \<and>
     translate (unmap_memory r 0x412345 (mem s)) r 0x412345 = None"
proof -
  obtain r s where r: "demo_map = Inr (r, s)" "tables_in 254 r s" "translate (mem s) r 0x412345 \<noteq> None"
    using demo_map_ok by blast
  then have "pt_walk (mem s) r 0x412345 \<noteq> None" by (auto simp: translate_def)
  moreover from unmap_memory_removes [OF r(2), of "0x412345"] have
    "translate (unmap_memory r 0x412345 (mem s)) r 0x412345 =
      (case pt_walk (mem s) r 0x412345 of None \<Rightarrow> translate (mem s) r 0x412345 | Some (l, e) \<Rightarrow> None)"
    by (auto split: option.split)
  ultimately show ?thesis using r by (auto split: option.splits)
qed

end
