(* ===== verification/Process_State.thy ===== *)
theory Process_State
  imports Channel Process_Tables
begin

text \<open>
  The state of the process manager and its helpers: \<open>pages\<close>, \<open>get_cpu_info\<close>, \<open>find_free_vm\<close>,
  \<open>pm_init\<close>, \<open>ept_pmap\<close> and the channel lists of \<open>src/vms/pm/main.c\<close>, \<open>free_page_tables\<close> of
  \<open>src/vms/pm/pmap.c\<close>, and the layout of register arrays and ELF headers in memory.

  A pointer into the table of \<open>cpu_info\<close> structures is the index of the processor; where the code
  uses its address, \<open>cpu_info_addr\<close> gives it.  The static arrays \<open>arg_vector\<close> and \<open>argv_ptr\<close> lie in
  memory at addresses that are part of the state.  A null pointer that the code follows is the
  outcome \<open>Fault\<close>.
\<close>

section \<open>State\<close>

record pm = alloc +
  has_1GB_page :: bool
  cpuinfo_base :: addr
  arg_vector :: addr
  argv_ptr :: addr

definition pages :: "addr \<Rightarrow> addr \<Rightarrow> addr" where
  "pages sz pgsz = sz div pgsz + (if sz mod pgsz > 0 then 1 else 0)"

definition get_cpu_info :: "addr \<Rightarrow> nat option" where
  "get_cpu_info cpu = (if cpu > MAX_CPUS then None else Some (unat cpu))"

definition cpu_info_addr :: "nat \<Rightarrow> 'a pm_scheme \<Rightarrow> addr" where
  "cpu_info_addr i s = cpuinfo_base s + of_nat (4096 * i)"

definition deref :: "nat option \<Rightarrow> (nat \<Rightarrow> 'b res) \<Rightarrow> 'b res" where
  "deref p f = (case p of None \<Rightarrow> Inl (Fault ''null pointer'') | Some i \<Rightarrow> f i)"

text \<open>The processor the process manager runs on.\<close>

abbreviation self :: "'a sys_scheme \<Rightarrow> cpu_info" where
  "self s \<equiv> cpus s PM_ID"

definition upd_has_vm :: "nat \<Rightarrow> bool \<Rightarrow> 'a sys_scheme \<Rightarrow> 'a sys_scheme" where
  "upd_has_vm i b s =
    s\<lparr>cpus := (cpus s)(i := vmm_info_update (vmm_has_vm_update (\<lambda>_. b)) (cpus s i))\<rparr>"

text \<open>The loop of \<open>find_free_vm\<close>: \<open>n\<close> processors from \<open>i\<close> on.\<close>

primrec find_free_from :: "nat \<Rightarrow> nat \<Rightarrow> 'a sys_scheme \<Rightarrow> nat option res" where
  "find_free_from 0 i s = Inr None"
| "find_free_from (Suc n) i s =
    (case get_cpu_info (of_nat i) of
       None \<Rightarrow> Inl (Panic ''pm (find_free_vm): could not get cpu information!'')
     | Some cpu \<Rightarrow>
        if \<not> vmm_has_vm (vmm_info (cpus s cpu)) then Inr (Some cpu)
        else find_free_from n (Suc i) s)"

definition find_free_vm :: "'a sys_scheme \<Rightarrow> nat option res" where
  "find_free_vm s = find_free_from (unat (ncpus (self s)) - ALWAYS_BUSY) ALWAYS_BUSY s"

text \<open>\<open>struct pm_args\<close>: three fields of eight bytes.\<close>

definition pm_init :: "'a pm_scheme \<Rightarrow> 'a pm_scheme res" where
  "pm_init s =
    (let args = vm_args (self s) in
     memory_init (load64 (mem s) (args + 16)) (load64 (mem s) args)
       (s\<lparr>has_1GB_page := (ucast (load64 (mem s) (args + 8)) :: cint) \<noteq> 0\<rparr>))"

section \<open>Layouts\<close>

definition get_regs :: "memory \<Rightarrow> addr \<Rightarrow> regs" where
  "get_regs m p = \<lparr>
    r_rax = load64 m p, r_rbx = load64 m (p + 8), r_rcx = load64 m (p + 16), r_rdx = load64 m (p + 24),
    r_rsi = load64 m (p + 32), r_rdi = load64 m (p + 40), r_rsp = load64 m (p + 48), r_rbp = load64 m (p + 56),
    r_rip = load64 m (p + 64), r_cs = load64 m (p + 72), r_ds = load64 m (p + 80), r_es = load64 m (p + 88),
    r_fs = load64 m (p + 96), r_gs = load64 m (p + 104), r_ss = load64 m (p + 112), r_rflags = load64 m (p + 120),
    r_r8 = load64 m (p + 128), r_r9 = load64 m (p + 136), r_r10 = load64 m (p + 144), r_r11 = load64 m (p + 152),
    r_r12 = load64 m (p + 160), r_r13 = load64 m (p + 168), r_r14 = load64 m (p + 176), r_r15 = load64 m (p + 184),
    r_cr0 = load64 m (p + 192), r_cr3 = load64 m (p + 200), r_cr4 = load64 m (p + 208)\<rparr>"

text \<open>The fields of \<open>Elf64_Ehdr\<close> and \<open>Elf64_Phdr\<close> that the loader reads.\<close>

definition e_phoff :: "memory \<Rightarrow> addr \<Rightarrow> addr" where
  "e_phoff m elf = load64 m (elf + 32)"

definition e_phnum :: "memory \<Rightarrow> addr \<Rightarrow> 16 word" where
  "e_phnum m elf = load_le 2 m (elf + 56)"

record phdr =
  p_offset :: addr
  p_vaddr :: addr
  p_memsz :: addr

definition get_phdr :: "memory \<Rightarrow> addr \<Rightarrow> phdr" where
  "get_phdr m p = \<lparr>p_offset = load64 m (p + 8), p_vaddr = load64 m (p + 16), p_memsz = load64 m (p + 40)\<rparr>"

section \<open>Nested page tables of a process\<close>

text \<open>\<open>ept_map_memory (&cpu->vm_info.vm_ept, ...)\<close> and \<open>map_memory (&cpu->vm_info.vm_page_tables, ...)\<close>.\<close>

definition map_ept ::
    "nat \<Rightarrow> addr \<Rightarrow> addr \<Rightarrow> addr \<Rightarrow> byte \<Rightarrow> 16 word \<Rightarrow> cint \<Rightarrow> 'a pm_scheme \<Rightarrow> 'a pm_scheme res" where
  "map_ept i start end_vaddr paddr mtype protection flags s =
    bindr (ept_map_memory alloc_page_table (vm_ept (vm_info (cpus s i))) start end_vaddr paddr
            USER_VMS_PAGE_SIZE mtype protection flags s)
      (\<lambda>(ept, s'). Inr (upd_vm i (vm_ept_update (\<lambda>_. ept)) s'))"

definition map_pgtb ::
    "nat \<Rightarrow> addr \<Rightarrow> addr \<Rightarrow> addr \<Rightarrow> cint \<Rightarrow> 16 word \<Rightarrow> cint \<Rightarrow> 'a pm_scheme \<Rightarrow> 'a pm_scheme res" where
  "map_pgtb i start end_vaddr paddr page_size protection flags s =
    bindr (map_memory alloc_page_table (vm_page_tables (vm_info (cpus s i))) start end_vaddr paddr
            page_size protection flags s)
      (\<lambda>(pml4, s'). Inr (upd_vm i (vm_page_tables_update (\<lambda>_. pml4)) s'))"

text \<open>A region that is mapped to itself, and a section of the program, if it has any bytes.\<close>

definition map_ident :: "nat \<Rightarrow> addr \<Rightarrow> addr \<Rightarrow> byte \<Rightarrow> 16 word \<Rightarrow> 'a pm_scheme \<Rightarrow> 'a pm_scheme res" where
  "map_ident i start sz mtype protection s =
    map_ept i start (start + sz) start mtype protection MAP_UPDATE s"

definition map_section :: "nat \<Rightarrow> addr \<Rightarrow> addr \<Rightarrow> addr \<Rightarrow> 16 word \<Rightarrow> 'a pm_scheme \<Rightarrow> 'a pm_scheme res" where
  "map_section i vaddr sz paddr protection s =
    (if sz > 0 then map_ept i vaddr (vaddr + sz) paddr EPT_MTYPE_WB protection MAP_UPDATE s else Inr s)"

text \<open>The pages of the open files: \<open>for (i = 0; i < MAX_FD; i++)\<close>.\<close>

definition map_fd :: "nat \<Rightarrow> nat \<Rightarrow> 'a pm_scheme \<Rightarrow> 'a pm_scheme res" where
  "map_fd i k s =
    (let off = fd_offset (get_fd (mem s) (fd_addr (vm_fds (vm_info (cpus s i))) k)) in
     if off \<noteq> 0 then map_ident i off SZ_4KB EPT_MTYPE_WB (EPT_PAGE_WRITE OR EPT_PAGE_READ) s else Inr s)"

definition map_fds :: "nat \<Rightarrow> 'a pm_scheme \<Rightarrow> 'a pm_scheme res" where
  "map_fds i s =
    (let fds = vm_fds (vm_info (cpus s i)) in
     if fds > 0 then
       bindr (map_ident i fds SZ_4KB EPT_MTYPE_WB (EPT_PAGE_WRITE OR EPT_PAGE_READ) s)
         (for_loop MAX_FD 0 (map_fd i))
     else Inr s)"

definition map_guest :: "nat \<Rightarrow> 'a pm_scheme \<Rightarrow> 'a pm_scheme res" where
  "map_guest i s =
    (let ps = (if has_1GB_page s then SZ_1GB else SZ_2MB) in
     bindr (map_pgtb i 0 SZ_2MB 0 ps (PAGE_PRESENT OR PAGE_RW OR PAGE_PCD) MAP_NEW s) (\<lambda>s1.
     bindr (map_pgtb i SZ_2MB 0xFEC00000 SZ_2MB ps (PAGE_PRESENT OR PAGE_RW) MAP_UPDATE s1)
       (map_pgtb i 0xFEC00000 (SZ_1GB * 4) 0xFEC00000 ps (PAGE_PRESENT OR PAGE_RW OR PAGE_PCD) MAP_UPDATE)))"

definition map_boxes :: "nat \<Rightarrow> 'a pm_scheme \<Rightarrow> 'a pm_scheme res" where
  "map_boxes i s =
    (let c = cpus s i; rw = EPT_PAGE_WRITE OR EPT_PAGE_READ in
     bindr (map_ident i (cpu_info_addr i s) SZ_4KB EPT_MTYPE_WB EPT_PAGE_READ s) (\<lambda>s1.
     bindr (map_ident i (msg_input c) SZ_4KB EPT_MTYPE_WB rw s1) (\<lambda>s2.
     bindr (map_ident i (msg_output c) SZ_4KB EPT_MTYPE_WB rw s2) (\<lambda>s3.
     bindr (map_ident i (msg_ready c) SZ_4KB EPT_MTYPE_WB rw s3)
       (map_ident i (msg_ready_bitmap c) SZ_4KB EPT_MTYPE_WB rw)))))"

definition map_sections :: "nat \<Rightarrow> 'a pm_scheme \<Rightarrow> 'a pm_scheme res" where
  "map_sections i s =
    (let v = vm_info (cpus s i) in
     bindr (map_section i (vm_code_vaddr v) (vm_code_size v) (vm_code_paddr v) (EPT_PAGE_READ OR EPT_PAGE_EXEC) s) (\<lambda>s1.
     bindr (map_section i (vm_data_vaddr v) (vm_data_size v) (vm_data_paddr v) (EPT_PAGE_READ OR EPT_PAGE_WRITE) s1) (\<lambda>s2.
     bindr (map_section i (vm_rodata_vaddr v) (vm_rodata_size v) (vm_rodata_paddr v) EPT_PAGE_READ s2) (\<lambda>s3.
     bindr (map_section i (vm_bss_vaddr v) (vm_bss_size v) (vm_bss_paddr v) (EPT_PAGE_WRITE OR EPT_PAGE_READ) s3)
       (map_section i (vm_stack_vaddr v) (vm_stack_size v) (vm_stack_paddr v) (EPT_PAGE_WRITE OR EPT_PAGE_READ))))))"

definition ept_pmap :: "nat \<Rightarrow> 'a pm_scheme \<Rightarrow> 'a pm_scheme res" where
  "ept_pmap i s =
    bindr (map_guest i s) (\<lambda>s1.
    bindr (map_ept i 0xB8000 0xB9000 0xB8000 EPT_MTYPE_UC (EPT_PAGE_READ OR EPT_PAGE_WRITE) MAP_NEW s1) (\<lambda>s2.
    bindr (map_ept i 0xFEC00000 0x100000000 0xFEC00000 EPT_MTYPE_UC (EPT_PAGE_READ OR EPT_PAGE_WRITE) MAP_UPDATE s2) (\<lambda>s3.
    bindr (ept_map_page_tables alloc_page_table (vm_ept (vm_info (cpus s3 i))) (vm_page_tables (vm_info (cpus s3 i)))
            (EPT_PAGE_READ OR EPT_PAGE_WRITE) s3) (\<lambda>(ept, s4).
    bindr (map_boxes i (upd_vm i (vm_ept_update (\<lambda>_. ept)) s4)) (\<lambda>s5.
    bindr (map_sections i s5) (\<lambda>s6.
    bindr (map_fds i s6) (\<lambda>s7.
    bindr (let chs = vm_channels (vm_info (cpus s7 i)) in
           if chs > 0 then map_ident i chs SZ_4KB EPT_MTYPE_WB (EPT_PAGE_WRITE OR EPT_PAGE_READ) s7 else Inr s7)
      (map_ept i 0xC0000000 0xC6000000 0xC0000000 EPT_MTYPE_UC (EPT_PAGE_WRITE OR EPT_PAGE_READ) MAP_UPDATE))))))))"


section \<open>Releasing page tables\<close>

text \<open>The three loops of \<open>free_page_tables\<close>, from the inside out.\<close>

definition free_pte :: "addr \<Rightarrow> nat \<Rightarrow> 'a alloc_scheme \<Rightarrow> 'a alloc_scheme res" where
  "free_pte pde i s =
    (let e = ent (mem s) pde i in
     if e \<noteq> 0 \<and> e AND PAGE_PSE = 0 then free_mem_pages (tbl e) s else Inr s)"

definition free_pde :: "addr \<Rightarrow> nat \<Rightarrow> 'a alloc_scheme \<Rightarrow> 'a alloc_scheme res" where
  "free_pde pdpe i s =
    (let e = ent (mem s) pdpe i in
     if e \<noteq> 0 \<and> e AND PAGE_PSE = 0 \<and> tbl e \<noteq> 0 then
       bindr (for_loop 512 0 (free_pte (tbl e)) s) (free_mem_pages (tbl e))
     else Inr s)"

definition free_page_tables :: "addr \<Rightarrow> 'a alloc_scheme \<Rightarrow> 'a alloc_scheme res" where
  "free_page_tables base s =
    (let pdpe = tbl (ent (mem s) base 0) in
     bindr (if pdpe \<noteq> 0 then for_loop 4 0 (free_pde pdpe) s else Inr s) (\<lambda>s1.
     bindr (free_mem_pages pdpe s1) (free_mem_pages base)))"

section \<open>Channel lists\<close>

text \<open>The list of a driver is an array of 32 addresses in memory that ends at the first zero.\<close>

definition chan :: "memory \<Rightarrow> addr \<Rightarrow> nat \<Rightarrow> addr" where
  "chan m chs k = load64 m (chs + of_nat (8 * k))"

definition set_chan :: "memory \<Rightarrow> addr \<Rightarrow> nat \<Rightarrow> addr \<Rightarrow> memory" where
  "set_chan m chs k v = store64 m (chs + of_nat (8 * k)) v"

text \<open>
  \<open>for (k = j; k < MAX_CHANNELS - 1; k++) { if (ch[k] == 0) break; ch[k] = ch[k + 1]; }\<close> with \<open>n\<close>
  steps to go; the value of \<open>k\<close> behind the loop is returned.
\<close>

primrec shift_channels :: "nat \<Rightarrow> nat \<Rightarrow> addr \<Rightarrow> memory \<Rightarrow> nat \<times> memory" where
  "shift_channels 0 k chs m = (k, m)"
| "shift_channels (Suc n) k chs m =
    (if chan m chs k = 0 then (k, m)
     else shift_channels n (Suc k) chs (set_chan m chs k (chan m chs (Suc k))))"

text \<open>The body of the loop over \<open>j\<close>; \<open>found\<close> is kept with the memory.\<close>

definition remove_at :: "addr \<Rightarrow> addr \<Rightarrow> nat \<Rightarrow> int \<times> memory \<Rightarrow> (int \<times> memory) res" where
  "remove_at channel chs j = (\<lambda>(found, m).
    if chan m chs j = channel
    then (let (k, m1) = shift_channels (MAX_CHANNELS - 1 - j) j chs m
          in Inr (int j, set_chan m1 chs (Suc k) 0))
    else Inr (found, m))"

definition remove_from_cpu :: "addr \<Rightarrow> 'a sys_scheme \<Rightarrow> nat \<Rightarrow> int \<times> memory \<Rightarrow> (int \<times> memory) res" where
  "remove_from_cpu channel s i fm =
    deref (get_cpu_info (of_nat i)) (\<lambda>cpu.
      let chs = vm_channels (vm_info (cpus s cpu)) in
      if chs = 0 then Inr fm else for_loop MAX_CHANNELS 0 (remove_at channel chs) fm)"

definition remove_channel_list :: "addr \<Rightarrow> 'a sys_scheme \<Rightarrow> 'a sys_scheme res" where
  "remove_channel_list channel s =
    (if channel = 0 then Inl (Panic ''Removing channel 0!'')
     else
       bindr (for_loop (unat (ncpus (self s))) 0 (remove_from_cpu channel s) (- 1, mem s)) (\<lambda>(found, m).
         if found = - 1 then Inl (Panic ''Channel not found!'') else Inr (s\<lparr>mem := m\<rparr>)))"

primrec add_channel_from :: "nat \<Rightarrow> nat \<Rightarrow> addr \<Rightarrow> addr \<Rightarrow> memory \<Rightarrow> memory" where
  "add_channel_from 0 i chs channel m = m"
| "add_channel_from (Suc n) i chs channel m =
    (if chan m chs i = 0 then set_chan m chs i channel else add_channel_from n (Suc i) chs channel m)"

definition add_channel_list :: "nat \<Rightarrow> addr \<Rightarrow> 'a sys_scheme \<Rightarrow> 'a sys_scheme res" where
  "add_channel_list i channel s =
    (let chs = vm_channels (vm_info (cpus s i)) in
     if chs = 0 then Inl (Panic ''Cpu does not have any channel!'')
     else if channel = 0 then Inl (Panic ''Channel is 0!'')
     else Inr (s\<lparr>mem := add_channel_from MAX_CHANNELS 0 chs channel (mem s)\<rparr>))"

definition local_channel :: "addr \<Rightarrow> addr \<Rightarrow> 'a pm_scheme \<Rightarrow> (addr \<times> 'a pm_scheme) res" where
  "local_channel end1 end2 s =
    deref (get_cpu_info end1) (\<lambda>cpu1. deref (get_cpu_info end2) (\<lambda>cpu2.
      if \<not> vmm_has_vm (vmm_info (cpus s cpu1)) then Inl (Panic ''PM: creating channel failed! VM1 does not exist!'')
      else if \<not> vmm_has_vm (vmm_info (cpus s cpu2)) then Inl (Panic ''PM: creating channel failed! VM2 does not exist!'')
      else if \<not> is_driver (ucast (cpuid (cpus s cpu2)))
      then Inl (Panic ''PM: The second end of the channel needs to be always a driver'')
      else
        bindr (alloc_clean_mem_pages (pages CHANNEL_SIZE USER_VMS_PAGE_SIZE) s) (\<lambda>(channel, s1).
          if channel = 0 then Inl (Panic ''PM: Failed to alloced memory!'')
          else
            bindr (map_ident cpu1 channel CHANNEL_SIZE EPT_MTYPE_WT (EPT_PAGE_WRITE OR EPT_PAGE_READ) s1) (\<lambda>s2.
            bindr (map_ident cpu2 channel CHANNEL_SIZE EPT_MTYPE_WT (EPT_PAGE_WRITE OR EPT_PAGE_READ) s2) (\<lambda>s3.
            bindr (add_channel_list cpu2 channel s3) (\<lambda>s4. Inr (channel, s4)))))))"

definition local_channel_close :: "addr \<Rightarrow> 'a alloc_scheme \<Rightarrow> 'a alloc_scheme res" where
  "local_channel_close channel s = bindr (remove_channel_list channel s) (free_mem_pages channel)"

end
