(* ===== verification/Boot_Processors.thy ===== *)
theory Boot_Processors
  imports Boot_Memory Process_State
begin

text \<open>
  The processors of the machine as the second boot stage finds them: the table of \<open>cpu_info\<close>
  structures (\<open>src/boot/stage2/cpuinfo.c\<close>) and the search and walk of the multiprocessor
  configuration table of the BIOS (\<open>src/boot/stage2/mp.c\<close>).

  As in the process manager, a pointer into the pool of \<open>cpu_info\<close> structures is the number of its
  slot of 4 KB; \<open>info_addr\<close> is its address.  The results of \<open>cpuid\<close> and \<open>rdmsr\<close> are arguments.
  Both loops advance a 64-bit pointer and compare it with an end, so they are partial functions: the
  value \<open>None\<close> is a run that never ends.  They return for every content of memory.
\<close>

section \<open>The table of processors\<close>

record stage2 = boot +
  infos :: "nat \<Rightarrow> cpu_info"
  cpuinfo_pool :: addr
  cpuinfo_table :: "nat option list"
  cpu_count :: cint
  first_time :: bool
  ioapicva :: addr

definition info_addr :: "nat \<Rightarrow> 'a stage2_scheme \<Rightarrow> addr" where
  "info_addr i s = cpuinfo_pool s + of_nat (4096 * i)"

abbreviation (input) "CPU_INFO_SIZE \<equiv> 888"

definition allocate_cpuinfo_pool :: "'a stage2_scheme \<Rightarrow> 'a stage2_scheme res" where
  "allocate_cpuinfo_pool s =
    (if CPU_INFO_SIZE > (SZ_4KB :: nat) then Inl (Panic ''CPU info structure is too big'')
     else if MAX_CPUS * SZ_4KB > (SZ_2MB :: nat) then Inl (Panic ''Max CPU information Pool is bigger than 2MB'')
     else
       bindr (calloc_align 1 SZ_2MB SZ_2MB s) (\<lambda>(p, s1).
         if p = 0 then Inl (Fault ''cpuinfo_pool is null'')
         else Inr (s1\<lparr>cpuinfo_pool := p, infos := (\<lambda>_. zero_cpu),
                     cpuinfo_table := (cpuinfo_table s1)[0 := Some 0]\<rparr>)))"

definition add_cpu :: "'a stage2_scheme \<Rightarrow> (nat \<times> 'a stage2_scheme) res" where
  "add_cpu s =
    (if MAX_CPUS <s cpu_count s then Inl (Panic ''Too many CPUs'')
     else
       bindr (if first_time s then allocate_cpuinfo_pool (s\<lparr>first_time := False\<rparr>) else Inr s) (\<lambda>s1.
         let n = unat (cpu_count s1) in
         if MAX_CPUS \<le> n then Inl (Fault ''behind cpuinfo_table'')
         else Inr (n, s1\<lparr>cpuinfo_table := (cpuinfo_table s1)[n := Some n], cpu_count := cpu_count s1 + 1\<rparr>)))"

text \<open>The time stamp counter before and after 10 milliseconds.\<close>

definition get_cpu_freq :: "addr \<times> addr \<Rightarrow> addr" where
  "get_cpu_freq tsc = (case tsc of (before, after) \<Rightarrow> (after - before) * 100)"

definition get_ncpus :: "'a stage2_scheme \<Rightarrow> cint" where
  "get_ncpus s = cpu_count s"

definition boot_cpu_info :: "addr \<Rightarrow> 'a stage2_scheme \<Rightarrow> nat option res" where
  "boot_cpu_info i s =
    (if i > MAX_CPUS then Inl (Panic ''get_cpu_info: No CPU with id'')
     else if i = MAX_CPUS then Inl (Fault ''behind cpuinfo_table'')
     else Inr (cpuinfo_table s ! unat i))"

definition upd_info :: "nat \<Rightarrow> (cpu_info \<Rightarrow> cpu_info) \<Rightarrow> 'a stage2_scheme \<Rightarrow> 'a stage2_scheme" where
  "upd_info i f s = s\<lparr>infos := (infos s)(i := f (infos s i))\<rparr>"

section \<open>The configuration table\<close>

text \<open>\<open>s += a[i]\<close> for \<open>length\<close> bytes.\<close>

primrec sum_loop :: "nat \<Rightarrow> byte \<Rightarrow> addr \<Rightarrow> memory \<Rightarrow> byte" where
  "sum_loop 0 acc a m = acc"
| "sum_loop (Suc n) acc a m = sum_loop n (acc + m a) (a + 1) m"

definition sum_bytes :: "addr \<Rightarrow> nat \<Rightarrow> memory \<Rightarrow> byte" where
  "sum_bytes a len m = sum_loop len 0 a m"

text \<open>\<open>struct mp_fptr\<close>, 16 bytes; \<open>memcmp\<close> with a literal compares its bytes.\<close>

definition mp_fptr_at :: "memory \<Rightarrow> addr \<Rightarrow> bool" where
  "mp_fptr_at m p \<longleftrightarrow> bytes_at m p (chars ''_MP_'') \<and> sum_bytes p 16 m = 0"

partial_function (option) mp_scan :: "memory \<Rightarrow> addr \<Rightarrow> addr \<Rightarrow> addr option" where
  "mp_scan m p stop_at =
    (if p < stop_at then (if mp_fptr_at m p then Some p else mp_scan m (p + 16) stop_at) else Some 0)"

definition mp_search :: "memory \<Rightarrow> addr \<Rightarrow> cint \<Rightarrow> addr option" where
  "mp_search m pa len = mp_scan m pa (pa + scast len)"

text \<open>\<open>struct mp_conf\<close>, 44 bytes.\<close>

definition conf_length :: "memory \<Rightarrow> addr \<Rightarrow> nat" where
  "conf_length m conf = unat (load_le 2 m (conf + 4) :: 16 word)"

definition mp_conf_at :: "memory \<Rightarrow> addr \<Rightarrow> bool" where
  "mp_conf_at m conf \<longleftrightarrow> bytes_at m conf (chars ''PCMP'') \<and> sum_bytes conf (conf_length m conf) m = 0 \<and>
    (m (conf + 6) = 1 \<or> m (conf + 6) = 4)"

abbreviation (input) "MP_PROC \<equiv> 0"
abbreviation (input) "MP_BUS \<equiv> 1"
abbreviation (input) "MP_IOAPIC \<equiv> 2"
abbreviation (input) "MP_IOINTR \<equiv> 3"
abbreviation (input) "MP_LINTR \<equiv> 4"
abbreviation (input) "IOAPICPA \<equiv> 0xFEC00000"

definition intel_get_core_number :: "cint \<Rightarrow> cint" where
  "intel_get_core_number eax = drop_bit 26 eax + 1"

text \<open>The loop over the cores of a processor; \<open>curr_cpu\<close> is a 64-bit counter, the fields have 8 bits.\<close>

primrec add_cores :: "nat \<Rightarrow> addr \<times> 'a stage2_scheme \<Rightarrow> (addr \<times> 'a stage2_scheme) res" where
  "add_cores 0 cs = Inr cs"
| "add_cores (Suc n) cs =
    bindr (add_cpu (snd cs)) (\<lambda>(i, s1).
      add_cores n (fst cs + 1, upd_info i (\<lambda>c. c\<lparr>cpuid := ucast (fst cs), lapic_id := ucast (fst cs)\<rparr>) s1))"

text \<open>The walk: the counter of processors and the last I/O APIC entry.\<close>

partial_function (option) mp_walk ::
    "cint \<Rightarrow> addr \<Rightarrow> addr \<Rightarrow> addr option \<Rightarrow> addr \<times> 'a stage2_scheme \<Rightarrow>
     (addr option \<times> addr \<times> 'a stage2_scheme) res option" where
  "mp_walk eax conf p ioapic_conf cs =
    (let m = mem (snd cs); typ = m p in
     if p < conf + of_nat (conf_length m conf) then
       (if typ = MP_PROC then
          (case add_cores (unat (intel_get_core_number eax)) cs of
             Inl e \<Rightarrow> Some (Inl e)
           | Inr cs' \<Rightarrow> mp_walk eax conf (p + 20) ioapic_conf cs')
        else if typ = MP_IOAPIC then
          (if load32 m (p + 4) \<noteq> IOAPICPA then Some (Inl (Panic ''IOAPIC address is not valid''))
           else mp_walk eax conf (p + 8) (Some p) cs)
        else if typ = MP_IOINTR \<or> typ = MP_LINTR \<or> typ = MP_BUS then mp_walk eax conf (p + 8) ioapic_conf cs
        else Some (Inl (Panic ''Unknown config type'')))
     else Some (Inr (ioapic_conf, cs)))"

text \<open>Not returning is the outcome \<open>Blocked\<close>.\<close>

definition returns :: "'b res option \<Rightarrow> 'b res" where
  "returns r = (case r of None \<Rightarrow> Inl Blocked | Some x \<Rightarrow> x)"

definition mp_init :: "cint \<Rightarrow> addr \<Rightarrow> cint \<Rightarrow> 'a stage2_scheme \<Rightarrow> 'a stage2_scheme res" where
  "mp_init edx msr eax s =
    (if \<not> (bit edx 9 \<and> bit msr 11) then Inl (Panic ''APIC is NOT supported!'')
     else
       bindr (returns (map_option Inr (mp_search (mem s) 0xF0000 0x10000))) (\<lambda>mp.
         if mp = 0 then Inl (Panic ''No MP floating pointer found'')
         else if load32 (mem s) (mp + 4) = 0 \<or> mem s (mp + 11) \<noteq> 0
         then Inl (Panic ''Legacy MP configurations not supported'')
         else if mem s (mp + 12) AND 0x80 \<noteq> 0 then Inl (Panic ''PIC Mode not supported'')
         else
           (let conf = ucast (load32 (mem s) (mp + 4)) in
            if \<not> mp_conf_at (mem s) conf then Inl (Fault ''Bad Configuration Table: halt'')
            else
              bindr (returns (mp_walk eax conf (conf + 44) None (0, s))) (\<lambda>(ioapic_conf, curr_cpu, s1).
                if curr_cpu \<noteq> scast (get_ncpus s1) then Inl (Panic ''mp failed to properly detect all cpus!'')
                else if curr_cpu < MIN_CPUS then Inl (Panic ''CPUs found. The minimum number is'')
                else Inr (s1\<lparr>ioapicva := (case ioapic_conf of
                       Some p \<Rightarrow> ucast (load32 (mem s1) (p + 4)) | None \<Rightarrow> IOAPICPA)\<rparr>)))))"

section \<open>The loops return\<close>

declare unat_ucast_addr [simp]

lemma mp_scan_first:
  assumes "unat p + 16 * n + 16 \<le> 2 ^ 64" "unat p + 16 * n < unat e + 16" "n \<noteq> 0 \<longrightarrow> unat e \<le> unat p + 16 * n"
    "n = 0 \<longrightarrow> unat e \<le> unat p"
  shows "mp_scan m p e = Some (case find (mp_fptr_at m) (map (\<lambda>k. p + of_nat (16 * k)) [0..<n]) of
    None \<Rightarrow> 0 | Some q \<Rightarrow> q)"
  using assms
proof (induction n arbitrary: p)
  case 0
  then show ?case by (simp add: mp_scan.simps word_less_nat_alt)
next
  case (Suc n)
  have u: "unat (p + 16) = unat p + 16" using Suc.prems(1) by (simp add: unat_word_ariths)
  have l: "p < e" using Suc.prems(2) by (simp add: word_less_nat_alt)
  have eq: "map (\<lambda>k. p + of_nat (16 * k)) [0..<Suc n] = p # map (\<lambda>k. p + 16 + of_nat (16 * k)) [0..<n]"
    by (simp add: upt_conv_Cons map_Suc_upt [symmetric] algebra_simps del: upt_Suc)
  have "mp_scan m (p + 16) e = Some (case find (mp_fptr_at m) (map (\<lambda>k. p + 16 + of_nat (16 * k)) [0..<n]) of
    None \<Rightarrow> 0 | Some q \<Rightarrow> q)"
    using Suc.prems u by (intro Suc.IH) auto
  then show ?case unfolding eq by (subst mp_scan.simps) (simp add: l)
qed

lemma mp_scan_returns:
  assumes "unat e + 16 \<le> 2 ^ 64"
  shows "\<exists>r. mp_scan m p e = Some r"
proof (induction "2 ^ 64 - unat p" arbitrary: p rule: less_induct)
  case less
  show ?case
  proof (cases "p < e")
    case True
    then have "unat (p + 16) = unat p + 16" using assms by (simp add: word_less_nat_alt unat_word_ariths)
    moreover have "unat p < 2 ^ 64" by simp
    ultimately have "2 ^ 64 - unat (p + 16) < 2 ^ 64 - unat p" by (metis diff_less_mono2 less_add_same_cancel1 zero_less_numeral)
    from less [OF this] show ?thesis by (subst mp_scan.simps) simp
  qed (simp add: mp_scan.simps)
qed

lemma conf_length_bound: "conf_length m conf < 2 ^ 16"
  using unsigned_less [where ?'a = nat, of "load_le 2 m (conf + 4) :: 16 word"] by (simp add: conf_length_def)

lemma calloc_align_not_blocked: "calloc_align c n a s \<noteq> Inl Blocked"
  by (simp add: calloc_align_def Let_def)

lemma add_cpu_not_blocked: "add_cpu s \<noteq> Inl Blocked"
  by (auto simp: add_cpu_def allocate_cpuinfo_pool_def bindr_Inl_iff calloc_align_not_blocked Let_def split: if_splits)

lemma add_cores_not_blocked: "add_cores n cs \<noteq> Inl Blocked"
  by (induction n arbitrary: cs) (auto simp: bindr_Inl_iff add_cpu_not_blocked)

lemma walk_induct [consumes 1, case_names step]:
  assumes "unat conf + 65555 < 2 ^ 64"
    and step: "\<And>p. (\<And>q m. p < conf + of_nat (conf_length m conf) \<Longrightarrow> q = p + 8 \<or> q = p + 20 \<Longrightarrow> P q) \<Longrightarrow> P p"
  shows "P p"
proof (induction "2 ^ 64 - unat p" arbitrary: p rule: less_induct)
  case less
  show ?case
  proof (rule step)
    fix q m
    assume p: "p < conf + of_nat (conf_length m conf)" and q: "q = p + 8 \<or> q = p + 20"
    have "unat (conf + of_nat (conf_length m conf)) \<le> unat conf + 65535"
      using assms(1) conf_length_bound [of m conf]
      by (simp add: unat_word_ariths unat_of_nat take_bit_nat_eq_self)
    then have "2 ^ 64 - unat q < 2 ^ 64 - unat p" using p q assms(1) unat_addr_bound [of p]
      by (auto simp: word_less_nat_alt unat_word_ariths)
    then show "P q" by (rule less)
  qed
qed

lemma mp_walk_returns:
  assumes "unat conf + 65555 < 2 ^ 64"
  shows "\<exists>r. mp_walk eax conf p io cs = Some r \<and> r \<noteq> Inl Blocked"
  using assms
proof (induction p arbitrary: io cs rule: walk_induct)
  case (step p)
  note ih = step [where m = "mem (snd cs)"]
  show ?case using ih [of "p + 8"] ih [of "p + 20"]
    by (subst mp_walk.simps) (auto simp: Let_def add_cores_not_blocked split: sum.splits)
qed

text \<open>
  C35. The detection of the processors ends: whatever the memory holds and whatever the processor says of
  itself, neither the search for the floating pointer nor the walk of the table runs forever.
\<close>

theorem mp_init_ends: "mp_init edx msr eax s \<noteq> Inl Blocked" for s :: "'a stage2_scheme"
proof -
  have search: "\<exists>q. mp_search (mem s) 0xF0000 0x10000 = Some q"
    unfolding mp_search_def by (rule mp_scan_returns) simp
  have "unat (ucast (w :: cint) :: addr) < 2 ^ 32" for w
    using unsigned_less [where ?'a = nat, of w] by simp
  then have "unat (ucast (w :: cint) :: addr) + 65555 < 2 ^ 64" for w
    by (rule add_strict_right_mono [THEN less_le_trans]) simp
  then have walk: "returns (mp_walk eax (ucast (w :: cint)) p io cs) \<noteq> Inl Blocked" for w p io and cs :: "addr \<times> 'a stage2_scheme"
    using mp_walk_returns [of "ucast w" eax p io cs] by (auto simp: returns_def)
  have found: "returns (map_option Inr (mp_search (mem s) 0xF0000 0x10000)) \<noteq> Inl Blocked"
    using search by (auto simp: returns_def)
  show ?thesis
    by (auto simp: mp_init_def bindr_Inl_iff Let_def found walk split: if_splits)
qed

section \<open>What is found\<close>

text \<open>The structures of the first \<open>n\<close> processors are numbered, the rest of the pool is zero.\<close>

definition numbered :: "nat \<Rightarrow> nat \<Rightarrow> cpu_info" where
  "numbered n i = (if i < n then zero_cpu\<lparr>cpuid := of_nat i, lapic_id := of_nat i\<rparr> else zero_cpu)"

definition cpus_found :: "nat \<Rightarrow> 'a stage2_scheme \<Rightarrow> bool" where
  "cpus_found n s \<longleftrightarrow> n \<le> MAX_CPUS \<and> cpu_count s = of_nat n \<and> length (cpuinfo_table s) = MAX_CPUS \<and>
    (\<forall>i<n. cpuinfo_table s ! i = Some i) \<and> (first_time s \<longleftrightarrow> n = 0) \<and>
    (0 < n \<longrightarrow> infos s = numbered n \<and> cpuinfo_pool s \<noteq> 0)"

lemma cpus_foundD:
  assumes "cpus_found n s"
  shows "n \<le> 255" "cpu_count s = of_nat n" "length (cpuinfo_table s) = 255" "i < n \<Longrightarrow> cpuinfo_table s ! i = Some i"
    "0 < n \<Longrightarrow> infos s = numbered n" "0 < n \<Longrightarrow> cpuinfo_pool s \<noteq> 0" "first_time s \<longleftrightarrow> n = 0"
  using assms by (simp_all add: cpus_found_def)

lemma numbered_Suc: "(numbered n)(n := (numbered n n)\<lparr>cpuid := of_nat n, lapic_id := of_nat n\<rparr>) = numbered (Suc n)"
  by (auto simp: fun_eq_iff numbered_def)

lemma calloc_align_more:
  "calloc_align c n a s = Inr (p, s') \<Longrightarrow> stage2.more (s' :: 'a stage2_scheme) = stage2.more s \<and>
    infos s' = infos s \<and> cpuinfo_pool s' = cpuinfo_pool s \<and> cpuinfo_table s' = cpuinfo_table s \<and>
    cpu_count s' = cpu_count s \<and> first_time s' = first_time s \<and> ioapicva s' = ioapicva s"
  by (auto simp: calloc_align_def Let_def split: if_splits)

text \<open>One more processor: the step of the loop over the cores.\<close>

definition add_core :: "addr \<Rightarrow> 'a stage2_scheme \<Rightarrow> 'a stage2_scheme res" where
  "add_core c s = bindr (add_cpu s) (\<lambda>(i, s1). Inr (upd_info i (\<lambda>x. x\<lparr>cpuid := ucast c, lapic_id := ucast c\<rparr>) s1))"

lemma add_cores_step:
  "add_cores (Suc n) (c, s) = bindr (add_core c s) (\<lambda>s'. add_cores n (c + 1, s'))"
  by (simp add: add_core_def bindr_assoc case_prod_unfold)

lemma pool_found:
  assumes "allocate_cpuinfo_pool s = Inr s'"
  shows "infos s' = (\<lambda>_. zero_cpu)" "cpuinfo_pool s' \<noteq> 0" "cpuinfo_table s' = (cpuinfo_table s)[0 := Some 0]"
    "cpu_count s' = cpu_count s" "first_time s' = first_time s"
  using assms by (auto simp: allocate_cpuinfo_pool_def dest!: calloc_align_more split: if_splits)

lemma add_core_found:
  assumes "cpus_found n s" "add_core (of_nat n) s = Inr s'"
  shows "cpus_found (Suc n) s'"
proof -
  note f = cpus_foundD [OF assms(1)]
  have u: "unat (of_nat n :: cint) = n" using f(1) by (simp add: unat_of_nat take_bit_nat_eq_self)
  have b: "ucast (of_nat n :: addr) = (of_nat n :: byte)" by transfer simp
  obtain s1 where s1: "(if n = 0 then allocate_cpuinfo_pool (s\<lparr>first_time := False\<rparr>) = Inr s1 else s1 = s)"
    "n < 255" "s' = upd_info n (\<lambda>x. x\<lparr>cpuid := of_nat n, lapic_id := of_nat n\<rparr>)
      (s1\<lparr>cpuinfo_table := (cpuinfo_table s1)[n := Some n], cpu_count := of_nat n + 1\<rparr>)"
    using assms(2) f u b
    by (cases "n = 0") (auto simp: add_core_def add_cpu_def Let_def not_le dest: pool_found(4) split: if_splits)
  show ?thesis
  proof (cases "n = 0")
    case True
    with s1 pool_found [of "s\<lparr>first_time := False\<rparr>" s1] f show ?thesis
      by (auto simp: cpus_found_def upd_info_def fun_eq_iff numbered_def)
  next
    case False
    with s1 f show ?thesis
      by (auto simp: cpus_found_def upd_info_def numbered_Suc nth_list_update less_Suc_eq)
  qed
qed

lemma add_cores_found:
  "cpus_found n s \<Longrightarrow> add_cores k (of_nat n, s) = Inr (c, s') \<Longrightarrow> c = of_nat (n + k) \<and> cpus_found (n + k) s'"
proof (induction k arbitrary: n s)
  case (Suc k)
  then obtain s1 where "add_core (of_nat n) s = Inr s1" "add_cores k (of_nat (Suc n), s1) = Inr (c, s')"
    by (auto simp: add_cores_step add.commute simp del: add_cores.simps)
  with Suc.IH [of "Suc n" s1] add_core_found [OF Suc.prems(1)] show ?case by simp
qed simp

lemma mp_walk_found:
  assumes "unat conf + 65555 < 2 ^ 64" "cpus_found n s" "mp_walk eax conf p io (of_nat n, s) = Some (Inr (io', c, s'))"
  shows "\<exists>k. c = of_nat (n + k * unat (intel_get_core_number eax)) \<and> cpus_found (n + k * unat (intel_get_core_number eax)) s'"
  using assms
proof (induction p arbitrary: n s io rule: walk_induct)
  case (step p)
  note ih = step(1) [where m = "mem s"]
  let ?c = "unat (intel_get_core_number eax)"
  consider (proc) s1 where "p < conf + of_nat (conf_length (mem s) conf)" "cpus_found (n + ?c) s1"
      "mp_walk eax conf (p + 20) io (of_nat (n + ?c), s1) = Some (Inr (io', c, s'))"
    | (other) io1 where "p < conf + of_nat (conf_length (mem s) conf)"
      "mp_walk eax conf (p + 8) io1 (of_nat n, s) = Some (Inr (io', c, s'))"
    | (ended) "c = of_nat n" "s' = s"
    using step.prems(2)
    by (subst (asm) mp_walk.simps) (auto simp: Let_def split: if_splits sum.splits dest!: add_cores_found [OF step.prems(1)])
  then show ?case
  proof cases
    case proc
    from ih [OF proc(1) _ proc(2,3)] obtain k where "c = of_nat (n + ?c + k * ?c)" "cpus_found (n + ?c + k * ?c) s'" by auto
    then show ?thesis by (intro exI [of _ "Suc k"]) (simp add: add.assoc)
  next
    case other
    from ih [OF other(1) _ step.prems(1) other(2)] show ?thesis by simp
  next
    case ended
    then show ?thesis using step.prems(1) by (intro exI [of _ 0]) simp
  qed
qed

section \<open>The whole table\<close>

text \<open>A table with entries of the types \<open>ts\<close>, in this order, from \<open>p\<close> on.\<close>

definition entry_size :: "byte \<Rightarrow> nat" where
  "entry_size t = (if t = MP_PROC then 20 else 8)"

fun entries_at :: "memory \<Rightarrow> addr \<Rightarrow> byte list \<Rightarrow> bool" where
  "entries_at m p [] \<longleftrightarrow> True"
| "entries_at m p (t # ts) \<longleftrightarrow> t \<in> {MP_PROC, MP_BUS, MP_IOAPIC, MP_IOINTR, MP_LINTR} \<and> m p = t \<and> (t = MP_IOAPIC \<longrightarrow> load32 m (p + 4) = IOAPICPA) \<and>
    entries_at m (p + of_nat (entry_size t)) ts"

definition same_below :: "nat \<Rightarrow> memory \<Rightarrow> memory \<Rightarrow> bool" where
  "same_below B m m' \<longleftrightarrow> (\<forall>x. unat x < B \<longrightarrow> m' x = m x)"

text \<open>Room for the pool above \<open>B\<close>.\<close>

definition pool_room :: "nat \<Rightarrow> 'a boot_scheme \<Rightarrow> bool" where
  "pool_room B s \<longleftrightarrow> boot_ok s \<and> B \<le> unat (boot_first_free s) \<and> unat (boot_first_free s) + 0x400000 \<le> unat (memory_size s)"

lemma same_below_refl [simp]: "same_below B m m"
  by (simp add: same_below_def)

lemma same_below_trans: "same_below B m m1 \<Longrightarrow> same_below B m1 m2 \<Longrightarrow> same_below B m m2"
  by (simp add: same_below_def)

lemma load_same_below:
  assumes "same_below B m m'" "unat a + k \<le> B" "B \<le> 2 ^ 64"
  shows "load_le k m' a = load_le k m a"
proof (rule load_cong)
  fix x assume "in_region a k x"
  then have "unat x < B" using assms(2,3) by (auto simp: in_region_nowrap)
  then show "m' x = m x" using assms(1) by (simp add: same_below_def)
qed (use assms in simp_all)

lemma pool_room_calloc:
  assumes "pool_room B s"
  shows "\<exists>p s'. calloc_align 1 SZ_2MB SZ_2MB s = Inr (p, s') \<and> p \<noteq> 0 \<and> same_below B (mem s) (mem s')"
proof -
  have r: "boot_ok s" "B \<le> unat (boot_first_free s)" "unat (boot_first_free s) + 0x400000 \<le> unat (memory_size s)"
    using assms by (simp_all add: pool_room_def)
  define a where "a = ALIGN (boot_first_free s) SZ_2MB"
  have "unat (boot_first_free s) \<le> 2 ^ 62" using r(1) by (simp add: boot_ok_def)
  from ALIGN_pow [OF this, of 21] have a: "unat (boot_first_free s) \<le> unat a" "unat a \<le> 2 ^ 62"
    "unat a < unat (boot_first_free s) + 0x200000" by (simp_all add: a_def)
  have m: "unat (memory_size s) \<le> 2 ^ 62" "0 < unat (boot_first_free s)" using r(1) by (auto simp: boot_ok_def word_gt_0 unat_gt_0)
  have sz: "unat (a + 0x200000) = unat a + 0x200000" using a(2) by (simp add: unat_word_ariths)
  then have fit: "\<not> memory_size s < a + 0x200000" using a(3) r(3) by (simp add: word_less_nat_alt)
  have big: "\<not> memory_size s \<le> 0x200000" using r(3) by (simp add: word_le_nat_alt)
  have "\<not> boot_uninit s" using m(2) by (auto simp: boot_uninit_def)
  moreover have "a \<noteq> 0" using a(1) m(2) by auto
  moreover have "same_below B (mem s) (memset a 0 0x200000 (mem s))"
    using a(1,2) r(2) by (auto simp: same_below_def memset_apply in_region_nowrap)
  ultimately show ?thesis
    using fit big by (simp add: calloc_align_def Let_def a_def [symmetric])
qed

lemma add_core_total:
  assumes "cpus_found n s" "n < 255" "n = 0 \<longrightarrow> pool_room B s"
  shows "\<exists>s'. add_core (of_nat n) s = Inr s' \<and> same_below B (mem s) (mem s')"
proof -
  note f = cpus_foundD [OF assms(1)]
  have u: "unat (of_nat n :: cint) = n" using f(1) by (simp add: unat_of_nat take_bit_nat_eq_self)
  have "\<not> 255 <s (of_nat n :: cint)" using assms(2) by (simp add: word_sless_alt sint_of_nat_cint)
  then have cpu: "\<exists>i s'. add_cpu s = Inr (i, s') \<and> mem s' = mem s1"
    if "if first_time s then allocate_cpuinfo_pool (s\<lparr>first_time := False\<rparr>) = Inr s1 else s1 = s" for s1
    using that f u assms(2) pool_found(4) [of "s\<lparr>first_time := False\<rparr>" s1]
    by (auto simp: add_cpu_def Let_def split: if_splits)
  have "\<exists>s1. (if first_time s then allocate_cpuinfo_pool (s\<lparr>first_time := False\<rparr>) = Inr s1 else s1 = s) \<and>
      same_below B (mem s) (mem s1)"
  proof (cases "n = 0")
    case True
    then have "pool_room B (s\<lparr>first_time := False\<rparr>)" using assms(3) by (simp add: pool_room_def boot_ok_def)
    from pool_room_calloc [OF this] obtain p s2 where
      "calloc_align 1 SZ_2MB SZ_2MB (s\<lparr>first_time := False\<rparr>) = Inr (p, s2)" "p \<noteq> 0" "same_below B (mem s) (mem s2)"
      by auto
    then show ?thesis using f(7) True
      by (intro exI [of _ "s2\<lparr>cpuinfo_pool := p, infos := (\<lambda>_. zero_cpu), cpuinfo_table := (cpuinfo_table s2)[0 := Some 0]\<rparr>"])
        (simp add: allocate_cpuinfo_pool_def)
  qed (use f(7) in simp)
  then obtain s1 where s1: "if first_time s then allocate_cpuinfo_pool (s\<lparr>first_time := False\<rparr>) = Inr s1 else s1 = s"
    "same_below B (mem s) (mem s1)" by blast
  from cpu [OF s1(1)] s1(2) show ?thesis by (auto simp: add_core_def upd_info_def)
qed

lemma add_cores_total:
  "cpus_found n s \<Longrightarrow> n + k \<le> 255 \<Longrightarrow> n = 0 \<longrightarrow> pool_room B s \<Longrightarrow>
   \<exists>s'. add_cores k (of_nat n, s) = Inr (of_nat (n + k), s') \<and> cpus_found (n + k) s' \<and> same_below B (mem s) (mem s')"
proof (induction k arbitrary: n s)
  case (Suc k)
  then obtain s1 where s1: "add_core (of_nat n) s = Inr s1" "same_below B (mem s) (mem s1)"
    using add_core_total [of n s B] by auto
  have "\<exists>s'. add_cores k (of_nat (Suc n), s1) = Inr (of_nat (Suc n + k), s') \<and> cpus_found (Suc n + k) s' \<and>
      same_below B (mem s1) (mem s')"
    using Suc.prems(2) by (intro Suc.IH add_core_found [OF Suc.prems(1) s1(1)]) auto
  with s1 show ?case by (auto simp: add_cores_step add.commute simp del: add_cores.simps intro: same_below_trans)
qed simp

lemma entries_same_below:
  assumes "same_below B m m'" "B \<le> 2 ^ 64"
  shows "unat p + sum_list (map entry_size ts) \<le> B \<Longrightarrow> entries_at m p ts \<Longrightarrow> entries_at m' p ts"
proof (induction ts arbitrary: p)
  case (Cons t ts)
  have e: "8 \<le> entry_size t" by (simp add: entry_size_def)
  have "m' p = m p" using assms(1) Cons.prems(1) e by (auto simp: same_below_def)
  moreover have "load32 m' (p + 4) = load32 m (p + 4)"
    using Cons.prems(1) e assms(2) by (intro load_same_below [OF assms(1)]) (auto simp: unat_word_ariths)
  moreover have "unat (p + of_nat (entry_size t)) + sum_list (map entry_size ts) \<le> B"
    using Cons.prems(1) assms(2)
    by (simp add: unat_word_ariths unat_of_nat take_bit_nat_eq_self)
  ultimately show ?case using Cons by simp
qed simp

text \<open>The number of processors a table stands for.\<close>

definition procs :: "byte list \<Rightarrow> nat" where
  "procs ts = length (filter (\<lambda>t. t = MP_PROC) ts)"

lemma core_number_pos: "0 < unat (intel_get_core_number eax)"
proof -
  have "unat (drop_bit 26 eax) < 2 ^ 6"
    using unsigned_less [where ?'a = nat, of eax] by (simp add: drop_bit_eq_div unat_div less_mult_imp_div_less)
  then show ?thesis by (simp add: intel_get_core_number_def unat_word_ariths)
qed

lemma entry_step:
  assumes "unat conf + 65555 < 2 ^ 64" "conf_length m conf = len" "unat p + sum_list (map entry_size (t # ts)) = unat conf + len"
  shows "p < conf + of_nat (conf_length m conf)" "unat p + entry_size t \<le> unat conf + len"
    "unat (p + of_nat (entry_size t)) + sum_list (map entry_size ts) = unat conf + len"
proof -
  have "len < 2 ^ 16" using assms(2) conf_length_bound [of m conf] by simp
  moreover have "8 \<le> entry_size t" "entry_size t \<le> 20" by (simp_all add: entry_size_def)
  ultimately show "p < conf + of_nat (conf_length m conf)" "unat p + entry_size t \<le> unat conf + len"
    "unat (p + of_nat (entry_size t)) + sum_list (map entry_size ts) = unat conf + len"
    using assms by (simp_all add: word_less_nat_alt unat_word_ariths unat_of_nat take_bit_nat_eq_self)
qed

lemma mp_walk_entries:
  assumes conf: "unat conf + 65555 < 2 ^ 64" "unat conf + len \<le> B" "B \<le> 2 ^ 64" "6 \<le> len"
  shows "cpus_found n s \<Longrightarrow> n + procs ts * unat (intel_get_core_number eax) \<le> 255 \<Longrightarrow>
    n = 0 \<longrightarrow> pool_room B s \<Longrightarrow> conf_length (mem s) conf = len \<Longrightarrow> entries_at (mem s) p ts \<Longrightarrow>
    unat p + sum_list (map entry_size ts) = unat conf + len \<Longrightarrow>
    \<exists>io' s'. mp_walk eax conf p io (of_nat n, s) =
        Some (Inr (io', of_nat (n + procs ts * unat (intel_get_core_number eax)), s')) \<and>
      cpus_found (n + procs ts * unat (intel_get_core_number eax)) s' \<and> same_below B (mem s) (mem s') \<and>
      (io' = io \<or> (\<exists>q. io' = Some q \<and> unat q + 8 \<le> B \<and> load32 (mem s) (q + 4) = IOAPICPA))"
proof (induction ts arbitrary: n s p io)
  case Nil
  have "conf_length (mem s) conf < 2 ^ 16" by (rule conf_length_bound)
  then have "\<not> p < conf + of_nat (conf_length (mem s) conf)"
    using Nil conf by (simp add: word_less_nat_alt unat_word_ariths unat_of_nat take_bit_nat_eq_self)
  then show ?case using Nil by (subst mp_walk.simps) (simp add: Let_def procs_def)
next
  case (Cons t ts)
  let ?c = "unat (intel_get_core_number eax)"
  note step = entry_step [OF conf(1) Cons.prems(4,6)]
  have lt: "p < conf + of_nat (conf_length (mem s) conf)"
    and nxt: "unat (p + of_nat (entry_size t)) + sum_list (map entry_size ts) = unat conf + len"
    using step by simp_all
  have t: "mem s p = t" "t \<in> {0, 1, 2, 3, 4}" "t = 2 \<longrightarrow> load32 (mem s) (p + 4) = IOAPICPA"
    "entries_at (mem s) (p + of_nat (entry_size t)) ts"
    using Cons.prems(5) by auto
  show ?case
  proof (cases "t = 0")
    case True
    have c: "procs (t # ts) = Suc (procs ts)" "entry_size t = 20" using True by (simp_all add: procs_def entry_size_def)
    obtain s1 where s1: "add_cores ?c (of_nat n, s) = Inr (of_nat (n + ?c), s1)" "cpus_found (n + ?c) s1"
      "same_below B (mem s) (mem s1)"
      using add_cores_total [OF Cons.prems(1), of ?c B] Cons.prems(2,3) c by auto
    have cl: "conf_length (mem s1) conf = len"
      unfolding conf_length_def using Cons.prems(4) conf
      by (subst load_same_below [OF s1(3)]) (auto simp: conf_length_def unat_word_ariths)
    have en: "entries_at (mem s1) (p + of_nat (entry_size t)) ts"
      using entries_same_below [OF s1(3) conf(3) _ t(4)] nxt conf(2) by simp
    have "\<exists>io' s'. mp_walk eax conf (p + of_nat (entry_size t)) io (of_nat (n + ?c), s1) =
        Some (Inr (io', of_nat (n + ?c + procs ts * ?c), s')) \<and>
      cpus_found (n + ?c + procs ts * ?c) s' \<and> same_below B (mem s1) (mem s') \<and>
      (io' = io \<or> (\<exists>q. io' = Some q \<and> unat q + 8 \<le> B \<and> load32 (mem s1) (q + 4) = IOAPICPA))"
      using Cons.prems(2) c core_number_pos [of eax] by (intro Cons.IH s1(2) cl en nxt) auto
    then obtain io' s' where ih: "mp_walk eax conf (p + 20) io (of_nat (n + ?c), s1) =
        Some (Inr (io', of_nat (n + ?c + procs ts * ?c), s'))"
      "cpus_found (n + ?c + procs ts * ?c) s'" "same_below B (mem s1) (mem s')"
      "io' = io \<or> (\<exists>q. io' = Some q \<and> unat q + 8 \<le> B \<and> load32 (mem s1) (q + 4) = IOAPICPA)"
      unfolding c(2) by auto
    have q: "load32 (mem s1) (q + 4) = load32 (mem s) (q + 4)" if "unat q + 8 \<le> B" for q
      using that conf(3) by (intro load_same_below [OF s1(3)]) (auto simp: unat_word_ariths)
    have "mp_walk eax conf p io (of_nat n, s) = mp_walk eax conf (p + 20) io (of_nat (n + ?c), s1)"
      using lt t(1) True s1(1) by (subst mp_walk.simps) (simp add: Let_def)
    with ih q show ?thesis
      unfolding c(1) mult_Suc add.assoc by (auto intro: same_below_trans [OF s1(3)])
  next
    case False
    then have c: "procs (t # ts) = procs ts" "entry_size t = 8" by (simp_all add: procs_def entry_size_def)
    let ?io = "if t = 2 then Some p else io"
    have w: "mp_walk eax conf p io (of_nat n, s) = mp_walk eax conf (p + 8) ?io (of_nat n, s)"
      using lt t False by (subst mp_walk.simps) (auto simp: Let_def)
    from t(4) nxt Cons.IH [OF Cons.prems(1) _ Cons.prems(3,4), of "p + 8" ?io] Cons.prems(2)
    obtain io' s' where "mp_walk eax conf (p + 8) ?io (of_nat n, s) = Some (Inr (io', of_nat (n + procs ts * ?c), s'))"
      "cpus_found (n + procs ts * ?c) s'" "same_below B (mem s) (mem s')"
      "io' = ?io \<or> (\<exists>q. io' = Some q \<and> unat q + 8 \<le> B \<and> load32 (mem s) (q + 4) = IOAPICPA)"
      unfolding c by auto
    moreover have "unat p + 8 \<le> B" using step(2) conf(2) unfolding c by simp
    ultimately show ?thesis unfolding c w using t(3) by (auto split: if_splits)
  qed
qed

text \<open>
  C36. The search for the floating pointer structure is the search of a list: the first of the addresses
  \<open>pa\<close>, \<open>pa + 16\<close>, \<open>pa + 32\<close>, ... below \<open>pa + len\<close> with the signature and a checksum of zero, and 0 if there is
  none.
\<close>

theorem mp_search_first:
  assumes "len < 0x80000000" "unat pa + unat len + 32 \<le> 2 ^ 64"
  shows "mp_search m pa len =
    Some (case find (mp_fptr_at m) (map (\<lambda>k. pa + of_nat (16 * k)) [0..<(unat len + 15) div 16]) of
      None \<Rightarrow> 0 | Some q \<Rightarrow> q)"
proof -
  define n where "n = (unat len + 15) div 16"
  have n: "16 * n < unat len + 16" "unat len \<le> 16 * n" unfolding n_def by presburger+
  have "unat len < 2 ^ 31" using assms(1) by (simp add: word_less_nat_alt)
  then have "scast len = (of_nat (unat len) :: addr)" using scast_of_nat_cint [of "unat len"] by simp
  then have e: "unat (pa + scast len) = unat pa + unat len"
    using assms(2) \<open>unat len < 2 ^ 31\<close> by (simp add: unat_word_ariths unat_of_nat take_bit_nat_eq_self)
  show ?thesis unfolding mp_search_def n_def [symmetric]
    using n assms(2) e by (intro mp_scan_first) linarith+
qed

text \<open>
  C34. The processors that \<open>mp_init\<close> registers.  For a table with the right signature, checksum and version,
  whose entries fill it and which lies below the free memory, \<open>mp_init\<close> succeeds.  It has then registered as
  many processors as the processor has cores, once for every processor entry, numbered from 0 in the order in
  which they lie in the pool.
\<close>

theorem mp_init_counts:
  assumes "bit edx 9" "bit msr 11" "mp_search (mem s) 0xF0000 0x10000 = Some mp" "mp \<noteq> 0"
    "mem s (mp + 11) = 0" "mem s (mp + 12) AND 0x80 = 0" "load32 (mem s) (mp + 4) = conf" "conf \<noteq> 0"
    and conf: "mp_conf_at (mem s) (ucast conf)" "entries_at (mem s) (ucast conf + 44) ts"
      "conf_length (mem s) (ucast conf) = 44 + sum_list (map entry_size ts)"
    and n: "n = procs ts * unat (intel_get_core_number eax)" "MIN_CPUS \<le> n" "n \<le> MAX_CPUS"
    and s: "cpus_found 0 s" "pool_room (unat conf + conf_length (mem s) (ucast conf)) s"
  shows "\<exists>s'. mp_init edx msr eax s = Inr s' \<and> get_ncpus s' = of_nat n \<and> ioapicva s' = IOAPICPA \<and> cpuinfo_pool s' \<noteq> 0 \<and>
    (\<forall>i<n. boot_cpu_info (of_nat i) s' = Inr (Some i) \<and> cpuid (infos s' i) = of_nat i \<and> lapic_id (infos s' i) = of_nat i)"
proof -
  define B where "B = unat conf + conf_length (mem s) (ucast conf)"
  have u: "unat (ucast conf :: addr) = unat conf" "unat conf < 2 ^ 32"
    using unsigned_less [where ?'a = nat, of conf] by simp_all
  have "B \<le> 2 ^ 64" using u(2) conf_length_bound [of "mem s" "ucast conf"] by (simp add: B_def)
  moreover have "unat (ucast conf + 44 :: addr) = unat conf + 44" using u by (simp add: unat_word_ariths)
  ultimately obtain io s1 where s1: "mp_walk eax (ucast conf) (ucast conf + 44) None (of_nat 0, s) = Some (Inr (io, of_nat n, s1))"
    "cpus_found n s1" "same_below B (mem s) (mem s1)"
    "io = None \<or> (\<exists>q. io = Some q \<and> unat q + 8 \<le> B \<and> load32 (mem s) (q + 4) = IOAPICPA)"
    using mp_walk_entries [of "ucast conf" "conf_length (mem s) (ucast conf)" B 0 s ts eax "ucast conf + 44" None] conf n s u
    by (auto simp: B_def)
  have "load32 (mem s1) (q + 4) = load32 (mem s) (q + 4)" if "unat q + 8 \<le> B" for q
    using that \<open>B \<le> 2 ^ 64\<close> by (intro load_same_below [OF s1(3)]) (auto simp: unat_word_ariths)
  then have io: "(case io of None \<Rightarrow> IOAPICPA | Some q \<Rightarrow> ucast (load32 (mem s1) (q + 4))) = (IOAPICPA :: addr)"
    using s1(4) by auto
  note f = cpus_foundD [OF s1(2)]
  have small: "unat (of_nat n :: addr) = n" using n(3) by (simp add: unat_of_nat take_bit_nat_eq_self)
  have "scast (of_nat n :: cint) = (of_nat n :: addr)" using n(3) by (simp add: scast_of_nat_cint)
  then have "mp_init edx msr eax s = Inr (s1\<lparr>ioapicva := IOAPICPA\<rparr>)"
    using assms(1-8) conf(1) s1(1) f(2) io n(2) small by (simp add: mp_init_def returns_def get_ncpus_def Let_def word_less_nat_alt)
  moreover have "boot_cpu_info (of_nat i) (s1\<lparr>ioapicva := IOAPICPA\<rparr>) = Inr (Some i)" if "i < n" for i
    using that f(1,4) by (simp add: boot_cpu_info_def word_less_nat_alt word_unat_eq_iff unat_of_nat take_bit_nat_eq_self)
  ultimately show ?thesis using f n(2) by (simp add: get_ncpus_def numbered_def)
qed

text \<open>A machine with one processor of four cores and one I/O APIC.\<close>

definition demo_fptr :: "byte list" where
  "demo_fptr = chars ''_MP_'' @ [0, 0xFC, 9, 0, 1, 4, 0x9B, 0, 0, 0, 0, 0]"

definition demo_conf :: "byte list" where
  "demo_conf = chars ''PCMP'' @ [72, 0, 4, 0xC4] @ replicate 36 0 @ replicate 20 0 @ [2, 0, 0, 0, 0, 0, 0xC0, 0xFE]"

definition demo_stage2 :: stage2 where
  "demo_stage2 = \<lparr>mem = put_bytes (put_bytes (\<lambda>_. 0) 0xF0000 demo_fptr) 0x9FC00 demo_conf,
     memory_size = 0x2000000, boot_first_free = 0x400000, infos = (\<lambda>_. zero_cpu), cpuinfo_pool = 0,
     cpuinfo_table = replicate 255 None, cpu_count = 0, first_time = True, ioapicva = 0\<rparr>"

lemma sum_loop_bytes: "bytes_at m a bs \<Longrightarrow> sum_loop (length bs) acc a m = acc + sum_list bs"
  by (induction bs arbitrary: a acc) (simp_all add: add.assoc)

lemma demo_sums:
  "length demo_fptr = 16" "length demo_conf = 72" "sum_list demo_fptr = 0" "sum_list demo_conf = 0"
  by code_simp+

lemma demo_stage2_bytes:
  "bytes_at (mem demo_stage2) 0xF0000 demo_fptr" "bytes_at (mem demo_stage2) 0x9FC00 demo_conf"
proof -
  note l = demo_sums
  show "bytes_at (mem demo_stage2) 0x9FC00 demo_conf"
    unfolding demo_stage2_def by (simp add: bytes_at_put_bytes l)
  have "bytes_at (mem demo_stage2) 0xF0000 demo_fptr = bytes_at (put_bytes (\<lambda>_. 0) 0xF0000 demo_fptr) 0xF0000 demo_fptr"
    unfolding demo_stage2_def by (intro bytes_at_cong) (auto simp: put_bytes_outside l in_region_nowrap)
  then show "bytes_at (mem demo_stage2) 0xF0000 demo_fptr" by (simp add: bytes_at_put_bytes l)
qed

lemma load_le_unroll:
  "load_le 2 m a = ucast (m a) OR push_bit 8 (ucast (m (a + 1)))"
  "load_le 4 m a = ucast (m a) OR push_bit 8 (ucast (m (a + 1)) OR push_bit 8 (ucast (m (a + 2)) OR push_bit 8 (ucast (m (a + 3)))))"
  by (simp_all add: numeral_eq_Suc add.assoc)

lemma demo_stage2_values:
  "mp_fptr_at (mem demo_stage2) 0xF0000" "mp_conf_at (mem demo_stage2) 0x9FC00"
  "load32 (mem demo_stage2) 0xF0004 = 0x9FC00" "mem demo_stage2 0xF000B = 0" "mem demo_stage2 0xF000C = 0"
  "conf_length (mem demo_stage2) 0x9FC00 = 72" "entries_at (mem demo_stage2) 0x9FC2C [0, 2]"
proof -
  note f = demo_stage2_bytes(1) and c = demo_stage2_bytes(2)
  have s: "sum_bytes 0xF0000 16 (mem demo_stage2) = 0" "sum_bytes 0x9FC00 72 (mem demo_stage2) = 0"
    using sum_loop_bytes [OF f, of 0] sum_loop_bytes [OF c, of 0] demo_sums
    by (simp_all add: sum_bytes_def)
  have cf: "mem demo_stage2 (0x9FC00 + of_nat i) = demo_conf ! i" if "i < 72" for i
    using c that demo_sums(2) by (simp add: bytes_at_nth)
  have v: "mem demo_stage2 0x9FC04 = 72" "mem demo_stage2 0x9FC05 = 0" "mem demo_stage2 0x9FC06 = 4"
    "mem demo_stage2 0x9FC2C = 0" "mem demo_stage2 0x9FC40 = 2" "mem demo_stage2 0x9FC44 = 0"
    "mem demo_stage2 0x9FC45 = 0" "mem demo_stage2 0x9FC46 = 0xC0" "mem demo_stage2 0x9FC47 = 0xFE"
    using cf [of 4] cf [of 5] cf [of 6] cf [of 44] cf [of 64] cf [of 68] cf [of 69] cf [of 70] cf [of 71]
    by (simp_all add: demo_conf_def chars_def nth_append nth_Cons')
  show l: "conf_length (mem demo_stage2) 0x9FC00 = 72"
    using v by (simp add: conf_length_def load_le_unroll)
  show "mp_fptr_at (mem demo_stage2) 0xF0000" using f s(1)
    by (simp add: mp_fptr_at_def demo_fptr_def bytes_at_append)
  show "mp_conf_at (mem demo_stage2) 0x9FC00" using c s(2) l v(3)
    by (simp add: mp_conf_at_def demo_conf_def bytes_at_append)
  show "load32 (mem demo_stage2) 0xF0004 = 0x9FC00" "mem demo_stage2 0xF000B = 0" "mem demo_stage2 0xF000C = 0"
    using f by (simp_all add: demo_fptr_def chars_def load_le_unroll)
  show "entries_at (mem demo_stage2) 0x9FC2C [0, 2]"
    using v by (simp add: entry_size_def load_le_unroll)
qed

theorem mp_search_first_witness: "mp_search (mem demo_stage2) 0xF0000 0x10000 = Some 0xF0000"
proof -
  have n: "(unat (0x10000 :: cint) + 15) div 16 = Suc 4095" by simp
  have "find (mp_fptr_at (mem demo_stage2)) (map (\<lambda>k. 0xF0000 + of_nat (16 * k)) [0..<Suc 4095]) = Some 0xF0000"
    unfolding upt_conv_Cons [OF zero_less_Suc] list.map find.simps using demo_stage2_values(1) by simp
  then show ?thesis
    using mp_search_first [of "0x10000" "0xF0000" "mem demo_stage2"] unfolding n by (simp del: upt_Suc upt_rec_numeral)
qed

lemma demo_search: "mp_search (mem demo_stage2) 0xF0000 0x10000 = Some 0xF0000"
  using demo_stage2_values(1) by (simp add: mp_search_def mp_scan.simps [of _ "0xF0000"])

theorem mp_init_counts_witness:
  "\<exists>s'. mp_init 0x200 0x800 0x0C000000 demo_stage2 = Inr s' \<and> get_ncpus s' = 4 \<and>
    boot_cpu_info 3 s' = Inr (Some 3) \<and> cpuid (infos s' 3) = 3"
proof -
  have "ucast (0x9FC00 :: cint) = (0x9FC00 :: addr)" by simp
  have 1: "cpus_found 0 demo_stage2" "pool_room (unat (0x9FC00 :: cint) + conf_length (mem demo_stage2) (ucast (0x9FC00 :: cint))) demo_stage2"
    using demo_stage2_values(6) by (simp_all add: cpus_found_def pool_room_def boot_ok_def demo_stage2_def)
  have 2: "4 = procs [0, 2] * unat (intel_get_core_number 0x0C000000)"
    by (simp add: procs_def intel_get_core_number_def drop_bit_eq_div)
  have "bit (0x200 :: cint) 9" "bit (0x800 :: addr) 11" by simp_all
  from mp_init_counts [OF this demo_search _ _ _ _ _ _ _ _ 2 _ _ 1] demo_stage2_values obtain s' where
    "mp_init 0x200 0x800 0x0C000000 demo_stage2 = Inr s'" "get_ncpus s' = of_nat 4"
    "\<forall>i<4. boot_cpu_info (of_nat i) s' = Inr (Some i) \<and> cpuid (infos s' i) = of_nat i \<and> lapic_id (infos s' i) = of_nat i"
    by (auto simp: entry_size_def)
  moreover from this(3) [rule_format, of 3] have "boot_cpu_info 3 s' = Inr (Some 3)" "cpuid (infos s' 3) = 3" by simp_all
  ultimately show ?thesis by (intro exI [of _ s']) simp
qed

end
