(* ===== verification/Threads.thy ===== *)
theory Threads
  imports Cpu_Types
begin

text \<open>
  Threads inside a program: \<open>src/lib/thread/thread.c\<close>.  The threads form a list linked through memory;
  a \<open>thread_t\<close> at \<open>t\<close> has the address of its saved registers at \<open>t\<close> and the next thread at \<open>t + 8\<close>.
  The timer interrupt saves the registers of the running thread in a frame of 216 bytes on its stack
  and calls \<open>thread_switch_handler\<close>, which asks the scheduler for the next thread and restores the
  registers of that one.

  The variable \<open>scheduler\<close> is \<open>None\<close> for the default scheduler and the address of a routine otherwise;
  \<open>user\<close> says what the routines of the program do.  The interrupt controller and the timer are not
  part of the state.
\<close>

section \<open>Definitions\<close>

record threads = machine +
  head :: addr
  last_thread :: addr
  current :: addr
  scheduler :: "addr option"

definition nxt :: "memory \<Rightarrow> addr \<Rightarrow> addr" where
  "nxt m t = load64 m (t + 8)"

definition default_scheduler :: "'a threads_scheme \<Rightarrow> addr \<times> 'a threads_scheme" where
  "default_scheduler s =
    (let n = (if nxt (mem s) (current s) \<noteq> 0 then nxt (mem s) (current s) else head s) in (n, s\<lparr>current := n\<rparr>))"

text \<open>
  The registers from the frame at \<open>p\<close>.  The address to continue at is pushed on the stack of the thread
  for the final \<open>ret\<close>; \<open>rax\<close>, \<open>rbx\<close> and \<open>rdi\<close> are loaded after that.
\<close>

definition switch_to :: "addr \<Rightarrow> regs \<Rightarrow> memory \<Rightarrow> regs \<times> memory" where
  "switch_to p r m =
    (let rsp = load64 m (p + 200); m' = store64 m (rsp - 8) (load64 m (p + 176)) in
     (r\<lparr>r_rflags := load64 m (p + 192), r_rcx := load64 m (p + 24), r_rdx := load64 m (p + 16),
        r_rsi := load64 m (p + 8), r_r8 := load64 m (p + 32), r_r9 := load64 m (p + 40),
        r_r10 := load64 m (p + 72), r_r11 := load64 m (p + 80), r_r12 := load64 m (p + 88),
        r_r13 := load64 m (p + 96), r_r14 := load64 m (p + 104), r_r15 := load64 m (p + 112),
        r_rsp := rsp, r_rbp := load64 m (p + 64), r_rax := load64 m' (p + 48), r_rbx := load64 m' (p + 56),
        r_rdi := load64 m' p, r_rip := load64 m' (rsp - 8)\<rparr>, m'))"

text \<open>\<open>None\<close>: the handler returns and the interrupted thread goes on.\<close>

definition thread_switch_handler ::
    "(addr \<Rightarrow> 'a threads_scheme \<Rightarrow> addr \<times> 'a threads_scheme) \<Rightarrow> addr \<Rightarrow> regs \<Rightarrow> 'a threads_scheme \<Rightarrow>
      regs option \<times> 'a threads_scheme" where
  "thread_switch_handler user current_regs r s =
    (if head s = last_thread s then (None, s)
     else
       (let s1 = s\<lparr>mem := store64 (mem s) (current s) current_regs\<rparr>;
            (n, s2) = (case scheduler s1 of None \<Rightarrow> default_scheduler s1 | Some f \<Rightarrow> user f s1);
            s3 = s2\<lparr>current := n\<rparr>;
            (r', m') = switch_to (load64 (mem s3) n) r (mem s3)
        in (Some r', s3\<lparr>mem := m'\<rparr>)))"

definition thread_create :: "addr \<Rightarrow> addr \<Rightarrow> addr \<Rightarrow> addr \<Rightarrow> 'a threads_scheme \<Rightarrow> 'a threads_scheme res" where
  "thread_create thread routine stack stack_size s =
    (if head s = 0 \<or> last_thread s = 0 then Inl (Panic ''thread linrary is not initialized yet'')
     else
       (let rsp = stack + stack_size; p = rsp - 216;
            m1 = store64 (mem s) thread p;
            m2 = store64 m1 (p + 176) routine;
            m3 = store64 m2 (p + 200) rsp;
            m4 = store64 m3 (p + 64) (load64 m3 (p + 200));
            m5 = store64 m4 (p + 192) (2 OR 0x200);
            m6 = store64 m5 (thread + 8) 0
        in Inr (s\<lparr>mem := store64 m6 (last_thread s + 8) thread, last_thread := thread\<rparr>)))"

definition thread_set_scheduler :: "addr \<Rightarrow> 'a threads_scheme \<Rightarrow> 'a threads_scheme res" where
  "thread_set_scheduler new_scheduler s =
    (if head s = 0 \<or> last_thread s = 0 then Inl (Panic ''thread linrary is not initialized yet'')
     else Inr (s\<lparr>scheduler := Some new_scheduler\<rparr>))"

text \<open>\<open>main_thread\<close> is the address of the variable.\<close>

definition thread_init :: "addr \<Rightarrow> 'a threads_scheme \<Rightarrow> 'a threads_scheme" where
  "thread_init main_thread s =
    s\<lparr>mem := store64 (mem s) (main_thread + 8) 0, scheduler := None, current := main_thread,
      head := main_thread, last_thread := main_thread\<rparr>"

section \<open>The list of threads\<close>

fun chain :: "memory \<Rightarrow> addr list \<Rightarrow> bool" where
  "chain m [] = True"
| "chain m [t] = (nxt m t = 0)"
| "chain m (t # u # ts) = (nxt m t = u \<and> chain m (u # ts))"

definition thread_list :: "'a threads_scheme \<Rightarrow> addr list \<Rightarrow> bool" where
  "thread_list s ts \<longleftrightarrow> ts \<noteq> [] \<and> head s = hd ts \<and> last_thread s = last ts \<and> chain (mem s) ts \<and>
    0 \<notin> set ts \<and> distinct ts \<and> current s \<in> set ts \<and>
    (\<forall>t \<in> set ts. \<forall>u \<in> set ts. t \<noteq> u \<longrightarrow> disjoint_regions t 16 u 16)"

lemma nxt_cong: "(\<And>x. in_region t 16 x \<Longrightarrow> m x = m' x) \<Longrightarrow> nxt m t = nxt m' t"
  unfolding nxt_def by (rule load_cong) (auto dest: in_region_sub [of t 8 8 _ 16])

lemma chain_cong: "(\<And>t. t \<in> set ts \<Longrightarrow> nxt m t = nxt m' t) \<Longrightarrow> chain m ts = chain m' ts"
  by (induction ts rule: induct_list012) auto

lemma chain_nth: "chain m ts \<Longrightarrow> j < length ts \<Longrightarrow> nxt m (ts ! j) = (if Suc j < length ts then ts ! Suc j else 0)"
  by (induction ts arbitrary: j rule: induct_list012) (auto simp: nth_Cons split: nat.splits)

lemma chain_snoc:
  "chain m ts \<Longrightarrow> ts \<noteq> [] \<Longrightarrow> (\<And>t. t \<in> set (butlast ts) \<Longrightarrow> nxt m' t = nxt m t) \<Longrightarrow> nxt m' (last ts) = u \<Longrightarrow>
    nxt m' u = 0 \<Longrightarrow> chain m' (ts @ [u])"
  by (induction ts rule: induct_list012) auto

lemma thread_init_list: "main_thread \<noteq> 0 \<Longrightarrow> thread_list (thread_init main_thread s) [main_thread]"
  by (simp add: thread_list_def thread_init_def nxt_def load_store_same)

section \<open>Suspended threads\<close>

text \<open>The registers that a frame holds; those that no frame holds stay as they are.\<close>

definition frame_regs :: "regs \<Rightarrow> memory \<Rightarrow> addr \<Rightarrow> regs" where
  "frame_regs r m p =
     r\<lparr>r_rax := load64 m (p + 48), r_rbx := load64 m (p + 56), r_rcx := load64 m (p + 24), r_rdx := load64 m (p + 16),
       r_rsi := load64 m (p + 8), r_rdi := load64 m p, r_rsp := load64 m (p + 200), r_rbp := load64 m (p + 64),
       r_rip := load64 m (p + 176), r_rflags := load64 m (p + 192), r_r8 := load64 m (p + 32),
       r_r9 := load64 m (p + 40), r_r10 := load64 m (p + 72), r_r11 := load64 m (p + 80), r_r12 := load64 m (p + 88),
       r_r13 := load64 m (p + 96), r_r14 := load64 m (p + 104), r_r15 := load64 m (p + 112)\<rparr>"

text \<open>Where the handler pushes the address to continue at.\<close>

definition slot :: "memory \<Rightarrow> addr \<Rightarrow> addr" where
  "slot m p = load64 m (p + 200) - 8"

text \<open>
  The frames of the threads do not overlap the list, and what is pushed for one thread hits neither the
  list nor the frame of another, and of its own frame at most the last field.
\<close>

definition all_parked :: "memory \<Rightarrow> addr list \<Rightarrow> bool" where
  "all_parked m ts \<longleftrightarrow> (\<forall>t \<in> set ts.
     disjoint_regions (slot m (load64 m t)) 8 (load64 m t) 208 \<and>
     (\<forall>u \<in> set ts. disjoint_regions (slot m (load64 m t)) 8 u 16 \<and> disjoint_regions (load64 m t) 216 u 16 \<and>
       (u \<noteq> t \<longrightarrow> disjoint_regions (slot m (load64 m t)) 8 (load64 m u) 216)))"

text \<open>
  \<open>w\<close> is what the running thread does to memory before it is interrupted with its registers at \<open>p\<close>: it
  keeps off the list and the frames of the others.
\<close>

definition obeys :: "addr list \<Rightarrow> (memory \<Rightarrow> memory) \<Rightarrow> addr \<Rightarrow> 'a threads_scheme \<Rightarrow> bool" where
  "obeys ts w p s \<longleftrightarrow>
    (\<forall>t \<in> set ts. \<forall>x. in_region t 16 x \<longrightarrow> w (mem s) x = mem s x) \<and>
    (\<forall>t \<in> set ts - {current s}. \<forall>x. in_region (load64 (mem s) t) 216 x \<longrightarrow> w (mem s) x = mem s x) \<and>
    all_parked (store64 (w (mem s)) (current s) p) ts"

lemma frame_field:
  assumes "unat off + 8 \<le> k" "\<And>x. in_region p k x \<Longrightarrow> m x = m' x"
  shows "load64 m (p + off) = load64 m' (p + off)"
  by (rule load_cong) (use assms in_region_sub [of p off 8 _ k] in auto)

lemma frame_regs_cong:
  assumes "\<And>x. in_region p 216 x \<Longrightarrow> m x = m' x"
  shows "frame_regs r m p = frame_regs r m' p"
  using frame_field [of 0 216 p m m'] by (simp add: frame_regs_def frame_field [of _ 216 p m m'] assms)

lemma switch_to_frame:
  assumes "disjoint_regions (slot m p) 8 p 208"
  shows "switch_to p r m = (frame_regs r m p, store64 m (slot m p) (load64 m (p + 176)))"
proof -
  let ?m' = "store64 m (slot m p) (load64 m (p + 176))"
  have "?m' x = m x" if "in_region p 208 x" for x
    using that assms by (auto simp: store_le_apply dest: disjoint_regionsD)
  then have "load64 ?m' (p + 48) = load64 m (p + 48)" "load64 ?m' (p + 56) = load64 m (p + 56)"
    "load64 ?m' (p + 0) = load64 m (p + 0)" by (intro frame_field [of _ 208]; simp)+
  then show ?thesis
    by (simp add: switch_to_def frame_regs_def slot_def Let_def load_store_same)
qed

lemma cell_load: "(\<And>x. in_region t 16 x \<Longrightarrow> m x = m' x) \<Longrightarrow> load64 m t = load64 m' t"
  using frame_field [of 0 16 t m m'] by simp

lemma parkedD:
  assumes "all_parked m ts" "t \<in> set ts" "u \<in> set ts"
  shows "disjoint_regions (slot m (load64 m t)) 8 (load64 m t) 208"
    "in_region u 16 x \<Longrightarrow> \<not> in_region (slot m (load64 m t)) 8 x"
    "in_region (load64 m t) 216 x \<Longrightarrow> \<not> in_region u 16 x"
    "u \<noteq> t \<Longrightarrow> in_region (load64 m u) 216 x \<Longrightarrow> \<not> in_region (slot m (load64 m t)) 8 x"
  using assms unfolding all_parked_def disjoint_regions_def by blast+

lemma cell_store:
  assumes "thread_list s ts" "t \<in> set ts" "c \<in> set ts"
  shows "nxt (store64 m c v) t = nxt m t" "load64 (store64 m c v) t = (if t = c then v else load64 m t)"
proof -
  have o: "store64 m c v x = m x" if "t \<noteq> c" "in_region t 16 x" for x
    using that assms by (intro store_le_outside0 [of c 16]) (auto simp: thread_list_def dest: disjoint_regionsD)
  show "nxt (store64 m c v) t = nxt m t"
    using o nxt_cong [of t "store64 m c v" m] by (cases "t = c") (simp_all add: nxt_def layout_simps)
  show "load64 (store64 m c v) t = (if t = c then v else load64 m t)"
    using o cell_load [of t "store64 m c v" m] by (simp add: load_store_same)
qed

text \<open>The list and the frames in memory after a switch.\<close>

lemma switch_memory:
  assumes l: "thread_list s ts" and ob: "obeys ts w p s" and n: "n \<in> set ts" "n \<noteq> current s"
    and m2: "m2 = store64 (w (mem s)) (current s) p" and m3: "m3 = store64 m2 (slot m2 (load64 m2 n)) v"
  shows "load64 m2 n = load64 (mem s) n" "frame_regs r m2 (load64 m2 n) = frame_regs r (w (mem s)) (load64 (mem s) n)"
    "\<And>t. t \<in> set ts \<Longrightarrow> nxt m2 t = nxt (mem s) t" "\<And>t. t \<in> set ts \<Longrightarrow> nxt m3 t = nxt (mem s) t"
    "\<And>t. t \<in> set ts \<Longrightarrow> load64 m3 t = (if t = current s then p else load64 (mem s) t)"
    "\<And>t x. t \<in> set ts \<Longrightarrow> t \<noteq> n \<Longrightarrow> in_region (load64 m3 t) 216 x \<Longrightarrow> m3 x = w (mem s) x"
proof -
  have c: "current s \<in> set ts" and pk: "all_parked m2 ts"
    using l ob by (simp_all add: thread_list_def obeys_def m2)
  have w: "w (mem s) x = mem s x" if "t \<in> set ts" "in_region t 16 x" for t x using ob that by (auto simp: obeys_def)
  have o2: "m2 x = w (mem s) x" if "\<not> in_region (current s) 16 x" for x
    using that by (simp add: m2 store_le_outside0)
  have o3: "m3 x = m2 x" if "\<not> in_region (slot m2 (load64 m2 n)) 8 x" for x
    using that by (simp add: m3 store_le_apply)
  have x2: "nxt m2 t = nxt (mem s) t" "load64 m2 t = (if t = current s then p else load64 (mem s) t)" if "t \<in> set ts" for t
    using cell_store [OF l that c] w [OF that] nxt_cong [of t "w (mem s)" "mem s"] cell_load [of t "w (mem s)" "mem s"]
    by (simp_all add: m2)
  have x3: "nxt m3 t = nxt m2 t" "load64 m3 t = load64 m2 t" if "t \<in> set ts" for t
    using parkedD(2) [OF pk n(1) that] o3 nxt_cong [of t m3 m2] cell_load [of t m3 m2] by simp_all
  show "nxt m2 t = nxt (mem s) t" "nxt m3 t = nxt (mem s) t"
    "load64 m3 t = (if t = current s then p else load64 (mem s) t)" if "t \<in> set ts" for t
    using x2 x3 that by simp_all
  show n2: "load64 m2 n = load64 (mem s) n" using x2 n by simp
  have "frame_regs r m2 (load64 m2 n) = frame_regs r (w (mem s)) (load64 m2 n)"
    using parkedD(3) [OF pk n(1) c] o2 by (intro frame_regs_cong) simp
  then show "frame_regs r m2 (load64 m2 n) = frame_regs r (w (mem s)) (load64 (mem s) n)" by (simp only: n2)
  show "m3 x = w (mem s) x" if "t \<in> set ts" "t \<noteq> n" "in_region (load64 m3 t) 216 x" for t x
    using that x3(2) [OF that(1)] parkedD(3) [OF pk that(1) c] parkedD(4) [OF pk n(1) that(1)] o2 o3 by simp
qed

lemma butlast_not_last: "t \<in> set (butlast ts) \<Longrightarrow> distinct ts \<Longrightarrow> t \<noteq> last ts"
  by (cases ts rule: rev_cases) auto

text \<open>
  A new thread joins the list at its end, suspended at the start of its routine with an empty stack and
  with interrupts on.
\<close>

lemma thread_create_appends:
  assumes l: "thread_list s ts" and new: "thread \<noteq> 0" "\<And>t. t \<in> set ts \<Longrightarrow> disjoint_regions thread 16 t 16"
    and p: "p = stack + stack_size - 216" "disjoint_regions p 216 thread 16" "\<And>t. t \<in> set ts \<Longrightarrow> disjoint_regions p 216 t 16"
  shows "\<exists>s'. thread_create thread routine stack stack_size s = Inr s' \<and> thread_list s' (ts @ [thread]) \<and>
    load64 (mem s') thread = p \<and>
    frame_regs r (mem s') p = (frame_regs r (mem s) p)\<lparr>r_rip := routine, r_rsp := stack + stack_size,
      r_rbp := stack + stack_size, r_rflags := 2 OR 0x200\<rparr>"
proof -
  define rsp where "rsp = stack + stack_size"
  define m1 where "m1 = store64 (mem s) thread p"
  define m3 where "m3 = store64 (store64 m1 (p + 176) routine) (p + 200) rsp"
  define m5 where "m5 = store64 (store64 m3 (p + 64) rsp) (p + 192) (2 OR 0x200)"
  define m7 where "m7 = store64 (store64 m5 (thread + 8) 0) (last_thread s + 8) thread"
  define s' where "s' = s\<lparr>mem := m7, last_thread := thread\<rparr>"
  have lt: "last_thread s \<in> set ts" "head s \<in> set ts" "0 \<notin> set ts" "last_thread s = last ts" using l by (auto simp: thread_list_def)
  then have tc: "thread_create thread routine stack stack_size s = Inr s'"
    unfolding thread_create_def Let_def p(1) [symmetric]
    by (auto simp: s'_def m7_def m5_def m3_def m1_def rsp_def load_store_same)
  have o7: "m7 x = m5 x" if "\<not> in_region thread 16 x" "\<not> in_region (last_thread s) 16 x" for x
    using that by (simp add: m7_def store_le_outside)
  have o5: "m5 x = mem s x" if "\<not> in_region thread 16 x" "\<not> in_region p 216 x" for x
    using that by (simp add: m5_def m3_def m1_def store_le_outside store_le_outside0)
  note dj = disjoint_regionsD [OF new(2)] disjoint_regionsD [OF p(2)] disjoint_regionsD [OF p(3)]
  have n: "nxt m7 t = nxt (mem s) t" if "t \<in> set ts" "t \<noteq> last_thread s" for t
  proof -
    have "disjoint_regions t 16 (last_thread s) 16" using l that lt(1) by (simp add: thread_list_def)
    then show ?thesis
      using dj(1) [OF that(1)] dj(3) [OF that(1)] by (intro nxt_cong trans [OF o7 o5]) (auto dest: disjoint_regionsD)
  qed
  have "nxt m7 (last_thread s) = thread" by (simp add: m7_def nxt_def load_store_same)
  moreover have "m7 x = store64 m5 (thread + 8) 0 x" if "in_region thread 16 x" for x
    using dj(1) [OF lt(1) that] by (simp add: m7_def store_le_outside)
  then have th: "nxt m7 thread = 0" "load64 m7 thread = load64 m5 thread"
    using nxt_cong [of thread m7] cell_load [of thread m7] by (simp_all add: nxt_def layout_simps)
  have "m5 x = m1 x" if "in_region thread 16 x" for x
  proof -
    have "\<not> in_region p 216 x" using dj(2) that by blast
    then show ?thesis by (simp add: m5_def m3_def store_le_outside)
  qed
  then have "load64 m5 thread = p" using cell_load [of thread m5 m1] by (simp add: m1_def load_store_same)
  moreover have "chain m7 (ts @ [thread])"
    using l lt n th(1) calculation(1) butlast_not_last [of _ ts]
    by (intro chain_snoc [of "mem s"]) (auto simp: thread_list_def dest: in_set_butlastD)
  moreover have "thread \<notin> set ts" using new(2) [of thread] dj(1) [of thread thread] by auto
  moreover have "disjoint_regions t 16 thread 16" if "t \<in> set ts" for t using new(2) [OF that] disjoint_regions_sym by blast
  ultimately have "thread_list s' (ts @ [thread])" "load64 (mem s') thread = p"
    using l new th by (auto simp: thread_list_def s'_def)
  moreover have "frame_regs r m7 p = frame_regs r m5 p"
    using dj(2) dj(3) [OF lt(1)] by (intro frame_regs_cong o7) auto
  moreover have "frame_regs r m5 p = (frame_regs r m1 p)\<lparr>r_rip := routine, r_rsp := rsp, r_rbp := rsp, r_rflags := 2 OR 0x200\<rparr>"
    by (simp add: frame_regs_def m5_def m3_def layout_simps)
  moreover have "frame_regs r m1 p = frame_regs r (mem s) p"
    unfolding m1_def by (intro frame_regs_cong store_le_outside0 [of thread 16] dj(2)) auto
  ultimately show ?thesis using tc by (simp add: s'_def rsp_def)
qed

section \<open>Round robin\<close>

text \<open>An interrupt: what the running thread did before, where its registers are saved, the other registers.\<close>

definition interrupt ::
    "(addr \<Rightarrow> 'a threads_scheme \<Rightarrow> addr \<times> 'a threads_scheme) \<Rightarrow> (memory \<Rightarrow> memory) \<times> addr \<times> regs \<Rightarrow> 'a threads_scheme \<Rightarrow>
      regs option \<times> 'a threads_scheme" where
  "interrupt user e s = (case e of (w, p, r) \<Rightarrow> thread_switch_handler user p r (s\<lparr>mem := w (mem s)\<rparr>))"

lemma interrupt_switches:
  assumes l: "thread_list s ts" and two: "2 \<le> length ts" and sch: "scheduler s = None" and ob: "obeys ts w p s"
    and j: "j < length ts" "current s = ts ! j" and n: "n = ts ! (Suc j mod length ts)"
    and i: "interrupt user (w, p, r) s = (ro, s')"
  shows "ro = Some (frame_regs r (w (mem s)) (load64 (mem s) n))"
    "current s' = n" "scheduler s' = None" "thread_list s' ts"
    "\<And>t. t \<in> set ts \<Longrightarrow> load64 (mem s') t = (if t = current s then p else load64 (mem s) t)"
    "\<And>t x. t \<in> set ts \<Longrightarrow> t \<noteq> n \<Longrightarrow> in_region (load64 (mem s') t) 216 x \<Longrightarrow> mem s' x = w (mem s) x"
proof -
  define m2 where "m2 = store64 (w (mem s)) (current s) p"
  define m3 where "m3 = store64 m2 (slot m2 (load64 m2 n)) (load64 m2 (load64 m2 n + 176))"
  have k: "Suc j mod length ts < length ts" "Suc j mod length ts \<noteq> j"
    using two j(1) by (auto simp: mod_Suc)
  have nts: "n \<in> set ts" and nc: "n \<noteq> current s"
    using k j l n by (auto simp: thread_list_def nth_eq_iff_index_eq)
  note sm = switch_memory [OF l ob nts nc m2_def m3_def]
  have "nxt m2 (ts ! j) = (if Suc j < length ts then ts ! Suc j else 0)"
    using sm(3) chain_nth [of "mem s" ts j] l j(1) by (simp add: thread_list_def)
  moreover have z: "ts ! Suc j \<noteq> 0" if "Suc j < length ts" using nth_mem [OF that] l by (auto simp: thread_list_def)
  ultimately have nx: "(if nxt m2 (current s) \<noteq> 0 then nxt m2 (current s) else head s) = n"
    using l j n z by (auto simp: thread_list_def hd_conv_nth mod_Suc)
  have "head s \<noteq> last_thread s"
    using l two by (auto simp: thread_list_def hd_conv_nth last_conv_nth nth_eq_iff_index_eq)
  moreover have "default_scheduler (s\<lparr>mem := m2\<rparr>) = (n, s\<lparr>mem := m2, current := n\<rparr>)"
    unfolding default_scheduler_def Let_def using nx by auto
  ultimately have "interrupt user (w, p, r) s = (Some (frame_regs r m2 (load64 m2 n)), s\<lparr>current := n, mem := m3\<rparr>)"
    using sch switch_to_frame parkedD(1) [of m2 ts n n] ob nts
    by (simp add: interrupt_def thread_switch_handler_def m2_def [symmetric] m3_def obeys_def)
  then have e: "ro = Some (frame_regs r m2 (load64 m2 n))" "s' = s\<lparr>current := n, mem := m3\<rparr>" using i by simp_all
  show "ro = Some (frame_regs r (w (mem s)) (load64 (mem s) n))" using e(1) sm(2) by simp
  show "current s' = n" "scheduler s' = None" using e(2) sch by simp_all
  show "thread_list s' ts"
    using l nts sm(4) chain_cong [of ts m3 "mem s"] by (simp add: e(2) thread_list_def)
  show "load64 (mem s') t = (if t = current s then p else load64 (mem s) t)" if "t \<in> set ts" for t
    using sm(5) that by (simp add: e(2))
  show "mem s' x = w (mem s) x" if "t \<in> set ts" "t \<noteq> n" "in_region (load64 (mem s') t) 216 x" for t x
    using sm(6) that by (simp add: e(2))
qed

primrec run_threads ::
    "(addr \<Rightarrow> 'a threads_scheme \<Rightarrow> addr \<times> 'a threads_scheme) \<Rightarrow> ((memory \<Rightarrow> memory) \<times> addr \<times> regs) list \<Rightarrow>
      'a threads_scheme \<Rightarrow> 'a threads_scheme" where
  "run_threads user [] s = s"
| "run_threads user (e # es) s = run_threads user es (snd (interrupt user e s))"

primrec obey_all ::
    "(addr \<Rightarrow> 'a threads_scheme \<Rightarrow> addr \<times> 'a threads_scheme) \<Rightarrow> addr list \<Rightarrow> ((memory \<Rightarrow> memory) \<times> addr \<times> regs) list \<Rightarrow>
      'a threads_scheme \<Rightarrow> bool" where
  "obey_all user ts [] s = True"
| "obey_all user ts (e # es) s = (obeys ts (fst e) (fst (snd e)) s \<and> obey_all user ts es (snd (interrupt user e s)))"

lemma obey_all_append:
  "obey_all user ts (es @ es') s \<longleftrightarrow> obey_all user ts es s \<and> obey_all user ts es' (run_threads user es s)"
  by (induction es arbitrary: s) auto

lemma mod_place:
  assumes "j < n" "2 \<le> d" "d < n"
  shows "(j + d) mod n \<noteq> j" "(j + d) mod n \<noteq> Suc j mod n" "(Suc j mod n + (d - 1)) mod n = (j + d) mod n"
proof -
  have e: "(j + d) mod n = (if j + d < n then j + d else j + d - n)" "Suc j mod n = (if Suc j < n then Suc j else 0)"
    using assms by (auto simp: mod_if)
  show "(j + d) mod n \<noteq> j" "(j + d) mod n \<noteq> Suc j mod n" using assms by (cases "j + d < n"; cases "Suc j < n"; simp add: e)+
  have "(Suc j mod n + (d - 1)) mod n = (Suc j + (d - 1)) mod n" by (rule mod_add_left_eq)
  then show "(Suc j mod n + (d - 1)) mod n = (j + d) mod n" using assms(2) by simp
qed

lemma mod_round:
  assumes "j < n" "2 \<le> n"
  shows "(Suc j mod n + (n - 1)) mod n = j" "Suc ((Suc j mod n + (n - 2)) mod n) mod n = j"
proof -
  have "(Suc j mod n + (n - 1)) mod n = (Suc j + (n - 1)) mod n" by (rule mod_add_left_eq)
  also have "Suc j + (n - 1) = j + n" using assms by simp
  finally show e: "(Suc j mod n + (n - 1)) mod n = j" using assms(1) by simp
  have "Suc ((Suc j mod n + (n - 2)) mod n) mod n = Suc (Suc j mod n + (n - 2)) mod n" by (rule mod_Suc_eq)
  also have "Suc (Suc j mod n + (n - 2)) = Suc j mod n + (n - 1)" using assms(2) by simp
  finally show "Suc ((Suc j mod n + (n - 2)) mod n) mod n = j" using e by simp
qed

lemma run_threads_progress:
  assumes "thread_list s ts" "2 \<le> length ts" "scheduler s = None" "j < length ts" "current s = ts ! j" "obey_all user ts es s"
  shows "thread_list (run_threads user es s) ts \<and> scheduler (run_threads user es s) = None \<and>
    current (run_threads user es s) = ts ! ((j + length es) mod length ts)"
  using assms
proof (induction es arbitrary: s j)
  case (Cons e es)
  obtain w p r where e: "e = (w, p, r)" by (cases e)
  let ?n = "length ts"
  obtain ro s1 where i: "interrupt user (w, p, r) s = (ro, s1)" by (cases "interrupt user (w, p, r) s")
  have ob: "obeys ts w p s" "obey_all user ts es s1" using Cons.prems(6) by (simp_all add: e i)
  note sw = interrupt_switches [OF Cons.prems(1-3) ob(1) Cons.prems(4,5) refl i]
  have "Suc j mod ?n < ?n" using Cons.prems(4) by (auto intro!: mod_less_divisor)
  moreover have "(Suc j mod ?n + length es) mod ?n = (j + length (e # es)) mod ?n" by (simp add: mod_add_left_eq)
  ultimately show ?case using Cons.IH [OF sw(4) Cons.prems(2) sw(3) _ sw(2) ob(2)] by (simp add: e i)
qed simp

text \<open>The thread that comes \<open>d\<close> places behind the running one stays suspended for \<open>d - 1\<close> interrupts.\<close>

lemma run_threads_keeps:
  assumes "thread_list s ts" "2 \<le> length ts" "scheduler s = None" "j < length ts" "current s = ts ! j"
    and "obey_all user ts es s" "length es < d" "d < length ts" "t = ts ! ((j + d) mod length ts)"
  shows "load64 (mem (run_threads user es s)) t = load64 (mem s) t \<and>
    (\<forall>x. in_region (load64 (mem s) t) 216 x \<longrightarrow> mem (run_threads user es s) x = mem s x)"
  using assms
proof (induction es arbitrary: s j d)
  case (Cons e es)
  obtain w p r where e: "e = (w, p, r)" by (cases e)
  let ?n = "length ts"
  obtain ro s1 where i: "interrupt user (w, p, r) s = (ro, s1)" by (cases "interrupt user (w, p, r) s")
  have ob: "obeys ts w p s" "obey_all user ts es s1" using Cons.prems(6) by (simp_all add: e i)
  note sw = interrupt_switches [OF Cons.prems(1-3) ob(1) Cons.prems(4,5) refl i]
  have m: "(j + d) mod ?n < ?n" "Suc j mod ?n < ?n" using Cons.prems(4) by (auto intro!: mod_less_divisor)
  then have ts: "distinct ts" "t \<in> set ts" using Cons.prems(1,9) by (auto simp: thread_list_def)
  have d2: "2 \<le> d" using Cons.prems(7) by simp
  note d = mod_place [OF Cons.prems(4) d2 Cons.prems(8)]
  have tn: "t \<noteq> current s" "t \<noteq> ts ! (Suc j mod ?n)"
    using ts(1) Cons.prems(4,5,9) d(1,2) m by (simp_all add: nth_eq_iff_index_eq)
  have t1: "load64 (mem s1) t = load64 (mem s) t" using sw(5) ts(2) tn by simp
  have "mem s1 x = mem s x" if "in_region (load64 (mem s) t) 216 x" for x
    using sw(6) [OF ts(2) tn(2)] t1 that ob(1) ts(2) tn(1) by (simp add: obeys_def)
  then show ?case
    using Cons.IH [OF sw(4) Cons.prems(2) sw(3) m(2) sw(2) ob(2), of "d - 1"] Cons.prems(7-9) d(3) t1
    by (simp add: e i)
qed simp

text \<open>
  C9.  Threads are scheduled in turn, and each goes on where it was.  With at least two threads and the
  default scheduler, as many interrupts as there are threads bring back the one that was running
  first, with the registers it had when it was interrupted, whatever the others do to their own
  memory.  In between the others run one after the other in the order of the list.
\<close>

theorem thread_round_robin:
  assumes l: "thread_list s ts" "2 \<le> length ts" "scheduler s = None" "j < length ts" "current s = ts ! j"
    and es: "length es = length ts - 2" and ob: "obey_all user ts ((w0, p0, r0) # es @ [(w1, p1, r1)]) s"
    and s2: "s2 = run_threads user ((w0, p0, r0) # es) s"
  shows "fst (interrupt user (w1, p1, r1) s2) = Some (frame_regs r1 (w0 (mem s)) p0) \<and>
    current (snd (interrupt user (w1, p1, r1) s2)) = current s \<and>
    (\<forall>k < length ts. current (run_threads user (take k ((w0, p0, r0) # es)) s) = ts ! ((j + k) mod length ts))"
proof (intro conjI allI impI)
  let ?n = "length ts" and ?t = "ts ! j"
  obtain ro s1 where i: "interrupt user (w0, p0, r0) s = (ro, s1)" by (cases "interrupt user (w0, p0, r0) s")
  have o: "obeys ts w0 p0 s" "obey_all user ts es s1" "obeys ts w1 p1 s2" "obey_all user ts ((w0, p0, r0) # es) s"
    using ob by (simp_all add: i obey_all_append s2)
  note sw = interrupt_switches [OF l(1-3) o(1) l(4,5) refl i]
  have m: "Suc j mod ?n < ?n" "(Suc j mod ?n + length es) mod ?n < ?n" using l(2) by (auto intro!: mod_less_divisor)
  have r: "(Suc j mod ?n + (?n - 1)) mod ?n = j" "Suc ((Suc j mod ?n + length es) mod ?n) mod ?n = j"
    using mod_round [OF l(4,2)] es by simp_all
  have s2': "s2 = run_threads user es s1" by (simp add: s2 i)
  have d: "length es < ?n - 1" "?n - 1 < ?n" using l(2) es by auto
  note g = run_threads_progress [OF sw(4) l(2) sw(3) m(1) sw(2) o(2), folded s2']
  note k = run_threads_keeps [OF sw(4) l(2) sw(3) m(1) sw(2) o(2) d, unfolded r(1), OF refl, folded s2']
  obtain ro' s3 where i': "interrupt user (w1, p1, r1) s2 = (ro', s3)" by (cases "interrupt user (w1, p1, r1) s2")
  note fin = interrupt_switches [OF conjunct1 [OF g] l(2) _ o(3) m(2) _ refl i', unfolded r(2)]
  have t: "?t \<in> set ts" "?t \<noteq> ts ! (Suc j mod ?n)" "?t \<noteq> current s2"
    using l m r(2) g by (auto simp: thread_list_def nth_eq_iff_index_eq mod_Suc split: if_splits)
  have p0: "load64 (mem s2) ?t = p0" "load64 (mem s1) ?t = p0" using k sw(5) t(1) l(5) by simp_all
  have "w1 (mem s2) x = w0 (mem s) x" if "in_region p0 216 x" for x
    using that o(3) t k p0 sw(6) [OF t(1,2), of x] by (simp add: obeys_def)
  then have "frame_regs r1 (w1 (mem s2)) p0 = frame_regs r1 (w0 (mem s)) p0" by (rule frame_regs_cong)
  then show "fst (interrupt user (w1, p1, r1) s2) = Some (frame_regs r1 (w0 (mem s)) p0)"
    "current (snd (interrupt user (w1, p1, r1) s2)) = current s"
    using fin(1,2) g p0 l(5) i' by simp_all
  fix k assume "k < ?n"
  then have "length (take k ((w0, p0, r0) # es)) = k" using es l(2) by simp
  moreover have "obey_all user ts (take k ((w0, p0, r0) # es)) s"
    using o(4) obey_all_append [of user ts "take k ((w0, p0, r0) # es)" "drop k ((w0, p0, r0) # es)" s] by simp
  ultimately show "current (run_threads user (take k ((w0, p0, r0) # es)) s) = ts ! ((j + k) mod ?n)"
    using run_threads_progress [OF l] by metis
qed

text \<open>Two threads, the first of which runs; it is interrupted at 0x401000 with its stack at 0x20000.\<close>

definition demo_threads :: threads where
  "demo_threads = \<lparr>mem = store64 (store64 (store64 (store64 (\<lambda>_. 0) 0x1008 0x2000) 0x2000 0x10F28) 0x10FF0 0x11000)
     0x10FD8 0x402000, head = 0x1000, last_thread = 0x2000, current = 0x1000, scheduler = None\<rparr>"

definition demo_frame :: "memory \<Rightarrow> memory" where
  "demo_frame m = store64 (store64 m 0x1FFF0 0x20000) 0x1FFD8 0x401000"

lemma demo_disjoint:
  "disjoint_regions 0x1000 16 0x2000 16" "disjoint_regions 0x2000 16 0x1000 16"
  "disjoint_regions 0x1FFF8 8 0x1FF28 208" "disjoint_regions 0x10FF8 8 0x10F28 208"
  "disjoint_regions 0x1FFF8 8 0x1000 16" "disjoint_regions 0x1FFF8 8 0x2000 16"
  "disjoint_regions 0x10FF8 8 0x1000 16" "disjoint_regions 0x10FF8 8 0x2000 16"
  "disjoint_regions 0x1FF28 216 0x1000 16" "disjoint_regions 0x1FF28 216 0x2000 16"
  "disjoint_regions 0x10F28 216 0x1000 16" "disjoint_regions 0x10F28 216 0x2000 16"
  "disjoint_regions 0x1FFF8 8 0x10F28 216" "disjoint_regions 0x10FF8 8 0x1FF28 216"
  by (rule disjoint_regionsI; simp)+

lemma demo_obeys1: "obeys [0x1000, 0x2000] demo_frame 0x1FF28 demo_threads"
proof -
  have "demo_frame m x = m x" if "in_region 0x1000 16 x \<or> in_region 0x2000 16 x \<or> in_region 0x10F28 216 x" for m x
    using that by (auto simp: demo_frame_def store_le_apply in_region_nowrap)
  then show ?thesis
    by (auto simp: obeys_def demo_threads_def all_parked_def slot_def demo_frame_def mem_eval demo_disjoint)
qed

lemma demo_switched:
  "snd (interrupt user (demo_frame, 0x1FF28, r) demo_threads) =
    demo_threads\<lparr>current := 0x2000, mem := store64 (store64 (demo_frame (mem demo_threads)) 0x1000 0x1FF28) 0x10FF8 0x402000\<rparr>"
proof -
  define m2 where "m2 = store64 (demo_frame (mem demo_threads)) 0x1000 0x1FF28"
  have "nxt m2 0x1000 = 0x2000" "load64 m2 0x2000 = 0x10F28" "load64 m2 0x10FF0 = 0x11000" "load64 m2 0x10FD8 = 0x402000"
    by (simp_all add: m2_def demo_frame_def demo_threads_def nxt_def mem_eval)
  moreover have "head demo_threads \<noteq> last_thread demo_threads" "scheduler demo_threads = None" "current demo_threads = 0x1000"
    by (simp_all add: demo_threads_def)
  ultimately show ?thesis
    unfolding m2_def [symmetric]
    by (simp add: interrupt_def thread_switch_handler_def default_scheduler_def switch_to_def Let_def m2_def [symmetric])
qed

lemma demo_obeys2:
  "obeys [0x1000, 0x2000] id 0x10F28 (snd (interrupt user (demo_frame, 0x1FF28, r) demo_threads))"
  unfolding demo_switched by (auto simp: obeys_def demo_threads_def all_parked_def slot_def demo_frame_def mem_eval demo_disjoint)

theorem thread_round_robin_witness:
  "fst (interrupt Pair (id, 0x10F28, zero_regs)
      (run_threads Pair [(demo_frame, 0x1FF28, zero_regs)] demo_threads)) =
    Some (frame_regs zero_regs (demo_frame (mem demo_threads)) 0x1FF28)"
proof -
  have "thread_list demo_threads [0x1000, 0x2000]"
    by (simp add: thread_list_def demo_threads_def nxt_def mem_eval demo_disjoint)
  moreover have "scheduler demo_threads = None" "current demo_threads = [0x1000, 0x2000] ! 0"
    by (simp_all add: demo_threads_def)
  ultimately show ?thesis
    using thread_round_robin [of demo_threads "[0x1000, 0x2000]" 0 "[]" Pair demo_frame "0x1FF28" zero_regs id "0x10F28" zero_regs,
      OF _ _ _ _ _ _ _ refl] demo_obeys1 demo_obeys2 by simp
qed

end
