(* ===== verification/Interrupts.thy ===== *)
theory Interrupts
  imports Threads
begin

text \<open>
  Interrupts: the descriptor tables of the boot stage and of the programs (\<open>interrupt.c\<close> and \<open>gdt.c\<close>
  of \<open>src/boot/stage2\<close> and \<open>src/lib\<close>), the interrupt controllers (\<open>i8259.c\<close>, \<open>pic.c\<close>, \<open>ioapic.c\<close> and
  \<open>lapic.c\<close> of \<open>src/boot/stage2/dev\<close>, \<open>src/lib/ioapic.c\<close>), the timer of \<open>src/lib/timer.c\<close> and the
  thread routines that use it.

  The entry points of the handlers are assembly code: their addresses are the argument \<open>h\<close>.  The
  bit fields of a descriptor are words of their widths.  The registers of a controller are a map from
  register numbers to values, the I/O APIC has a select register in front of them; writes to ports are
  kept as a list, the latest first.
\<close>

section \<open>The interrupt descriptor table\<close>

datatype isr =
    reserved | divide_error | debug_trap | nmi | breakpoint | overflow | bound_range | invalid_opcode
  | device_not_available | double_fault | invalid_tss | segment_not_present | stack_exception
  | general_protection | page_fault | fp_exception | alignment_check | machine_check | xmm | system_call
  | timer_handler | kbd_handler | irq_handler

record gate =
  gd_looffset :: "16 word"
  gd_sel :: "16 word"
  gd_ist :: "3 word"
  gd_unusd1 :: "5 word"
  gd_type :: "5 word"
  gd_dpl :: "2 word"
  gd_p :: "1 word"
  gd_hioffset :: "48 word"
  gd_unusd2 :: "32 word"

abbreviation (input) "NIDT \<equiv> 256"
abbreviation (input) "KNL_CSEL \<equiv> 0x10"
abbreviation (input) "KNL_DSEL \<equiv> 0x20"
abbreviation (input) "KNL_PVL \<equiv> 0"
abbreviation (input) "USR_PVL \<equiv> 3"
abbreviation (input) "IDT_TRAP_GATE \<equiv> 0xF"
abbreviation (input) "IDT_INTR_GATE \<equiv> 0xE"
abbreviation (input) "IRQ_OFFSET \<equiv> 32"

definition setgate :: "nat \<Rightarrow> addr \<Rightarrow> cint \<Rightarrow> cint \<Rightarrow> cint \<Rightarrow> gate list \<Rightarrow> gate list" where
  "setgate idx handler typ dpl ist idt = idt[idx :=
    \<lparr>gd_looffset = ucast handler, gd_sel = KNL_CSEL, gd_ist = ucast ist, gd_unusd1 = 0, gd_type = ucast typ,
     gd_dpl = ucast dpl, gd_p = 1, gd_hioffset = ucast (drop_bit 16 handler), gd_unusd2 = 0\<rparr>]"

definition trap_vectors :: "(nat \<times> isr) list" where
  "trap_vectors =
    [(0, divide_error), (1, debug_trap), (2, nmi), (3, breakpoint), (4, overflow), (5, bound_range),
     (6, invalid_opcode), (7, device_not_available), (8, double_fault), (9, reserved), (10, invalid_tss),
     (11, segment_not_present), (12, stack_exception), (13, general_protection), (14, page_fault),
     (16, fp_exception), (17, alignment_check), (18, machine_check), (19, xmm)]"

definition trap_init :: "(isr \<Rightarrow> addr) \<Rightarrow> gate list \<Rightarrow> gate list" where
  "trap_init h idt = fold (\<lambda>(v, i). setgate v (h i) IDT_TRAP_GATE KNL_PVL 0) trap_vectors idt"

definition syscall_init :: "(isr \<Rightarrow> addr) \<Rightarrow> gate list \<Rightarrow> gate list" where
  "syscall_init h idt = setgate 0x80 (h system_call) IDT_TRAP_GATE USR_PVL 0 idt"

definition irq_init :: "(isr \<Rightarrow> addr) \<Rightarrow> gate list \<Rightarrow> gate list" where
  "irq_init h idt =
    setgate (IRQ_OFFSET + 1) (h kbd_handler) IDT_INTR_GATE KNL_PVL 0
      (setgate (IRQ_OFFSET + 0) (h timer_handler) IDT_INTR_GATE KNL_PVL 0 idt)"

definition reserve_all :: "(isr \<Rightarrow> addr) \<Rightarrow> gate list \<Rightarrow> gate list" where
  "reserve_all h idt = fold (\<lambda>v. setgate v (h reserved) IDT_TRAP_GATE KNL_PVL 0) [0..<NIDT] idt"

text \<open>\<open>idt_init\<close> of the boot stage, and \<open>idt_init\<close> and \<open>add_irq\<close> of the programs.\<close>

definition idt_init :: "(isr \<Rightarrow> addr) \<Rightarrow> gate list \<Rightarrow> gate list" where
  "idt_init h idt = irq_init h (syscall_init h (trap_init h (reserve_all h idt)))"

definition lib_idt_init :: "(isr \<Rightarrow> addr) \<Rightarrow> gate list \<Rightarrow> gate list" where
  "lib_idt_init h idt = trap_init h (reserve_all h idt)"

definition add_irq :: "(isr \<Rightarrow> addr) \<Rightarrow> nat \<Rightarrow> gate list \<Rightarrow> gate list res" where
  "add_irq h vector_idx idt =
    (if NIDT \<le> vector_idx then Inl (Fault ''behind the idt'')
     else Inr (setgate vector_idx (h irq_handler) IDT_INTR_GATE KNL_PVL 0 idt))"

section \<open>The global descriptor table\<close>

text \<open>Five entries of 16 bytes; the code descriptor is copied to entry 1, the data descriptor to entry 2.\<close>

definition code64 :: addr where
  "code64 = push_bit 43 3 OR push_bit 45 0 OR push_bit 47 1 OR push_bit 53 1 OR push_bit 54 0"

definition data64 :: addr where
  "data64 = push_bit 41 1 OR push_bit 44 1 OR push_bit 47 1"

definition create_new_gdt :: "addr \<Rightarrow> addr \<Rightarrow> memory \<Rightarrow> memory" where
  "create_new_gdt gdt sizeof_gdt m = store64 (store64 (memset gdt 0 sizeof_gdt m) (gdt + 16) code64) (gdt + 32) data64"

definition create_default_gdt :: "addr \<Rightarrow> memory \<Rightarrow> memory" where
  "create_default_gdt gdt m = create_new_gdt gdt (5 * 16) m"

section \<open>The 8259 controllers\<close>

record i8259 =
  i8259_mask :: "16 word"
  pic_ports :: "(16 word \<times> byte) list"

definition pic_out :: "byte \<Rightarrow> 16 word \<Rightarrow> i8259 \<Rightarrow> i8259" where
  "pic_out v p s = s\<lparr>pic_ports := (p, v) # pic_ports s\<rparr>"

abbreviation (input) "INT_CTL \<equiv> 0x20"
abbreviation (input) "INT_CTLMASK \<equiv> 0x21"
abbreviation (input) "INT2_CTL \<equiv> 0xA0"
abbreviation (input) "INT2_CTLMASK \<equiv> 0xA1"

definition i8259_setmask :: "16 word \<Rightarrow> i8259 \<Rightarrow> i8259" where
  "i8259_setmask m s =
    (if i8259_mask s \<noteq> m
     then (pic_out (ucast (drop_bit 8 m)) INT2_CTLMASK (pic_out (ucast m) INT_CTLMASK s))\<lparr>i8259_mask := m\<rparr>
     else s)"

definition i8259_init :: "i8259 \<Rightarrow> i8259" where
  "i8259_init s =
    (let s0 = s\<lparr>i8259_mask := 0xFF\<rparr>;
         s1 = pic_out 0x11 INT2_CTL (pic_out 0x11 INT_CTL s0);
         s2 = pic_out 0x28 INT2_CTLMASK (pic_out 0x20 INT_CTLMASK s1);
         s3 = pic_out 2 INT2_CTLMASK (pic_out 4 INT_CTLMASK s2);
         s4 = pic_out 1 INT2_CTLMASK (pic_out 1 INT_CTLMASK s3)
     in pic_out (ucast (drop_bit 8 (i8259_mask s4))) INT2_CTLMASK (pic_out (ucast (i8259_mask s4)) INT_CTLMASK s4))"

definition i8259_eoi :: "i8259 \<Rightarrow> i8259" where
  "i8259_eoi s = pic_out 0x20 INT2_CTL (pic_out 0x20 INT_CTL s)"

definition i8259_enable :: "nat \<Rightarrow> i8259 \<Rightarrow> i8259" where
  "i8259_enable irq s = i8259_setmask (i8259_mask s AND NOT (push_bit irq 1)) s"

definition i8259_disable :: "nat \<Rightarrow> i8259 \<Rightarrow> i8259" where
  "i8259_disable irq s = i8259_setmask (i8259_mask s OR push_bit irq 1) s"

section \<open>The I/O APIC\<close>

record io_apic =
  io_reg :: cint
  io_data :: "cint \<Rightarrow> cint"

abbreviation (input) "REG_VER \<equiv> 1"
abbreviation (input) "REG_TABLE \<equiv> 0x10"
abbreviation (input) "INT_DISABLED \<equiv> 0x10000"

definition ioapic_read :: "cint \<Rightarrow> io_apic \<Rightarrow> cint \<times> io_apic" where
  "ioapic_read r io = (let io1 = io\<lparr>io_reg := r\<rparr> in (io_data io1 (io_reg io1), io1))"

definition ioapic_write :: "cint \<Rightarrow> cint \<Rightarrow> io_apic \<Rightarrow> io_apic" where
  "ioapic_write r v io = (let io1 = io\<lparr>io_reg := r\<rparr> in io1\<lparr>io_data := (io_data io1)(io_reg io1 := v)\<rparr>)"

text \<open>\<open>flags\<close>: bit 15 in the boot stage, bits 13 and 15 in the programs.\<close>

definition ioapic_enable_with :: "cint \<Rightarrow> cint \<Rightarrow> addr \<Rightarrow> io_apic \<Rightarrow> io_apic" where
  "ioapic_enable_with flags irq cpunum io =
    ioapic_write (REG_TABLE + 2 * irq + 1) (ucast (push_bit 24 cpunum))
      (ioapic_write (REG_TABLE + 2 * irq) (IRQ_OFFSET + (irq OR (if irq > 16 then flags else 0))) io)"

definition boot_ioapic_enable :: "cint \<Rightarrow> addr \<Rightarrow> io_apic \<Rightarrow> io_apic" where
  "boot_ioapic_enable = ioapic_enable_with (push_bit 15 1)"

definition ioapic_enable :: "cint \<Rightarrow> addr \<Rightarrow> io_apic \<Rightarrow> io_apic" where
  "ioapic_enable = ioapic_enable_with (push_bit 15 1 OR push_bit 13 1)"

definition ioapic_disable :: "cint \<Rightarrow> io_apic \<Rightarrow> io_apic" where
  "ioapic_disable irq io =
    ioapic_write (REG_TABLE + 2 * irq + 1) 0
      (if irq \<noteq> 0 then ioapic_write (REG_TABLE + 2 * irq) (INT_DISABLED OR (IRQ_OFFSET + irq)) io else io)"

definition ioapic_enable_pin :: "cint \<Rightarrow> io_apic \<Rightarrow> io_apic" where
  "ioapic_enable_pin pin io =
    (let (lo, io1) = ioapic_read (REG_TABLE + 2 * pin) io in ioapic_write (REG_TABLE + 2 * pin) (lo AND NOT INT_DISABLED) io1)"

definition ioapic_disable_pin :: "cint \<Rightarrow> io_apic \<Rightarrow> io_apic" where
  "ioapic_disable_pin pin io =
    (let (lo, io1) = ioapic_read (REG_TABLE + 2 * pin) io in ioapic_write (REG_TABLE + 2 * pin) (lo OR INT_DISABLED) io1)"

definition ioapic_version :: "io_apic \<Rightarrow> byte \<times> io_apic" where
  "ioapic_version io = (let (v, io1) = ioapic_read REG_VER io in (ucast v, io1))"

definition ioapic_eoi :: "cint \<Rightarrow> io_apic \<Rightarrow> io_apic" where
  "ioapic_eoi vector io =
    (let (v, io1) = ioapic_version io in if v \<ge> 0x20 then ioapic_write 0x40 (IRQ_OFFSET + vector) io1 else io1)"

definition ioapic_init :: "addr \<Rightarrow> io_apic \<Rightarrow> io_apic res" where
  "ioapic_init ioapicva io =
    (if ioapicva = 0 then Inl (Panic ''ioapicva is NOT set'')
     else
       (let (v, io1) = ioapic_read REG_VER io; maxintr = unat (drop_bit 16 v AND 0xFF)
        in Inr (fold (\<lambda>i. ioapic_write (REG_TABLE + 2 * of_nat i + 1) 0 \<circ>
             ioapic_write (REG_TABLE + 2 * of_nat i) (INT_DISABLED OR (IRQ_OFFSET + of_nat i))) [0..<Suc maxintr] io1)))"

section \<open>The local APIC and the timer\<close>

type_synonym lapic = "cint \<Rightarrow> cint"

abbreviation (input) "LAPIC_TPRI \<equiv> 0x80"
abbreviation (input) "LAPIC_EOI \<equiv> 0xB0"
abbreviation (input) "LAPIC_LDR \<equiv> 0xD0"
abbreviation (input) "LAPIC_DFR \<equiv> 0xE0"
abbreviation (input) "LAPIC_SVR \<equiv> 0xF0"
abbreviation (input) "LAPIC_LVTT \<equiv> 0x320"
abbreviation (input) "LAPIC_PCINT \<equiv> 0x340"
abbreviation (input) "LAPIC_LVINT0 \<equiv> 0x350"
abbreviation (input) "LAPIC_LVINT1 \<equiv> 0x360"
abbreviation (input) "LAPIC_ICR_TIMER \<equiv> 0x380"
abbreviation (input) "LAPIC_DCR_TIMER \<equiv> 0x3E0"
abbreviation (input) "LAPIC_LVT_MASKED \<equiv> 0x10000"
abbreviation (input) "LAPIC_LVT_PERIODIC \<equiv> 0x20000"
abbreviation (input) "LAPIC_SVR_ENABLE \<equiv> 0x100"
abbreviation (input) "LAPIC_DCRT_DIV1 \<equiv> 0xB"
abbreviation (input) "LAPIC_DCRT_DIV16 \<equiv> 3"

definition lapic_write :: "cint \<Rightarrow> cint \<Rightarrow> lapic \<Rightarrow> lapic" where
  "lapic_write off v l = l(off := v)"

definition lapic_init :: "lapic \<Rightarrow> lapic" where
  "lapic_init l =
    lapic_write LAPIC_LVTT (LAPIC_LVT_PERIODIC OR (IRQ_OFFSET + 0))
      (lapic_write LAPIC_ICR_TIMER 0x0FFFFFFF (lapic_write LAPIC_DCR_TIMER LAPIC_DCRT_DIV1 l))"

text \<open>
  \<open>get_bus_freq\<close>: \<open>ccr\<close> is what the timer has counted down to after 10 milliseconds.  The product is computed
  in 32 bits.
\<close>

definition get_bus_freq :: "cint \<Rightarrow> lapic \<Rightarrow> addr \<times> lapic" where
  "get_bus_freq ccr l =
    (let l1 = lapic_write LAPIC_DFR 0xFFFFFFFF l;
         l2 = lapic_write LAPIC_LDR ((l1 LAPIC_LDR AND 0x00FFFFFF) OR 1) l1;
         l3 = lapic_write LAPIC_PCINT (push_bit 8 4) (lapic_write LAPIC_LVTT LAPIC_LVT_MASKED l2);
         l4 = lapic_write LAPIC_LVINT1 LAPIC_LVT_MASKED (lapic_write LAPIC_LVINT0 LAPIC_LVT_MASKED l3);
         l5 = lapic_write LAPIC_SVR (39 OR LAPIC_SVR_ENABLE) (lapic_write LAPIC_TPRI 0 l4);
         l6 = lapic_write LAPIC_DCR_TIMER LAPIC_DCRT_DIV16 (lapic_write LAPIC_LVTT 32 l5);
         l7 = lapic_write LAPIC_LVTT LAPIC_LVT_MASKED (lapic_write LAPIC_ICR_TIMER 0xFFFFFFFF l6)
     in (ucast ((0xFFFFFFFF - ccr + 1) * 16 * 100), l7))"

text \<open>The program around the threads: local APIC, descriptor table and the flags \<open>initialized\<close>.\<close>

record timed = threads +
  lapic :: lapic
  idt :: "gate list"
  idt_initialized :: bool
  gdt_initialized :: bool
  gdt :: addr
  interrupts_on :: bool

definition init_timer :: "(isr \<Rightarrow> addr) \<Rightarrow> 'a timed_scheme \<Rightarrow> 'a timed_scheme res" where
  "init_timer h s =
    (let l1 = lapic_write LAPIC_LVTT LAPIC_LVT_MASKED (lapic s);
         l2 = lapic_write LAPIC_PCINT (push_bit 8 4) l1;
         l3 = lapic_write LAPIC_LVINT1 LAPIC_LVT_MASKED (lapic_write LAPIC_LVINT0 LAPIC_LVT_MASKED l2);
         l4 = lapic_write LAPIC_SVR (39 OR LAPIC_SVR_ENABLE) (lapic_write LAPIC_TPRI 0 l3);
         l5 = lapic_write LAPIC_DCR_TIMER LAPIC_DCRT_DIV16 (lapic_write LAPIC_LVTT (32 OR LAPIC_LVT_PERIODIC) l4)
     in bindr (add_irq h 32 (idt s)) (\<lambda>t. Inr (s\<lparr>lapic := l5, idt := t\<rparr>)))"

definition timer_on :: "addr \<Rightarrow> addr \<Rightarrow> 'a timed_scheme \<Rightarrow> 'a timed_scheme res" where
  "timer_on freq ms s =
    (if ms < 1 then Inl (Panic ''Invalid time interval'')
     else
       (let counter_value = (freq div 1000) * ms;
            l1 = lapic_write LAPIC_LVTT (lapic s LAPIC_LVTT AND NOT LAPIC_LVT_MASKED) (lapic s)
        in Inr (s\<lparr>lapic := lapic_write LAPIC_ICR_TIMER (ucast counter_value) l1\<rparr>)))"

definition timer_off :: "'a timed_scheme \<Rightarrow> 'a timed_scheme" where
  "timer_off s = s\<lparr>lapic := lapic_write LAPIC_LVTT LAPIC_LVT_MASKED (lapic_write LAPIC_ICR_TIMER 0 (lapic s))\<rparr>"

definition thread_set_timer_freq ::
    "(isr \<Rightarrow> addr) \<Rightarrow> addr \<Rightarrow> addr \<Rightarrow> 'a timed_scheme \<Rightarrow> 'a timed_scheme res" where
  "thread_set_timer_freq h freq ms s =
    (if head s = 0 \<or> last_thread s = 0 then Inl (Panic ''thread linrary is not initialized yet'')
     else
       bindr (init_timer h (timer_off (s\<lparr>interrupts_on := False\<rparr>))) (\<lambda>s1.
       bindr (timer_on freq ms s1) (\<lambda>s2. Inr (s2\<lparr>interrupts_on := True\<rparr>))))"

definition interrupt_init :: "(isr \<Rightarrow> addr) \<Rightarrow> 'a timed_scheme \<Rightarrow> 'a timed_scheme" where
  "interrupt_init h s = (if idt_initialized s then s else s\<lparr>idt := lib_idt_init h (idt s), idt_initialized := True\<rparr>)"

text \<open>The whole of \<open>thread_init\<close>, with the tables and the timer.\<close>

definition thread_start :: "(isr \<Rightarrow> addr) \<Rightarrow> addr \<Rightarrow> addr \<Rightarrow> 'a timed_scheme \<Rightarrow> 'a timed_scheme res" where
  "thread_start h freq main_thread s =
    (let s1 = thread_init main_thread s;
         s2 = (if gdt_initialized s1 then s1
               else s1\<lparr>mem := create_default_gdt (gdt s1) (mem s1), gdt_initialized := True, interrupts_on := False\<rparr>)
     in bindr (init_timer h (interrupt_init h s2)) (\<lambda>s3. timer_on freq 100 (s3\<lparr>interrupts_on := True\<rparr>)))"

section \<open>What the processor reads from the tables\<close>

definition gate_target :: "gate \<Rightarrow> addr" where
  "gate_target g = ucast (gd_looffset g) OR push_bit 16 (ucast (gd_hioffset g))"

definition gate_of :: "addr \<Rightarrow> cint \<Rightarrow> cint \<Rightarrow> gate" where
  "gate_of handler typ dpl =
    \<lparr>gd_looffset = ucast handler, gd_sel = KNL_CSEL, gd_ist = 0, gd_unusd1 = 0, gd_type = ucast typ,
     gd_dpl = ucast dpl, gd_p = 1, gd_hioffset = ucast (drop_bit 16 handler), gd_unusd2 = 0\<rparr>"

lemma setgate_gate_of: "setgate v a typ dpl 0 t = t[v := gate_of a typ dpl]"
  by (simp add: setgate_def gate_of_def)

lemma length_setgate [simp]: "length (setgate v a typ dpl ist t) = length t"
  by (simp add: setgate_def)

lemma gate_target_of: "gate_target (gate_of a typ dpl) = a"
  by (rule bit_word_eqI) (auto simp: gate_target_def gate_of_def bit_simps)

text \<open>The handler for every vector: the exceptions of the processor first.\<close>

definition exception_isrs :: "isr list" where
  "exception_isrs =
    [divide_error, debug_trap, nmi, breakpoint, overflow, bound_range, invalid_opcode, device_not_available,
     double_fault, reserved, invalid_tss, segment_not_present, stack_exception, general_protection, page_fault,
     reserved, fp_exception, alignment_check, machine_check, xmm]"

definition exception_isr :: "nat \<Rightarrow> isr" where
  "exception_isr v = (if v < length exception_isrs then exception_isrs ! v else reserved)"

definition boot_isr :: "nat \<Rightarrow> isr" where
  "boot_isr v = (if v = 0x80 then system_call else if v = 32 then timer_handler else if v = 33 then kbd_handler
     else exception_isr v)"

lemma length_fold_setgate: "length (fold (\<lambda>x. setgate (f x) (g x) typ dpl 0) xs t) = length t"
  by (induction xs arbitrary: t) (simp_all add: setgate_def)

lemma fold_setgate_nth:
  "v < length t \<Longrightarrow> v \<notin> f ` set xs \<Longrightarrow> fold (\<lambda>x. setgate (f x) (g x) typ dpl 0) xs t ! v = t ! v"
  by (induction xs arbitrary: t) (simp_all add: setgate_gate_of)

lemma fold_setgate_in:
  "distinct (map f xs) \<Longrightarrow> x \<in> set xs \<Longrightarrow> f x < length t \<Longrightarrow>
    fold (\<lambda>x. setgate (f x) (g x) typ dpl 0) xs t ! f x = gate_of (g x) typ dpl"
proof (induction xs arbitrary: t)
  case (Cons y ys)
  show ?case
  proof (cases "x = y")
    case True
    then have "f x \<notin> f ` set ys" using Cons.prems(1) by simp
    with Cons.prems(3) True show ?thesis by (simp add: fold_setgate_nth) (simp add: setgate_gate_of)
  qed (use Cons in simp)
qed simp

lemma trap_init_alt: "trap_init h t = fold (\<lambda>x. setgate (fst x) (h (snd x)) IDT_TRAP_GATE KNL_PVL 0) trap_vectors t"
  by (simp add: trap_init_def case_prod_unfold)

lemma lib_idt_init_nth:
  assumes "length t = 256" "v < 256"
  shows "lib_idt_init h t ! v = gate_of (h (exception_isr v)) IDT_TRAP_GATE KNL_PVL"
proof -
  have all: "reserve_all h t ! v = gate_of (h reserved) IDT_TRAP_GATE KNL_PVL" "length (reserve_all h t) = 256"
    using assms fold_setgate_in [of "\<lambda>v. v" "[0..<256]" v t "\<lambda>_. h reserved"]
    by (auto simp: reserve_all_def length_fold_setgate [of "\<lambda>v. v" "\<lambda>_. h reserved"])
  have d: "distinct (map fst trap_vectors)" by (simp add: trap_vectors_def)
  show ?thesis
  proof (cases "v \<in> fst ` set trap_vectors")
    case True
    then obtain i where i: "(v, i) \<in> set trap_vectors" by auto
    then have "exception_isr v = i" by (auto simp: trap_vectors_def exception_isr_def exception_isrs_def)
    with fold_setgate_in [OF d i, of "reserve_all h t"] assms all show ?thesis
      by (simp add: lib_idt_init_def trap_init_alt)
  next
    case False
    then have "v = 15 \<or> 20 \<le> v" by (simp add: trap_vectors_def) presburger
    then have "exception_isr v = reserved" by (auto simp: exception_isr_def exception_isrs_def)
    with False assms all show ?thesis by (simp add: lib_idt_init_def trap_init_alt fold_setgate_nth)
  qed
qed

lemma length_lib_idt_init [simp]: "length (lib_idt_init h t) = length t"
  by (simp add: lib_idt_init_def trap_init_alt reserve_all_def length_fold_setgate
      length_fold_setgate [of "\<lambda>v. v" "\<lambda>_. h reserved"])

text \<open>
  C37. The interrupt table of the boot stage: for every vector, the processor finds a present gate that leads to
  the handler for this exception or interrupt in the kernel's code segment.  Only the gate for system calls
  may be used from user mode, and only the two interrupt lines are entered with interrupts disabled.
\<close>

theorem idt_init_dispatch:
  assumes "length t = 256" "v < 256"
  shows "gate_target (idt_init h t ! v) = h (boot_isr v) \<and> gd_p (idt_init h t ! v) = 1 \<and>
    gd_sel (idt_init h t ! v) = KNL_CSEL \<and> gd_dpl (idt_init h t ! v) = (if v = 0x80 then USR_PVL else KNL_PVL) \<and>
    gd_type (idt_init h t ! v) = (if v = 32 \<or> v = 33 then IDT_INTR_GATE else IDT_TRAP_GATE)"
proof -
  have "idt_init h t = irq_init h (syscall_init h (lib_idt_init h t))" by (simp add: idt_init_def lib_idt_init_def)
  then have "idt_init h t ! v = gate_of (h (boot_isr v)) (if v = 32 \<or> v = 33 then IDT_INTR_GATE else IDT_TRAP_GATE)
      (if v = 0x80 then USR_PVL else KNL_PVL)"
    using assms lib_idt_init_nth [OF assms, of h]
    by (auto simp: irq_init_def syscall_init_def setgate_gate_of boot_isr_def nth_list_update)
  then show ?thesis by (simp add: gate_target_of) (simp add: gate_of_def)
qed

theorem idt_init_dispatch_witness:
  "gate_target (idt_init (\<lambda>i. if i = page_fault then 0xFFFF800000123456 else 0) (replicate 256 (gate_of 0 0 0)) ! 14) =
    0xFFFF800000123456"
  using idt_init_dispatch [of "replicate 256 (gate_of 0 0 0)" 14 "\<lambda>i. if i = page_fault then 0xFFFF800000123456 else 0"]
  by (simp add: boot_isr_def exception_isr_def exception_isrs_def)

section \<open>Routing of interrupts\<close>

text \<open>An entry of the redirection table: its vector, whether it is level-triggered, and the processor.\<close>

definition route :: "io_apic \<Rightarrow> nat \<Rightarrow> (byte \<times> bool \<times> byte) option" where
  "route io i =
    (let lo = io_data io (REG_TABLE + 2 * of_nat i); hi = io_data io (REG_TABLE + 2 * of_nat i + 1)
     in if bit lo 16 then None else Some (ucast lo, bit lo 15, ucast (drop_bit 24 hi)))"

lemma io_data_write [simp]: "io_data (ioapic_write r v io) = (io_data io)(r := v)"
  by (simp add: ioapic_write_def)

lemma table_regs:
  assumes "i < 1000" "j < 1000"
  shows "(0x10 + 2 * of_nat i = (0x10 + 2 * of_nat j :: cint)) = (i = j)" "0x10 + 2 * of_nat i + 1 \<noteq> (0x10 + 2 * of_nat j :: cint)"
    "0x10 + 2 * of_nat i \<noteq> (0x10 + 2 * of_nat j + 1 :: cint)"
    "(0x10 + 2 * of_nat i + 1 = (0x10 + 2 * of_nat j + 1 :: cint)) = (i = j)"
proof -
  have u: "unat (0x10 + 2 * of_nat k :: cint) = 16 + 2 * k" "unat (0x10 + 2 * of_nat k + 1 :: cint) = 17 + 2 * k" if "k < 1000" for k
    using that by (simp_all add: unat_word_ariths unat_of_nat take_bit_nat_eq_self)
  show "(0x10 + 2 * of_nat i = (0x10 + 2 * of_nat j :: cint)) = (i = j)" "0x10 + 2 * of_nat i + 1 \<noteq> (0x10 + 2 * of_nat j :: cint)"
    "0x10 + 2 * of_nat i \<noteq> (0x10 + 2 * of_nat j + 1 :: cint)"
    "(0x10 + 2 * of_nat i + 1 = (0x10 + 2 * of_nat j + 1 :: cint)) = (i = j)"
    unfolding word_unat_eq_iff u [OF assms(1)] u [OF assms(2)] by presburger+
qed

definition enable_word :: "nat \<Rightarrow> cint" where
  "enable_word irq = IRQ_OFFSET + (of_nat irq OR (if of_nat irq > (16 :: cint) then 0xA000 else 0))"

lemma enable_word_nat:
  assumes "irq < 120"
  shows "enable_word irq = of_nat (32 + irq + (if 16 < irq then 0xA000 else 0))"
proof -
  have u: "unat (of_nat irq :: cint) = irq" using assms by (simp add: unat_of_nat take_bit_nat_eq_self)
  have "\<not> bit (of_nat irq :: cint) n \<or> \<not> bit (0xA000 :: cint) n" for n
  proof (cases "n < 7")
    case True
    then have "n \<in> {0, 1, 2, 3, 4, 5, 6}" by auto
    then show ?thesis by auto
  next
    case False
    then have "(2 :: nat) ^ 7 \<le> 2 ^ n" by (intro power_increasing) auto
    then have "irq < 2 ^ n" using assms by simp
    then have "\<not> bit irq n" by (simp add: bit_iff_odd)
    then show ?thesis by (simp add: bit_of_nat_iff)
  qed
  then have "of_nat irq + (0xA000 :: cint) = of_nat irq OR 0xA000" by (rule disjunctive_add)
  moreover have "((16 :: cint) < of_nat irq) = (16 < irq)" using u by (simp add: word_less_nat_alt)
  ultimately show ?thesis by (simp add: enable_word_def)
qed

lemma ucast_byte_of_nat: "ucast (of_nat n :: cint) = (of_nat n :: byte)"
  by (rule bit_word_eqI) (auto simp: bit_simps)

lemma enable_words:
  assumes "irq < 120"
  shows "\<not> bit (enable_word irq) 16" "ucast (enable_word irq) = (of_nat (32 + irq) :: byte)" "bit (enable_word irq) 15 = (16 < irq)"
proof -
  have 1: "(irq + 40992) div 65536 = 0" "(irq + 40992) div 32768 = 1" using assms by (intro div_nat_eqI; simp)+
  then have 2: "bit (irq + 40992) 15" "\<not> bit (irq + 40992) 16" "\<not> bit (irq + 32) 15" "\<not> bit (irq + 32) 16"
    using assms by (simp_all add: bit_iff_odd)
  show "\<not> bit (enable_word irq) 16" "bit (enable_word irq) 15 = (16 < irq)"
    using 2 by (simp_all only: enable_word_nat [OF assms] bit_of_nat_iff) (simp_all add: add.commute)
  show "ucast (enable_word irq) = (of_nat (32 + irq) :: byte)"
    using assms by (simp only: enable_word_nat ucast_byte_of_nat) simp
qed

lemma route_enable:
  assumes "irq < 120" "i < 120"
  shows "route (ioapic_enable (of_nat irq) cpu io) i =
    (if i = irq then Some (of_nat (32 + irq), 16 < irq, ucast cpu) else route io i)"
proof -
  have e: "ioapic_enable (of_nat irq) cpu io =
      ioapic_write (0x10 + 2 * of_nat irq + 1) (ucast (push_bit 24 cpu)) (ioapic_write (0x10 + 2 * of_nat irq) (enable_word irq) io)"
    by (simp add: ioapic_enable_def ioapic_enable_with_def enable_word_def push_bit_eq_mult)
  have "ucast (drop_bit 24 (ucast (push_bit 24 cpu) :: cint)) = (ucast cpu :: byte)"
    by (rule bit_word_eqI) (auto simp: bit_simps)
  then show ?thesis
    using enable_words [OF assms(1)] table_regs [of i irq] table_regs [of irq irq] assms
    by (simp add: e route_def Let_def)
qed

lemma init_masked:
  "i < n \<Longrightarrow> n < 1000 \<Longrightarrow> bit (io_data (fold (\<lambda>i. ioapic_write (REG_TABLE + 2 * of_nat i + 1) 0 \<circ>
      ioapic_write (REG_TABLE + 2 * of_nat i) (INT_DISABLED OR (IRQ_OFFSET + of_nat i))) [0..<n] io) (REG_TABLE + 2 * of_nat i)) 16"
proof (induction n)
  case (Suc n)
  then show ?case using table_regs [of i n] by (cases "i = n") (simp_all add: bit_or_iff)
qed simp

lemma init_routes:
  assumes "ioapic_init va io = Inr io'" "i \<le> unat (drop_bit 16 (io_data io REG_VER) AND 0xFF)"
  shows "route io' i = None"
proof -
  have "drop_bit 16 (io_data io 1) AND 0xFF \<le> 0xFF" by (rule word_and_le1)
  then have "unat (drop_bit 16 (io_data io 1) AND 0xFF) < 256" by (simp add: word_le_nat_alt)
  with init_masked [of i "Suc (unat (drop_bit 16 (io_data io 1) AND 0xFF))"] assms show ?thesis
    by (auto simp: ioapic_init_def ioapic_read_def route_def Let_def simp del: upt_Suc split: if_splits)
qed

text \<open>
  The I/O APIC routes what has been asked for: after \<open>ioapic_init\<close> and any sequence of \<open>ioapic_enable\<close>, a line
  is delivered to the processor of the last request for it, as vector 32 plus its number, and a line nobody
  asked for is masked.  Lines above 16 are level-triggered.
\<close>

lemma ioapic_routing:
  assumes "ioapic_init va io = Inr io0" "i \<le> unat (drop_bit 16 (io_data io REG_VER) AND 0xFF)" "i < 120"
    and "\<forall>(irq, cpu) \<in> set reqs. irq < 120"
  shows "route (fold (\<lambda>(irq, cpu). ioapic_enable (of_nat irq) cpu) reqs io0) i =
    map_option (\<lambda>cpu. (of_nat (32 + i), 16 < i, ucast cpu)) (map_of (rev reqs) i)"
  using assms(4)
proof (induction reqs rule: rev_induct)
  case Nil
  then show ?case using init_routes [OF assms(1,2)] by simp
next
  case (snoc r reqs)
  then show ?case by (cases r) (simp add: route_enable assms(3))
qed

lemma ioapic_routing_witness:
  "\<exists>io0. ioapic_init 0xFEC00000 \<lparr>io_reg = 0, io_data = (\<lambda>_. 0)(1 := 0x170011)\<rparr> = Inr io0 \<and>
    route (ioapic_enable 18 3 (ioapic_enable 18 2 io0)) 18 = Some (50, True, 3)"
proof -
  let ?io = "\<lparr>io_reg = 0, io_data = (\<lambda>_. 0)(1 := 0x170011)\<rparr>"
  obtain io0 where "ioapic_init 0xFEC00000 ?io = Inr io0" by (simp add: ioapic_init_def ioapic_read_def)
  with ioapic_routing [OF this, of 18 "[(18, 2), (18, 3)]"] show ?thesis by (simp add: drop_bit_eq_div)
qed

section \<open>The masks of the 8259 controllers\<close>

text \<open>What was written last to the mask ports is the mask the driver remembers.\<close>

definition masks_written :: "i8259 \<Rightarrow> bool" where
  "masks_written s \<longleftrightarrow> map_of (pic_ports s) INT_CTLMASK = Some (ucast (i8259_mask s)) \<and>
    map_of (pic_ports s) INT2_CTLMASK = Some (ucast (drop_bit 8 (i8259_mask s)))"

lemma masks_written_init: "masks_written (i8259_init s) \<and> i8259_mask (i8259_init s) = 0xFF"
  by (simp add: masks_written_def i8259_init_def pic_out_def)

lemma masks_written_setmask: "masks_written s \<Longrightarrow> masks_written (i8259_setmask m s) \<and> i8259_mask (i8259_setmask m s) = m"
  by (auto simp: masks_written_def i8259_setmask_def pic_out_def)

lemma masks_written_step:
  "masks_written s \<Longrightarrow> masks_written (i8259_enable irq s)" "masks_written s \<Longrightarrow> masks_written (i8259_disable irq s)"
  "masks_written s \<Longrightarrow> masks_written (i8259_eoi s)"
  by (simp_all add: i8259_enable_def i8259_disable_def masks_written_setmask)
    (simp add: i8259_eoi_def masks_written_def pic_out_def)

text \<open>\<open>MASK_ALL\<close> has only eight bits, so the second controller starts with all its lines unmasked.\<close>

lemma second_controller_unmasked: "map_of (pic_ports (i8259_init s)) INT2_CTLMASK = Some 0"
  using masks_written_init [of s] by (simp add: masks_written_def drop_bit_eq_div)

section \<open>The segments\<close>

text \<open>The kernel's selectors find a present 64-bit code segment and a present writable data segment.\<close>

lemma gdt_selectors:
  "load64 (create_default_gdt g m) (g + KNL_CSEL) = 0x0020980000000000"
  "load64 (create_default_gdt g m) (g + KNL_DSEL) = 0x0000920000000000"
  by (simp_all add: create_default_gdt_def create_new_gdt_def code64_def data64_def layout_simps push_bit_eq_mult)

section \<open>The period of the timer\<close>

text \<open>The local APIC counts the bus clock divided by what \<open>LAPIC_DCR_TIMER\<close> says from the initial count to 0.\<close>

definition bus_divider :: "cint \<Rightarrow> nat" where
  "bus_divider dcr = (if dcr = LAPIC_DCRT_DIV1 then 1 else if dcr = LAPIC_DCRT_DIV16 then 16 else 0)"

definition timer_fires :: "lapic \<Rightarrow> (byte \<times> nat) option" where
  "timer_fires l =
    (if bit (l LAPIC_LVTT) 16 \<or> \<not> bit (l LAPIC_LVTT) 17 \<or> l LAPIC_ICR_TIMER = 0 then None
     else Some (ucast (l LAPIC_LVTT), unat (l LAPIC_ICR_TIMER) * bus_divider (l LAPIC_DCR_TIMER)))"

text \<open>
  The period of the timer of the threads: with \<open>freq\<close> the frequency of the bus, \<open>thread_set_timer_freq (ms)\<close>
  makes the timer interrupt, vector 32, come every 16 times \<open>ms\<close> milliseconds, because the counter runs at a sixteenth
  of the bus clock and the initial count is computed for the bus clock.
\<close>

lemma timer_period:
  assumes "head s \<noteq> 0" "last_thread s \<noteq> 0" "length (idt s) = 256" "0 < unat freq div 1000 * unat ms"
    "unat freq div 1000 * unat ms < 2 ^ 32"
  shows "\<exists>s'. thread_set_timer_freq h freq ms s = Inr s' \<and> interrupts_on s' \<and>
    timer_fires (lapic s') = Some (32, 16 * (unat freq div 1000 * unat ms)) \<and> gate_target (idt s' ! 32) = h irq_handler"
proof -
  have "1 \<le> unat ms" using assms(4) by (cases "unat ms") simp_all
  then have ms: "\<not> ms < 1" by (simp add: word_less_nat_alt)
  have "unat freq div 1000 < 2 ^ 64" using le_less_trans [OF div_le_dividend unat_addr_bound(1)] by simp
  then have "unat (freq div 1000 * ms) = unat freq div 1000 * unat ms"
    using assms(5) by (simp add: unat_word_ariths unat_div)
  then have c: "unat (ucast (freq div 1000 * ms) :: cint) = unat freq div 1000 * unat ms"
    using assms(5) by (simp add: unsigned_ucast_eq take_bit_nat_eq_self)
  then have "(ucast (freq div 1000 * ms) :: cint) \<noteq> 0" using assms(4) by (metis less_irrefl unat_0)
  then show ?thesis
    using assms(1-3) ms c
    by (simp add: thread_set_timer_freq_def init_timer_def timer_on_def timer_off_def add_irq_def lapic_write_def
        timer_fires_def bus_divider_def setgate_gate_of gate_target_of)
qed

definition demo_timed :: timed where
  "demo_timed = \<lparr>mem = (\<lambda>_. 0), head = 0x1000, last_thread = 0x1000, current = 0x1000, scheduler = None,
     lapic = (\<lambda>_. 0), idt = replicate 256 (gate_of 0 0 0), idt_initialized = True, gdt_initialized = True,
     gdt = 0x2000, interrupts_on = True\<rparr>"

lemma timer_period_witness:
  "\<exists>s'. thread_set_timer_freq (\<lambda>_. 0x400000) 100000000 10 demo_timed = Inr s' \<and>
    timer_fires (lapic s') = Some (32, 16000000)"
  using timer_period [of demo_timed 100000000 10 "\<lambda>_. 0x400000"] by (auto simp: demo_timed_def)

section \<open>A scheduler of the user\<close>

text \<open>\<open>my_scheduler\<close> of \<open>src/bin/login.c\<close>.\<close>

definition my_scheduler :: "'a threads_scheme \<Rightarrow> addr \<times> 'a threads_scheme" where
  "my_scheduler s = (if nxt (mem s) (current s) \<noteq> 0 then nxt (mem s) (current s) else head s, s)"

primrec timer_ticks ::
    "nat \<Rightarrow> (addr \<Rightarrow> 'a threads_scheme \<Rightarrow> addr \<times> 'a threads_scheme) \<Rightarrow> (nat \<Rightarrow> addr \<times> regs) \<Rightarrow> 'a threads_scheme \<Rightarrow>
     regs option list \<times> 'a threads_scheme" where
  "timer_ticks 0 user frames s = ([], s)"
| "timer_ticks (Suc n) user frames s =
    (let (rs, s1) = timer_ticks n user frames s;
         (r, s2) = thread_switch_handler user (fst (frames n)) (snd (frames n)) s1
     in (rs @ [r], s2))"

lemma handler_scheduler: "scheduler s = None \<Longrightarrow> scheduler (snd (thread_switch_handler user p r s)) = None"
  by (simp add: thread_switch_handler_def default_scheduler_def Let_def case_prod_unfold)

lemma ticks_scheduler: "scheduler s = None \<Longrightarrow> scheduler (snd (timer_ticks n user frames s)) = None"
  by (induction n) (simp_all add: Let_def case_prod_unfold handler_scheduler)

lemma handler_my_scheduler:
  "scheduler s = None \<Longrightarrow> thread_switch_handler (\<lambda>_. my_scheduler) p r (s\<lparr>scheduler := Some f\<rparr>) =
    apsnd (scheduler_update (\<lambda>_. Some f)) (thread_switch_handler user p r s)"
  by (simp add: thread_switch_handler_def my_scheduler_def default_scheduler_def Let_def case_prod_unfold)

text \<open>
  The scheduler that the login program installs is equivalent to the default one, although it leaves \<open>current\<close>
  alone: after any number of timer interrupts the registers loaded and the whole state are the same.
\<close>

lemma my_scheduler_equivalent:
  "timer_ticks n (\<lambda>_. my_scheduler) frames (s\<lparr>scheduler := Some f\<rparr>) =
    apsnd (scheduler_update (\<lambda>_. Some f)) (timer_ticks n user frames (s\<lparr>scheduler := None\<rparr>))"
proof (induction n)
  case (Suc n)
  then show ?case
    using ticks_scheduler [of "s\<lparr>scheduler := None\<rparr>" n user frames]
    by (simp add: Let_def case_prod_unfold handler_my_scheduler [of _ _ _ f user])
qed simp

end
