(* ===== verification/Process_Manager.thy ===== *)
theory Process_Manager
  imports Process_State
begin

text \<open>
  The requests of the process manager (\<open>src/vms/pm/main.c\<close>): \<open>local_fork\<close>, \<open>load_elf\<close>,
  \<open>local_exec\<close>, \<open>close_channel\<close>, \<open>local_exit\<close>, \<open>local_waitpid\<close> and one turn of the loop of \<open>vm_main\<close>.

  Where a handler waits for an answer of another program, \<open>world\<close> is what the rest of the system does
  to memory in the meantime; the wait itself is the receive operation on the memory that results,
  which is \<open>Blocked\<close> if the answer is not there.  Replies that are local variables of the handler are
  passed as bytes.
\<close>

section \<open>Replies\<close>

abbreviation (input) "FORK_IPC \<equiv> 1"
abbreviation (input) "EXEC_IPC \<equiv> 2"
abbreviation (input) "EXIT_IPC \<equiv> 3"
abbreviation (input) "WAITPID_IPC \<equiv> 4"
abbreviation (input) "CHANNEL_IPC \<equiv> 5"
abbreviation (input) "CHANNEL_CLOSE_IPC \<equiv> 6"
abbreviation (input) "LOAD_IPC \<equiv> 4"
abbreviation (input) "TYPE_FILE \<equiv> 1"
abbreviation (input) "TYPE_CHAR \<equiv> 2"

text \<open>The bytes of a value in memory order.\<close>

definition le_bytes :: "nat \<Rightarrow> 'a::len word \<Rightarrow> byte list" where
  "le_bytes n w = map (\<lambda>i. ucast (drop_bit (8 * i) w)) [0..<n]"

text \<open>\<open>msg_reply\<close> of a value that is not in the modelled memory.\<close>

definition msg_reply_bytes ::
    "cpu_info \<Rightarrow> cint \<Rightarrow> cint \<Rightarrow> cint \<Rightarrow> byte list \<Rightarrow> memory \<Rightarrow> memory res" where
  "msg_reply_bytes c sender dest num bs m =
    (if \<not> check_server c then Inl (Panic ''Only Servers can use msg_reply!'')
     else
       (let id = ucast (cpuid c) :: cint;
            inbox = msg_input c - scast (SZ_4KB * id) + scast (SZ_4KB * dest);
            p = inbox + MSG_SIZE * scast sender
        in Inr (store64 (put_bytes (store64 m p (scast sender)) (message_data p) bs) (p + 8) (scast num))))"

definition reply :: "cint \<Rightarrow> cint \<Rightarrow> cint \<Rightarrow> byte list \<Rightarrow> 'a sys_scheme \<Rightarrow> 'a sys_scheme res" where
  "reply sender dest num bs s =
    bindr (msg_reply_bytes (self s) sender dest num bs (mem s)) (\<lambda>m. Inr (s\<lparr>mem := m\<rparr>))"

section \<open>Fork\<close>

definition fork_copy :: "addr \<Rightarrow> addr \<Rightarrow> 'a alloc_scheme \<Rightarrow> (addr \<times> 'a alloc_scheme) res" where
  "fork_copy paddr sz s =
    bindr (alloc_mem_pages (pages sz USER_VMS_PAGE_SIZE) s) (\<lambda>(p, s1).
      Inr (p, s1\<lparr>mem := memcpy p paddr sz (mem s1)\<rparr>))"

definition fork_share :: "addr \<Rightarrow> addr \<Rightarrow> 'a alloc_scheme \<Rightarrow> (addr \<times> 'a alloc_scheme) res" where
  "fork_share paddr sz s =
    (if reallocable paddr s then realloc_mem_block paddr s else fork_copy paddr sz s)"

abbreviation vmi :: "'a sys_scheme \<Rightarrow> nat \<Rightarrow> vm_proc" where
  "vmi s i \<equiv> vm_info (cpus s i)"

text \<open>The sections of the child: code and read-only data are shared where that is possible.\<close>

definition fork_sections :: "nat \<Rightarrow> nat \<Rightarrow> 'a pm_scheme \<Rightarrow> 'a pm_scheme res" where
  "fork_sections parent child s =
    (let s1 = upd_vm child (\<lambda>v. v\<lparr>vm_code_vaddr := vm_code_vaddr (vmi s parent), vm_code_size := vm_code_size (vmi s parent)\<rparr>) s in
     bindr (fork_share (vm_code_paddr (vmi s1 parent)) (vm_code_size (vmi s1 parent)) s1) (\<lambda>(code, s2).
     let s3 = upd_vm child (\<lambda>v. v\<lparr>vm_code_paddr := code\<rparr>) s2 in
     bindr (fork_copy (vm_data_paddr (vmi s3 parent)) (vm_data_size (vmi s3 parent)) s3) (\<lambda>(data, s4).
     let s5 = upd_vm child (\<lambda>v. v\<lparr>vm_data_paddr := data, vm_data_vaddr := vm_data_vaddr (vmi s4 parent),
                vm_data_size := vm_data_size (vmi s4 parent), vm_rodata_vaddr := vm_rodata_vaddr (vmi s4 parent),
                vm_rodata_size := vm_rodata_size (vmi s4 parent)\<rparr>) s4 in
     bindr (fork_share (vm_rodata_paddr (vmi s5 parent)) (vm_rodata_size (vmi s5 parent)) s5) (\<lambda>(rodata, s6).
     let s7 = upd_vm child (\<lambda>v. v\<lparr>vm_rodata_paddr := rodata\<rparr>) s6 in
     bindr (fork_copy (vm_bss_paddr (vmi s7 parent)) (vm_bss_size (vmi s7 parent)) s7) (\<lambda>(bss, s8).
     let s9 = upd_vm child (\<lambda>v. v\<lparr>vm_bss_paddr := bss, vm_bss_vaddr := vm_bss_vaddr (vmi s8 parent),
                vm_bss_size := vm_bss_size (vmi s8 parent)\<rparr>) s8 in
     bindr (alloc_mem_pages (pages (vm_stack_size (vmi s9 parent)) USER_VMS_PAGE_SIZE) s9) (\<lambda>(stack, s10).
       Inr (upd_vm child (\<lambda>v. v\<lparr>vm_stack_paddr := stack, vm_stack_vaddr := vm_stack_vaddr (vmi s10 parent),
              vm_stack_size := vm_stack_size (vmi s10 parent)\<rparr>) s10)))))))"

text \<open>The used part of the stack, from the stack pointer to the end.\<close>

definition fork_stack :: "nat \<Rightarrow> nat \<Rightarrow> addr \<Rightarrow> 'a sys_scheme \<Rightarrow> 'a sys_scheme res" where
  "fork_stack parent child rsp s =
    bindr (virt2phys (cpus s child) rsp) (\<lambda>child_rsp.
    bindr (virt2phys (cpus s parent) rsp) (\<lambda>parent_rsp.
      if child_rsp = 0 then Inl (Panic ''fork fatal: virt2phys failed for child stack'')
      else if parent_rsp = 0 then Inl (Panic ''fork fatal: virt2phys failed for parent stack'')
      else Inr (s\<lparr>mem := memcpy child_rsp parent_rsp
             (vm_stack_vaddr (vmi s parent) + vm_stack_size (vmi s parent) - rsp) (mem s)\<rparr>)))"

text \<open>Tables of file descriptors and channels: \<open>MAX_FD * 24\<close> and \<open>MAX_CHANNELS * 8\<close> bytes.\<close>

definition fork_tables :: "nat \<Rightarrow> 'a pm_scheme \<Rightarrow> 'a pm_scheme res" where
  "fork_tables child s =
    bindr (if \<not> is_driver (ucast (cpuid (cpus s child))) then
             bindr (alloc_clean_mem_pages (pages 768 USER_VMS_PAGE_SIZE) s)
               (\<lambda>(p, s1). Inr (upd_vm child (\<lambda>v. v\<lparr>vm_fds := p\<rparr>) s1))
           else Inr s) (\<lambda>s1.
      if is_driver (ucast (cpuid (cpus s1 child))) then
        bindr (alloc_clean_mem_pages (pages 256 USER_VMS_PAGE_SIZE) s1)
          (\<lambda>(p, s2). Inr (upd_vm child (\<lambda>v. v\<lparr>vm_channels := p\<rparr>) s2))
      else Inr s1)"

text \<open>A character device of the parent gets a channel of its own in the child.\<close>

definition fork_fd :: "nat \<Rightarrow> nat \<Rightarrow> 'a pm_scheme \<Rightarrow> 'a pm_scheme res" where
  "fork_fd child i s =
    (let p = fd_addr (vm_fds (vmi s child)) i; d = get_fd (mem s) p in
     if fd_type d = TYPE_CHAR then
       bindr (local_channel (ucast (cpuid (cpus s child))) (fd_dst d) s)
         (\<lambda>(channel, s1). Inr (s1\<lparr>mem := store64 (mem s1) (fd_addr (vm_fds (vmi s1 child)) i + 16) channel\<rparr>))
     else Inr s)"

definition fork_files :: "nat \<Rightarrow> nat \<Rightarrow> 'a pm_scheme \<Rightarrow> 'a pm_scheme res" where
  "fork_files parent child s =
    (if vm_fds (vmi s child) \<noteq> 0 \<and> vm_fds (vmi s parent) \<noteq> 0 then
       for_loop MAX_FD 0 (fork_fd child)
         (s\<lparr>mem := memcpy (vm_fds (vmi s child)) (vm_fds (vmi s parent)) 768 (mem s)\<rparr>)
     else Inr s)"

text \<open>\<open>struct fork_ipc\<close>: the address of the variable \<open>cpuinfo\<close>, then that of the register array.\<close>

definition local_fork :: "nat option \<Rightarrow> addr \<Rightarrow> 'a pm_scheme \<Rightarrow> (cint \<times> 'a pm_scheme) res" where
  "local_fork info fork_args s =
    (case info of
       None \<Rightarrow> Inr (- 1, s)
     | Some i \<Rightarrow>
        bindr (find_free_vm s) (\<lambda>free.
          case free of
            None \<Rightarrow> Inr (- 1, s)
          | Some child \<Rightarrow>
             (let parent_id = ucast (cpuid (cpus s i)) :: addr; s0 = upd_has_vm child True s in
              deref (get_cpu_info parent_id) (\<lambda>parent.
                let s1 = upd_vm child (\<lambda>v. v\<lparr>vm_parent := ucast parent_id, vm_state := RUNNING,
                      vm_start_vaddr := vm_start_vaddr (vmi s0 parent), vm_start_paddr := vm_start_paddr (vmi s0 parent),
                      vm_end_vaddr := vm_end_vaddr (vmi s0 parent), vm_end_paddr := vm_end_paddr (vmi s0 parent)\<rparr>) s0 in
                bindr (fork_sections parent child s1) (\<lambda>s2.
                let regs_paddr = load64 (mem s2) (fork_args + 8) in
                bindr (fork_stack parent child (r_rsp (get_regs (mem s2) regs_paddr)) s2) (\<lambda>s3.
                bindr (fork_tables child s3) (\<lambda>s4.
                bindr (ept_pmap child s4) (\<lambda>s5.
                bindr (fork_files parent child s5) (\<lambda>s6.
                let s7 = upd_vm child (\<lambda>v. v\<lparr>vm_regs := get_regs (mem s6) (load64 (mem s6) (fork_args + 8))\<rparr>) s6 in
                bindr (virt2phys (cpus s7 parent) (load64 (mem s7) fork_args)) (\<lambda>p.
                let off = p - vm_bss_paddr (vmi s7 parent);
                    s8 = s7\<lparr>mem := store64 (mem s7) (vm_bss_paddr (vmi s7 child) + off) (cpu_info_addr child s7)\<rparr>;
                    s9 = upd_vm child (\<lambda>v. v\<lparr>vm_regs := (vm_regs v)\<lparr>r_rax := 0\<rparr>\<rparr>) s8
                in Inr (ucast (cpuid (cpus s9 child)), s9)))))))))))"


section \<open>Exec\<close>

text \<open>
  Section \<open>k\<close> of the program: 0 is code, 1 data, 2 read-only data.  \<open>ph\<close> is the address of the
  program headers, 56 bytes each.
\<close>

definition load_section :: "nat \<Rightarrow> addr \<Rightarrow> addr \<Rightarrow> nat \<Rightarrow> 'a pm_scheme \<Rightarrow> 'a pm_scheme res" where
  "load_section i elf ph k s =
    (let h = get_phdr (mem s) (ph + of_nat (56 * k)); src = elf + p_offset h; sz = p_memsz h in
     bindr (if sz > 0 then alloc_mem_pages (pages sz USER_VMS_PAGE_SIZE) s else Inr (0, s)) (\<lambda>(dst, s1).
     bindr (if k = 0 then
              (if sz = 0 then Inl (Panic ''VM without code section!'')
               else Inr (upd_vm i (\<lambda>v. v\<lparr>vm_start_paddr := dst, vm_code_vaddr := p_vaddr h, vm_code_paddr := dst,
                      vm_code_size := sz, vm_regs := (vm_regs v)\<lparr>r_rip := vm_start_vaddr v\<rparr>\<rparr>) s1))
            else if k = 1 then
              Inr (upd_vm i (\<lambda>v. v\<lparr>vm_data_vaddr := p_vaddr h, vm_data_paddr := (if sz > 0 then dst else 0),
                     vm_data_size := sz\<rparr>) s1)
            else if k = 2 then
              Inr (upd_vm i (\<lambda>v. v\<lparr>vm_rodata_vaddr := p_vaddr h, vm_rodata_paddr := (if sz > 0 then dst else 0),
                     vm_rodata_size := sz\<rparr>) s1)
            else Inl (Panic ''Unexpected VM ELF Header!'')) (\<lambda>s2.
       Inr (if sz > 0 then s2\<lparr>mem := memcpy dst src sz (mem s2)\<rparr> else s2))))"

definition load_bss :: "nat \<Rightarrow> addr \<Rightarrow> 'a pm_scheme \<Rightarrow> 'a pm_scheme res" where
  "load_bss i p s =
    (let h = get_phdr (mem s) p; s1 = upd_vm i (\<lambda>v. v\<lparr>vm_bss_vaddr := p_vaddr h\<rparr>) s in
     if p_memsz h > 0 then
       bindr (alloc_mem_pages (pages (p_memsz h) USER_VMS_PAGE_SIZE) s1) (\<lambda>(bss, s2).
         Inr ((upd_vm i (\<lambda>v. v\<lparr>vm_bss_paddr := bss, vm_bss_size := p_memsz h\<rparr>) s2)
                \<lparr>mem := memset bss 0 (p_memsz h) (mem s2)\<rparr>))
     else Inr s1)"

definition load_stack :: "nat \<Rightarrow> addr \<Rightarrow> 'a pm_scheme \<Rightarrow> 'a pm_scheme res" where
  "load_stack i p s =
    (let h = get_phdr (mem s) p in
     bindr (alloc_mem_pages (pages SZ_2MB USER_VMS_PAGE_SIZE) s) (\<lambda>(stack, s1).
       let stack_vaddr = ALIGN (p_vaddr h + p_memsz h) USER_VMS_PAGE_SIZE;
           vm_size = stack + SZ_2MB - vm_start_paddr (vmi s1 i)
       in Inr (upd_vm i (\<lambda>v. v\<lparr>vm_stack_vaddr := stack_vaddr, vm_stack_size := SZ_2MB, vm_stack_paddr := stack,
              vm_regs := (vm_regs v)\<lparr>r_rsp := stack_vaddr + SZ_2MB, r_rflags := 2\<rparr>,
              vm_end_vaddr := vm_start_vaddr v + vm_size, vm_end_paddr := vm_start_paddr v + vm_size\<rparr>) s1)))"

definition free_block :: "addr \<Rightarrow> 'a alloc_scheme \<Rightarrow> 'a alloc_scheme res" where
  "free_block p s = (if p \<noteq> 0 then free_mem_pages p s else Inr s)"

text \<open>The memory of a program: its five blocks, its page tables and its nested page tables.\<close>

definition free_image :: "vm_proc \<Rightarrow> 'a alloc_scheme \<Rightarrow> 'a alloc_scheme res" where
  "free_image old s =
    bindr (free_block (vm_code_paddr old) s) (\<lambda>s1.
    bindr (free_block (vm_data_paddr old) s1) (\<lambda>s2.
    bindr (free_block (vm_rodata_paddr old) s2) (\<lambda>s3.
    bindr (free_block (vm_bss_paddr old) s3) (\<lambda>s4.
    bindr (free_block (vm_stack_paddr old) s4) (\<lambda>s5.
    bindr (free_page_tables (vm_page_tables old) s5)
      (free_page_tables (vm_ept old)))))))"

text \<open>
  The check of the end address at the end of the code compares a value with itself and is left out.
\<close>

definition load_elf :: "nat \<Rightarrow> addr \<Rightarrow> 'a pm_scheme \<Rightarrow> 'a pm_scheme res" where
  "load_elf i elf s =
    (let old = vmi s i in
     if e_phnum (mem s) elf \<noteq> 4 then Inl (Panic ''Unexpected VM Header!'')
     else
       (let ph = elf + e_phoff (mem s) elf;
            s1 = upd_vm i (\<lambda>v. v\<lparr>vm_start_vaddr := p_vaddr (get_phdr (mem s) ph)\<rparr>) s in
        bindr (for_loop 3 0 (load_section i elf ph) s1) (\<lambda>s2.
        bindr (load_bss i (ph + 168) s2) (\<lambda>s3.
        bindr (load_stack i (ph + 168) s3)
          (free_image old)))))"

text \<open>The arguments are saved in \<open>arg_vector\<close>: \<open>n\<close> more from number \<open>i\<close> on.\<close>

primrec save_args :: "nat \<Rightarrow> nat \<Rightarrow> nat \<Rightarrow> addr \<Rightarrow> 'a pm_scheme \<Rightarrow> (nat \<times> 'a pm_scheme) res" where
  "save_args 0 i cpu exec_args s = Inr (i, s)"
| "save_args (Suc n) i cpu exec_args s =
    (let argv = load64 (mem s) (exec_args + 32); arg = load64 (mem s) (argv + of_nat (8 * (i - 1))) in
     if argv = 0 \<or> arg = 0 then Inr (i, s)
     else
       bindr (virt2phys (cpus s cpu) arg) (\<lambda>p.
         case strcpy (arg_vector s + of_nat (MAX_ARGV_LEN * i)) p (mem s) of
           None \<Rightarrow> Inl Blocked
         | Some m \<Rightarrow> save_args n (Suc i) cpu exec_args (s\<lparr>mem := m\<rparr>)))"

text \<open>They are pushed on the new stack, \<open>n\<close> more from number \<open>i\<close> on, and their addresses noted.\<close>

primrec push_args :: "nat \<Rightarrow> nat \<Rightarrow> addr \<Rightarrow> addr \<Rightarrow> 'a pm_scheme \<Rightarrow> (addr \<times> addr \<times> 'a pm_scheme) res" where
  "push_args 0 i phys virt s = Inr (phys, virt, s)"
| "push_args (Suc n) i phys virt s =
    (let arg = arg_vector s + of_nat (MAX_ARGV_LEN * i) in
     case strlen arg (mem s) of
       None \<Rightarrow> Inl Blocked
     | Some len \<Rightarrow>
        (let phys' = phys - scast (len + 1); virt' = virt - scast (len + 1) in
         case strcpy phys' arg (store64 (mem s) (argv_ptr s + of_nat (8 * i)) virt') of
           None \<Rightarrow> Inl Blocked
         | Some m \<Rightarrow> push_args n (Suc i) phys' virt' (s\<lparr>mem := m\<rparr>)))"

primrec store_argv :: "nat \<Rightarrow> addr \<Rightarrow> addr \<Rightarrow> memory \<Rightarrow> memory" where
  "store_argv 0 dst src m = m"
| "store_argv (Suc n) dst src m =
    (let m1 = store_argv n dst src m in store64 m1 (dst + of_nat (8 * n)) (load64 m1 (src + of_nat (8 * n))))"

definition pass_args :: "nat \<Rightarrow> nat \<Rightarrow> 'a pm_scheme \<Rightarrow> 'a pm_scheme res" where
  "pass_args i argc s =
    (let rsp = r_rsp (vm_regs (vmi s i)) in
     bindr (virt2phys (cpus s i) rsp) (\<lambda>p.
     bindr (push_args argc 0 p rsp s) (\<lambda>(phys, virt, s1).
       let argv_virt = virt - of_nat (8 * argc);
           s2 = s1\<lparr>mem := store_argv argc (phys - of_nat (8 * argc)) (argv_ptr s1) (mem s1)\<rparr>
       in Inr (upd_vm i (\<lambda>v. v\<lparr>vm_regs := (vm_regs v)\<lparr>r_rsp := argv_virt - 8, r_rdx := cpu_info_addr i s2,
                r_rdi := of_nat argc, r_rsi := argv_virt\<rparr>\<rparr>) s2))))"

text \<open>\<open>struct exec_ipc\<close>: the path, 32 bytes, then \<open>argv\<close> and the address of the register array.\<close>

definition local_exec ::
    "(memory \<Rightarrow> memory) \<Rightarrow> nat option \<Rightarrow> addr \<Rightarrow> 'a pm_scheme \<Rightarrow> (cint \<times> 'a pm_scheme) res" where
  "local_exec world info exec_args s =
    bindr (msg_send (self s) FS_ID LOAD_IPC exec_args 8 (mem s)) (\<lambda>m1.
    bindr (msg_receive (self s) 0 FS_ID (world m1)) (\<lambda>(_, _, m2).
      let s1 = s\<lparr>mem := m2\<rparr>; elf = load64 m2 (message_data (msg_input (self s) + MSG_SIZE * FS_ID)) in
      deref info (\<lambda>i.
        if elf = 0 then
          Inr (- 1, upd_vm i (\<lambda>v. v\<lparr>vm_regs := get_regs m2 (load64 m2 (exec_args + 40))\<rparr>) s1)
        else
          (case strcpy (arg_vector s1) exec_args m2 of
             None \<Rightarrow> Inl Blocked
           | Some m3 \<Rightarrow>
              bindr (save_args (MAX_ARGV - 1) 1 i exec_args (s1\<lparr>mem := m3\<rparr>)) (\<lambda>(argc, s2).
              bindr (load_elf i elf s2) (\<lambda>s3.
              bindr (ept_pmap i s3) (\<lambda>s4.
              bindr (pass_args i argc s4) (\<lambda>s5. Inr (0, s5)))))))))"

section \<open>Exit and waitpid\<close>

definition close_channel ::
    "(memory \<Rightarrow> memory) \<Rightarrow> nat \<Rightarrow> addr \<Rightarrow> 'a pm_scheme \<Rightarrow> 'a pm_scheme res" where
  "close_channel world fd sender s =
    deref (get_cpu_info sender) (\<lambda>cpu.
      let cnl = fd_offset (get_fd (mem s) (fd_addr (vm_fds (vmi s cpu)) fd)) in
      bindr (cnl_send cnl (store64 (mem s) (channel_data cnl) 0x87654321)) (\<lambda>m1.
      bindr (cnl_receive cnl (world m1)) (\<lambda>m2.
      bindr (local_channel_close cnl (s\<lparr>mem := m2\<rparr>)) (\<lambda>s1.
        let s2 = s1\<lparr>mem := store64 (mem s1) (fd_addr (vm_fds (vmi s1 cpu)) fd + 16) 0\<rparr>;
            dst = (if fd = 0 then KBD_ID else if fd = 1 then CONSOLE_ID else JUNK_ID)
        in reply FS_ID dst CHANNEL_CLOSE_IPC (le_bytes 4 (0 :: cint)) s2))))"

definition close_fd :: "(memory \<Rightarrow> memory) \<Rightarrow> nat \<Rightarrow> nat \<Rightarrow> 'a pm_scheme \<Rightarrow> 'a pm_scheme res" where
  "close_fd world i fd s =
    (if fd_type (get_fd (mem s) (fd_addr (vm_fds (vmi s i)) fd)) = TYPE_CHAR
     then close_channel world fd (ucast (cpuid (cpus s i))) s else Inr s)"

definition close_files :: "(memory \<Rightarrow> memory) \<Rightarrow> nat \<Rightarrow> 'a pm_scheme \<Rightarrow> 'a pm_scheme res" where
  "close_files world i s =
    (if vm_fds (vmi s i) \<noteq> 0 then
       bindr (for_loop MAX_FD 0 (close_fd world i) s) (\<lambda>s1.
       bindr (free_mem_pages (vm_fds (vmi s1 i)) s1) (\<lambda>s2. Inr (upd_vm i (\<lambda>v. v\<lparr>vm_fds := 0\<rparr>) s2)))
     else Inr s)"

text \<open>The \<open>halt\<close> of the code is a fault.\<close>

definition local_exit ::
    "(memory \<Rightarrow> memory) \<Rightarrow> nat option \<Rightarrow> cint \<Rightarrow> 'a pm_scheme \<Rightarrow> 'a pm_scheme res" where
  "local_exit world info status s =
    (case info of
       None \<Rightarrow> Inl (Fault ''halt'')
     | Some i \<Rightarrow>
        bindr (free_image (vmi s i) s) (\<lambda>s1.
          case get_cpu_info (scast (vm_parent (vmi s1 i))) of
            None \<Rightarrow> Inl (Panic ''PM (local_exit): failed to get cpu information!'')
          | Some parent \<Rightarrow>
             bindr (close_files world i s1) (\<lambda>s2.
             bindr (if vm_channels (vmi s2 i) \<noteq> 0 then
                      bindr (free_mem_pages (vm_channels (vmi s2 i)) s2) (\<lambda>s3. Inr (upd_vm i (\<lambda>v. v\<lparr>vm_channels := 0\<rparr>) s3))
                    else Inr s2) (\<lambda>s4.
               if vm_state (vmi s4 parent) = WAIT_CHLD then
                 (let s5 = upd_has_vm i False s4; pid = ucast (cpuid (cpus s5 i)) :: cint
                  in reply PM_ID (ucast (cpuid (cpus s5 parent))) WAITPID_IPC (le_bytes 4 pid @ le_bytes 4 status) s5)
               else Inr (upd_vm i (\<lambda>v. v\<lparr>vm_exit_status := status\<rparr>) s4)))))"

text \<open>The first dead child of process \<open>pid\<close> among \<open>n\<close> processors from \<open>i\<close> on.\<close>

primrec find_zombie :: "nat \<Rightarrow> nat \<Rightarrow> cint \<Rightarrow> 'a sys_scheme \<Rightarrow> nat option res" where
  "find_zombie 0 i pid s = Inr None"
| "find_zombie (Suc n) i pid s =
    (case get_cpu_info (of_nat i) of
       None \<Rightarrow> Inl (Panic ''PM: Failed to get cpu information!'')
     | Some child \<Rightarrow>
        if vm_parent (vmi s child) = pid \<and> vm_state (vmi s child) = ZOMBIE then Inr (Some child)
        else find_zombie n (Suc i) pid s)"

text \<open>
  The reply is returned; \<open>stale\<close> is what the field \<open>status\<close> of the caller's structure held before.
\<close>

definition local_waitpid ::
    "nat option \<Rightarrow> cint \<Rightarrow> cint \<Rightarrow> 'a sys_scheme \<Rightarrow> (cint \<times> cint \<times> 'a sys_scheme) res" where
  "local_waitpid info wait_for stale s =
    (case info of
       None \<Rightarrow> Inl (Fault ''halt'')
     | Some i \<Rightarrow>
        if wait_for <s - 1 \<or> MAX_CPUS <s wait_for then Inr (- 1, stale, s)
        else
          (let pid = ucast (cpuid (cpus s i)) :: cint;
               wait = Inr (0, stale, upd_vm i (\<lambda>v. v\<lparr>vm_state := WAIT_CHLD\<rparr>) s);
               reap = (\<lambda>child. Inr (ucast (cpuid (cpus s child)), vm_exit_status (vmi s child), upd_has_vm child False s))
           in
           if wait_for \<noteq> - 1 then
             (case get_cpu_info (scast wait_for) of
                None \<Rightarrow> Inr (- 1, stale, s)
              | Some child \<Rightarrow>
                 if pid \<noteq> vm_parent (vmi s child) then Inr (- 1, stale, s)
                 else if vm_state (vmi s child) \<noteq> ZOMBIE then wait else reap child)
           else
             bindr (find_zombie (MAX_CPUS - ALWAYS_BUSY) ALWAYS_BUSY pid s)
               (\<lambda>r. case r of None \<Rightarrow> wait | Some child \<Rightarrow> reap child)))"

section \<open>The loop\<close>

text \<open>One request: the message at \<open>m\<close> has its sender, its number and its data.\<close>

definition pm_request ::
    "(memory \<Rightarrow> memory) \<Rightarrow> cint \<Rightarrow> addr \<Rightarrow> 'a pm_scheme \<Rightarrow> 'a pm_scheme res" where
  "pm_request world stale m s =
    (let sender = message_from (mem s) m; num = message_number (mem s) m; data = message_data m;
         info = get_cpu_info sender; to_sender = ucast sender :: cint in
     if num = FORK_IPC then
       bindr (local_fork info data s) (\<lambda>(r, s1).
       bindr (if r \<noteq> - 1 then reply PM_ID r FORK_IPC (le_bytes 4 r) s1 else Inr s1)
         (reply PM_ID to_sender FORK_IPC (le_bytes 4 r)))
     else if num = EXEC_IPC then
       bindr (local_exec world info data s) (\<lambda>(r, s1). reply PM_ID to_sender EXEC_IPC (le_bytes 4 r) s1)
     else if num = EXIT_IPC then local_exit world info (load32 (mem s) data) s
     else if num = WAITPID_IPC then
       bindr (local_waitpid info (load32 (mem s) data) stale s) (\<lambda>(pid, status, s1).
         if pid \<noteq> 0 then reply PM_ID to_sender WAITPID_IPC (le_bytes 4 pid @ le_bytes 4 status) s1 else Inr s1)
     else if num = CHANNEL_IPC then
       bindr (local_channel (load64 (mem s) data) (load64 (mem s) (data + 8)) s) (\<lambda>(channel, s1).
         reply PM_ID to_sender CHANNEL_IPC (le_bytes 8 channel) s1)
     else if num = CHANNEL_CLOSE_IPC then
       bindr (local_channel_close (load64 (mem s) data) s)
         (reply PM_ID to_sender CHANNEL_CLOSE_IPC (le_bytes 4 (0 :: cint)))
     else reply PM_ID to_sender (ucast num) (le_bytes 4 (- 1 :: cint)) s)"

text \<open>The turn of the loop, and what comes before it: every other processor is told to start.\<close>

definition pm_turn :: "(memory \<Rightarrow> memory) \<Rightarrow> cint \<Rightarrow> 'a pm_scheme \<Rightarrow> 'a pm_scheme res" where
  "pm_turn world stale s =
    bindr (msg_check (self s) (mem s)) (\<lambda>(m, mem'). pm_request world stale m (s\<lparr>mem := mem'\<rparr>))"

definition pm_start :: "'a pm_scheme \<Rightarrow> 'a pm_scheme res" where
  "pm_start s =
    bindr (pm_init s) (\<lambda>s1.
      for_loop (unat (ncpus (self s1)) - 1) 1 (\<lambda>i. reply PM_ID (of_nat i) 1 []) s1)"

end
