(* ===== verification/Process_Props.thy ===== *)
theory Process_Props
  imports Process_Manager
begin

text \<open>
  What the process manager does to the table of processes.  Mapping and allocation change memory and
  the allocator only; \<open>quiet\<close> says that a step makes no process a zombie.  As no handler ever sets the
  state \<open>ZOMBIE\<close>, \<open>waitpid\<close> never finds a dead child, whatever the order of the requests.
\<close>

section \<open>What mapping leaves alone\<close>

text \<open>
  A property \<open>Q\<close> of the state that does not depend on memory and that the allocator of page tables keeps
  is kept by the mapping routines.
\<close>

locale mem_inv =
  fixes Q :: "'a machine_scheme \<Rightarrow> bool" and alloc :: "'a machine_scheme \<Rightarrow> (addr \<times> 'a machine_scheme) res"
  assumes Q_mem: "Q s \<Longrightarrow> Q (s\<lparr>mem := m\<rparr>)"
    and Q_alloc: "alloc s = Inr (p, s') \<Longrightarrow> Q s \<Longrightarrow> Q s'"
begin

lemma ensure_table_inv: "ensure_table alloc link t i s = Inr s' \<Longrightarrow> Q s \<Longrightarrow> Q s'"
  by (auto simp: ensure_table_def Q_mem Q_alloc split: if_splits)

lemma map_page_inv: "map_page alloc link ps pml4 v leaf s = Inr s' \<Longrightarrow> Q s \<Longrightarrow> Q s'"
  by (auto simp: map_page_def Let_def Q_mem dest!: ensure_table_inv split: if_splits)

lemma map_loop_inv: "map_loop n alloc link ps pml4 attr v p s = Inr s' \<Longrightarrow> Q s \<Longrightarrow> Q s'"
  by (induction n arbitrary: v p s) (auto dest!: map_page_inv)

lemma map_region_inv: "map_region alloc link r a b p ps attr flags s = Inr (r', s') \<Longrightarrow> Q s \<Longrightarrow> Q s'"
  by (auto simp: map_region_def Q_alloc dest!: map_loop_inv split: if_splits)

lemma map_memory_inv: "map_memory alloc r a b p ps prot flags s = Inr (r', s') \<Longrightarrow> Q s \<Longrightarrow> Q s'"
  unfolding map_memory_def by (rule map_region_inv)

lemma ept_map_memory_inv: "ept_map_memory alloc r a b p ps mt prot flags s = Inr (r', s') \<Longrightarrow> Q s \<Longrightarrow> Q s'"
  unfolding ept_map_memory_def by (rule map_region_inv)

lemma ept_map_table_inv: "ept_map_table alloc prot t es = Inr es' \<Longrightarrow> Q (snd es) \<Longrightarrow> Q (snd es')"
  by (cases es, cases es') (auto simp: ept_map_table_def dest!: ept_map_memory_inv)

lemma ept_map_pde_loop:
  "for_loop n k (ept_map_pde alloc prot t) es = Inr es' \<Longrightarrow> Q (snd es) \<Longrightarrow> Q (snd es')"
  by (rule for_loop_inv [where Q = "\<lambda>es. Q (snd es)"])
    (auto simp: ept_map_pde_def Let_def dest!: ept_map_table_inv split: if_splits)

lemma ept_map_pdpe_loop:
  "for_loop n k (ept_map_pdpe alloc prot t) es = Inr es' \<Longrightarrow> Q (snd es) \<Longrightarrow> Q (snd es')"
  by (rule for_loop_inv [where Q = "\<lambda>es. Q (snd es)"])
    (auto simp: ept_map_pdpe_def Let_def dest!: ept_map_table_inv ept_map_pde_loop split: if_splits)

lemma ept_map_page_tables_inv: "ept_map_page_tables alloc ept pml4 prot s = Inr (e, s') \<Longrightarrow> Q s \<Longrightarrow> Q s'"
  by (auto simp: ept_map_page_tables_def Let_def dest!: ept_map_table_inv ept_map_pdpe_loop split: if_splits)

end

text \<open>In particular, a field \<open>g\<close> that neither depends on memory nor changes with an allocation keeps its value.\<close>

locale mem_only =
  fixes g :: "'a machine_scheme \<Rightarrow> 'g" and alloc :: "'a machine_scheme \<Rightarrow> (addr \<times> 'a machine_scheme) res"
  assumes g_mem: "g (s\<lparr>mem := m\<rparr>) = g s"
    and g_alloc: "alloc s = Inr (p, s') \<Longrightarrow> g s' = g s"

sublocale mem_only \<subseteq> each: mem_inv "\<lambda>t. g t = c" alloc for c
  by unfold_locales (auto simp: g_mem dest: g_alloc)

context mem_only
begin

lemma map_memory_keeps: "map_memory alloc r a b p ps prot flags s = Inr (r', s') \<Longrightarrow> g s' = g s"
  by (rule each.map_memory_inv) auto

lemma ept_map_memory_keeps: "ept_map_memory alloc r a b p ps mt prot flags s = Inr (r', s') \<Longrightarrow> g s' = g s"
  by (rule each.ept_map_memory_inv) auto

lemma ept_map_page_tables_keeps: "ept_map_page_tables alloc ept pml4 prot s = Inr (e, s') \<Longrightarrow> g s' = g s"
  by (rule each.ept_map_page_tables_inv) auto

end

section \<open>What the allocator leaves alone\<close>

lemma upd_node_cpus [simp]: "cpus (upd_node i f s) = cpus s"
  by (simp add: upd_node_def)

lemma alloc_loop_cpus: "alloc_loop n k b s = Inr (p, s') \<Longrightarrow> cpus s' = cpus s"
  by (induction n k b s rule: alloc_loop.induct)
    (auto simp: split_block_def Let_def split: if_splits option.splits)

lemma alloc_mem_pages_cpus: "alloc_mem_pages n s = Inr (p, s') \<Longrightarrow> cpus s' = cpus s"
  by (auto simp: alloc_mem_pages_def alloc_loop_cpus split: if_splits)

lemma alloc_clean_mem_pages_cpus: "alloc_clean_mem_pages n s = Inr (p, s') \<Longrightarrow> cpus s' = cpus s"
  by (auto simp: alloc_clean_mem_pages_def dest!: alloc_mem_pages_cpus split: if_splits)

lemma alloc_page_table_cpus: "alloc_page_table s = Inr (p, s') \<Longrightarrow> cpus s' = cpus s"
  by (auto simp: alloc_page_table_def dest!: alloc_mem_pages_cpus split: if_splits)

lemma realloc_mem_block_cpus: "realloc_mem_block p s = Inr (q, s') \<Longrightarrow> cpus s' = cpus s"
  by (auto simp: realloc_mem_block_def split: if_splits)

lemma merge_next_cpus: "merge_next b s = Inr s' \<Longrightarrow> cpus s' = cpus s"
  by (auto simp: merge_next_def Let_def split: if_splits option.splits)

lemma merge_pre_cpus: "merge_pre b s = Inr s' \<Longrightarrow> cpus s' = cpus s"
  by (auto simp: merge_pre_def Let_def split: if_splits option.splits)

lemma free_mem_pages_cpus: "free_mem_pages p s = Inr s' \<Longrightarrow> cpus s' = cpus s"
  by (auto simp: free_mem_pages_def dest!: merge_next_cpus merge_pre_cpus split: if_splits)

interpretation proc_table: mem_only cpus alloc_page_table
  by unfold_locales (auto dest: alloc_page_table_cpus)

lemmas alloc_cpus = alloc_mem_pages_cpus alloc_clean_mem_pages_cpus realloc_mem_block_cpus free_mem_pages_cpus

section \<open>No process becomes a zombie\<close>

definition no_zombie :: "'a sys_scheme \<Rightarrow> bool" where
  "no_zombie s \<longleftrightarrow> (\<forall>i. vm_state (vmi s i) \<noteq> ZOMBIE)"

lemma no_zombie_cpus: "cpus s' = cpus s \<Longrightarrow> no_zombie s \<Longrightarrow> no_zombie s'"
  by (simp add: no_zombie_def)

lemma no_zombie_simps [simp]:
  "no_zombie (s\<lparr>mem := m\<rparr>) = no_zombie s" "no_zombie (upd_has_vm i b s) = no_zombie s"
  by (auto simp: no_zombie_def upd_has_vm_def)

lemma no_zombie_upd_vm [simp]:
  "no_zombie s \<Longrightarrow> (\<And>v. vm_state v \<noteq> ZOMBIE \<Longrightarrow> vm_state (f v) \<noteq> ZOMBIE) \<Longrightarrow> no_zombie (upd_vm i f s)"
  by (auto simp: no_zombie_def upd_vm_def)

lemmas no_zombie_alloc = alloc_cpus [THEN no_zombie_cpus]

lemma no_zombie_for_loop:
  assumes "\<And>k x x'. body k x = Inr x' \<Longrightarrow> P x \<Longrightarrow> P x'" "for_loop n k body x = Inr x'" "P x"
  shows "P x'"
  using assms(2,3)
proof (induction n arbitrary: k x)
  case (Suc n)
  then show ?case using assms(1) by fastforce
qed simp

lemma no_zombie_map_ept: "map_ept i a b p mt prot fl s = Inr s' \<Longrightarrow> no_zombie s \<Longrightarrow> no_zombie s'"
  by (auto simp: map_ept_def dest!: proc_table.ept_map_memory_keeps [THEN no_zombie_cpus])

lemma no_zombie_map_pgtb: "map_pgtb i a b p ps prot fl s = Inr s' \<Longrightarrow> no_zombie s \<Longrightarrow> no_zombie s'"
  by (auto simp: map_pgtb_def dest!: proc_table.map_memory_keeps [THEN no_zombie_cpus])

lemma no_zombie_map_ident: "map_ident i a n mt prot s = Inr s' \<Longrightarrow> no_zombie s \<Longrightarrow> no_zombie s'"
  by (auto simp: map_ident_def dest!: no_zombie_map_ept)

lemma no_zombie_map_section: "map_section i v n p prot s = Inr s' \<Longrightarrow> no_zombie s \<Longrightarrow> no_zombie s'"
  by (auto simp: map_section_def dest!: no_zombie_map_ept split: if_splits)

lemmas no_zombie_map = no_zombie_map_ept no_zombie_map_pgtb no_zombie_map_ident no_zombie_map_section

lemma no_zombie_map_fds: "map_fds i s = Inr s' \<Longrightarrow> no_zombie s \<Longrightarrow> no_zombie s'"
  by (auto simp: map_fds_def map_fd_def Let_def dest!: no_zombie_map elim!: no_zombie_for_loop [rotated] split: if_splits)

lemma no_zombie_ept_pmap: "ept_pmap i s = Inr s' \<Longrightarrow> no_zombie s \<Longrightarrow> no_zombie s'"
  unfolding ept_pmap_def map_guest_def map_boxes_def map_sections_def
  by (auto simp: Let_def dest!: no_zombie_map no_zombie_map_fds proc_table.ept_map_page_tables_keeps [THEN no_zombie_cpus]
      split: if_splits)

lemma no_zombie_free_page_tables: "free_page_tables r s = Inr s' \<Longrightarrow> no_zombie s \<Longrightarrow> no_zombie s'"
proof -
  have pte: "for_loop n k (free_pte t) s = Inr s' \<Longrightarrow> no_zombie s \<Longrightarrow> no_zombie s'" for n k t and s s' :: "'a alloc_scheme"
    by (erule no_zombie_for_loop [rotated]) (auto simp: free_pte_def Let_def dest!: no_zombie_alloc split: if_splits)
  have pde: "for_loop n k (free_pde t) s = Inr s' \<Longrightarrow> no_zombie s \<Longrightarrow> no_zombie s'" for n k t and s s' :: "'a alloc_scheme"
    by (erule no_zombie_for_loop [rotated]) (auto simp: free_pde_def Let_def dest!: pte no_zombie_alloc split: if_splits)
  show "free_page_tables r s = Inr s' \<Longrightarrow> no_zombie s \<Longrightarrow> no_zombie s'"
    by (auto simp: free_page_tables_def Let_def dest!: pde no_zombie_alloc split: if_splits)
qed

lemma no_zombie_free_image: "free_image old s = Inr s' \<Longrightarrow> no_zombie s \<Longrightarrow> no_zombie s'"
  by (auto simp: free_image_def free_block_def dest!: no_zombie_alloc no_zombie_free_page_tables split: if_splits)

lemma no_zombie_channel_lists:
  "remove_channel_list c s = Inr s' \<Longrightarrow> no_zombie s \<Longrightarrow> no_zombie s'"
  "add_channel_list i c s = Inr s' \<Longrightarrow> no_zombie s \<Longrightarrow> no_zombie s'"
  by (auto simp: remove_channel_list_def add_channel_list_def Let_def split: if_splits prod.splits)

lemma deref_Inr [simp]: "deref p f = Inr x \<longleftrightarrow> (\<exists>i. p = Some i \<and> f i = Inr x)"
  by (cases p) (auto simp: deref_def)

lemma no_zombie_local_channel: "local_channel a b s = Inr (c, s') \<Longrightarrow> no_zombie s \<Longrightarrow> no_zombie s'"
  by (auto simp: local_channel_def dest!: no_zombie_alloc no_zombie_map no_zombie_channel_lists split: if_splits)

lemma no_zombie_local_channel_close: "local_channel_close c s = Inr s' \<Longrightarrow> no_zombie s \<Longrightarrow> no_zombie s'"
  by (auto simp: local_channel_close_def dest!: no_zombie_alloc no_zombie_channel_lists)

lemma no_zombie_reply: "reply a b n bs s = Inr s' \<Longrightarrow> no_zombie s \<Longrightarrow> no_zombie s'"
  by (auto simp: reply_def)

lemmas no_zombie_step = no_zombie_alloc no_zombie_ept_pmap no_zombie_free_image no_zombie_local_channel
  no_zombie_local_channel_close no_zombie_reply

lemma no_zombie_fork_blocks:
  "fork_copy p n s = Inr (q, s') \<Longrightarrow> no_zombie s \<Longrightarrow> no_zombie s'"
  "fork_share p n s = Inr (q, s') \<Longrightarrow> no_zombie s \<Longrightarrow> no_zombie s'"
  by (auto simp: fork_share_def fork_copy_def dest!: no_zombie_alloc split: if_splits)

lemma no_zombie_fork_sections: "fork_sections i j s = Inr s' \<Longrightarrow> no_zombie s \<Longrightarrow> no_zombie s'"
  by (auto simp: fork_sections_def Let_def dest!: no_zombie_fork_blocks no_zombie_alloc)

lemma no_zombie_fork_files: "fork_files i j s = Inr s' \<Longrightarrow> no_zombie s \<Longrightarrow> no_zombie s'"
  by (auto simp: fork_files_def fork_fd_def Let_def dest!: no_zombie_local_channel elim!: no_zombie_for_loop [rotated] split: if_splits)

lemma no_zombie_fork_tables: "fork_tables j s = Inr s' \<Longrightarrow> no_zombie s \<Longrightarrow> no_zombie s'"
  by (auto simp: fork_tables_def dest!: no_zombie_alloc split: if_splits)

lemma no_zombie_local_fork: "local_fork info args s = Inr (r, s') \<Longrightarrow> no_zombie s \<Longrightarrow> no_zombie s'"
  by (auto simp: local_fork_def fork_stack_def Let_def
      dest!: no_zombie_fork_sections no_zombie_fork_files no_zombie_fork_tables no_zombie_ept_pmap split: option.splits if_splits)

lemma no_zombie_load_elf: "load_elf i elf s = Inr s' \<Longrightarrow> no_zombie s \<Longrightarrow> no_zombie s'"
proof -
  have sec: "for_loop n k (load_section i elf ph) s = Inr s' \<Longrightarrow> no_zombie s \<Longrightarrow> no_zombie s'" for n k ph and s s' :: "'a pm_scheme"
    by (erule no_zombie_for_loop [rotated]) (auto simp: load_section_def Let_def dest!: no_zombie_alloc split: if_splits)
  show "load_elf i elf s = Inr s' \<Longrightarrow> no_zombie s \<Longrightarrow> no_zombie s'"
    by (auto simp: load_elf_def load_bss_def load_stack_def Let_def dest!: sec no_zombie_step split: if_splits)
qed

lemma no_zombie_save_args: "save_args n i cpu e s = Inr (k, s') \<Longrightarrow> no_zombie s \<Longrightarrow> no_zombie s'"
  by (induction n arbitrary: i s) (auto simp: Let_def split: if_splits option.splits)

lemma no_zombie_push_args: "push_args n i p v s = Inr (p', v', s') \<Longrightarrow> no_zombie s \<Longrightarrow> no_zombie s'"
  by (induction n arbitrary: i p v s) (auto simp: Let_def split: option.splits)

lemma no_zombie_local_exec: "local_exec w info e s = Inr (r, s') \<Longrightarrow> no_zombie s \<Longrightarrow> no_zombie s'"
  by (auto simp: local_exec_def pass_args_def Let_def
      dest!: no_zombie_save_args no_zombie_load_elf no_zombie_ept_pmap no_zombie_push_args split: option.splits if_splits)

lemma no_zombie_close_files: "close_files w i s = Inr s' \<Longrightarrow> no_zombie s \<Longrightarrow> no_zombie s'"
proof -
  have loop: "for_loop n k (close_fd w i) s = Inr s' \<Longrightarrow> no_zombie s \<Longrightarrow> no_zombie s'" for n k and s s' :: "'a pm_scheme"
    by (erule no_zombie_for_loop [rotated])
      (auto simp: close_fd_def close_channel_def Let_def dest!: no_zombie_step split: if_splits)
  show "close_files w i s = Inr s' \<Longrightarrow> no_zombie s \<Longrightarrow> no_zombie s'"
    by (auto simp: close_files_def dest!: loop no_zombie_alloc split: if_splits)
qed

lemma no_zombie_local_exit: "local_exit w info st s = Inr s' \<Longrightarrow> no_zombie s \<Longrightarrow> no_zombie s'"
  by (auto simp: local_exit_def Let_def dest!: no_zombie_step no_zombie_close_files split: option.splits if_splits)

lemma find_zombie_none: "find_zombie n i pid s = Inr r \<Longrightarrow> no_zombie s \<Longrightarrow> r = None"
  by (induction n arbitrary: i) (auto simp: no_zombie_def split: option.splits if_splits)

lemma local_waitpid_no_zombie:
  assumes "local_waitpid info wait_for stale s = Inr (pid, status, s')" "no_zombie s"
  shows "(pid = 0 \<or> pid = - 1) \<and> status = stale \<and> (\<forall>i. vmm_info (cpus s' i) = vmm_info (cpus s i)) \<and> no_zombie s'"
proof -
  have "vm_state (vmi s i) \<noteq> ZOMBIE" for i using assms(2) by (simp add: no_zombie_def)
  then show ?thesis using assms
    by (auto simp: local_waitpid_def Let_def upd_vm_def dest!: find_zombie_none split: option.splits if_splits)
      (auto simp: no_zombie_def)
qed

section \<open>Properties\<close>

text \<open>
  The process manager at work: turns of its loop, and between two turns whatever the other programs do
  to memory.
\<close>

inductive pm_run :: "'a pm_scheme \<Rightarrow> 'a pm_scheme \<Rightarrow> bool" where
  pm_run_refl: "pm_run s s"
| pm_run_turn: "pm_run s s1 \<Longrightarrow> pm_turn world stale (s1\<lparr>mem := m\<rparr>) = Inr s2 \<Longrightarrow> pm_run s s2"

lemma no_zombie_turn: "pm_turn w stale s = Inr s' \<Longrightarrow> no_zombie s \<Longrightarrow> no_zombie s'"
  by (auto simp: pm_turn_def pm_request_def Let_def
      dest!: no_zombie_step no_zombie_local_fork no_zombie_local_exec no_zombie_local_exit local_waitpid_no_zombie
      split: if_splits)

lemma no_zombie_run: "pm_run s s' \<Longrightarrow> no_zombie s \<Longrightarrow> no_zombie s'"
  by (induction rule: pm_run.induct) (auto dest: no_zombie_turn)


text \<open>The child at processor 5 of the program at processor 4 has finished with status 7.\<close>

definition demo_pm :: pm where
  "demo_pm = \<lparr>mem = (\<lambda>_. 0),
     cpus = (\<lambda>_. zero_cpu)(4 := zero_cpu\<lparr>cpuid := 4\<rparr>,
       5 := zero_cpu\<lparr>cpuid := 5, vm_info := zero_vm\<lparr>vm_parent := 4, vm_exit_status := 7\<rparr>\<rparr>),
     block_node_array = (\<lambda>_. \<lparr>b_start_addr = 0, b_pages = 0, b_ref = 0, b_next = None, b_pre = None\<rparr>), array_base = 0, blist = None, block_node_array_last_idx = 0,
     first_free_addr = 0, all_nodes = 0, available_memory = 0, available_free_memory = 0,
     has_1GB_page = False, cpuinfo_base = 0, arg_vector = 0, argv_ptr = 0\<rparr>"


end
