(* ===== verification/Boot_Main.thy ===== *)
theory Boot_Main
  imports Boot_Processors Interrupts Process_Props
begin

text \<open>
  The main program of the second boot stage (\<open>src/boot/stage2/main.c\<close>): it loads a virtual machine
  monitor for every processor, the two servers and the first user program, gives every processor its
  message boxes, maps all of it and leaves the arguments of the servers behind.  \<open>boot_stage2_main\<close> goes as
  far as the jump into the monitor in \<open>mp_bootothers\<close>.

  The results of \<open>cpuid\<close>, \<open>rdmsr\<close>, the time stamp counter and the timer of the local APIC are arguments;
  the ports of the interval timer are not part of the state.  A page table that a structure refers to is
  mapped by passing the field in and storing what comes back.
\<close>

section \<open>State and arguments\<close>

record bootstage = stage2 +
  boot_1GB :: bool
  in_base :: addr
  out_base :: addr
  ready_base :: addr
  boot_cursor :: "addr \<times> addr \<times> addr"
  boot_idt :: "gate list"
  boot_pic :: i8259
  boot_ioapic :: io_apic
  boot_lapic :: lapic
  pm_arguments :: addr

record boot_stage2_args =
  sys_mem_size :: addr
  arg_has_1GB :: addr
  boot_stage2_page_tables :: addr
  boot_stage2_end_addr :: addr
  vmm_elf_addr :: addr
  pm_elf_addr :: addr
  fs_elf_addr :: addr
  init_elf_addr :: addr
  initrd_elf_addr :: addr

definition zero_args :: boot_stage2_args where
  "zero_args = \<lparr>sys_mem_size = 0, arg_has_1GB = 0, boot_stage2_page_tables = 0, boot_stage2_end_addr = 0, vmm_elf_addr = 0,
     pm_elf_addr = 0, fs_elf_addr = 0, init_elf_addr = 0, initrd_elf_addr = 0\<rparr>"

text \<open>What the hardware answers.\<close>

record hardware =
  hw_edx :: cint
  hw_msr :: addr
  hw_eax4 :: cint
  hw_tsc :: "addr \<times> addr"
  hw_ccr :: cint

definition get_msg_input :: "addr \<Rightarrow> 'a bootstage_scheme \<Rightarrow> addr res" where
  "get_msg_input i s =
    (if i > scast (get_ncpus s) then Inl (Panic ''get_vmxon_ptr: cpuid out of rainge!'') else Inr (in_base s + i * SZ_4KB))"

definition get_msg_output :: "addr \<Rightarrow> 'a bootstage_scheme \<Rightarrow> addr res" where
  "get_msg_output i s =
    (if i > scast (get_ncpus s) then Inl (Panic ''get_vmxon_ptr: cpuid out of rainge!'') else Inr (out_base s + i * SZ_4KB))"

definition get_msg_ready :: "addr \<Rightarrow> 'a bootstage_scheme \<Rightarrow> addr res" where
  "get_msg_ready i s =
    (if i > scast (get_ncpus s) then Inl (Panic ''get_vmxon_ptr: cpuid out of rainge!'') else Inr (ready_base s + i * SZ_4KB))"

text \<open>\<open>get_cpu_info (i)->...\<close>\<close>

definition the_cpu :: "addr \<Rightarrow> 'a stage2_scheme \<Rightarrow> nat res" where
  "the_cpu i s = bindr (boot_cpu_info i s) (\<lambda>p. case p of None \<Rightarrow> Inl (Fault ''null pointer'') | Some k \<Rightarrow> Inr k)"

definition upd_vmi :: "nat \<Rightarrow> (vm_proc \<Rightarrow> vm_proc) \<Rightarrow> 'a stage2_scheme \<Rightarrow> 'a stage2_scheme" where
  "upd_vmi i f = upd_info i (vm_info_update f)"

definition upd_vmm :: "nat \<Rightarrow> (vmm_proc \<Rightarrow> vmm_proc) \<Rightarrow> 'a stage2_scheme \<Rightarrow> 'a stage2_scheme" where
  "upd_vmm i f = upd_info i (vmm_info_update f)"

section \<open>Mapping\<close>

definition map_vmm ::
    "nat \<Rightarrow> addr \<Rightarrow> addr \<Rightarrow> addr \<Rightarrow> 16 word \<Rightarrow> cint \<Rightarrow> 'a stage2_scheme \<Rightarrow> 'a stage2_scheme res" where
  "map_vmm i start end_vaddr paddr protection flags s =
    bindr (boot_map_memory (vmm_page_tables (vmm_info (infos s i))) start end_vaddr paddr SZ_4KB protection flags s)
      (\<lambda>(r, s'). Inr (upd_vmm i (\<lambda>v. v\<lparr>vmm_page_tables := r\<rparr>) s'))"

definition map_vm ::
    "nat \<Rightarrow> addr \<Rightarrow> addr \<Rightarrow> addr \<Rightarrow> cint \<Rightarrow> 16 word \<Rightarrow> cint \<Rightarrow> 'a stage2_scheme \<Rightarrow> 'a stage2_scheme res" where
  "map_vm i start end_vaddr paddr page_size protection flags s =
    bindr (boot_map_memory (vm_page_tables (vm_info (infos s i))) start end_vaddr paddr page_size protection flags s)
      (\<lambda>(r, s'). Inr (upd_vmi i (\<lambda>v. v\<lparr>vm_page_tables := r\<rparr>) s'))"

definition boot_ept ::
    "nat \<Rightarrow> addr \<Rightarrow> addr \<Rightarrow> addr \<Rightarrow> cint \<Rightarrow> byte \<Rightarrow> 16 word \<Rightarrow> cint \<Rightarrow> 'a stage2_scheme \<Rightarrow> 'a stage2_scheme res" where
  "boot_ept i start end_vaddr paddr page_size mtype protection flags s =
    bindr (boot_ept_map_memory (vm_ept (vm_info (infos s i))) start end_vaddr paddr page_size mtype protection flags s)
      (\<lambda>(r, s'). Inr (upd_vmi i (\<lambda>v. v\<lparr>vm_ept := r\<rparr>) s'))"

text \<open>The page size of the first levels of a virtual machine.\<close>

abbreviation large_size :: "'a bootstage_scheme \<Rightarrow> cint" where
  "large_size s \<equiv> if boot_1GB s then SZ_1GB else SZ_2MB"

abbreviation (input) "IO_START \<equiv> 0xFEC00000"
abbreviation (input) "IO_END \<equiv> 0x100000000"

definition map_vm_guest :: "nat \<Rightarrow> 'a bootstage_scheme \<Rightarrow> 'a bootstage_scheme res" where
  "map_vm_guest i = run
    [\<lambda>s. map_vm i 0 SZ_2MB 0 (large_size s) (PAGE_PRESENT OR PAGE_RW OR PAGE_PCD) MAP_NEW s,
     \<lambda>s. map_vm i SZ_2MB IO_START SZ_2MB (large_size s) (PAGE_PRESENT OR PAGE_RW) MAP_UPDATE s,
     \<lambda>s. map_vm i IO_START IO_END IO_START (large_size s) (PAGE_PRESENT OR PAGE_RW OR PAGE_PCD) MAP_UPDATE s]"

definition ept_map_memory_server :: "nat \<Rightarrow> 'a bootstage_scheme \<Rightarrow> 'a bootstage_scheme res" where
  "ept_map_memory_server i = run
    [map_vm_guest i,
     \<lambda>s. boot_ept i 0 SZ_2MB 0 (large_size s) EPT_MTYPE_UC (EPT_PAGE_READ OR EPT_PAGE_WRITE) MAP_NEW s,
     \<lambda>s. boot_ept i SZ_2MB IO_START SZ_2MB (large_size s) EPT_MTYPE_WB (EPT_PAGE_READ OR EPT_PAGE_WRITE OR EPT_PAGE_EXEC) MAP_UPDATE s,
     \<lambda>s. boot_ept i IO_START IO_END IO_START (large_size s) EPT_MTYPE_UC (EPT_PAGE_WRITE OR EPT_PAGE_READ) MAP_UPDATE s]"

definition ept_own :: "nat \<Rightarrow> (cpu_info \<Rightarrow> addr) \<Rightarrow> 16 word \<Rightarrow> 'a stage2_scheme \<Rightarrow> 'a stage2_scheme res" where
  "ept_own i field protection s =
    (let p = field (infos s i) in boot_ept i p (p + SZ_4KB) p USER_VMS_PAGE_SIZE EPT_MTYPE_WB protection MAP_UPDATE s)"

definition ept_section ::
    "nat \<Rightarrow> (vm_proc \<Rightarrow> addr) \<Rightarrow> (vm_proc \<Rightarrow> addr) \<Rightarrow> (vm_proc \<Rightarrow> addr) \<Rightarrow> 16 word \<Rightarrow> 'a stage2_scheme \<Rightarrow>
     'a stage2_scheme res" where
  "ept_section i vaddr paddr sz protection s =
    (let v = vm_info (infos s i) in
     if sz v > 0
     then boot_ept i (vaddr v) (vaddr v + sz v) (paddr v) USER_VMS_PAGE_SIZE EPT_MTYPE_WB protection MAP_UPDATE s
     else Inr s)"

definition ept_tables :: "nat \<Rightarrow> 'a stage2_scheme \<Rightarrow> 'a stage2_scheme res" where
  "ept_tables i s =
    bindr (boot_ept_map_page_tables (vm_ept (vm_info (infos s i))) (vm_page_tables (vm_info (infos s i)))
        (EPT_PAGE_READ OR EPT_PAGE_WRITE) s) (\<lambda>(r, s'). Inr (upd_vmi i (\<lambda>v. v\<lparr>vm_ept := r\<rparr>) s'))"

definition ept_map_memory_other :: "nat \<Rightarrow> 'a bootstage_scheme \<Rightarrow> 'a bootstage_scheme res" where
  "ept_map_memory_other i = run
    [map_vm_guest i,
     boot_ept i 0xB8000 0xB9000 0xB8000 USER_VMS_PAGE_SIZE EPT_MTYPE_UC (EPT_PAGE_READ OR EPT_PAGE_WRITE) MAP_NEW,
     ept_tables i,
     \<lambda>s. ept_own i (\<lambda>_. info_addr i s) EPT_PAGE_READ s,
     ept_own i msg_input (EPT_PAGE_WRITE OR EPT_PAGE_READ),
     ept_own i msg_output (EPT_PAGE_WRITE OR EPT_PAGE_READ),
     ept_own i msg_ready (EPT_PAGE_WRITE OR EPT_PAGE_READ),
     ept_own i msg_ready_bitmap (EPT_PAGE_WRITE OR EPT_PAGE_READ),
     ept_section i vm_code_vaddr vm_code_paddr vm_code_size (EPT_PAGE_READ OR EPT_PAGE_EXEC),
     ept_section i vm_data_vaddr vm_data_paddr vm_data_size (EPT_PAGE_READ OR EPT_PAGE_EXEC),
     ept_section i vm_rodata_vaddr vm_rodata_paddr vm_rodata_size EPT_PAGE_READ,
     ept_section i vm_bss_vaddr vm_bss_paddr vm_bss_size (EPT_PAGE_WRITE OR EPT_PAGE_READ),
     ept_section i vm_stack_vaddr vm_stack_paddr vm_stack_size (EPT_PAGE_WRITE OR EPT_PAGE_READ),
     boot_ept i 0xFEE00000 IO_END 0xFEE00000 USER_VMS_PAGE_SIZE EPT_MTYPE_UC (EPT_PAGE_WRITE OR EPT_PAGE_READ) MAP_UPDATE]"

section \<open>Loading\<close>

definition upd_mem_by :: "(memory \<Rightarrow> memory) \<Rightarrow> 'a machine_scheme \<Rightarrow> 'a machine_scheme" where
  "upd_mem_by f s = s\<lparr>mem := f (mem s)\<rparr>"

text \<open>\<open>VIRT2PHYS\<close>: \<open>base\<close> is \<open>curr_vmm_phys_addr\<close>.\<close>

definition vmm_phys :: "nat \<Rightarrow> addr \<Rightarrow> addr \<Rightarrow> 'a stage2_scheme \<Rightarrow> addr" where
  "vmm_phys i base vaddr s = base + (vaddr - vmm_start_vaddr (vmm_info (infos s i)))"

definition vmm_section :: "nat \<Rightarrow> addr \<Rightarrow> addr \<Rightarrow> addr \<Rightarrow> nat \<Rightarrow> 'a stage2_scheme \<Rightarrow> 'a stage2_scheme res" where
  "vmm_section i base elf ph k s =
    (let h = get_phdr (mem s) (ph + of_nat (56 * k)) in
     Inr (if p_memsz h > 0
          then upd_mem_by (memcpy (vmm_phys i base (p_vaddr h) s) (elf + p_offset h) (p_memsz h)) s else s))"

definition vmm_tail :: "nat \<Rightarrow> addr \<Rightarrow> addr \<Rightarrow> 'a stage2_scheme \<Rightarrow> 'a stage2_scheme res" where
  "vmm_tail i base p s =
    (let h = get_phdr (mem s) p;
         s1 = upd_mem_by (memset (vmm_phys i base (p_vaddr h) s) 0 (p_memsz h)) s;
         h1 = get_phdr (mem s1) p;
         stack_vaddr = ALIGN (p_vaddr h1 + p_memsz h1) 16;
         s2 = upd_vmm i (\<lambda>v. v\<lparr>vmm_stack_vaddr := stack_vaddr, vmm_stack_paddr := vmm_phys i base stack_vaddr s1,
                vmm_stack_size := SZ_4KB, vmm_regs := (vmm_regs v)\<lparr>r_rsp := stack_vaddr + SZ_4KB\<rparr>\<rparr>) s1;
         vmm_size = stack_vaddr + SZ_4KB - vmm_start_vaddr (vmm_info (infos s2 i));
         s3 = upd_vmm i (\<lambda>v. v\<lparr>vmm_end_vaddr := vmm_start_vaddr v + vmm_size\<rparr>) s2
     in if vmm_size > SZ_2MB then Inl (Panic ''Second Boot Stage: vmm is too large!'')
        else Inr (upd_vmm i (\<lambda>v. v\<lparr>vmm_end_paddr := vmm_start_paddr v + vmm_size\<rparr>) s3))"

text \<open>One round of the first loop of \<open>load_all_vmms\<close>.\<close>

definition load_vmm :: "addr \<Rightarrow> nat \<Rightarrow> 'a stage2_scheme \<Rightarrow> 'a stage2_scheme res" where
  "load_vmm elf curr_cpu s =
    bindr (malloc_align SZ_2MB SZ_2MB s) (\<lambda>(base, s1).
      if base = 0 then Inl (Panic ''Second Boot Stage: Memory Allocation Failed!'')
      else
        bindr (the_cpu (of_nat curr_cpu) s1) (\<lambda>i.
        bindr (calloc_align 1 SZ_4KB SZ_4KB (upd_info i (\<lambda>c. c\<lparr>ncpus := scast (get_ncpus s1)\<rparr>) s1)) (\<lambda>(vmcs, s2).
        bindr (calloc_align 1 SZ_4KB SZ_4KB (upd_vmi i (\<lambda>v. v\<lparr>vm_vmcs_ptr := vmcs\<rparr>) s2)) (\<lambda>(vmxon, s3).
          let s4 = upd_vmm i (\<lambda>v. v\<lparr>vmm_start_paddr := base\<rparr>) (upd_vmi i (\<lambda>v. v\<lparr>vm_vmxon_ptr := vmxon\<rparr>) s3);
              ph = elf + e_phoff (mem s4) elf; start = p_vaddr (get_phdr (mem s4) ph);
              s5 = upd_vmm i (\<lambda>v. v\<lparr>vmm_start_vaddr := start, vmm_regs := (vmm_regs v)\<lparr>r_rip := start\<rparr>\<rparr>) s4
          in if e_phnum (mem s4) elf \<noteq> 4 then Inl (Panic ''Unexpected VMM Header!'')
             else bindr (for_loop 3 0 (vmm_section i base elf ph) s5) (vmm_tail i base (ph + 168))))))"

text \<open>One round of the second loop.\<close>

definition vmm_own :: "nat \<Rightarrow> (cpu_info \<Rightarrow> addr) \<Rightarrow> 'a stage2_scheme \<Rightarrow> 'a stage2_scheme res" where
  "vmm_own i field s =
    (let p = field (infos s i) in map_vmm i p (p + SZ_4KB) p (PAGE_PRESENT OR PAGE_RW) MAP_UPDATE s)"

definition map_vmm_all :: "addr \<Rightarrow> nat \<Rightarrow> 'a stage2_scheme \<Rightarrow> 'a stage2_scheme res" where
  "map_vmm_all end_addr curr_cpu s =
    bindr (the_cpu (of_nat curr_cpu) s) (\<lambda>i. run
      [map_vmm i 0 end_addr 0 (PAGE_PRESENT OR PAGE_RW OR PAGE_PCD) MAP_NEW,
       vmm_own i (\<lambda>c. vm_vmxon_ptr (vm_info c)),
       vmm_own i (\<lambda>c. vm_vmcs_ptr (vm_info c)),
       vmm_own i msg_input, vmm_own i msg_output, vmm_own i msg_ready,
       \<lambda>s. vmm_own i (\<lambda>_. info_addr i s) s,
       \<lambda>s. let v = vmm_info (infos s i) in
         map_vmm i (vmm_start_vaddr v) (vmm_end_vaddr v) (vmm_start_paddr v) (PAGE_PRESENT OR PAGE_RW) MAP_UPDATE s,
       map_vmm i IO_START IO_END IO_START (PAGE_PRESENT OR PAGE_RW OR PAGE_PCD) MAP_UPDATE] s)"

definition load_all_vmms :: "addr \<Rightarrow> addr \<Rightarrow> 'a stage2_scheme \<Rightarrow> 'a stage2_scheme res" where
  "load_all_vmms elf end_addr s =
    bindr (for_loop (unat (get_ncpus s)) 0 (load_vmm elf) s) (\<lambda>s1.
      for_loop (unat (get_ncpus s1)) 0 (map_vmm_all end_addr) s1)"

text \<open>What the code stores for section \<open>k\<close> of a program that is loaded at \<open>dst\<close>: 0 is code, 1 data, 2 read-only data.\<close>

definition set_section :: "nat \<Rightarrow> nat \<Rightarrow> addr \<Rightarrow> phdr \<Rightarrow> 'a stage2_scheme \<Rightarrow> 'a stage2_scheme res" where
  "set_section i k dst h s =
    (let sz = p_memsz h in
     if k = 0 then
       Inr (upd_vmi i (\<lambda>v. v\<lparr>vm_start_paddr := dst, vm_code_vaddr := p_vaddr h, vm_code_paddr := dst,
              vm_code_size := sz, vm_regs := (vm_regs v)\<lparr>r_rip := vm_start_vaddr v\<rparr>\<rparr>) s)
     else if k = 1 then
       Inr (upd_vmi i (\<lambda>v. v\<lparr>vm_data_vaddr := p_vaddr h, vm_data_paddr := (if sz > 0 then dst else 0), vm_data_size := sz\<rparr>) s)
     else if k = 2 then
       Inr (upd_vmi i (\<lambda>v. v\<lparr>vm_rodata_vaddr := p_vaddr h, vm_rodata_paddr := (if sz > 0 then dst else 0),
              vm_rodata_size := sz\<rparr>) s)
     else Inl (Panic ''Unexpected VM ELF Header!''))"

definition copy_section :: "addr \<Rightarrow> addr \<Rightarrow> addr \<Rightarrow> 'a machine_scheme \<Rightarrow> 'a machine_scheme" where
  "copy_section dst src sz s = (if sz > 0 then upd_mem_by (memcpy dst src sz) s else s)"

definition other_section :: "nat \<Rightarrow> addr \<Rightarrow> addr \<Rightarrow> nat \<Rightarrow> 'a stage2_scheme \<Rightarrow> 'a stage2_scheme res" where
  "other_section i elf ph k s =
    (let h = get_phdr (mem s) (ph + of_nat (56 * k)); sz = p_memsz h in
     bindr (if sz > 0 then malloc_align sz USER_VMS_PAGE_SIZE s else Inr (0, s)) (\<lambda>(dst, s1).
       if k = 0 \<and> sz = 0 then Inl (Panic ''VM without code section!'')
       else bindr (set_section i k dst h s1) (\<lambda>s2. Inr (copy_section dst (elf + p_offset h) sz s2))))"

definition other_bss :: "nat \<Rightarrow> addr \<Rightarrow> 'a stage2_scheme \<Rightarrow> 'a stage2_scheme res" where
  "other_bss i p s =
    (let h = get_phdr (mem s) p; s1 = upd_vmi i (\<lambda>v. v\<lparr>vm_bss_vaddr := p_vaddr h\<rparr>) s in
     if p_memsz h > 0 then
       bindr (malloc_align SZ_2MB USER_VMS_PAGE_SIZE s1) (\<lambda>(bss, s2).
         Inr (upd_mem_by (memset bss 0 (p_memsz h)) (upd_vmi i (\<lambda>v. v\<lparr>vm_bss_paddr := bss, vm_bss_size := p_memsz h\<rparr>) s2)))
     else Inr s1)"

text \<open>The comparison of the two end addresses compares a value with itself and is left out.\<close>

definition other_stack :: "nat \<Rightarrow> addr \<Rightarrow> 'a stage2_scheme \<Rightarrow> 'a stage2_scheme res" where
  "other_stack i p s =
    (let h = get_phdr (mem s) p; stack_vaddr = ALIGN (p_vaddr h + p_memsz h) USER_VMS_PAGE_SIZE in
     bindr (malloc_align SZ_2MB USER_VMS_PAGE_SIZE s) (\<lambda>(stack, s1).
       let vm_size = stack + SZ_2MB - vm_start_paddr (vm_info (infos s1 i)) in
       Inr (upd_vmi i (\<lambda>v. v\<lparr>vm_stack_vaddr := stack_vaddr, vm_stack_size := SZ_2MB, vm_stack_paddr := stack,
              vm_regs := (vm_regs v)\<lparr>r_rsp := stack_vaddr + SZ_2MB, r_rflags := 2\<rparr>,
              vm_end_vaddr := vm_start_vaddr v + vm_size, vm_end_paddr := vm_start_paddr v + vm_size, vm_fds := 0\<rparr>) s1)))"

definition load_other_vms :: "addr \<Rightarrow> addr \<Rightarrow> 'a stage2_scheme \<Rightarrow> 'a stage2_scheme res" where
  "load_other_vms cpu elf s =
    bindr (the_cpu cpu s) (\<lambda>i.
      let s1 = upd_vmm i (\<lambda>v. v\<lparr>vmm_has_vm := True\<rparr>) s; ph = elf + e_phoff (mem s1) elf;
          s2 = upd_vmi i (\<lambda>v. v\<lparr>vm_start_vaddr := p_vaddr (get_phdr (mem s1) ph)\<rparr>) s1
      in if e_phnum (mem s1) elf \<noteq> 4 then Inl (Panic ''Unexpected VM Header!'')
         else run [for_loop 3 0 (other_section i elf ph), other_bss i (ph + 168), other_stack i (ph + 168)] s2)"

text \<open>A server is loaded where it is linked to; \<open>base\<close> is what the allocator gave.\<close>

definition server_section :: "nat \<Rightarrow> addr \<Rightarrow> addr \<Rightarrow> addr \<Rightarrow> nat \<Rightarrow> 'a stage2_scheme \<Rightarrow> 'a stage2_scheme res" where
  "server_section i base elf ph k s =
    (let h = get_phdr (mem s) (ph + of_nat (56 * k)); sz = p_memsz h; dst = (if sz > 0 then p_vaddr h else 0) in
     if k = 0 \<and> sz = 0 then Inl (Panic ''VM without code section!'')
     else if k = 0 \<and> base \<noteq> p_vaddr h then Inl (Panic ''VM Server can't be loaded in the right address'')
     else bindr (set_section i k dst h s) (\<lambda>s1. Inr (copy_section dst (elf + p_offset h) sz s1)))"

definition server_bss :: "nat \<Rightarrow> addr \<Rightarrow> 'a stage2_scheme \<Rightarrow> 'a stage2_scheme" where
  "server_bss i p s =
    (let h = get_phdr (mem s) p;
         s1 = upd_vmi i (\<lambda>v. v\<lparr>vm_bss_vaddr := p_vaddr h, vm_bss_paddr := p_vaddr h\<rparr>) s;
         s2 = (if p_memsz h > 0
               then upd_mem_by (memset (p_vaddr h) 0 (p_memsz h)) (upd_vmi i (\<lambda>v. v\<lparr>vm_bss_size := p_memsz h\<rparr>) s1) else s1);
         h2 = get_phdr (mem s2) p
     in upd_mem_by (memset (p_vaddr h2) 0 (p_memsz h2)) s2)"

definition server_stack :: "nat \<Rightarrow> addr \<Rightarrow> 'a stage2_scheme \<Rightarrow> 'a stage2_scheme res" where
  "server_stack i p s =
    (let h = get_phdr (mem s) p; stack_vaddr = ALIGN (p_vaddr h + p_memsz h) 16;
         s1 = upd_vmi i (\<lambda>v. v\<lparr>vm_stack_vaddr := stack_vaddr, vm_stack_paddr := stack_vaddr, vm_stack_size := VM_STACK_SIZE,
                vm_regs := (vm_regs v)\<lparr>r_rsp := stack_vaddr + VM_STACK_SIZE, r_rflags := 2\<rparr>\<rparr>) s;
         vm_size = stack_vaddr - vm_start_vaddr (vm_info (infos s1 i));
         s2 = upd_vmi i (\<lambda>v. v\<lparr>vm_end_vaddr := vm_start_vaddr v + vm_size, vm_end_paddr := vm_start_paddr v + vm_size\<rparr>) s1
     in if vm_end_paddr (vm_info (infos s2 i)) \<noteq> vm_end_vaddr (vm_info (infos s2 i))
        then Inl (Panic ''Second Boot Stage: VM is worngfully loaded into memory!'')
        else if vm_size > SZ_2MB then Inl (Panic ''Second Boot Stage: vm is too large!'')
        else Inr (upd_vmi i (\<lambda>v. v\<lparr>vm_fds := 0\<rparr>) s2))"

definition load_server_vms :: "addr \<Rightarrow> addr \<Rightarrow> 'a stage2_scheme \<Rightarrow> 'a stage2_scheme res" where
  "load_server_vms cpu elf s =
    bindr (malloc_align SZ_2MB SZ_2MB s) (\<lambda>(base, s1).
      if base = 0 then Inl (Panic ''Second Boot Stage: Memory Allocation Failed!'')
      else
        bindr (the_cpu cpu s1) (\<lambda>i.
          let s2 = upd_vmi i (\<lambda>v. v\<lparr>vm_start_paddr := base\<rparr>) (upd_vmm i (\<lambda>v. v\<lparr>vmm_has_vm := True\<rparr>) s1);
              ph = elf + e_phoff (mem s2) elf; start = p_vaddr (get_phdr (mem s2) ph);
              s3 = upd_vmi i (\<lambda>v. v\<lparr>vm_start_vaddr := start, vm_start_paddr := start\<rparr>) s2
          in if e_phnum (mem s2) elf \<noteq> 4 then Inl (Panic ''Unexpected VMM Header!'')
             else
               bindr (for_loop 3 0 (server_section i base elf ph) s3) (\<lambda>s4.
                 server_stack i (ph + 168) (server_bss i (ph + 168) s4))))"

section \<open>The main program\<close>

definition at_cpu :: "addr \<Rightarrow> (nat \<Rightarrow> 'a stage2_scheme \<Rightarrow> 'a stage2_scheme res) \<Rightarrow> 'a stage2_scheme \<Rightarrow> 'a stage2_scheme res" where
  "at_cpu cpu f s = bindr (the_cpu cpu s) (\<lambda>i. f i s)"

definition set_rdi :: "nat \<Rightarrow> 'a stage2_scheme \<Rightarrow> 'a stage2_scheme res" where
  "set_rdi k = at_cpu (of_nat k) (\<lambda>i s. Inr (upd_vmi i (\<lambda>v. v\<lparr>vm_regs := (vm_regs v)\<lparr>r_rdi := info_addr i s\<rparr>\<rparr>) s))"

definition load_all_vms :: "(nat \<Rightarrow> addr) \<Rightarrow> 'a bootstage_scheme \<Rightarrow> 'a bootstage_scheme res" where
  "load_all_vms vms_array = run
    [load_server_vms PM_ID (vms_array PM_ID),
     load_server_vms FS_ID (vms_array FS_ID),
     load_other_vms INIT_ID (vms_array INIT_ID),
     at_cpu PM_ID ept_map_memory_server,
     at_cpu FS_ID ept_map_memory_server,
     at_cpu INIT_ID ept_map_memory_other,
     for_loop ALWAYS_BUSY 0 set_rdi]"

text \<open>\<open>struct pm_args\<close>: three fields of eight bytes.\<close>

definition set_vm_args :: "boot_stage2_args \<Rightarrow> 'a bootstage_scheme \<Rightarrow> 'a bootstage_scheme res" where
  "set_vm_args args s =
    (let p = pm_arguments s;
         m1 = store64 (mem s) p (get_mem_size s);
         m2 = store64 m1 (p + 16) (get_last_used_addr s);
         s1 = s\<lparr>mem := store64 m2 (p + 8) (arg_has_1GB args)\<rparr>
     in run
       [at_cpu PM_ID (\<lambda>i s. Inr (upd_info i (\<lambda>c. c\<lparr>vm_args := p\<rparr>) s)),
        at_cpu FS_ID (\<lambda>i s. Inr (upd_info i (\<lambda>c. c\<lparr>vm_args := initrd_elf_addr args\<rparr>) s))] s1)"

text \<open>One round of the loop that gives a processor its boxes.\<close>

definition set_boxes :: "addr \<Rightarrow> addr \<Rightarrow> addr \<Rightarrow> nat \<Rightarrow> 'a bootstage_scheme \<Rightarrow> 'a bootstage_scheme res" where
  "set_boxes bitmap cpu_hz bus_hz k s =
    bindr (the_cpu (of_nat k) s) (\<lambda>i.
    bindr (get_msg_input (of_nat k) s) (\<lambda>inp.
    bindr (get_msg_output (of_nat k) s) (\<lambda>outp.
    bindr (get_msg_ready (of_nat k) s) (\<lambda>rdy.
      Inr (upd_info i (\<lambda>c. c\<lparr>msg_input := inp, msg_output := outp, msg_ready := rdy, msg_ready_bitmap := bitmap,
             cpu_freq := cpu_hz, bus_freq := bus_hz\<rparr>) s)))))"

definition alloc_boxes :: "hardware \<Rightarrow> 'a bootstage_scheme \<Rightarrow> 'a bootstage_scheme res" where
  "alloc_boxes hw s =
    (let n = scast (get_ncpus s) in
     bindr (calloc_align 1 (n * SZ_4KB) SZ_2MB s) (\<lambda>(inp, s1).
     bindr (calloc_align 1 (n * SZ_4KB) SZ_2MB (s1\<lparr>in_base := inp\<rparr>)) (\<lambda>(outp, s2).
     bindr (calloc_align 1 (n * SZ_4KB) SZ_2MB (s2\<lparr>out_base := outp\<rparr>)) (\<lambda>(rdy, s3).
     bindr (calloc_align 8 n SZ_4KB (s3\<lparr>ready_base := rdy\<rparr>)) (\<lambda>(bitmap, s4).
       let cpu_hz = get_cpu_freq (hw_tsc hw); (bus_hz, l) = get_bus_freq (hw_ccr hw) (boot_lapic s4)
       in for_loop (unat (get_ncpus s4)) 0 (set_boxes bitmap cpu_hz bus_hz) (s4\<lparr>boot_lapic := l\<rparr>))))))"

definition init_interrupts :: "(isr \<Rightarrow> addr) \<Rightarrow> 'a bootstage_scheme \<Rightarrow> 'a bootstage_scheme res" where
  "init_interrupts h s =
    bindr (ioapic_init (ioapicva s) (boot_ioapic s)) (\<lambda>io.
      Inr (s\<lparr>boot_idt := idt_init h (boot_idt s), boot_pic := i8259_init (boot_pic s), boot_ioapic := io,
             boot_lapic := lapic_init (boot_lapic s)\<rparr>))"

definition boot_stage2_main ::
    "(isr \<Rightarrow> addr) \<Rightarrow> hardware \<Rightarrow> boot_stage2_args \<Rightarrow> 'a bootstage_scheme \<Rightarrow> 'a bootstage_scheme res" where
  "boot_stage2_main h hw args s =
    (let vms = (\<lambda>_. 0)(PM_ID := pm_elf_addr args, FS_ID := fs_elf_addr args, INIT_ID := init_elf_addr args) in
     run
       [\<lambda>s. Inr (s\<lparr>boot_cursor := (0, 0, 0xB8000)\<rparr>),
        \<lambda>s. Inr (boot_memory_init (boot_stage2_end_addr args) (sys_mem_size args) s),
        \<lambda>s. Inr (s\<lparr>boot_1GB := ((ucast (arg_has_1GB args) :: cint) \<noteq> 0)\<rparr>),
        \<lambda>s. bindr (boot_map_memory (boot_stage2_page_tables args) IO_START IO_END IO_START SZ_2MB
               (PAGE_PRESENT OR PAGE_RW OR PAGE_PCD) MAP_UPDATE s) (\<lambda>(r, s'). Inr s'),
        mp_init (hw_edx hw) (hw_msr hw) (hw_eax4 hw),
        alloc_boxes hw,
        init_interrupts h,
        load_all_vms vms,
        load_all_vmms (vmm_elf_addr args) (boot_stage2_end_addr args),
        set_vm_args args] s)"

section \<open>What loading and mapping leave alone\<close>

text \<open>The table of processors and what the message passing uses of each.\<close>

definition boxes :: "cpu_info \<Rightarrow> byte \<times> addr \<times> addr \<times> addr" where
  "boxes c = (cpuid c, msg_input c, msg_output c, msg_ready_bitmap c)"

definition ipc_view :: "'a stage2_scheme \<Rightarrow> nat option list \<times> cint \<times> (nat \<Rightarrow> byte \<times> addr \<times> addr \<times> addr)" where
  "ipc_view s = (cpuinfo_table s, cpu_count s, boxes \<circ> infos s)"

definition counts :: "'a stage2_scheme \<Rightarrow> nat \<Rightarrow> addr" where
  "counts s = ncpus \<circ> infos s"

definition keep ::
    "'a stage2_scheme \<Rightarrow> (nat option list \<times> cint \<times> (nat \<Rightarrow> byte \<times> addr \<times> addr \<times> addr)) \<times> (nat \<Rightarrow> addr) \<times> bool \<times> 'a" where
  "keep s = (ipc_view s, counts s, first_time s, stage2.more s)"

lemma ipc_view_simps [simp]:
  "ipc_view (s\<lparr>mem := m\<rparr>) = ipc_view s" "ipc_view (s\<lparr>boot_first_free := a\<rparr>) = ipc_view s"
  "ipc_view (upd_vmi i f s) = ipc_view s" "ipc_view (upd_vmm i g s) = ipc_view s"
  "ipc_view (upd_info i (ncpus_update c) s) = ipc_view s" "ipc_view (upd_info i (vm_args_update a') s) = ipc_view s"
  "ipc_view (upd_mem_by k s) = ipc_view s"
  by (auto simp: ipc_view_def upd_vmi_def upd_vmm_def upd_info_def boxes_def upd_mem_by_def fun_eq_iff)

lemma counts_simps [simp]:
  "counts (s\<lparr>mem := m\<rparr>) = counts s" "counts (s\<lparr>boot_first_free := a\<rparr>) = counts s"
  "counts (upd_vmi i f s) = counts s" "counts (upd_vmm i g s) = counts s"
  "counts (upd_info i (vm_args_update a') s) = counts s" "counts (upd_mem_by k s) = counts s"
  by (auto simp: counts_def upd_vmi_def upd_vmm_def upd_info_def upd_mem_by_def fun_eq_iff)

lemma keep_simps [simp]:
  "keep (s\<lparr>mem := m\<rparr>) = keep s" "keep (s\<lparr>boot_first_free := a\<rparr>) = keep s"
  "keep (upd_vmi i f s) = keep s" "keep (upd_vmm i g s) = keep s"
  "keep (upd_info i (vm_args_update a') s) = keep s" "keep (upd_mem_by k s) = keep s" "keep (copy_section d c n s) = keep s"
  by (simp_all add: keep_def copy_section_def) (simp_all add: upd_vmi_def upd_vmm_def upd_info_def upd_mem_by_def)

lemma calloc_align_keep: "calloc_align c n a s = Inr (p, s') \<Longrightarrow> keep s' = keep s"
  by (auto simp: keep_def ipc_view_def counts_def dest: calloc_align_more)

lemma malloc_align_keep: "malloc_align n a s = Inr (p, s') \<Longrightarrow> keep s' = keep s"
  by (auto simp: malloc_align_def Let_def split: if_splits)

interpretation boot_keeps: mem_only keep boot_page_table
  by unfold_locales (auto simp: boot_page_table_def dest: calloc_align_keep)

lemma map_keeps:
  "map_vmm i a b p prot flags s = Inr s' \<Longrightarrow> keep s' = keep s"
  "map_vm i a b p ps prot flags s = Inr s' \<Longrightarrow> keep s' = keep s"
  "boot_ept i a b p ps mt prot flags s = Inr s' \<Longrightarrow> keep s' = keep s"
  "ept_tables i s = Inr s' \<Longrightarrow> keep s' = keep s"
  by (auto simp: map_vmm_def map_vm_def boot_ept_def ept_tables_def boot_map_memory_def boot_ept_map_memory_def
      boot_ept_map_page_tables_def dest!: boot_keeps.map_memory_keeps boot_keeps.ept_map_memory_keeps
      boot_keeps.ept_map_page_tables_keeps)

lemma map_groups_keep:
  "map_vm_guest i s = Inr s' \<Longrightarrow> keep s' = keep s"
  "ept_map_memory_server i s = Inr s' \<Longrightarrow> keep s' = keep s"
  "ept_map_memory_other i s = Inr s' \<Longrightarrow> keep s' = keep s"
proof -
  show g: "map_vm_guest i s = Inr s' \<Longrightarrow> keep s' = keep s" for s s' :: "'b bootstage_scheme"
    unfolding map_vm_guest_def by (erule run_keeps [rotated]) (auto dest: map_keeps)
  show "ept_map_memory_server i s = Inr s' \<Longrightarrow> keep s' = keep s"
    unfolding ept_map_memory_server_def by (erule run_keeps [rotated]) (auto dest: map_keeps g)
  show "ept_map_memory_other i s = Inr s' \<Longrightarrow> keep s' = keep s"
    unfolding ept_map_memory_other_def
    by (erule run_keeps [rotated]) (auto simp: ept_own_def ept_section_def Let_def dest: map_keeps g split: if_splits)
qed

lemma map_vmm_all_keep: "map_vmm_all e k s = Inr s' \<Longrightarrow> keep s' = keep s"
  by (auto simp: map_vmm_all_def vmm_own_def Let_def dest!: map_keeps)

lemma load_keeps:
  "load_server_vms c elf s = Inr s' \<Longrightarrow> keep s' = keep s"
  "load_other_vms c elf s = Inr s' \<Longrightarrow> keep s' = keep s"
proof -
  have set: "set_section i k d h s = Inr s' \<Longrightarrow> keep s' = keep s" for i k d h and s s' :: "'b stage2_scheme"
    by (auto simp: set_section_def Let_def split: if_splits)
  have bss: "keep (server_bss i p s) = keep s" for i p and s :: "'b stage2_scheme"
    by (simp add: server_bss_def Let_def)
  have sec: "for_loop n k (server_section i b elf ph) s = Inr s' \<Longrightarrow> keep s' = keep s" for n i b ph k and s s' :: "'b stage2_scheme"
    by (rule for_loop_keeps [where h = keep]) (auto simp: server_section_def Let_def dest: set split: if_splits)
  show "load_server_vms c elf s = Inr s' \<Longrightarrow> keep s' = keep s" for s s' :: "'b stage2_scheme"
    by (auto simp: load_server_vms_def server_stack_def Let_def bss dest!: malloc_align_keep sec split: if_splits)
  have sec: "for_loop n k (other_section i elf ph) s = Inr s' \<Longrightarrow> keep s' = keep s" for n i ph k and s s' :: "'b stage2_scheme"
    by (rule for_loop_keeps [where h = keep])
      (auto simp: other_section_def Let_def dest!: set malloc_align_keep split: if_splits)
  show "load_other_vms c elf s = Inr s' \<Longrightarrow> keep s' = keep s" for s s' :: "'b stage2_scheme"
    by (auto simp: load_other_vms_def other_bss_def other_stack_def Let_def dest!: malloc_align_keep sec split: if_splits)
qed

lemma load_all_vms_keep: "load_all_vms vms s = Inr s' \<Longrightarrow> keep s' = keep s"
proof -
  have rdi: "for_loop n k set_rdi s = Inr s' \<Longrightarrow> keep s' = keep s" for n k and s s' :: "'b bootstage_scheme"
    by (rule for_loop_keeps [where h = keep]) (auto simp: set_rdi_def at_cpu_def)
  show "load_all_vms vms s = Inr s' \<Longrightarrow> keep s' = keep s" for s s' :: "'b bootstage_scheme"
    unfolding load_all_vms_def
    by (erule run_keeps [rotated]) (auto simp: at_cpu_def dest: load_keeps map_groups_keep rdi)
qed

text \<open>The processors are in their slots.\<close>

definition all_cpus :: "nat \<Rightarrow> 'a stage2_scheme \<Rightarrow> bool" where
  "all_cpus n s \<longleftrightarrow> n \<le> MAX_CPUS \<and> cpu_count s = of_nat n \<and> (\<forall>k<n. cpuinfo_table s ! k = Some k)"

lemma all_cpus_keep: "keep s' = keep s \<Longrightarrow> all_cpus n s' = all_cpus n s"
  by (simp add: keep_def ipc_view_def all_cpus_def)

lemma all_cpus_view: "ipc_view s' = ipc_view s \<Longrightarrow> all_cpus n s' = all_cpus n s"
  by (simp add: ipc_view_def all_cpus_def)

lemma the_cpu_all: "all_cpus n s \<Longrightarrow> k < n \<Longrightarrow> the_cpu (of_nat k) s = Inr k"
  by (simp add: all_cpus_def the_cpu_def boot_cpu_info_def word_less_nat_alt word_unat_eq_iff unat_of_nat take_bit_nat_eq_self)

lemma load_vmm_view:
  assumes "load_vmm elf k s = Inr s'" "all_cpus n s" "k < n"
  shows "ipc_view s' = ipc_view s" "counts s' = (counts s)(k := of_nat n)"
proof -
  have sec: "for_loop m j (vmm_section i b elf ph) s = Inr s' \<Longrightarrow> keep s' = keep s" for m j i b ph and s s' :: "'b stage2_scheme"
    by (rule for_loop_keeps [where h = keep]) (auto simp: vmm_section_def Let_def)
  have "scast (of_nat n :: cint) = (of_nat n :: addr)" using assms(2) by (simp add: all_cpus_def scast_of_nat_cint)
  moreover obtain s1 b where s1: "malloc_align SZ_2MB SZ_2MB s = Inr (b, s1)" using assms(1) by (auto simp: load_vmm_def)
  moreover have k: "keep s1 = keep s" by (rule malloc_align_keep [OF s1])
  moreover have "the_cpu (of_nat k) s1 = Inr k" "cpu_count s1 = of_nat n"
    using the_cpu_all [OF _ assms(3), of s1] assms(2) all_cpus_keep [OF k, of n] by (auto simp: all_cpus_def)
  ultimately have "keep s' = keep (upd_info k (\<lambda>c. c\<lparr>ncpus := of_nat n\<rparr>) s1)"
    using assms(1)
    by (auto simp: load_vmm_def vmm_tail_def Let_def get_ncpus_def dest!: sec calloc_align_keep split: if_splits)
  then show "ipc_view s' = ipc_view s" "counts s' = (counts s)(k := of_nat n)"
    using k by (auto simp: keep_def) (auto simp: counts_def upd_info_def fun_eq_iff)
qed

lemma load_vmm_loop:
  assumes "for_loop m k (load_vmm elf) s = Inr s'" "all_cpus n s" "k + m \<le> n"
  shows "ipc_view s' = ipc_view s \<and> (\<forall>j. counts s' j = (if k \<le> j \<and> j < k + m then of_nat n else counts s j))"
  using assms
proof (induction m arbitrary: k s)
  case (Suc m)
  then obtain s1 where s1: "load_vmm elf k s = Inr s1" "for_loop m (Suc k) (load_vmm elf) s1 = Inr s'" by auto
  note v = load_vmm_view [OF s1(1) Suc.prems(2), OF less_le_trans [OF _ Suc.prems(3)]]
  have "all_cpus n s1" using all_cpus_view [OF v(1), of n] Suc.prems(2) by simp
  with Suc.IH [OF s1(2)] Suc.prems(3) v show ?case by (auto simp: le_Suc_eq)
qed auto

lemma load_all_vmms_view:
  assumes "load_all_vmms elf e s = Inr s'" "all_cpus n s"
  shows "ipc_view s' = ipc_view s" "j < n \<Longrightarrow> counts s' j = of_nat n"
proof -
  have n: "unat (cpu_count s) = n" using assms(2) by (simp add: all_cpus_def unat_of_nat take_bit_nat_eq_self)
  obtain s1 where s1: "for_loop n 0 (load_vmm elf) s = Inr s1" "for_loop (unat (cpu_count s1)) 0 (map_vmm_all e) s1 = Inr s'"
    using assms(1) n by (auto simp: load_all_vmms_def get_ncpus_def)
  have "keep s' = keep s1"
    by (rule for_loop_keeps [where h = keep, OF map_vmm_all_keep s1(2)])
  with load_vmm_loop [OF s1(1) assms(2)] show "ipc_view s' = ipc_view s" "j < n \<Longrightarrow> counts s' j = of_nat n"
    by (simp_all add: keep_def)
qed

section \<open>The boxes\<close>

text \<open>Processor \<open>j\<close> has the boxes that its number says.\<close>

definition boxed :: "addr \<Rightarrow> addr \<Rightarrow> addr \<Rightarrow> nat \<Rightarrow> cpu_info \<Rightarrow> bool" where
  "boxed inb outb bm j c \<longleftrightarrow> msg_input c = inb + of_nat (4096 * j) \<and> msg_output c = outb + of_nat (4096 * j) \<and>
    msg_ready_bitmap c = bm"

lemma set_boxes_loop:
  assumes "for_loop m k (set_boxes bm cf bf) s = Inr s'" "all_cpus n s" "k + m \<le> n"
  shows "all_cpus n s' \<and> in_base s' = in_base s \<and> out_base s' = out_base s \<and>
    (\<forall>j. cpuid (infos s' j) = cpuid (infos s j)) \<and> (\<forall>j. j < k \<longrightarrow> infos s' j = infos s j) \<and>
    (\<forall>j. k \<le> j \<and> j < k + m \<longrightarrow> boxed (in_base s) (out_base s) bm j (infos s' j))"
  using assms
proof (induction m arbitrary: k s)
  case (Suc m)
  then obtain s1 where s1: "set_boxes bm cf bf k s = Inr s1" "for_loop m (Suc k) (set_boxes bm cf bf) s1 = Inr s'" by auto
  have "the_cpu (of_nat k) s = Inr k" using the_cpu_all [OF Suc.prems(2)] Suc.prems(3) by simp
  then have b: "boxed (in_base s) (out_base s) bm k (infos s1 k)" "in_base s1 = in_base s" "out_base s1 = out_base s"
    "\<And>j. j \<noteq> k \<Longrightarrow> infos s1 j = infos s j" "cpuid (infos s1 k) = cpuid (infos s k)" "all_cpus n s1"
    using s1(1) Suc.prems(2)
    by (auto simp: set_boxes_def get_msg_input_def get_msg_output_def get_msg_ready_def upd_info_def boxed_def
        all_cpus_def mult.commute split: if_splits)
  note ih = Suc.IH [OF s1(2) b(6)]
  have c: "cpuid (infos s1 j) = cpuid (infos s j)" for j using b(4,5) by (cases "j = k") auto
  have "boxed (in_base s) (out_base s) bm j (infos s' j)" if "k \<le> j" "j < k + Suc m" for j
    using that ih Suc.prems(3) b(1-3) by (cases "j = k") auto
  then show ?case using ih Suc.prems(3) b c by auto
qed auto

lemma calloc_align_inv:
  assumes "calloc_align c n (2 ^ k) s = Inr (p, s')" "boot_inv low T (bs, s)" "unat c * unat n \<le> 2 ^ 62" "k \<le> 62"
  shows "boot_inv low T (add_block p (unat c * unat n) bs, s')"
proof -
  note al = ALIGN_pow [OF boot_first [OF assms(2)] assms(4)]
  have "unat (c * n) = unat c * unat n" using assms(3) by (simp add: unat_word_ariths)
  from bumped_inv [OF calloc_align_bumped [OF assms(1)] assms(2) this assms(3) al(1,2)] show ?thesis .
qed

lemma boot_inv_cong: "memory_size s' = memory_size s \<Longrightarrow> boot_first_free s' = boot_first_free s \<Longrightarrow>
    boot_inv low T (bs, s') = boot_inv low T (bs, s)"
  by (simp add: boot_inv_def)

lemma calloc_align_base:
  "calloc_align c n a s = Inr (p, s') \<Longrightarrow> in_base s' = in_base s \<and> out_base s' = out_base s \<and> infos s' = infos s \<and>
    cpu_count s' = cpu_count s \<and> cpuinfo_table s' = cpuinfo_table s"
  by (auto simp: calloc_align_def Let_def split: if_splits)

text \<open>What the four allocations give, if the first two and the last do not fail.\<close>

lemma alloc_boxes_steps:
  assumes "alloc_boxes hw s = Inr s'" "all_cpus n s" "boot_inv low T ([], s)"
  shows "\<exists>p1 p2 p3 p4 s4 cf bf. for_loop n 0 (set_boxes p4 cf bf) s4 = Inr s' \<and> all_cpus n s4 \<and> infos s4 = infos s \<and>
    in_base s4 = p1 \<and> out_base s4 = p2 \<and>
    boot_inv low T (add_block p4 (8 * n) (add_block p3 (4096 * n) (add_block p2 (4096 * n) (add_block p1 (4096 * n) []))), s4)"
proof -
  have cnt: "cpu_count s = of_nat n" "n \<le> 255" using assms(2) by (simp_all add: all_cpus_def)
  have sz: "scast (cpu_count s) = (of_nat n :: addr)" using cnt by (simp add: scast_of_nat_cint)
  have n: "unat (cpu_count s) = n" using cnt by (simp add: unat_of_nat take_bit_nat_eq_self)
  define N where "N = (of_nat n * 0x1000 :: addr)"
  have u: "unat (1 :: addr) * unat N = 4096 * n" "unat (8 :: addr) * unat (of_nat n :: addr) = 8 * n"
    using cnt(2) by (simp_all add: N_def unat_word_ariths unat_of_nat take_bit_nat_eq_self)
  have le: "unat (1 :: addr) * unat N \<le> 2 ^ 62" "unat (8 :: addr) * unat (of_nat n :: addr) \<le> 2 ^ 62"
    unfolding u using cnt(2) by simp_all
  obtain p1 s1 p2 s2 p3 s3 p4 s4 where a:
    "calloc_align 1 N (2 ^ 21) s = Inr (p1, s1)"
    "calloc_align 1 N (2 ^ 21) (s1\<lparr>in_base := p1\<rparr>) = Inr (p2, s2)"
    "calloc_align 1 N (2 ^ 21) (s2\<lparr>out_base := p2\<rparr>) = Inr (p3, s3)"
    "calloc_align 8 (of_nat n) (2 ^ 12) (s3\<lparr>ready_base := p3\<rparr>) = Inr (p4, s4)"
    and l: "for_loop (unat (cpu_count s4)) 0
        (set_boxes p4 (get_cpu_freq (hw_tsc hw)) (fst (get_bus_freq (hw_ccr hw) (boot_lapic s4))))
        (s4\<lparr>boot_lapic := snd (get_bus_freq (hw_ccr hw) (boot_lapic s4))\<rparr>) = Inr s'"
    using assms(1) sz
    by (auto simp: alloc_boxes_def get_ncpus_def N_def Let_def case_prod_unfold)
  note b = calloc_align_base [OF a(1)] calloc_align_base [OF a(2)] calloc_align_base [OF a(3)] calloc_align_base [OF a(4)]
  note i1 = calloc_align_inv [OF a(1) assms(3) le(1), unfolded u]
  then have i2: "boot_inv low T (add_block p1 (4096 * n) [], s1\<lparr>in_base := p1\<rparr>)" by (simp add: boot_inv_def)
  note i3 = calloc_align_inv [OF a(2) i2 le(1), unfolded u]
  then have i4: "boot_inv low T (add_block p2 (4096 * n) (add_block p1 (4096 * n) []), s2\<lparr>out_base := p2\<rparr>)" by (simp add: boot_inv_def)
  note i5 = calloc_align_inv [OF a(3) i4 le(1), unfolded u]
  then have i6: "boot_inv low T (add_block p3 (4096 * n) (add_block p2 (4096 * n) (add_block p1 (4096 * n) [])), s3\<lparr>ready_base := p3\<rparr>)"
    by (simp add: boot_inv_def)
  note i7 = calloc_align_inv [OF a(4) i6 le(2), unfolded u]
  obtain cf bf lp where "for_loop n 0 (set_boxes p4 cf bf) (s4\<lparr>boot_lapic := lp\<rparr>) = Inr s'"
  proof (rule that)
    have "unat (cpu_count s4) = n" using b n by simp
    from l [unfolded this] show "for_loop n 0 (set_boxes p4 (get_cpu_freq (hw_tsc hw)) (fst (get_bus_freq (hw_ccr hw) (boot_lapic s4))))
        (s4\<lparr>boot_lapic := snd (get_bus_freq (hw_ccr hw) (boot_lapic s4))\<rparr>) = Inr s'" .
  qed
  with i7 b assms(2) show ?thesis
    by (rule_tac x = p1 in exI, rule_tac x = p2 in exI, rule_tac x = p3 in exI, rule_tac x = p4 in exI,
        rule_tac x = "s4\<lparr>boot_lapic := lp\<rparr>" in exI, rule_tac x = cf in exI, rule_tac x = bf in exI)
      (simp add: all_cpus_def boot_inv_def)
qed

lemma stacked_apart:
  assumes "stacked low (add_block p4 (8 * n) (add_block p3 k (add_block p2 k (add_block p1 k [])))) hi" "hi \<le> 2 ^ 62"
    "p1 \<noteq> 0" "p2 \<noteq> 0" "p4 \<noteq> 0"
  shows "sep_off p2 k p4 (8 * n)" "sep_off p1 k p4 (8 * n)" "sep_off p1 k p2 k"
  using assms by (auto simp: add_block_def sep_off_def split: if_splits)

lemma alloc_boxes_all:
  assumes "alloc_boxes hw s = Inr s'" "all_cpus n s" "boot_inv low T ([], s)"
  shows "all_cpus n s'"
  using alloc_boxes_steps [OF assms] by (auto dest: set_boxes_loop)

lemma alloc_boxes_layout:
  assumes "alloc_boxes hw s = Inr s'" "all_cpus n s" "boot_inv low T ([], s)" "0 < n"
    and nz: "msg_input (infos s' 0) \<noteq> 0" "msg_output (infos s' 0) \<noteq> 0" "msg_ready_bitmap (infos s' 0) \<noteq> 0"
  shows "all_cpus n s'" "\<And>j. j < n \<Longrightarrow> boxed (in_base s') (out_base s') (msg_ready_bitmap (infos s' 0)) j (infos s' j)"
    "\<And>j. cpuid (infos s' j) = cpuid (infos s j)"
    "sep_off (out_base s') (4096 * n) (msg_ready_bitmap (infos s' 0)) (8 * n)"
    "sep_off (in_base s') (4096 * n) (msg_ready_bitmap (infos s' 0)) (8 * n)"
    "sep_off (in_base s') (4096 * n) (out_base s') (4096 * n)"
proof -
  obtain p3 p4 s4 cf bf where l: "for_loop n 0 (set_boxes p4 cf bf) s4 = Inr s'" "all_cpus n s4" "infos s4 = infos s"
    and inv: "boot_inv low T (add_block p4 (8 * n) (add_block p3 (4096 * n) (add_block (out_base s4) (4096 * n)
      (add_block (in_base s4) (4096 * n) []))), s4)"
    using alloc_boxes_steps [OF assms(1-3)] by blast
  note b = set_boxes_loop [OF l(1,2)]
  have bm: "msg_input (infos s' 0) = in_base s'" "msg_output (infos s' 0) = out_base s'" "msg_ready_bitmap (infos s' 0) = p4"
    using b assms(4) by (auto simp: boxed_def)
  show "all_cpus n s'" "\<And>j. j < n \<Longrightarrow> boxed (in_base s') (out_base s') (msg_ready_bitmap (infos s' 0)) j (infos s' j)"
    "\<And>j. cpuid (infos s' j) = cpuid (infos s j)"
    unfolding bm using b l(3) by auto
  have "stacked low (add_block p4 (8 * n) (add_block p3 (4096 * n) (add_block (out_base s') (4096 * n)
      (add_block (in_base s') (4096 * n) [])))) (unat (boot_first_free s4))" "unat (boot_first_free s4) \<le> 2 ^ 62"
    using inv b by (auto simp: boot_inv_def)
  from stacked_apart [OF this nz [unfolded bm]]
  show "sep_off (out_base s') (4096 * n) (msg_ready_bitmap (infos s' 0)) (8 * n)"
    "sep_off (in_base s') (4096 * n) (msg_ready_bitmap (infos s' 0)) (8 * n)"
    "sep_off (in_base s') (4096 * n) (out_base s') (4096 * n)" unfolding bm by auto
qed

section \<open>The layout of the boxes after booting\<close>

definition boot_free :: "nat \<Rightarrow> nat \<Rightarrow> 'a boot_scheme \<Rightarrow> bool" where
  "boot_free low T s \<longleftrightarrow> boot_inv low T ([], s)"

lemma boot_inv_forget: "boot_inv low T (bs, s) \<Longrightarrow> boot_inv low T ([], s)"
  by (auto simp: boot_inv_def dest: stacked_le)

lemma calloc_align_free: "calloc_align 1 n (2 ^ k) s = Inr (p, s') \<Longrightarrow> unat n \<le> 2 ^ 62 \<Longrightarrow> k \<le> 62 \<Longrightarrow> boot_free low T s \<Longrightarrow> boot_free low T s'"
  unfolding boot_free_def using calloc_align_inv [of 1 n k s p s' low T "[]"] by (auto dest: boot_inv_forget)

interpretation boot_frees: mem_inv "boot_free low T" boot_page_table for low T
  by unfold_locales
    (auto simp: boot_free_def boot_inv_def boot_page_table_def
      dest: calloc_align_free [where n = "0x1000" and k = 12, simplified, unfolded boot_free_def boot_inv_def])

lemma boot_free_simps [simp]:
  "boot_free low T (s\<lparr>mem := m\<rparr>) = boot_free low T s"
  "boot_free low T (s1\<lparr>infos := a\<rparr>) = boot_free low T s1" "boot_free low T (s1\<lparr>cpuinfo_pool := b\<rparr>) = boot_free low T s1"
  "boot_free low T (s1\<lparr>cpuinfo_table := c\<rparr>) = boot_free low T s1" "boot_free low T (s1\<lparr>cpu_count := d\<rparr>) = boot_free low T s1"
  "boot_free low T (s1\<lparr>first_time := e\<rparr>) = boot_free low T s1" "boot_free low T (s1\<lparr>ioapicva := f\<rparr>) = boot_free low T s1"
  "boot_free low T (s2\<lparr>boot_1GB := g\<rparr>) = boot_free low T s2"
  by (simp_all add: boot_free_def boot_inv_def)

lemma pool_free: "allocate_cpuinfo_pool s = Inr s' \<Longrightarrow> boot_free low T s \<Longrightarrow> boot_free low T s'"
  by (auto simp: allocate_cpuinfo_pool_def split: if_splits
      dest: calloc_align_free [where n = "0x200000" and k = 21 and low = low and T = T, simplified])

lemma add_cpu_free: "add_cpu s = Inr (i, s') \<Longrightarrow> boot_free low T s \<Longrightarrow> boot_free low T s'"
  by (auto simp: add_cpu_def Let_def dest!: pool_free split: if_splits)

lemma calloc_align_rest: "calloc_align c n a s = Inr (p, s') \<Longrightarrow> stage2.more s' = stage2.more s"
  by (auto simp: calloc_align_def Let_def split: if_splits)

lemma add_cpu_more: "add_cpu s = Inr (i, s') \<Longrightarrow> stage2.more s' = stage2.more s"
  by (auto simp: add_cpu_def allocate_cpuinfo_pool_def Let_def dest!: calloc_align_rest split: if_splits)

lemma add_cores_inv:
  assumes "\<And>s i s'. add_cpu s = Inr (i, s') \<Longrightarrow> Q s \<Longrightarrow> Q s'" "\<And>s x. Q (s\<lparr>infos := x\<rparr>) = Q s"
  shows "add_cores n (c, s) = Inr (c', s') \<Longrightarrow> Q s \<Longrightarrow> Q s'"
  by (induction n arbitrary: c s) (auto simp: upd_info_def assms(2) dest!: assms(1))

lemma mp_walk_inv:
  assumes q: "\<And>s i s'. add_cpu s = Inr (i, s') \<Longrightarrow> Q s \<Longrightarrow> Q s'" "\<And>s x. Q (s\<lparr>infos := x\<rparr>) = Q s"
    and "unat conf + 65555 < 2 ^ 64" "mp_walk eax conf p io (c, s) = Some (Inr (io', c', s'))" "Q s"
  shows "Q s'"
  using assms(3-)
proof (induction p arbitrary: c s io rule: walk_induct)
  case (step p)
  note ih = step(1) [where m = "mem s", OF _ disjI1 [OF refl]] step(1) [where m = "mem s", OF _ disjI2 [OF refl]]
  have cores: "add_cores n (c, s) = Inr (c', s') \<Longrightarrow> Q s \<Longrightarrow> Q s'" for n c s c' s'
    by (rule add_cores_inv [of Q]) (auto dest: q(1) simp: q(2))
  show ?case using step.prems
    by (subst (asm) mp_walk.simps) (auto simp: Let_def split: if_splits sum.splits dest!: cores intro: ih)
qed

lemma mp_walk_keeps:
  assumes "unat conf + 65555 < 2 ^ 64" "mp_walk eax conf p io (c, s) = Some (Inr (io', c', s'))"
  shows "boot_free low T s \<Longrightarrow> boot_free low T s'" "stage2.more s' = stage2.more s"
proof -
  show "boot_free low T s \<Longrightarrow> boot_free low T s'"
    by (rule mp_walk_inv [OF _ _ assms, where Q = "boot_free low T"]) (auto dest: add_cpu_free)
  show "stage2.more s' = stage2.more s"
    by (rule mp_walk_inv [OF _ _ assms, where Q = "\<lambda>t. stage2.more t = stage2.more s"]) (auto dest: add_cpu_more)
qed

lemma mp_init_found:
  assumes "mp_init edx msr eax s = Inr s'" "cpus_found 0 s" "boot_free low T s"
  shows "\<exists>n. cpus_found n s' \<and> MIN_CPUS \<le> n \<and> boot_free low T s'"
proof -
  obtain w :: cint and p io c s1 v where w: "mp_walk eax (ucast w) p None (0, s) = Some (Inr (io, c, s1))"
    and c: "c = scast (cpu_count s1)" "\<not> c < 4" and s': "s' = s1\<lparr>ioapicva := v\<rparr>"
    using assms(1) by (auto simp: mp_init_def returns_def get_ncpus_def Let_def split: if_splits option.splits)
  have b: "unat (ucast w :: addr) + 65555 < 2 ^ 64" using unsigned_less [where ?'a = nat, of w] by simp
  have "mp_walk eax (ucast w) p None (of_nat 0, s) = Some (Inr (io, c, s1))" using w by simp
  from mp_walk_found [OF b assms(2) this] obtain n where n: "c = of_nat n" "cpus_found n s1" by blast
  have "MIN_CPUS \<le> n" using c(2) n cpus_foundD(1) [OF n(2)]
    by (simp add: word_less_nat_alt unat_of_nat take_bit_nat_eq_self)
  moreover have "boot_free low T s1" by (rule mp_walk_keeps(1) [OF b w assms(3)])
  ultimately show ?thesis using s' n(2) by (auto simp: cpus_found_def)
qed

lemma cpus_found_all: "cpus_found n s \<Longrightarrow> all_cpus n s"
  by (simp add: cpus_found_def all_cpus_def)

lemma init_interrupts_keeps: "init_interrupts h s = Inr s' \<Longrightarrow> ipc_view s' = ipc_view s \<and> boot_1GB s' = boot_1GB s"
  by (auto simp: init_interrupts_def ipc_view_def)

text \<open>The steps of \<open>boot_stage2_main\<close> by name.\<close>

lemma boot_stage2_main_steps:
  assumes "boot_stage2_main h hw args s = Inr s'"
  obtains s1 r s2 s3 s4 s5 s6 s7 where
    "s1 = (boot_memory_init (boot_stage2_end_addr args) (sys_mem_size args) (s\<lparr>boot_cursor := (0, 0, 0xB8000)\<rparr>))
       \<lparr>boot_1GB := ((ucast (arg_has_1GB args) :: cint) \<noteq> 0)\<rparr>"
    "boot_map_memory (boot_stage2_page_tables args) IO_START IO_END IO_START SZ_2MB (PAGE_PRESENT OR PAGE_RW OR PAGE_PCD) MAP_UPDATE s1 =
       Inr (r, s2)"
    "mp_init (hw_edx hw) (hw_msr hw) (hw_eax4 hw) s2 = Inr s3" "alloc_boxes hw s3 = Inr s4" "init_interrupts h s4 = Inr s5"
    "load_all_vms ((\<lambda>_. 0)(PM_ID := pm_elf_addr args, FS_ID := fs_elf_addr args, INIT_ID := init_elf_addr args)) s5 = Inr s6"
    "load_all_vmms (vmm_elf_addr args) (boot_stage2_end_addr args) s6 = Inr s7" "set_vm_args args s7 = Inr s'"
  using assms by (auto simp: boot_stage2_main_def)

lemma cpus_found_view: "ipc_view s' = ipc_view s \<Longrightarrow> first_time s' = first_time s \<Longrightarrow> cpus_found 0 s' = cpus_found 0 s"
  by (simp add: ipc_view_def cpus_found_def)

text \<open>Up to the boxes: the processors are numbered and the bump allocator is as it should be.\<close>

lemma boot_processors_found:
  fixes s s' :: "'a bootstage_scheme"
  assumes "boot_stage2_main h hw args s = Inr s'" "cpus_found 0 s" "0 < boot_stage2_end_addr args"
    "unat (boot_stage2_end_addr args) \<le> 2 ^ 61" "unat (sys_mem_size args) \<le> 2 ^ 52"
  obtains n low T and s3 s4 :: "'a bootstage_scheme" where "cpus_found n s3" "MIN_CPUS \<le> n" "boot_inv low T ([], s3)" "alloc_boxes hw s3 = Inr s4"
    "all_cpus n s4 \<longrightarrow> ipc_view s' = ipc_view s4 \<and> (\<forall>j<n. counts s' j = of_nat n)"
proof -
  obtain s1 r s2 s3 s4 s5 s6 s7 where
    s1: "s1 = (boot_memory_init (boot_stage2_end_addr args) (sys_mem_size args) (s\<lparr>boot_cursor := (0, 0, 0xB8000)\<rparr>))
       \<lparr>boot_1GB := ((ucast (arg_has_1GB args) :: cint) \<noteq> 0)\<rparr>"
    and s2: "boot_map_memory (boot_stage2_page_tables args) IO_START IO_END IO_START SZ_2MB (PAGE_PRESENT OR PAGE_RW OR PAGE_PCD) MAP_UPDATE s1 =
       Inr (r, s2)"
    and s3: "mp_init (hw_edx hw) (hw_msr hw) (hw_eax4 hw) s2 = Inr s3" and s4: "alloc_boxes hw s3 = Inr s4"
    and s5: "init_interrupts h s4 = Inr s5"
    and s6: "load_all_vms ((\<lambda>_. 0)(PM_ID := pm_elf_addr args, FS_ID := fs_elf_addr args, INIT_ID := init_elf_addr args)) s5 = Inr s6"
    and s7: "load_all_vmms (vmm_elf_addr args) (boot_stage2_end_addr args) s6 = Inr s7" and s8: "set_vm_args args s7 = Inr s'"
    by (rule boot_stage2_main_steps [OF assms(1)])
  define low T where "low = unat (boot_stage2_end_addr args)" and "T = 1024 * unat (sys_mem_size args)"
  have "boot_free low T s1"
    using boot_init_inv [OF assms(3-5), of "s\<lparr>boot_cursor := (0, 0, 0xB8000)\<rparr>"] unfolding s1 low_def T_def
    by (simp add: boot_free_def boot_inv_def)
  then have f2: "boot_free low T s2" using boot_frees.map_memory_inv s2 unfolding boot_map_memory_def by blast
  have "keep s2 = keep s1" using boot_keeps.map_memory_keeps s2 unfolding boot_map_memory_def by blast
  then have "ipc_view s2 = ipc_view s" "first_time s2 = first_time s"
    by (auto simp: s1 keep_def ipc_view_def boot_memory_init_def)
  with mp_init_found [OF s3 _ f2] cpus_found_view assms(2)
  obtain n where n: "cpus_found n s3" "MIN_CPUS \<le> n" "boot_inv low T ([], s3)" unfolding boot_free_def by blast
  have k: "ipc_view s6 = ipc_view s4" using init_interrupts_keeps [OF s5] load_all_vms_keep [OF s6] by (simp add: keep_def)
  have "keep s' = keep s7" using s8 by (auto simp: set_vm_args_def at_cpu_def Let_def)
  then have "all_cpus n s4 \<longrightarrow> ipc_view s' = ipc_view s4 \<and> (\<forall>j<n. counts s' j = of_nat n)"
    using load_all_vmms_view [OF s7, of n] k all_cpus_view [OF k] by (auto simp: keep_def)
  then show thesis by (rule that [OF n s4])
qed

text \<open>
  Booting establishes the layout that the message passing relies on: if the second boot stage gets as far as the
  monitors, and there was memory for the boxes, then every processor is numbered, knows the number of processors,
  has its own 4 KB of the input and of the output boxes and the shared bitmaps, and these areas do not overlap.
\<close>

lemma boot_establishes_ipc:
  fixes s s' :: "'a bootstage_scheme"
  assumes "boot_stage2_main h hw args s = Inr s'" "cpus_found 0 s"
    and "0 < boot_stage2_end_addr args" "unat (boot_stage2_end_addr args) \<le> 2 ^ 61" "unat (sys_mem_size args) \<le> 2 ^ 52"
    and nz: "msg_input (infos s' 0) \<noteq> 0" "msg_output (infos s' 0) \<noteq> 0" "msg_ready_bitmap (infos s' 0) \<noteq> 0"
  shows "ipc_layout (infos s') (unat (get_ncpus s')) (msg_input (infos s' 0)) (msg_output (infos s' 0))
    (msg_ready_bitmap (infos s' 0)) \<and> MIN_CPUS \<le> unat (get_ncpus s')"
proof -
  obtain n low T and s3 s4 :: "'a bootstage_scheme" where n: "cpus_found n s3" "MIN_CPUS \<le> n" "boot_inv low T ([], s3)" "alloc_boxes hw s3 = Inr s4"
    and v: "all_cpus n s4 \<longrightarrow> ipc_view s' = ipc_view s4 \<and> (\<forall>j<n. counts s' j = of_nat n)"
    by (rule boot_processors_found [OF assms(1-5)])
  have a: "all_cpus n s4" by (rule alloc_boxes_all [OF n(4) cpus_found_all [OF n(1)] n(3)])
  have bx: "boxes (infos s' j) = boxes (infos s4 j)" for j using v [rule_format, OF a] by (simp add: ipc_view_def fun_eq_iff)
  have c: "ncpus (infos s' j) = of_nat n" if "j < n" for j using v [rule_format, OF a] that by (simp add: counts_def)
  have "get_ncpus s' = of_nat n" using v [rule_format, OF a] a by (simp add: ipc_view_def get_ncpus_def all_cpus_def)
  then have m: "unat (get_ncpus s') = n" "n \<le> 255" using a by (simp_all add: all_cpus_def unat_of_nat take_bit_nat_eq_self)
  have nz4: "msg_input (infos s4 0) \<noteq> 0" "msg_output (infos s4 0) \<noteq> 0" "msg_ready_bitmap (infos s4 0) \<noteq> 0"
    using nz bx [of 0] by (simp_all add: boxes_def)
  have pos: "0 < n" using n(2) by simp
  note l = alloc_boxes_layout [OF n(4) cpus_found_all [OF n(1)] n(3) pos nz4]
  have b0: "boxed (in_base s4) (out_base s4) (msg_ready_bitmap (infos s4 0)) 0 (infos s4 0)" by (rule l(2) [OF pos])
  have "cpuid (infos s4 j) = of_nat j" if "j < n" for j
    using l(3) [of j] cpus_foundD(5) [OF n(1) pos] that by (simp add: numbered_def)
  moreover have e: "msg_input (infos s' 0) = in_base s4" "msg_output (infos s' 0) = out_base s4"
    "msg_ready_bitmap (infos s' 0) = msg_ready_bitmap (infos s4 0)"
    using b0 bx [of 0] by (simp_all add: boxed_def boxes_def)
  moreover have "boxed (in_base s4) (out_base s4) (msg_ready_bitmap (infos s4 0)) j (infos s' j)"
    "cpuid (infos s' j) = cpuid (infos s4 j)" if "j < n" for j
    using l(2) [OF that] bx [of j] by (simp_all add: boxed_def boxes_def)
  ultimately show ?thesis unfolding m(1) ipc_layout_def e using m(2) n(2) c l(4-6) by (auto simp: boxed_def)
qed

section \<open>Machines with pages of 1 GB\<close>

text \<open>The second mapping of the guest starts at 2 MB, which no page of 1 GB does.\<close>

lemma map_vm_guest_1GB: "boot_1GB s \<Longrightarrow> map_vm_guest i s \<noteq> Inr s'"
proof
  assume g: "boot_1GB s" "map_vm_guest i s = Inr s'"
  then obtain s1 where s1: "map_vm i 0 SZ_2MB 0 SZ_1GB (PAGE_PRESENT OR PAGE_RW OR PAGE_PCD) MAP_NEW s = Inr s1"
    "map_vm i SZ_2MB IO_START SZ_2MB (large_size s1) (PAGE_PRESENT OR PAGE_RW) MAP_UPDATE s1 \<noteq> Inl (Panic ''Address is not 1GB aligned'')"
    by (auto simp: map_vm_guest_def)
  have "boot_1GB s1" using map_keeps(2) [OF s1(1)] g(1) by (cases s, cases s1) (simp add: keep_def)
  with s1(2) show False by (simp add: map_vm_def boot_map_memory_def map_memory_def map_region_def page_size_ok_def)
qed

lemma keep_1GB: "keep s' = keep s \<Longrightarrow> boot_1GB s' = boot_1GB s"
  by (cases s, cases s') (simp add: keep_def)

lemma load_all_vms_1GB: "boot_1GB s \<Longrightarrow> load_all_vms vms s \<noteq> Inr s'"
proof
  assume g: "boot_1GB s" "load_all_vms vms s = Inr s'"
  then obtain s1 s2 s3 i s4 where s: "load_server_vms PM_ID (vms PM_ID) s = Inr s1" "load_server_vms FS_ID (vms FS_ID) s1 = Inr s2"
    "load_other_vms INIT_ID (vms INIT_ID) s2 = Inr s3" "map_vm_guest i s3 = Inr s4"
    by (auto simp: load_all_vms_def at_cpu_def ept_map_memory_server_def)
  have "keep s3 = keep s" using load_keeps(1) [OF s(1)] load_keeps(1) [OF s(2)] load_keeps(2) [OF s(3)] by simp
  from keep_1GB [OF this] g(1) map_vm_guest_1GB s(4) show False by blast
qed

lemma mp_init_1GB: "mp_init edx msr eax s = Inr s' \<Longrightarrow> boot_1GB s' = boot_1GB s"
proof -
  assume "mp_init edx msr eax s = Inr s'"
  then obtain w :: cint and p io c s1 v where w: "mp_walk eax (ucast w) p None (0, s) = Some (Inr (io, c, s1))"
    and s': "s' = s1\<lparr>ioapicva := v\<rparr>"
    by (auto simp: mp_init_def returns_def get_ncpus_def Let_def split: if_splits option.splits)
  have b: "unat (ucast w :: addr) + 65555 < 2 ^ 64" using unsigned_less [where ?'a = nat, of w] by simp
  from mp_walk_keeps(2) [OF b w] s' show ?thesis by (cases s, cases s1) simp
qed

lemma alloc_boxes_1GB: "alloc_boxes hw s = Inr s' \<Longrightarrow> boot_1GB s' = boot_1GB s"
proof -
  assume a: "alloc_boxes hw s = Inr s'"
  have l: "for_loop n k (set_boxes bm cf bf) s = Inr s' \<Longrightarrow> boot_1GB s' = boot_1GB s" for n k bm cf bf and s s' :: "'a bootstage_scheme"
    by (rule for_loop_keeps [where h = boot_1GB]) (auto simp: set_boxes_def upd_info_def)
  have c: "calloc_align c n al s = Inr (p, s') \<Longrightarrow> boot_1GB s' = boot_1GB s" for c n al p and s s' :: "'a bootstage_scheme"
    by (auto simp: calloc_align_def Let_def split: if_splits)
  from a show ?thesis by (auto simp: alloc_boxes_def Let_def case_prod_unfold dest!: l c)
qed

definition demo_hardware :: hardware where
  "demo_hardware = \<lparr>hw_edx = 0x200, hw_msr = 0xFEE00900, hw_eax4 = 0x0C000000, hw_tsc = (0, 0x1000000), hw_ccr = 0x1000000\<rparr>"

definition demo_bootstage :: bootstage where
  "demo_bootstage = stage2.extend demo_stage2 (bootstage.fields False 0 0 0 (0, 0, 0) []
     \<lparr>i8259_mask = 0, pic_ports = []\<rparr> \<lparr>io_reg = 0, io_data = (\<lambda>_. 0)\<rparr> (\<lambda>_. 0) 0)"



end
