(* ===== verification/Boot_Aps.thy ===== *)
theory Boot_Aps
  imports Boot_Main
begin

unbundle bit_operations_syntax

text \<open>
  Starting the other processors (\<open>mp_bootothers\<close> of \<open>src/boot/stage2/mp.c\<close>, \<open>lapic_startaps\<close> and what it calls of
  \<open>src/boot/stage2/dev/lapic.c\<close>, the delay of \<open>dev/i8253.c\<close>) up to the point where each of them enters its monitor
  (\<open>src/boot/stage2/boot_aps.S\<close>), and the inline functions of \<open>src/lib/include/lapic.h\<close>.

  The local APIC delivers what is written to its command register and is busy for \<open>icr_delay\<close> reads after that.
  A processor that has got INIT waits for STARTUP, which gives it the page to start at.  It then runs while the
  boot processor waits for it: it takes the pointer to its structure from \<open>CPU_INFO_PTR_ADDR\<close>, loads page tables and
  stack from the structure and jumps to the monitor, whose first step is to say that it is ready.
\<close>

section \<open>State\<close>

record monitor_entry =
  e_cr3 :: addr
  e_rsp :: addr
  e_rdi :: addr
  e_rip :: addr

record aps = bootstage +
  icr_busy :: nat
  icr_delay :: nat
  cmos_index :: byte
  cmos :: "byte \<Rightarrow> byte"
  channel2 :: byte
  pit_ticks :: nat
  got_init :: "cint set"
  got_startup :: "(cint \<times> cint) list"
  entered :: "cint \<Rightarrow> monitor_entry option"

abbreviation (input) "LAPIC_ICRLO \<equiv> 0x300"
abbreviation (input) "LAPIC_ICRHI \<equiv> 0x310"
abbreviation (input) "LAPIC_ID_SHIFT \<equiv> 24"
abbreviation (input) "LAPIC_DLMODE_MASK \<equiv> 0x700"
abbreviation (input) "LAPIC_DLMODE_INIT \<equiv> 0x500"
abbreviation (input) "LAPIC_DLMODE_STARTUP \<equiv> 0x600"
abbreviation (input) "LAPIC_DLSTAT_BUSY \<equiv> 0x1000"
abbreviation (input) "LAPIC_LVL_ASSERT \<equiv> 0x4000"
abbreviation (input) "LAPIC_LVL_TRIG \<equiv> 0x8000"
abbreviation (input) "BOOT_APS_BASE_ADDR \<equiv> 0x9F000"
abbreviation (input) "CPU_INFO_PTR_ADDR \<equiv> 0x9F200"
abbreviation (input) "NVRAM_RESET \<equiv> 0xF"
abbreviation (input) "NVRAM_RESET_JUMP \<equiv> 0xA"
abbreviation (input) "TIMER_1MS \<equiv> 0x4A9"

section \<open>The local APIC\<close>

definition lapic_eoi :: "lapic \<Rightarrow> lapic" where
  "lapic_eoi l = lapic_write 0xB0 0 l"

definition lapic_on :: "lapic \<Rightarrow> lapic" where
  "lapic_on l =
    (let l1 = lapic_write LAPIC_DFR 0xFFFFFFFF l;
         l2 = lapic_write LAPIC_LDR ((l1 LAPIC_LDR AND 0x00FFFFFF) OR 1) l1;
         l3 = lapic_write LAPIC_PCINT (push_bit 8 4) (lapic_write LAPIC_LVTT LAPIC_LVT_MASKED l2);
         l4 = lapic_write LAPIC_LVINT1 (LAPIC_LVT_MASKED OR push_bit 13 1) (lapic_write LAPIC_LVINT0 (LAPIC_LVT_MASKED OR push_bit 13 1) l3)
     in lapic_write LAPIC_SVR (39 OR LAPIC_SVR_ENABLE) (lapic_write LAPIC_TPRI 0 l4))"

text \<open>What the command register does when its low half is written.\<close>

definition icr_send :: "cint \<Rightarrow> 'a aps_scheme \<Rightarrow> 'a aps_scheme" where
  "icr_send v s =
    (let dest = drop_bit LAPIC_ID_SHIFT (boot_lapic s LAPIC_ICRHI); s1 = s\<lparr>icr_busy := icr_delay s\<rparr> in
     if v AND LAPIC_DLMODE_MASK = LAPIC_DLMODE_INIT then
       (if v AND LAPIC_LVL_ASSERT \<noteq> 0 then s1\<lparr>got_init := insert dest (got_init s)\<rparr> else s1)
     else if v AND LAPIC_DLMODE_MASK = LAPIC_DLMODE_STARTUP \<and> dest \<in> got_init s then
       s1\<lparr>got_init := got_init s - {dest}, got_startup := got_startup s @ [(dest, v AND 0xFF)]\<rparr>
     else s1)"

definition ap_lapic_write :: "cint \<Rightarrow> cint \<Rightarrow> 'a aps_scheme \<Rightarrow> 'a aps_scheme" where
  "ap_lapic_write off v s =
    (let s1 = s\<lparr>boot_lapic := lapic_write off v (boot_lapic s)\<rparr> in if off = LAPIC_ICRLO then icr_send v s1 else s1)"

text \<open>Reading the low half of the command register.\<close>

definition icr_read :: "'a aps_scheme \<Rightarrow> cint \<times> 'a aps_scheme" where
  "icr_read s =
    ((boot_lapic s LAPIC_ICRLO AND NOT LAPIC_DLSTAT_BUSY) OR (if icr_busy s = 0 then 0 else LAPIC_DLSTAT_BUSY),
     s\<lparr>icr_busy := icr_busy s - 1\<rparr>)"

primrec icr_poll :: "nat \<Rightarrow> 'a aps_scheme \<Rightarrow> cint \<times> 'a aps_scheme" where
  "icr_poll 0 s = (- 1, s)"
| "icr_poll (Suc i) s = (let (v, s1) = icr_read s in if v AND LAPIC_DLSTAT_BUSY = 0 then (0, s1) else icr_poll i s1)"

definition lapic_icr_wait :: "'a aps_scheme \<Rightarrow> cint \<times> 'a aps_scheme" where
  "lapic_icr_wait s = icr_poll 100000 s"

text \<open>\<open>lapic_send_ipi\<close> polls until the register is free, which it is after \<open>icr_busy\<close> reads.\<close>

definition lapic_send_ipi :: "cint \<Rightarrow> addr \<Rightarrow> 'a aps_scheme \<Rightarrow> 'a aps_scheme" where
  "lapic_send_ipi vector dest s =
    ap_lapic_write LAPIC_ICRLO vector
      (ap_lapic_write LAPIC_ICRHI (ucast (push_bit LAPIC_ID_SHIFT dest)) (snd (icr_poll (Suc (icr_busy s)) s)))"

section \<open>The delay\<close>

text \<open>
  One turn of the loop of \<open>i8253_delay\<close>: channel 2 counts down from the value it is given, and the poll ends when
  it has reached zero.
\<close>

definition delay_1ms :: "'a aps_scheme \<Rightarrow> 'a aps_scheme" where
  "delay_1ms s =
    (let s1 = s\<lparr>channel2 := (channel2 s AND 0x0C) OR 1\<rparr>; s2 = s1\<lparr>pit_ticks := pit_ticks s1 + TIMER_1MS\<rparr>
     in s2\<lparr>channel2 := channel2 s2 AND 0x0C\<rparr>)"

definition i8253_delay :: "nat \<Rightarrow> 'a aps_scheme \<Rightarrow> 'a aps_scheme" where
  "i8253_delay msec s = (delay_1ms ^^ msec) s"

definition timer_delay :: "nat \<Rightarrow> 'a aps_scheme \<Rightarrow> 'a aps_scheme" where
  "timer_delay msec s = i8253_delay msec s"

section \<open>Starting a processor\<close>

definition lapic_ipi_init :: "cint \<Rightarrow> 'a aps_scheme \<Rightarrow> cint \<times> 'a aps_scheme" where
  "lapic_ipi_init apicid s =
    (let s1 = ap_lapic_write LAPIC_ICRHI (push_bit LAPIC_ID_SHIFT apicid) s;
         s2 = ap_lapic_write LAPIC_ICRLO (apicid OR LAPIC_DLMODE_INIT OR LAPIC_LVL_TRIG OR LAPIC_LVL_ASSERT) s1;
         s3 = timer_delay 10 (snd (lapic_icr_wait s2));
         s4 = ap_lapic_write LAPIC_ICRLO (apicid OR LAPIC_DLMODE_INIT OR LAPIC_LVL_TRIG OR 0) s3;
         (v, s5) = icr_read (snd (lapic_icr_wait s4))
     in (if v AND LAPIC_DLSTAT_BUSY \<noteq> 0 then - 1 else 0, s5))"

definition send_startup :: "addr \<Rightarrow> 'a aps_scheme \<Rightarrow> 'a aps_scheme" where
  "send_startup dest s =
    timer_delay 1
      (ap_lapic_write LAPIC_ICRLO (LAPIC_DLMODE_STARTUP OR drop_bit 12 BOOT_APS_BASE_ADDR)
        (ap_lapic_write LAPIC_ICRHI (ucast (push_bit LAPIC_ID_SHIFT dest)) (snd (lapic_icr_wait s))))"

definition set_reset_vector :: "'a aps_scheme \<Rightarrow> 'a aps_scheme" where
  "set_reset_vector s =
    (let s1 = s\<lparr>cmos_index := NVRAM_RESET\<rparr>; s2 = s1\<lparr>cmos := (cmos s1)(cmos_index s1 := NVRAM_RESET_JUMP)\<rparr>
     in s2\<lparr>mem := store_le 2 (store_le 2 (mem s2) 0x467 (0 :: 16 word)) 0x469 (ucast (drop_bit 4 BOOT_APS_BASE_ADDR :: cint) :: 16 word)\<rparr>)"

definition lapic_startaps :: "addr \<Rightarrow> 'a aps_scheme \<Rightarrow> 'a aps_scheme res" where
  "lapic_startaps c s =
    bindr (boot_cpu_info c s) (\<lambda>cpu.
      case cpu of
        None \<Rightarrow> Inl (Panic ''Failed to get cpu information. boot/stage2/lapic.c'')
      | Some i \<Rightarrow>
          if load32 (mem s) (msg_ready (infos s i)) \<noteq> 0 then Inl (Panic ''Why do you try to boot a booted processor?!'')
          else
            (let s1 = set_reset_vector s;
                 s2 = s1\<lparr>mem := store64 (mem s1) CPU_INFO_PTR_ADDR (info_addr i s1)\<rparr>;
                 (r, s3) = lapic_ipi_init (ucast c) s2
             in if r <s 0 then Inl (Panic ''unable to send init error r'')
                else Inr ((send_startup c ^^ 2) (timer_delay 10 s3))))"

section \<open>The processor that is started\<close>

text \<open>The structure at an address of the pool.  \<open>boot_aps.S\<close> reads the page tables in 32-bit mode.\<close>

definition info_at :: "addr \<Rightarrow> 'a aps_scheme \<Rightarrow> nat" where
  "info_at p s = unat (p - cpuinfo_pool s) div 4096"

definition boot_aps :: "'a aps_scheme \<Rightarrow> monitor_entry" where
  "boot_aps s =
    (let p = load64 (mem s) CPU_INFO_PTR_ADDR; edi = ucast (load32 (mem s) CPU_INFO_PTR_ADDR) in
     \<lparr>e_cr3 = ucast (ucast (vmm_page_tables (vmm_info (infos s (info_at edi s)))) :: cint),
      e_rsp = r_rsp (vmm_regs (vmm_info (infos s (info_at p s)))), e_rdi = p, e_rip = 0x40000000\<rparr>)"

definition run_ap :: "cint \<times> cint \<Rightarrow> 'a aps_scheme \<Rightarrow> 'a aps_scheme" where
  "run_ap ap s =
    (case ap of (k, page) \<Rightarrow>
       if push_bit 12 page = BOOT_APS_BASE_ADDR
       then (let e = boot_aps s in upd_info (info_at (e_rdi e) s) (\<lambda>c. c\<lparr>cpu_ready := 1\<rparr>) (s\<lparr>entered := (entered s)(k := Some e)\<rparr>))
       else s)"

definition run_aps :: "'a aps_scheme \<Rightarrow> 'a aps_scheme" where
  "run_aps s = fold run_ap (got_startup s) (s\<lparr>got_startup := []\<rparr>)"

text \<open>\<open>while (!cpu->ready);\<close>\<close>

definition wait_ready :: "nat \<Rightarrow> 'a aps_scheme \<Rightarrow> 'a aps_scheme res" where
  "wait_ready i s = (let s1 = run_aps s in if cpu_ready (infos s1 i) = 0 then Inl Blocked else Inr s1)"

definition boot_other :: "nat \<Rightarrow> 'a aps_scheme \<Rightarrow> 'a aps_scheme res" where
  "boot_other k s =
    bindr (the_cpu (of_nat k) s) (\<lambda>i.
    bindr (lapic_startaps (ucast (lapic_id (infos s i))) s) (wait_ready i))"

text \<open>At the end the boot processor itself enters the monitor of the process manager.\<close>

definition mp_bootothers :: "'a aps_scheme \<Rightarrow> (monitor_entry \<times> 'a aps_scheme) res" where
  "mp_bootothers s =
    bindr (for_loop (unat (scast (get_ncpus s) :: addr) - 1) 1 boot_other s) (\<lambda>s1.
    bindr (the_cpu PM_ID s1) (\<lambda>i.
      let v = vmm_info (infos s1 i) in
      Inr (\<lparr>e_cr3 = vmm_page_tables v, e_rsp = r_rsp (vmm_regs v), e_rdi = info_addr i s1, e_rip = vmm_start_vaddr v\<rparr>,
           s1\<lparr>mem := store64 (mem s1) CPU_INFO_PTR_ADDR (info_addr i s1)\<rparr>)))"

section \<open>The steps in closed form\<close>

lemma busy_bit: "((x AND NOT 0x1000) OR (if b then 0 else 0x1000)) AND (0x1000 :: cint) = 0 \<longleftrightarrow> b"
proof -
  have m: "(0x1000 :: cint) = push_bit 12 1" by simp
  have "(x AND NOT 0x1000) AND (0x1000 :: cint) = 0" unfolding m by (rule bit_word_eqI) (auto simp: bit_simps)
  then show ?thesis by (simp add: bit.conj_disj_distrib2)
qed

lemma icr_read_simps [simp]:
  "fst (icr_read s) AND 0x1000 = 0 \<longleftrightarrow> icr_busy s = 0" "snd (icr_read s) = s\<lparr>icr_busy := icr_busy s - 1\<rparr>"
  by (simp_all only: icr_read_def busy_bit fst_conv snd_conv)

lemma icr_poll_free: "icr_busy s < n \<Longrightarrow> icr_poll n s = (0, s\<lparr>icr_busy := 0\<rparr>)"
proof (induction n arbitrary: s)
  case (Suc n)
  show ?case
  proof (cases "icr_busy s")
    case (Suc b)
    then show ?thesis using Suc.IH [of "s\<lparr>icr_busy := b\<rparr>"] Suc.prems by (simp add: case_prod_unfold)
  qed (simp add: case_prod_unfold)
qed simp

lemma channel2_bits: "((c AND 0xC) OR 1) AND 0xC = c AND (0xC :: byte)" "c AND 0xC AND 0xC = c AND (0xC :: byte)"
  by (simp_all add: bit.conj_disj_distrib2 and.assoc)

lemma timer_delay_eq:
  "timer_delay m s = s\<lparr>channel2 := (if m = 0 then channel2 s else channel2 s AND 0xC), pit_ticks := pit_ticks s + m * TIMER_1MS\<rparr>"
proof (induction m)
  case (Suc m)
  have "timer_delay (Suc m) s = delay_1ms (timer_delay m s)" by (simp add: timer_delay_def i8253_delay_def)
  then show ?case by (simp add: Suc delay_1ms_def channel2_bits Let_def)
qed (simp add: timer_delay_def i8253_delay_def)

lemma icr_dest: "k < 256 \<Longrightarrow> drop_bit 24 (push_bit 24 (of_nat k)) = (of_nat k :: cint)"
  "k < 256 \<Longrightarrow> drop_bit 24 (ucast (push_bit 24 (of_nat k :: addr))) = (of_nat k :: cint)"
proof -
  assume k: "k < 256"
  have b: "bit (of_nat k :: cint) n \<Longrightarrow> n < 8" for n
    using k bit_take_bit_iff [of 8 k n] by (simp add: bit_of_nat_iff take_bit_nat_eq_self)
  have b': "bit k n \<Longrightarrow> n < 8" for n
    using k bit_take_bit_iff [of 8 k n] by (simp add: take_bit_nat_eq_self)
  show "drop_bit 24 (push_bit 24 (of_nat k)) = (of_nat k :: cint)"
    by (rule bit_word_eqI) (auto simp: bit_simps dest: b b')
  show "drop_bit 24 (ucast (push_bit 24 (of_nat k :: addr))) = (of_nat k :: cint)"
    by (rule bit_word_eqI) (auto simp: bit_simps dest: b b')
qed

lemma init_command:
  assumes "k < 256"
  shows "(of_nat k OR 0x500 OR 0x8000 OR 0x4000) AND 0x700 = (0x500 :: cint)" "(of_nat k OR 0x500 OR 0x8000 OR 0x4000) AND 0x4000 = (0x4000 :: cint)"
    "(of_nat k OR 0x500 OR 0x8000 OR 0) AND 0x700 = (0x500 :: cint)" "(of_nat k OR 0x500 OR 0x8000 OR 0) AND 0x4000 = (0 :: cint)"
proof -
  have "take_bit 8 (of_nat k :: cint) = of_nat k" using assms by (simp add: take_bit_of_nat take_bit_nat_eq_self)
  then have e: "(of_nat k :: cint) = of_nat k AND 0xFF" by (simp add: take_bit_eq_mask mask_eq_exp_minus_1)
  have "of_nat k AND 0x700 = (0 :: cint)" by (subst e) (simp add: and.assoc)
  moreover have "of_nat k AND 0x4000 = (0 :: cint)" by (subst e) (simp add: and.assoc)
  ultimately show "(of_nat k OR 0x500 OR 0x8000 OR 0x4000) AND 0x700 = (0x500 :: cint)"
    "(of_nat k OR 0x500 OR 0x8000 OR 0x4000) AND 0x4000 = (0x4000 :: cint)"
    "(of_nat k OR 0x500 OR 0x8000 OR 0) AND 0x700 = (0x500 :: cint)" "(of_nat k OR 0x500 OR 0x8000 OR 0) AND 0x4000 = (0 :: cint)"
    by (simp_all add: bit.conj_disj_distrib2)
qed

text \<open>The parts of the state that the commands and delays change besides what they deliver.\<close>

definition devices :: "lapic \<Rightarrow> nat \<Rightarrow> byte \<Rightarrow> nat \<Rightarrow> 'a aps_scheme \<Rightarrow> 'a aps_scheme" where
  "devices l b c t s = s\<lparr>boot_lapic := l, icr_busy := b, channel2 := c, pit_ticks := t\<rparr>"

lemma ipi_init_delivers:
  assumes "k < 256" "icr_delay s < 100000"
  shows "\<exists>l c t. lapic_ipi_init (of_nat k) s = (0, devices l 0 c t (s\<lparr>got_init := insert (of_nat k) (got_init s)\<rparr>))"
  using assms icr_dest(1) [OF assms(1)] init_command [OF assms(1)]
  by (intro exI [of _ "(boot_lapic s)(0x310 := push_bit 24 (of_nat k), 0x300 := of_nat k OR 0x8500)"] exI [of _ "channel2 s AND 0xC"]
      exI [of _ "pit_ticks s + 10 * TIMER_1MS"], cases s)
    (simp add: lapic_ipi_init_def ap_lapic_write_def icr_send_def lapic_icr_wait_def icr_poll_free timer_delay_eq devices_def
      lapic_write_def case_prod_unfold Let_def)

lemma startup_delivers:
  assumes "k < 256" "icr_busy s < 100000"
  shows "\<exists>l c t. send_startup (of_nat k) s = devices l (icr_delay s) c t
    (if of_nat k \<in> got_init s then s\<lparr>got_init := got_init s - {of_nat k}, got_startup := got_startup s @ [(of_nat k, 0x9F)]\<rparr> else s)"
  using assms icr_dest(2) [OF assms(1)]
  by (intro exI [of _ "(boot_lapic s)(0x310 := ucast (push_bit 24 (of_nat k :: addr)), 0x300 := 0x69F)"] exI [of _ "channel2 s AND 0xC"]
      exI [of _ "pit_ticks s + TIMER_1MS"], cases s)
    (simp add: send_startup_def ap_lapic_write_def icr_send_def lapic_icr_wait_def icr_poll_free timer_delay_eq devices_def
      lapic_write_def case_prod_unfold Let_def)

lemma devices_simps [simp]:
  "icr_delay (devices l b c t s) = icr_delay s" "got_init (devices l b c t s) = got_init s" "icr_busy (devices l b c t s) = b"
  "got_startup (devices l b c t s) = got_startup s" "devices l b c t (devices l' b' c' t' s) = devices l b c t s"
  "(devices l b c t s)\<lparr>got_init := g, got_startup := q\<rparr> = devices l b c t (s\<lparr>got_init := g, got_startup := q\<rparr>)"
  "timer_delay m (devices l b c t s) = devices l b (if m = 0 then c else c AND 0xC) (t + m * TIMER_1MS) s"
  by (cases s; simp add: devices_def timer_delay_eq)+

text \<open>What is in memory when the commands are sent.\<close>

definition start_mem :: "nat \<Rightarrow> 'a aps_scheme \<Rightarrow> memory" where
  "start_mem i s = store64 (store_le 2 (store_le 2 (mem s) 0x467 (0 :: 16 word)) 0x469 (0x9F00 :: 16 word)) CPU_INFO_PTR_ADDR (info_addr i s)"

lemma startaps_delivers:
  assumes "k < 255" "icr_delay s < 100000" "cpuinfo_table s ! k = Some i" "load32 (mem s) (msg_ready (infos s i)) = 0"
  shows "\<exists>l b c t. lapic_startaps (of_nat k) s = Inr (devices l b c t (s\<lparr>mem := start_mem i s, cmos_index := 0xF,
    cmos := (cmos s)(0xF := 0xA), got_init := got_init s - {of_nat k}, got_startup := got_startup s @ [(of_nat k, 0x9F)]\<rparr>))"
proof -
  let ?s = "s\<lparr>mem := start_mem i s, cmos_index := 0xF, cmos := (cmos s)(0xF := 0xA)\<rparr>"
  have k: "unat (of_nat k :: addr) = k" using assms(1) by (intro unat_of_nat_small) simp
  then have c: "boot_cpu_info (of_nat k) s = Inr (Some i)" using assms(1,3) by (simp add: boot_cpu_info_def word_less_nat_alt word_unat_eq_iff)
  have u: "ucast (of_nat k :: addr) = (of_nat k :: cint)" by (rule ucast_of_nat_down)
  have m: "(set_reset_vector s)\<lparr>mem := store64 (mem (set_reset_vector s)) CPU_INFO_PTR_ADDR (info_addr i (set_reset_vector s))\<rparr> = ?s"
    by (cases s) (simp add: set_reset_vector_def start_mem_def info_addr_def Let_def)
  obtain l1 c1 t1 where 1: "lapic_ipi_init (of_nat k) ?s = (0, devices l1 0 c1 t1 (?s\<lparr>got_init := insert (of_nat k) (got_init s)\<rparr>))"
    using ipi_init_delivers [of k ?s] assms(1,2) by auto
  let ?s1 = "devices l1 0 (c1 AND 0xC) (t1 + 10 * TIMER_1MS) (?s\<lparr>got_init := insert (of_nat k) (got_init s)\<rparr>)"
  let ?g = "?s\<lparr>got_init := got_init s - {of_nat k}, got_startup := got_startup s @ [(of_nat k, 0x9F)]\<rparr>"
  obtain l2 c2 t2 where 2: "send_startup (of_nat k) ?s1 = devices l2 (icr_delay s) c2 t2 ?g"
    using startup_delivers [of k ?s1] assms(1) by auto
  obtain l3 c3 t3 where 3: "send_startup (of_nat k) (devices l2 (icr_delay s) c2 t2 ?g) = devices l3 (icr_delay s) c3 t3 ?g"
    using startup_delivers [of k "devices l2 (icr_delay s) c2 t2 ?g"] assms(1,2) by auto
  have "lapic_startaps (of_nat k) s = Inr (devices l3 (icr_delay s) c3 t3 ?g)"
    using assms(4) 2 3 by (simp add: lapic_startaps_def c u Let_def m 1 numeral_2_eq_2)
  then show ?thesis by auto
qed

section \<open>Every processor enters its monitor\<close>

text \<open>
  The table of \<open>n\<close> processors before they are started: processor \<open>i\<close> has the local APIC \<open>i\<close> and slot \<open>i\<close> of the pool, its
  ready word is clear and not where the start code is set up, and what 32-bit code has to reach is below 4 GB.
\<close>

definition aps_ok :: "nat \<Rightarrow> 'a aps_scheme \<Rightarrow> bool" where
  "aps_ok n s \<longleftrightarrow> 0 < n \<and> n \<le> MAX_CPUS \<and> cpu_count s = of_nat n \<and> icr_delay s < 100000 \<and> got_startup s = [] \<and>
    unat (cpuinfo_pool s) + 4096 * n \<le> 2 ^ 32 \<and>
    (\<forall>i<n. cpuinfo_table s ! i = Some i \<and> lapic_id (infos s i) = of_nat i \<and> load32 (mem s) (msg_ready (infos s i)) = 0 \<and>
      disjoint_regions (msg_ready (infos s i)) 4 0x467 4 \<and> disjoint_regions (msg_ready (infos s i)) 4 CPU_INFO_PTR_ADDR 8 \<and>
      unat (vmm_page_tables (vmm_info (infos s i))) < 2 ^ 32)"

definition monitor_of :: "nat \<Rightarrow> 'a aps_scheme \<Rightarrow> monitor_entry" where
  "monitor_of i s = (let v = vmm_info (infos s i) in
    \<lparr>e_cr3 = vmm_page_tables v, e_rsp = r_rsp (vmm_regs v), e_rdi = info_addr i s, e_rip = 0x40000000\<rparr>)"

lemma ucast_low: "unat (p :: addr) < 2 ^ 32 \<Longrightarrow> ucast (ucast p :: cint) = p"
  by (intro word_unat_eq_iff [THEN iffD2]) (simp only: unat_ucast_addr unat_ucast_cint)

lemma load32_low: "load32 m a = ucast (load64 m a)"
  by (rule bit_word_eqI) (simp add: bit_simps bit_load_le)

lemma info_at_addr:
  assumes "unat (cpuinfo_pool s) + 4096 * n \<le> 2 ^ 32" "i < n"
  shows "info_at (info_addr i s) s = i" "unat (info_addr i s) < 2 ^ 32"
proof -
  have u: "unat (of_nat (4096 * i) :: addr) = 4096 * i" using assms by (intro unat_of_nat_small) simp
  then show "info_at (info_addr i s) s = i" by (simp add: info_at_def info_addr_def)
  have "unat (cpuinfo_pool s) + 4096 * i < 2 ^ 64" using assms by simp
  then show "unat (info_addr i s) < 2 ^ 32" using assms u by (simp add: info_addr_def unat_word_ariths)
qed

lemma start_mem_ptr: "load64 (start_mem i s) CPU_INFO_PTR_ADDR = info_addr i s"
  by (simp add: start_mem_def load_store_same)

lemma start_mem_outside:
  assumes "disjoint_regions p 4 0x467 4" "disjoint_regions p 4 CPU_INFO_PTR_ADDR 8"
  shows "load32 (start_mem i s) p = load32 (mem s) p"
proof (rule load_cong)
  fix x assume "in_region p 4 x"
  then have assms: "\<not> in_region 0x467 4 x" "\<not> in_region CPU_INFO_PTR_ADDR 8 x" using assms by (auto dest: disjoint_regionsD)
  have "\<not> in_region 0x467 2 x" "\<not> in_region 0x469 2 x"
    using assms(1) in_region_mono [of "0x467" 2 x 4] in_region_sub [of "0x467" 2 2 x 4] by auto
  then show "start_mem i s x = mem s x" using assms(2) by (simp add: start_mem_def store_le_apply)
qed simp

lemma boot_other_starts:
  assumes "aps_ok n s" "0 < k" "k < n"
  shows "\<exists>s'. boot_other k s = Inr s' \<and> aps_ok n s' \<and> entered s' = (entered s)(of_nat k := Some (monitor_of k s)) \<and>
    infos s' = (infos s)(k := (infos s k)\<lparr>cpu_ready := 1\<rparr>) \<and> cpuinfo_pool s' = cpuinfo_pool s"
proof -
  have k: "k < 255" "cpuinfo_table s ! k = Some k" "lapic_id (infos s k) = of_nat k" "load32 (mem s) (msg_ready (infos s k)) = 0"
      "unat (vmm_page_tables (vmm_info (infos s k))) < 2 ^ 32" and d: "icr_delay s < 100000" "got_startup s = []"
    and p: "unat (cpuinfo_pool s) + 4096 * n \<le> 2 ^ 32"
    using assms by (auto simp: aps_ok_def)
  have u: "unat (of_nat k :: addr) = k" using k(1) by (intro unat_of_nat_small) simp
  have c: "the_cpu (of_nat k) s = Inr k" using k(1,2) u by (simp add: the_cpu_def boot_cpu_info_def word_less_nat_alt word_unat_eq_iff)
  have id: "ucast (of_nat k :: byte) = (of_nat k :: addr)"
    using k(1) u by (intro word_unat_eq_iff [THEN iffD2]) (simp add: unsigned_ucast_eq unat_of_nat take_bit_nat_eq_self)
  let ?g = "\<lambda>l b c t. devices l b c t (s\<lparr>mem := start_mem k s, cmos_index := 0xF,
    cmos := (cmos s)(0xF := 0xA), got_init := got_init s - {of_nat k}, got_startup := got_startup s @ [(of_nat k, 0x9F)]\<rparr>)"
  obtain l b e t where st: "lapic_startaps (of_nat k) s = Inr (?g l b e t)"
    using startaps_delivers [OF k(1) d(1) k(2,4)] by blast
  let ?s = "?g l b e t"
  have f: "mem ?s = start_mem k s" "infos ?s = infos s" "cpuinfo_pool ?s = cpuinfo_pool s" "entered ?s = entered s"
    "cpuinfo_table ?s = cpuinfo_table s" "cpu_count ?s = cpu_count s" "icr_delay ?s = icr_delay s"
    by (simp_all add: devices_def)
  let ?t = "?s\<lparr>got_startup := []\<rparr>"
  let ?s' = "upd_info k (\<lambda>c. c\<lparr>cpu_ready := 1\<rparr>) (?t\<lparr>entered := (entered s)(of_nat k := Some (monitor_of k s))\<rparr>)"
  have at: "info_at (info_addr k s) ?t = k" "unat (info_addr k s) < 2 ^ 32"
    using info_at_addr [OF p assms(3)] f(3) by (simp_all add: info_at_def)
  have "boot_aps ?t = monitor_of k s"
    using at k(5) f(1,2) by (simp add: boot_aps_def load32_low start_mem_ptr ucast_low monitor_of_def Let_def)
  moreover have "got_startup ?s = [(of_nat k, 0x9F)]" by (simp add: d(2))
  ultimately have r: "run_aps ?s = ?s'"
    using at(1) f(4) by (simp add: run_aps_def run_ap_def push_bit_eq_mult Let_def monitor_of_def)
  have i: "infos ?s' = (infos s)(k := (infos s k)\<lparr>cpu_ready := 1\<rparr>)" using f(2) by (simp add: upd_info_def)
  then have "boot_other k s = Inr ?s'" by (simp add: boot_other_def c k(3) id st wait_ready_def Let_def r)
  moreover have "aps_ok n ?s'"
    using assms(1) f start_mem_outside [of _ k s] by (auto simp: aps_ok_def upd_info_def d(2))
  moreover have "entered ?s' = (entered s)(of_nat k := Some (monitor_of k s))" "cpuinfo_pool ?s' = cpuinfo_pool s"
    using f by (simp_all add: upd_info_def)
  ultimately show ?thesis using i by blast
qed

lemma boot_others_start:
  assumes "aps_ok n s" "0 < k" "k + m = n"
  shows "\<exists>s'. for_loop m k boot_other s = Inr s' \<and> aps_ok n s' \<and> cpuinfo_pool s' = cpuinfo_pool s \<and>
    (\<forall>i. infos s' i = (if k \<le> i \<and> i < n then (infos s i)\<lparr>cpu_ready := 1\<rparr> else infos s i)) \<and>
    (\<forall>i. k \<le> i \<longrightarrow> i < n \<longrightarrow> entered s' (of_nat i) = Some (monitor_of i s)) \<and>
    (\<forall>a. (\<forall>i. k \<le> i \<longrightarrow> i < n \<longrightarrow> a \<noteq> of_nat i) \<longrightarrow> entered s' a = entered s a)"
  using assms
proof (induction m arbitrary: k s)
  case (Suc m)
  obtain s1 where s1: "boot_other k s = Inr s1" "aps_ok n s1" "entered s1 = (entered s)(of_nat k := Some (monitor_of k s))"
      "infos s1 = (infos s)(k := (infos s k)\<lparr>cpu_ready := 1\<rparr>)" "cpuinfo_pool s1 = cpuinfo_pool s"
    using boot_other_starts [of n s k] Suc.prems by auto
  obtain s2 where s2: "for_loop m (Suc k) boot_other s1 = Inr s2" "aps_ok n s2" "cpuinfo_pool s2 = cpuinfo_pool s1"
      "\<And>i. infos s2 i = (if Suc k \<le> i \<and> i < n then (infos s1 i)\<lparr>cpu_ready := 1\<rparr> else infos s1 i)"
      "\<And>i. Suc k \<le> i \<Longrightarrow> i < n \<Longrightarrow> entered s2 (of_nat i) = Some (monitor_of i s1)"
      "\<And>a. (\<forall>i. Suc k \<le> i \<longrightarrow> i < n \<longrightarrow> a \<noteq> of_nat i) \<Longrightarrow> entered s2 a = entered s1 a"
    using Suc.IH [of s1 "Suc k"] s1(2) Suc.prems by auto
  have n: "n \<le> 255" using Suc.prems(1) by (simp add: aps_ok_def)
  have inj: "(of_nat i :: cint) \<noteq> of_nat j" if "i \<noteq> j" "i < n" "j < n" for i j
    using that n unat_of_nat_small [where ?'a = 32, of i] unat_of_nat_small [where ?'a = 32, of j] by force
  have mo: "monitor_of i s1 = monitor_of i s" if "i \<noteq> k" for i
    using that s1(4,5) by (simp add: monitor_of_def info_addr_def)
  have "entered s2 (of_nat i) = Some (monitor_of i s)" if "k \<le> i" "i < n" for i
  proof (cases "i = k")
    case True
    then show ?thesis using s2(6) [of "of_nat k"] inj [of k] s1(3) that by auto
  qed (use that s2(5) [of i] mo in auto)
  moreover have "entered s2 a = entered s a" if "\<forall>i. k \<le> i \<longrightarrow> i < n \<longrightarrow> a \<noteq> of_nat i" for a
    using that s2(6) [of a] s1(3) Suc.prems(3) by auto
  moreover have "infos s2 i = (if k \<le> i \<and> i < n then (infos s i)\<lparr>cpu_ready := 1\<rparr> else infos s i)" for i
    using s2(4) [of i] s1(4) Suc.prems(3) by auto
  ultimately show ?case using s1(1,5) s2(1-3) by simp
qed auto

text \<open>
  C11.  Every processor enters its own monitor.  \<open>mp_bootothers\<close> returns, and then every processor but the first one
  has entered the monitor with the page tables, the stack and the structure of its own, and has said that it is
  ready, while the first one is left with those of the process manager.  So a processor never takes the
  structure of another one, although all of them find it in the same place.
\<close>

theorem mp_bootothers_enters_monitors:
  assumes "aps_ok n s"
  shows "\<exists>e s'. mp_bootothers s = Inr (e, s') \<and> e = (monitor_of 0 s)\<lparr>e_rip := vmm_start_vaddr (vmm_info (infos s 0))\<rparr> \<and>
    (\<forall>i. 0 < i \<longrightarrow> i < n \<longrightarrow> entered s' (of_nat i) = Some (monitor_of i s) \<and> cpu_ready (infos s' i) = 1)"
proof -
  have n: "0 < n" "n \<le> 255" "cpu_count s = of_nat n" using assms by (auto simp: aps_ok_def)
  have c: "unat (scast (get_ncpus s) :: addr) = n"
    using n by (simp add: get_ncpus_def scast_of_nat_cint) (rule unat_of_nat_small, simp)
  obtain s1 where s1: "for_loop (n - 1) 1 boot_other s = Inr s1" "aps_ok n s1" "cpuinfo_pool s1 = cpuinfo_pool s"
      "\<And>i. infos s1 i = (if 1 \<le> i \<and> i < n then (infos s i)\<lparr>cpu_ready := 1\<rparr> else infos s i)"
      "\<And>i. 1 \<le> i \<Longrightarrow> i < n \<Longrightarrow> entered s1 (of_nat i) = Some (monitor_of i s)"
    using boot_others_start [OF assms, of 1 "n - 1"] n(1) by auto
  have "the_cpu PM_ID s1 = Inr 0" using s1(2) n(1) by (simp add: aps_ok_def the_cpu_def boot_cpu_info_def)
  moreover have "infos s1 0 = infos s 0" using s1(4) by simp
  ultimately show ?thesis
    using s1 c by (simp add: mp_bootothers_def Let_def monitor_of_def info_addr_def Suc_le_eq)
qed

text \<open>Three processors.\<close>

definition demo_infos :: "nat \<Rightarrow> cpu_info" where
  "demo_infos i = (numbered 3 i)\<lparr>msg_ready := 0x600000 + of_nat (4096 * i),
     vmm_info := (vmm_info zero_cpu)\<lparr>vmm_page_tables := 0x700000 + of_nat (4096 * i), vmm_start_vaddr := 0x40000000\<rparr>\<rparr>"

definition demo_aps :: aps where
  "demo_aps = bootstage.extend (demo_bootstage\<lparr>mem := (\<lambda>_. 0), infos := demo_infos, cpuinfo_pool := 0x800000,
       cpuinfo_table := map Some [0..<3], cpu_count := 3\<rparr>)
     (aps.fields 0 7 0 (\<lambda>_. 0) 0 0 {} [] (\<lambda>_. None))"

theorem mp_bootothers_enters_monitors_witness:
  "aps_ok 3 demo_aps \<and> (\<exists>e s'. mp_bootothers demo_aps = Inr (e, s') \<and> e_cr3 e = 0x700000 \<and>
     map_option e_cr3 (entered s' 2) = Some 0x702000 \<and> cpu_ready (infos s' 2) = 1)"
proof -
  note d = demo_aps_def aps.fields_def bootstage.extend_def
  have "\<forall>i<3. cpuinfo_table demo_aps ! i = Some i \<and> lapic_id (infos demo_aps i) = of_nat i \<and>
      load32 (mem demo_aps) (msg_ready (infos demo_aps i)) = 0 \<and> disjoint_regions (msg_ready (infos demo_aps i)) 4 0x467 4 \<and>
      disjoint_regions (msg_ready (infos demo_aps i)) 4 CPU_INFO_PTR_ADDR 8 \<and>
      unat (vmm_page_tables (vmm_info (infos demo_aps i))) < 2 ^ 32"
    by (simp add: d demo_infos_def numbered_def load_zero disjoint_regionsI numeral_3_eq_3 All_less_Suc)
  then have ok: "aps_ok 3 demo_aps" by (simp add: aps_ok_def) (simp add: d)
  obtain e s' where "mp_bootothers demo_aps = Inr (e, s')" "e = (monitor_of 0 demo_aps)\<lparr>e_rip := vmm_start_vaddr (vmm_info (infos demo_aps 0))\<rparr>"
      "\<forall>i. 0 < i \<longrightarrow> i < 3 \<longrightarrow> entered s' (of_nat i) = Some (monitor_of i demo_aps) \<and> cpu_ready (infos s' i) = 1"
    using mp_bootothers_enters_monitors [OF ok] by blast
  moreover have "e_cr3 (monitor_of 0 demo_aps) = 0x700000" "e_cr3 (monitor_of 2 demo_aps) = 0x702000"
    by (simp_all add: monitor_of_def d demo_infos_def Let_def)
  ultimately show ?thesis using ok by (intro conjI exI [of _ e] exI [of _ s']) (auto dest!: spec [of _ "2 :: nat"])
qed

end
