(* ===== verification/Printf.thy ===== *)
theory Printf
  imports Savannah_Prelude
begin

text \<open>
  Formatted output: \<open>src/lib/printf.c\<close> and \<open>atoi\<close> of \<open>src/lib/stdlib.c\<close>, and the copies of the digit
  routines in \<open>src/lib/panic.c\<close>.

  The routines fill a buffer from the left; the model keeps the bytes written so far, so that the index
  \<open>idx\<close> of the code is their number.  A format is the bytes of the string without the terminator, and
  the variable arguments are a list of values; taking a value of the wrong kind, or one that is not
  there, is a fault, as is reading behind the terminator of the format.
\<close>

section \<open>Digits\<close>

definition digit :: "nat \<Rightarrow> byte" where
  "digit d = (if d < 10 then of_nat (48 + d) else of_nat (55 + d))"

text \<open>
  \<open>for (i = 15; i >= 0; i--) buffer[i] = digits[num >> (i << 2) & 0xF];\<close>
\<close>

definition hex_buffer :: "addr \<Rightarrow> byte list" where
  "hex_buffer num = map (\<lambda>i. digit (unat (drop_bit (4 * i) num AND 0xF))) [0..<16]"

text \<open>
  \<open>while (buffer[i] == '0') i--;\<close> from \<open>i = 15\<close>.  When all digits are zero the loop reads
  \<open>buffer[-1]\<close>.  The rest of the code puts out the digits from \<open>i\<close> down to 0.
\<close>

fun skip_zeros :: "byte list \<Rightarrow> byte list res" where
  "skip_zeros [] = Inl (Fault ''buffer[-1]'')"
| "skip_zeros (d # ds) = (if d = 48 then skip_zeros ds else Inr (d # ds))"

definition put_hex :: "addr \<Rightarrow> byte list res" where
  "put_hex num = skip_zeros (rev (hex_buffer num))"

definition sn_put_hex :: "nat \<Rightarrow> byte list \<Rightarrow> addr \<Rightarrow> byte list res" where
  "sn_put_hex max_len out num =
    bindr (put_hex num) (\<lambda>ds. Inr (out @ take (max_len - length out) ds))"

text \<open>
  \<open>while (num / 10 > 0) { buffer[pos++] = num - num / 10 * 10; num /= 10; } buffer[pos] = num;\<close> for a
  number that is not negative.  The first element is \<open>buffer[0]\<close>, the last digit.
\<close>

fun dec_buffer :: "nat \<Rightarrow> nat list" where
  "dec_buffer num = (if num div 10 > 0 then (num - num div 10 * 10) # dec_buffer (num div 10) else [num])"

declare dec_buffer.simps [simp del]

text \<open>The smallest \<open>int\<close> has no negative: \<open>num = -num\<close> overflows.\<close>

definition put_decimal :: "cint \<Rightarrow> byte list res" where
  "put_decimal num =
    (if num = 0x80000000 then Inl (Fault ''int overflow'')
     else Inr ((if num <s 0 then [45] else []) @
       map (\<lambda>d. of_nat d + 48) (rev (dec_buffer (unat (if num <s 0 then - num else num))))))"

definition sn_put_decimal :: "nat \<Rightarrow> byte list \<Rightarrow> cint \<Rightarrow> byte list res" where
  "sn_put_decimal max_len out num =
    bindr (put_decimal num) (\<lambda>ds. Inr (out @ take (max_len - length out) ds))"

section \<open>Formats\<close>

datatype arg = Int_arg cint | Long_arg addr | Str_arg "byte list"

text \<open>
  \<open>while (i < n - 1 && (buf[i++] = *tmp++)); if (i < n - 1) i--;\<close>: the terminator is copied too, and
  dropped again unless it came to lie at the very end.
\<close>

definition sn_put_str :: "nat \<Rightarrow> byte list \<Rightarrow> byte list \<Rightarrow> byte list" where
  "sn_put_str max_len out str =
    (let out' = out @ take (max_len - length out) (str @ [0]) in
     if length out' < max_len then butlast out' else out')"

fun sn_put_arg :: "nat \<Rightarrow> byte list \<Rightarrow> byte \<Rightarrow> arg list \<Rightarrow> (byte list \<times> arg list) res" where
  "sn_put_arg max_len out c (Int_arg w # args) =
    (if c = 99 then Inr (out @ [ucast w], args)
     else if c = 100 then bindr (sn_put_decimal max_len out w) (\<lambda>out'. Inr (out', args))
     else if c = 120 \<or> c = 115 then Inl (Fault ''va_arg'')
     else Inr (out, Int_arg w # args))"
| "sn_put_arg max_len out c (Long_arg w # args) =
    (if c = 120 then bindr (sn_put_hex max_len out w) (\<lambda>out'. Inr (out', args))
     else if c = 99 \<or> c = 100 \<or> c = 115 then Inl (Fault ''va_arg'')
     else Inr (out, Long_arg w # args))"
| "sn_put_arg max_len out c (Str_arg str # args) =
    (if c = 115 then Inr (sn_put_str max_len out str, args)
     else if c = 99 \<or> c = 100 \<or> c = 120 then Inl (Fault ''va_arg'')
     else Inr (out, Str_arg str # args))"
| "sn_put_arg max_len out c [] =
    (if c = 99 \<or> c = 100 \<or> c = 120 \<or> c = 115 then Inl (Fault ''va_arg'') else Inr (out, []))"

fun format_loop :: "nat \<Rightarrow> byte list \<Rightarrow> byte list \<Rightarrow> arg list \<Rightarrow> byte list res" where
  "format_loop max_len out [] args = Inr out"
| "format_loop max_len out (ch # fmt) args =
    (if \<not> length out < max_len then Inr out
     else if ch \<noteq> 37 then format_loop max_len (out @ [ch]) fmt args
     else case fmt of
       [] \<Rightarrow> Inl (Fault ''behind the format'')
     | c # fmt' \<Rightarrow> bindr (sn_put_arg max_len out c args) (\<lambda>(out', args'). format_loop max_len out' fmt' args'))"

text \<open>The bytes that the buffer of \<open>n\<close> bytes holds in the end, terminator included.\<close>

definition vsnprintf :: "byte list \<Rightarrow> nat \<Rightarrow> arg list \<Rightarrow> byte list res" where
  "vsnprintf fmt n args =
    (if n = 0 then Inr []
     else if n = 1 then Inr [0]
     else bindr (format_loop (n - 1) [] fmt args) (\<lambda>out. Inr (out @ [0])))"

definition snprintf :: "byte list \<Rightarrow> nat \<Rightarrow> arg list \<Rightarrow> byte list res" where
  "snprintf fmt n args =
    (if n = 0 then Inr []
     else if n = 1 then Inr [0]
     else bindr (format_loop (n - 1) [] fmt args) (\<lambda>out. Inr (out @ [0])))"

text \<open>\<open>printf\<close> hands the string in its buffer of 1024 bytes to \<open>write\<close>: what it passes on.\<close>

definition printf :: "byte list \<Rightarrow> arg list \<Rightarrow> byte list res" where
  "printf fmt args = bindr (vsnprintf fmt 1024 args) (\<lambda>buf. Inr (takeWhile (\<lambda>b. b \<noteq> 0) buf))"

section \<open>Reading numbers\<close>

definition isdigit :: "byte \<Rightarrow> bool" where
  "isdigit c \<longleftrightarrow> 48 \<le> c \<and> c \<le> 57"

fun atoi_loop :: "cint \<Rightarrow> byte list \<Rightarrow> cint" where
  "atoi_loop i [] = i"
| "atoi_loop i (c # s) = (if isdigit c then atoi_loop (i * 10 + ucast c - 48) s else i)"

definition atoi :: "byte list \<Rightarrow> cint" where
  "atoi s = atoi_loop 0 s"

section \<open>Bounds\<close>

text \<open>The arguments are of the kinds the format asks for, and no conversion faults.\<close>

fun fmt_ok :: "byte list \<Rightarrow> arg list \<Rightarrow> bool" where
  "fmt_ok [] args = True"
| "fmt_ok (ch # fmt) args =
    (if ch \<noteq> 37 then fmt_ok fmt args
     else case fmt of
       [] \<Rightarrow> False
     | c # fmt' \<Rightarrow>
        if c = 99 then (case args of Int_arg w # args' \<Rightarrow> fmt_ok fmt' args' | _ \<Rightarrow> False)
        else if c = 100 then (case args of Int_arg w # args' \<Rightarrow> w \<noteq> 0x80000000 \<and> fmt_ok fmt' args' | _ \<Rightarrow> False)
        else if c = 120 then (case args of Long_arg w # args' \<Rightarrow> w \<noteq> 0 \<and> fmt_ok fmt' args' | _ \<Rightarrow> False)
        else if c = 115 then (case args of Str_arg s # args' \<Rightarrow> fmt_ok fmt' args' | _ \<Rightarrow> False)
        else fmt_ok fmt' args)"

lemma skip_zeros_total: "d \<in> set ds \<Longrightarrow> d \<noteq> 48 \<Longrightarrow> \<exists>ds'. skip_zeros ds = Inr ds'"
  by (induction ds) auto

lemma digit_eq_0: "d < 16 \<Longrightarrow> digit d = 48 \<longleftrightarrow> d = 0"
proof
  assume "d < 16" and e: "digit d = 48"
  have "d \<in> set [0..<16]" using \<open>d < 16\<close> by simp
  then show "d = 0" using e by (auto simp: digit_def upt_rec)
qed (simp add: digit_def)

lemma put_hex_total:
  assumes "w \<noteq> 0"
  shows "\<exists>ds. put_hex w = Inr ds"
proof -
  obtain n where n: "bit w n" "n < 64" using assms bit_word_eqI [of w 0] by auto
  have m: "(0xF :: addr) = mask 4" by (simp add: mask_eq_exp_minus_1)
  let ?v = "drop_bit (4 * (n div 4)) w AND 0xF"
  have "bit ?v (n mod 4)" using n(1) unfolding m by (simp add: bit_simps)
  then have "unat ?v \<noteq> 0" by (auto simp: unat_eq_0)
  moreover have "unat ?v < 16" unfolding m by (simp add: and_mask_unat)
  ultimately have "digit (unat ?v) \<noteq> 48" by (simp add: digit_eq_0)
  moreover have "digit (unat ?v) \<in> set (rev (hex_buffer w))" using n(2) by (force simp: hex_buffer_def)
  ultimately show ?thesis unfolding put_hex_def by (intro skip_zeros_total)
qed

lemma put_decimal_total: "w \<noteq> 0x80000000 \<Longrightarrow> \<exists>ds. put_decimal w = Inr ds"
  by (simp add: put_decimal_def)

lemma sn_put_str_length: "length out \<le> k \<Longrightarrow> length (sn_put_str k out str) \<le> k"
  by (auto simp: sn_put_str_def Let_def)

lemma sn_put_arg_fits:
  assumes "fmt_ok (37 # c # fmt) args" "length out < k"
  shows "\<exists>out' args'. sn_put_arg k out c args = Inr (out', args') \<and> fmt_ok fmt args' \<and> length out' \<le> k"
proof (cases args)
  case Nil
  then show ?thesis using assms by (auto split: if_splits)
next
  case (Cons a args')
  show ?thesis
  proof (cases a)
    case (Int_arg w)
    then show ?thesis using assms Cons put_decimal_total [of w]
      by (auto simp: sn_put_decimal_def split: if_splits)
  next
    case (Long_arg w)
    then show ?thesis using assms Cons put_hex_total [of w]
      by (auto simp: sn_put_hex_def split: if_splits)
  next
    case (Str_arg str)
    then show ?thesis using assms Cons
      by (auto simp: sn_put_str_length split: if_splits)
  qed
qed

lemma format_loop_fits:
  assumes "fmt_ok fmt args" "length out \<le> k"
  shows "\<exists>out'. format_loop k out fmt args = Inr out' \<and> length out' \<le> k"
  using assms
proof (induction k out fmt args rule: format_loop.induct)
  case (2 k out ch fmt args)
  show ?case
  proof (cases "length out < k \<and> ch = 37")
    case True
    with 2(3) obtain c fmt' where f: "fmt = c # fmt'" by (cases fmt) auto
    then obtain out' args' where a: "sn_put_arg k out c args = Inr (out', args')" "fmt_ok fmt' args'" "length out' \<le> k"
      using sn_put_arg_fits [of c fmt' args out k] 2(3) True by auto
    then show ?thesis using 2(2) True f by force
  next
    case False
    then show ?thesis using 2 by (auto simp: not_less)
  qed
qed simp



section \<open>Printing and reading a number\<close>

lemma dec_buffer_digits: "d \<in> set (dec_buffer n) \<Longrightarrow> d < 10"
proof (induction n rule: dec_buffer.induct)
  case (1 n)
  show ?case
  proof (cases "n div 10 > 0")
    case True
    with 1 show ?thesis by (auto simp: dec_buffer.simps [of n] minus_div_mult_eq_mod)
  qed (use 1 in \<open>auto simp: dec_buffer.simps [of n]\<close>)
qed

lemma dec_buffer_length: "n < 10 ^ k \<Longrightarrow> 0 < k \<Longrightarrow> length (dec_buffer n) \<le> k"
proof (induction k arbitrary: n)
  case (Suc k)
  show ?case
  proof (cases "n div 10 > 0")
    case True
    then have "0 < k" using Suc.prems(1) by (cases k) auto
    moreover have "n div 10 < 10 ^ k" using Suc.prems(1) by (simp add: less_mult_imp_div_less)
    ultimately show ?thesis using Suc.IH [of "n div 10"] True by (simp add: dec_buffer.simps [of n])
  qed (simp add: dec_buffer.simps [of n])
qed simp

lemma atoi_digit:
  assumes "d < 10"
  shows "isdigit (of_nat d + 48)" "i + ucast (of_nat d + 48 :: byte) - 48 = (i + of_nat d :: cint)"
proof -
  have u: "unat (of_nat d + 48 :: byte) = d + 48" using assms unat_of_nat_small [of "d + 48", where 'a = 8] by simp
  then show "isdigit (of_nat d + 48)" using assms by (simp add: isdigit_def word_le_nat_alt)
  have "(ucast (of_nat d + 48 :: byte) :: cint) = of_nat (unat (of_nat d + 48 :: byte))" by simp
  then show "i + ucast (of_nat d + 48 :: byte) - 48 = (i + of_nat d :: cint)" unfolding u by simp
qed

lemma atoi_dec_buffer:
  "atoi_loop i (map (\<lambda>d. of_nat d + 48) (rev (dec_buffer n)) @ rest) =
    atoi_loop (i * 10 ^ length (dec_buffer n) + of_nat n) rest"
proof (induction n arbitrary: i rest rule: dec_buffer.induct)
  case (1 n)
  have step: "atoi_loop j ((of_nat d + 48) # r) = atoi_loop (j * 10 + of_nat d) r" if "d < 10" for j r d
    by (simp only: atoi_loop.simps atoi_digit [OF that] if_True)
  show ?case
  proof (cases "n div 10 > 0")
    case True
    define q where "q = n div 10"
    define d where "d = n - n div 10 * 10"
    have q: "q = n div 10" "d = n - n div 10 * 10" "n = q * 10 + d" "d < 10"
      by (simp_all add: q_def d_def minus_div_mult_eq_mod)
    have db: "dec_buffer n = d # dec_buffer q" using True by (simp add: dec_buffer.simps [of n] q(1,2))
    have "atoi_loop i (map (\<lambda>d. of_nat d + 48) (rev (dec_buffer n)) @ rest) =
      atoi_loop i (map (\<lambda>d. of_nat d + 48) (rev (dec_buffer q)) @ (of_nat d + 48) # rest)" by (simp add: db)
    also have "\<dots> = atoi_loop ((i * 10 ^ length (dec_buffer q) + of_nat q) * 10 + of_nat d) rest"
      unfolding 1 [OF True, folded q(1)] by (rule step [OF q(4)])
    also have "(i * 10 ^ length (dec_buffer q) + of_nat q) * 10 + of_nat d = i * 10 ^ length (dec_buffer n) + of_nat n"
      using arg_cong [OF q(3), of "of_nat :: nat \<Rightarrow> cint"] by (simp add: db algebra_simps)
    finally show ?thesis .
  next
    case False
    then have "n < 10" by simp
    with step [of n i rest] False show ?thesis by (simp add: dec_buffer.simps [of n])
  qed
qed

text \<open>
  A number that is not negative survives printing and reading: \<open>atoi\<close> of what \<open>snprintf\<close> writes
  for \<open>%d\<close> into a buffer of at least 12 bytes is the number again.
\<close>

lemma decimal_round_trip:
  assumes "0 \<le>s w" "12 \<le> n"
  shows "\<exists>buf. snprintf [37, 100] n [Int_arg w] = Inr buf \<and> atoi buf = w"
proof -
  let ?ds = "map (\<lambda>d. of_nat d + 48) (rev (dec_buffer (unat w)))"
  have s: "0 \<le> sint w" "sint w < 2 ^ 31" using assms(1) sint_lt [of w] by (simp_all add: word_sle_eq)
  then have "uint w < 2 ^ 31" using sint_nonneg_cint by simp
  then have "int (unat w) < int (2 ^ 31)" by simp
  then have u: "unat w < 2 ^ 31" by (simp only: of_nat_less_iff)
  then have "w \<noteq> 0x80000000" by auto
  then have "put_decimal w = Inr ?ds" using s(1) by (simp add: put_decimal_def word_sless_alt)
  moreover have "length ?ds \<le> 10" using u dec_buffer_length [of "unat w" 10] by simp
  ultimately have "snprintf [37, 100] n [Int_arg w] = Inr (?ds @ [0])"
    using assms(2) by (simp add: snprintf_def sn_put_decimal_def)
  moreover have "atoi (?ds @ [0]) = w" by (simp add: atoi_def atoi_dec_buffer isdigit_def)
  ultimately show ?thesis by blast
qed

lemma decimal_round_trip_witness:
  "\<exists>buf. snprintf [37, 100] 16 [Int_arg 4096] = Inr buf \<and> atoi buf = 4096"
  using decimal_round_trip [of 4096 16] by (simp add: word_sle_eq)

end
