(* ===== verification/Console.thy ===== *)
theory Console
  imports Cpu_Types Printf
begin

text \<open>
  The text console: the driver \<open>src/drivers/console/console.c\<close>, the debug console
  \<open>src/lib/debug_console.c\<close>, which has the same code with names of its own, and the printing routines
  of \<open>src/lib/panic.c\<close> and \<open>src/lib/debug.c\<close> on top of it.

  The screen is 25 lines of 80 cells of two bytes each at \<open>SCR_START\<close>.  What is written to the ports of
  the video controller is kept as a list, the latest write first.
\<close>

section \<open>The driver\<close>

abbreviation (input) "TAB_SIZE \<equiv> 8"
abbreviation (input) "LINES \<equiv> 25"
abbreviation (input) "COLUMNS \<equiv> 80"
abbreviation (input) "SCR_START \<equiv> 0xB8000"
abbreviation (input) "SCR_SIZE \<equiv> 4000"

record con = machine +
  con_x :: addr
  con_y :: addr
  ports :: "(16 word \<times> byte) list"

definition out_port :: "byte \<Rightarrow> 16 word \<Rightarrow> 'a con_scheme \<Rightarrow> 'a con_scheme" where
  "out_port v p s = s\<lparr>ports := (p, v) # ports s\<rparr>"

definition con_cursor :: "'a con_scheme \<Rightarrow> 'a con_scheme" where
  "con_cursor s =
    (let loc = ucast (con_y s * COLUMNS + con_x s) :: 16 word in
     out_port (ucast (drop_bit 8 loc AND 0xFF)) 0x3D5 (out_port 0x0E 0x3D4
       (out_port (ucast (loc AND 0xFF)) 0x3D5 (out_port 0x0F 0x3D4 s))))"

text \<open>\<open>vga[i]\<close>\<close>

definition cell :: "memory \<Rightarrow> nat \<Rightarrow> 16 word" where
  "cell m i = load_le 2 m (SCR_START + of_nat (2 * i))"

definition set_cell :: "nat \<Rightarrow> 16 word \<Rightarrow> memory \<Rightarrow> memory" where
  "set_cell i v m = store_le 2 m (SCR_START + of_nat (2 * i)) v"

text \<open>The two loops of \<open>scroll\<close>, with \<open>n\<close> steps to go from \<open>i\<close> on.\<close>

primrec move_up :: "nat \<Rightarrow> nat \<Rightarrow> memory \<Rightarrow> memory" where
  "move_up 0 i m = m"
| "move_up (Suc n) i m = move_up n (Suc i) (set_cell i (cell m (i + COLUMNS)) m)"

primrec blank :: "nat \<Rightarrow> nat \<Rightarrow> memory \<Rightarrow> memory" where
  "blank 0 i m = m"
| "blank (Suc n) i m = blank n (Suc i) (set_cell i 0x0F20 m)"

definition scroll :: "'a con_scheme \<Rightarrow> 'a con_scheme" where
  "scroll s =
    (if con_y s \<ge> LINES
     then s\<lparr>mem := blank COLUMNS ((LINES - 1) * COLUMNS) (move_up ((LINES - 1) * COLUMNS) 0 (mem s)),
            con_y := LINES - 1, con_x := 0\<rparr>
     else s)"

definition put_newline :: "'a con_scheme \<Rightarrow> 'a con_scheme" where
  "put_newline s = scroll (s\<lparr>con_x := 0, con_y := con_y s + 1\<rparr>)"

definition put_tab :: "'a con_scheme \<Rightarrow> 'a con_scheme" where
  "put_tab s = scroll (s\<lparr>con_x := con_x s + TAB_SIZE\<rparr>)"

definition put_normal :: "cint \<Rightarrow> cint \<Rightarrow> 'a con_scheme \<Rightarrow> 'a con_scheme" where
  "put_normal ch color s =
    (let s1 = scroll (if con_x s \<ge> COLUMNS then s\<lparr>con_x := 0, con_y := con_y s + 1\<rparr> else s);
         i = ucast (con_y s1 * COLUMNS + con_x s1) :: cint
     in s1\<lparr>mem := store_le 2 (mem s1) (SCR_START + 2 * scast i) (ucast (ch OR push_bit 8 color) :: 16 word),
           con_x := con_x s1 + 1\<rparr>)"

definition con_putc :: "cint \<Rightarrow> cint \<Rightarrow> 'a con_scheme \<Rightarrow> 'a con_scheme" where
  "con_putc ch color s =
    con_cursor (if ch = 10 then put_newline s else if ch = 9 then put_tab s else put_normal ch color s)"

text \<open>The characters of a string are of type \<open>char\<close>, which is signed.\<close>

fun con_puts :: "byte list \<Rightarrow> cint \<Rightarrow> 'a con_scheme \<Rightarrow> 'a con_scheme" where
  "con_puts [] color s = s"
| "con_puts (ch # str) color s = con_puts str color (con_putc (scast ch) color s)"

definition con_init :: "cint \<Rightarrow> cint \<Rightarrow> 'a con_scheme \<Rightarrow> 'a con_scheme" where
  "con_init xpos ypos s = con_cursor (s\<lparr>con_y := ucast ypos, con_x := ucast xpos\<rparr>)"

section \<open>The debug console\<close>

record debug_con = con +
  con_pos :: addr

definition debug_con_putc :: "cint \<Rightarrow> cint \<Rightarrow> 'a debug_con_scheme \<Rightarrow> 'a debug_con_scheme" where
  "debug_con_putc ch color s =
    con_cursor (if ch = 10 then put_newline s else if ch = 9 then put_tab s else put_normal ch color s)"

fun debug_con_puts :: "byte list \<Rightarrow> cint \<Rightarrow> 'a debug_con_scheme \<Rightarrow> 'a debug_con_scheme" where
  "debug_con_puts [] color s = s"
| "debug_con_puts (ch # str) color s = debug_con_puts str color (debug_con_putc (scast ch) color s)"

definition debug_change_cursor_pos :: "cint \<Rightarrow> cint \<Rightarrow> 'a debug_con_scheme \<Rightarrow> 'a debug_con_scheme" where
  "debug_change_cursor_pos new_x new_y s =
    s\<lparr>con_y := scast new_y, con_x := scast new_x,
      con_pos := SCR_START + push_bit 1 (scast new_x) + scast new_y * (2 * COLUMNS)\<rparr>"

definition debug_get_cursor_pos :: "'a debug_con_scheme \<Rightarrow> cint \<times> cint" where
  "debug_get_cursor_pos s = (ucast (con_x s), ucast (con_y s))"

definition debug_con_init :: "'a debug_con_scheme \<Rightarrow> 'a debug_con_scheme" where
  "debug_con_init s = s\<lparr>con_y := 0, con_x := 0, con_pos := SCR_START\<rparr>"

section \<open>Panics and debug output\<close>

text \<open>
  One conversion: \<open>%c\<close>, \<open>%x\<close>, \<open>%d\<close> and \<open>%s\<close>; \<open>hex\<close> says whether the routine knows \<open>%p\<close> too.
\<close>

fun put_conv :: "bool \<Rightarrow> byte \<Rightarrow> cint \<Rightarrow> arg list \<Rightarrow> 'a debug_con_scheme \<Rightarrow> (arg list \<times> 'a debug_con_scheme) res" where
  "put_conv hex c color (Int_arg w # args) s =
    (if c = 99 then Inr (args, debug_con_putc w color s)
     else if c = 100 then bindr (put_decimal w) (\<lambda>ds. Inr (args, debug_con_puts ds color s))
     else if c = 120 \<or> c = 115 \<or> hex \<and> c = 112 then Inl (Fault ''va_arg'')
     else Inr (Int_arg w # args, s))"
| "put_conv hex c color (Long_arg w # args) s =
    (if c = 120 \<or> hex \<and> c = 112 then bindr (put_hex w) (\<lambda>ds. Inr (args, debug_con_puts ds color s))
     else if c = 99 \<or> c = 100 \<or> c = 115 then Inl (Fault ''va_arg'')
     else Inr (Long_arg w # args, s))"
| "put_conv hex c color (Str_arg str # args) s =
    (if c = 115 then Inr (args, debug_con_puts str color s)
     else if c = 99 \<or> c = 100 \<or> c = 120 \<or> hex \<and> c = 112 then Inl (Fault ''va_arg'')
     else Inr (Str_arg str # args, s))"
| "put_conv hex c color [] s =
    (if c = 99 \<or> c = 100 \<or> c = 120 \<or> c = 115 \<or> hex \<and> c = 112 then Inl (Fault ''va_arg'') else Inr ([], s))"

fun put_format :: "bool \<Rightarrow> byte list \<Rightarrow> cint \<Rightarrow> arg list \<Rightarrow> 'a debug_con_scheme \<Rightarrow> 'a debug_con_scheme res" where
  "put_format hex [] color args s = Inr s"
| "put_format hex (ch # fmt) color args s =
    (if ch \<noteq> 37 then put_format hex fmt color args (debug_con_putc (scast ch) color s)
     else case fmt of
       [] \<Rightarrow> Inl (Fault ''behind the format'')
     | c # fmt' \<Rightarrow> bindr (put_conv hex c color args s) (\<lambda>(args', s'). put_format hex fmt' color args' s'))"

definition vcprintf :: "byte list \<Rightarrow> cint \<Rightarrow> arg list \<Rightarrow> 'a debug_con_scheme \<Rightarrow> 'a debug_con_scheme res" where
  "vcprintf fmt color args s = put_format False fmt color args s"

text \<open>\<open>panic\<close> prints and then halts the processor.\<close>

definition panic :: "byte list \<Rightarrow> arg list \<Rightarrow> 'a debug_con_scheme \<Rightarrow> 'a debug_con_scheme res" where
  "panic fmt args s = bindr (vcprintf fmt 0x4 args s) (\<lambda>s'. Inl (Panic (map (\<lambda>b. char_of (unat b)) fmt)))"

definition print_debug_info :: "byte list \<Rightarrow> cint \<Rightarrow> arg list \<Rightarrow> 'a debug_con_scheme \<Rightarrow> 'a debug_con_scheme res" where
  "print_debug_info fmt color args s = put_format True fmt color args s"

definition print_debugf_info :: "byte list \<Rightarrow> arg list \<Rightarrow> 'a debug_con_scheme \<Rightarrow> 'a debug_con_scheme res" where
  "print_debugf_info fmt args s = put_format True fmt 0xF args s"

section \<open>Cells\<close>

lemma cell_set_cell:
  assumes "i < 2000" "j < 2000"
  shows "cell (set_cell i v m) j = (if j = i then v else cell m j)"
proof -
  have u: "unat (of_nat (2 * k) :: addr) = 2 * k" if "k < 2000" for k
    using that by (intro unat_of_nat_small) simp
  have "sep_off (of_nat (2 * j)) 2 (of_nat (2 * i)) 2" if "j \<noteq> i"
    using that assms u [of i] u [of j] unfolding sep_off_def by auto
  then show ?thesis
    unfolding cell_def set_cell_def by (cases "j = i") (simp_all add: load_store_same load_store_sep)
qed

lemma set_cell_outside:
  assumes "i < 2000" "\<not> in_region SCR_START SCR_SIZE x"
  shows "set_cell i v m x = m x"
proof -
  have "unat (of_nat (2 * i) :: addr) = 2 * i" using assms(1) by (intro unat_of_nat_small) simp
  then show ?thesis using assms store_le_outside [of SCR_START SCR_SIZE x "of_nat (2 * i)" 2] by (simp add: set_cell_def)
qed

lemma move_up_cell:
  "i + n \<le> 1920 \<Longrightarrow> j < 2000 \<Longrightarrow>
    cell (move_up n i m) j = (if i \<le> j \<and> j < i + n then cell m (j + COLUMNS) else cell m j)"
  by (induction n arbitrary: i m) (auto simp: cell_set_cell not_le less_Suc_eq)

lemma blank_cell:
  "i + n \<le> 2000 \<Longrightarrow> j < 2000 \<Longrightarrow> cell (blank n i m) j = (if i \<le> j \<and> j < i + n then 0x0F20 else cell m j)"
  by (induction n arbitrary: i m) (auto simp: cell_set_cell)

lemma move_up_outside:
  "i + n \<le> 1920 \<Longrightarrow> \<not> in_region SCR_START SCR_SIZE x \<Longrightarrow> move_up n i m x = m x"
  by (induction n arbitrary: i m) (auto simp: set_cell_outside)

lemma blank_outside:
  "i + n \<le> 2000 \<Longrightarrow> \<not> in_region SCR_START SCR_SIZE x \<Longrightarrow> blank n i m x = m x"
  by (induction n arbitrary: i m) (auto simp: set_cell_outside)

section \<open>Properties\<close>

text \<open>The screen one line further up, with an empty last line.\<close>

definition scrolled :: "(nat \<Rightarrow> 16 word) \<Rightarrow> nat \<Rightarrow> 16 word" where
  "scrolled scr k = (if k < (LINES - 1) * COLUMNS then scr (k + COLUMNS) else 0x0F20)"

lemma scroll_spec:
  assumes "s' = scroll s"
  shows "con_y s' < LINES"
    "con_y s < LINES \<Longrightarrow> s' = s"
    "con_y s \<ge> LINES \<Longrightarrow> con_y s' = LINES - 1 \<and> con_x s' = 0"
    "con_y s \<ge> LINES \<Longrightarrow> k < 2000 \<Longrightarrow> cell (mem s') k = scrolled (cell (mem s)) k"
    "\<not> in_region SCR_START SCR_SIZE x \<Longrightarrow> mem s' x = mem s x"
  using assms
  by (auto simp: scroll_def scrolled_def blank_cell move_up_cell blank_outside move_up_outside not_le not_less
      simp del: blank.simps move_up.simps)

lemma cell_address:
  fixes x y :: addr
  assumes "y < LINES" "x < COLUMNS"
  shows "SCR_START + 2 * scast (ucast (y * COLUMNS + x) :: cint) =
      SCR_START + (of_nat (2 * (unat y * COLUMNS + unat x)) :: addr)"
    "unat y * COLUMNS + unat x < 2000"
proof -
  have u: "unat y < 25" "unat x < 80" using assms by (simp_all add: word_less_nat_alt)
  then show l: "unat y * COLUMNS + unat x < 2000" by simp
  have "y * COLUMNS + x = of_nat (unat y * COLUMNS + unat x)" by simp
  then have "ucast (y * COLUMNS + x) = (of_nat (unat y * COLUMNS + unat x) :: cint)"
    by (simp only: ucast_of_nat_down)
  then have "scast (ucast (y * COLUMNS + x) :: cint) = (of_nat (unat y * COLUMNS + unat x) :: addr)"
    using l by (simp only:) (rule scast_of_nat_cint; simp)
  then show "SCR_START + 2 * scast (ucast (y * COLUMNS + x) :: cint) =
      SCR_START + (of_nat (2 * (unat y * COLUMNS + unat x)) :: addr)" by (simp only: of_nat_mult of_nat_numeral)
qed

lemma con_cursor_fields [simp]:
  "mem (con_cursor s) = mem s" "con_x (con_cursor s) = con_x s" "con_y (con_cursor s) = con_y s"
  by (simp_all add: con_cursor_def out_port_def Let_def)

lemma scroll_x: "con_x s < COLUMNS \<Longrightarrow> con_x (scroll s) < COLUMNS"
  by (simp add: scroll_def)

lemma put_normal_spec:
  assumes "s1 = scroll (if con_x s \<ge> COLUMNS then s\<lparr>con_x := 0, con_y := con_y s + 1\<rparr> else s)"
  shows "mem (put_normal ch color s) = set_cell (unat (con_y s1) * COLUMNS + unat (con_x s1)) (ucast (ch OR push_bit 8 color)) (mem s1)"
    "unat (con_y s1) * COLUMNS + unat (con_x s1) < 2000" "con_y (put_normal ch color s) = con_y s1"
proof -
  have b: "con_y s1 < LINES" "con_x s1 < COLUMNS"
    using scroll_spec(1) [OF assms] scroll_x by (auto simp: assms not_le)
  show "unat (con_y s1) * COLUMNS + unat (con_x s1) < 2000" by (rule cell_address(2) [OF b])
  show "con_y (put_normal ch color s) = con_y s1" by (simp add: put_normal_def Let_def assms)
  have "mem (put_normal ch color s) = store_le 2 (mem s1)
      (SCR_START + 2 * scast (ucast (con_y s1 * COLUMNS + con_x s1) :: cint)) (ucast (ch OR push_bit 8 color) :: 16 word)"
    by (simp add: put_normal_def Let_def assms)
  then show "mem (put_normal ch color s) = set_cell (unat (con_y s1) * COLUMNS + unat (con_x s1)) (ucast (ch OR push_bit 8 color)) (mem s1)"
    unfolding cell_address(1) [OF b] set_cell_def .
qed

lemma con_putc_outside:
  "con_y (con_putc ch color s) < LINES"
  "\<not> in_region SCR_START SCR_SIZE x \<Longrightarrow> mem (con_putc ch color s) x = mem s x"
  using put_normal_spec [OF refl, where s = s]
  by (auto simp: con_putc_def put_newline_def put_tab_def scroll_spec(1,5) set_cell_outside)

text \<open>
  An ordinary character appears under the cursor and nowhere else.  If the line is full the
  cursor goes to the next one first; if that is below the screen, the screen moves up by one line and
  the last line is cleared.  Whatever the position of the cursor was, only the screen is written.
\<close>

lemma con_putc_writes_cell:
  assumes "ch \<noteq> 10" "ch \<noteq> 9" "full = (con_x s \<ge> COLUMNS)"
    "x1 = (if full then 0 else con_x s)" "y1 = (if full then con_y s + 1 else con_y s)"
    "k = (if y1 < LINES then unat y1 * COLUMNS + unat x1 else (LINES - 1) * COLUMNS)"
  shows "k < LINES * COLUMNS \<and> con_y (con_putc ch color s) < LINES \<and>
    (\<forall>j < LINES * COLUMNS. cell (mem (con_putc ch color s)) j =
      (if j = k then ucast (ch OR push_bit 8 color)
       else if y1 < LINES then cell (mem s) j else scrolled (cell (mem s)) j)) \<and>
    (\<forall>x. \<not> in_region SCR_START SCR_SIZE x \<longrightarrow> mem (con_putc ch color s) x = mem s x)"
proof -
  let ?s0 = "if con_x s \<ge> COLUMNS then s\<lparr>con_x := 0, con_y := con_y s + 1\<rparr> else s"
  define s1 where s1: "s1 = scroll ?s0"
  note p = put_normal_spec [OF s1] and sc = scroll_spec [OF s1]
  have s0: "con_x ?s0 = x1" "con_y ?s0 = y1" "mem ?s0 = mem s" using assms(3-5) by auto
  have k: "unat (con_y s1) * COLUMNS + unat (con_x s1) = k"
    using sc(2,3) s0 assms(6) by (cases "y1 < LINES") (auto simp: not_less)
  have "cell (mem s1) j = (if y1 < LINES then cell (mem s) j else scrolled (cell (mem s)) j)" if "j < 2000" for j
    using sc(2) sc(4) [of j] that s0 by (cases "y1 < LINES") (auto simp: not_less)
  then have "\<forall>j < 2000. cell (mem (con_putc ch color s)) j =
      (if j = k then ucast (ch OR push_bit 8 color)
       else if y1 < LINES then cell (mem s) j else scrolled (cell (mem s)) j)"
    using assms(1,2) p(1,2) unfolding k by (simp add: con_putc_def cell_set_cell)
  then show ?thesis using p(2) con_putc_outside k by auto
qed

lemma con_putc_writes_cell_witness:
  "cell (mem (con_putc 65 0xF \<lparr>mem = (\<lambda>_. 0), con_x = 80, con_y = 24, ports = []\<rparr>)) 1920 = 0xF41"
proof -
  let ?s = "\<lparr>mem = (\<lambda>_. 0), con_x = 80, con_y = 24, ports = []\<rparr> :: con"
  have "(0x41 OR push_bit 8 0xF :: cint) = 0xF41" by (simp add: push_bit_eq_mult)
  then show ?thesis
    using con_putc_writes_cell [of 65 True ?s 0 25 1920 "0xF"] by simp
qed

end
