(* ===== verification/Boot_Console.thy ===== *)
theory Boot_Console
  imports Console
begin

text \<open>
  The console of the second boot stage: \<open>src/boot/stage2/console.c\<close> and the formats of
  \<open>src/boot/stage2/printk.c\<close>.  Unlike the driver, it keeps the address of the next cell in \<open>pos\<close> beside the
  coordinates \<open>x\<close> and \<open>y\<close>.  The digits of a number are those of \<open>Printf\<close>: the routines \<open>put_hex\<close> and
  \<open>put_decimal\<close> of the two files agree.
\<close>

section \<open>Definitions\<close>

record kcon = machine +
  k_x :: addr
  k_y :: addr
  k_pos :: addr

abbreviation (input) "SCR_END \<equiv> 0xB8FA0"

text \<open>
  The loops of \<open>scroll\<close>.  The first copies bytes while \<open>temp2 <= SCR_END\<close>; the second stores a \<open>long\<close> of
  eight bytes at every address below \<open>SCR_END\<close>.
\<close>

primrec clear_longs :: "nat \<Rightarrow> addr \<Rightarrow> memory \<Rightarrow> memory" where
  "clear_longs 0 temp1 m = m"
| "clear_longs (Suc n) temp1 m = clear_longs n (temp1 + 1) (store64 m temp1 0)"

definition kscroll :: "'a kcon_scheme \<Rightarrow> 'a kcon_scheme" where
  "kscroll s =
    (let line = COLUMNS * 2; moved = SCR_SIZE + 1 - line
     in s\<lparr>mem := clear_longs (SCR_SIZE - moved) (SCR_START + of_nat moved)
             (memcpy_loop moved SCR_START (SCR_START + of_nat line) (mem s)),
          k_y := LINES - 1, k_x := 0, k_pos := SCR_END - of_nat line\<rparr>)"

definition kput_newline :: "'a kcon_scheme \<Rightarrow> 'a kcon_scheme" where
  "kput_newline s =
    (let y = k_y s + 1; s1 = s\<lparr>k_y := y, k_pos := SCR_START + y * COLUMNS * 2, k_x := 0\<rparr>
     in if k_pos s1 \<ge> SCR_END then kscroll s1 else s1)"

definition kput_tab :: "'a kcon_scheme \<Rightarrow> 'a kcon_scheme" where
  "kput_tab s =
    (let s1 = s\<lparr>k_pos := k_pos s + push_bit 1 TAB_SIZE\<rparr>; s2 = (if k_pos s1 \<ge> SCR_END then kscroll s1 else s1)
     in s2\<lparr>mem := (mem s2)(k_pos s2 := 9), k_x := k_x s2 + TAB_SIZE\<rparr>)"

definition kput_normal :: "cint \<Rightarrow> cint \<Rightarrow> 'a kcon_scheme \<Rightarrow> 'a kcon_scheme" where
  "kput_normal ch color s =
    (let s1 = (if k_pos s + 2 \<ge> SCR_END then kscroll s else s)
     in s1\<lparr>mem := store_le 2 (mem s1) (k_pos s1) (ucast (ucast ch :: byte) OR push_bit 8 (ucast (ucast color :: byte)) :: 16 word),
           k_pos := k_pos s1 + 2, k_x := k_x s1 + 1\<rparr>)"

definition kputc :: "cint \<Rightarrow> cint \<Rightarrow> 'a kcon_scheme \<Rightarrow> 'a kcon_scheme" where
  "kputc ch color s = (if ch = 10 then kput_newline s else if ch = 9 then kput_tab s else kput_normal ch color s)"

fun kputs :: "byte list \<Rightarrow> cint \<Rightarrow> 'a kcon_scheme \<Rightarrow> 'a kcon_scheme" where
  "kputs [] color s = s"
| "kputs (ch # str) color s = kputs str color (kputc (scast ch) color s)"

definition change_cursor_pos :: "cint \<Rightarrow> cint \<Rightarrow> 'a kcon_scheme \<Rightarrow> 'a kcon_scheme" where
  "change_cursor_pos new_x new_y s =
    s\<lparr>k_y := scast new_y, k_x := scast new_x,
      k_pos := SCR_START + push_bit 1 (scast new_x) + scast new_y * push_bit 1 COLUMNS\<rparr>"

definition get_cursor_pos :: "'a kcon_scheme \<Rightarrow> cint \<times> cint" where
  "get_cursor_pos s = (ucast (k_x s), ucast (k_y s))"

definition kcon_init :: "'a kcon_scheme \<Rightarrow> 'a kcon_scheme" where
  "kcon_init s = s\<lparr>k_y := 0, k_x := 0, k_pos := SCR_START\<rparr>"

text \<open>One conversion of \<open>printk\<close> and \<open>cprintk\<close>: \<open>%c\<close>, \<open>%x\<close>, \<open>%d\<close> and \<open>%s\<close>, anything else is dropped.\<close>

fun kput_conv :: "byte \<Rightarrow> cint \<Rightarrow> arg list \<Rightarrow> 'a kcon_scheme \<Rightarrow> (arg list \<times> 'a kcon_scheme) res" where
  "kput_conv c color (Int_arg w # args) s =
    (if c = 99 then Inr (args, kputc w color s)
     else if c = 100 then bindr (put_decimal w) (\<lambda>ds. Inr (args, kputs ds color s))
     else if c = 120 \<or> c = 115 then Inl (Fault ''va_arg'')
     else Inr (Int_arg w # args, s))"
| "kput_conv c color (Long_arg w # args) s =
    (if c = 120 then bindr (put_hex w) (\<lambda>ds. Inr (args, kputs ds color s))
     else if c = 99 \<or> c = 100 \<or> c = 115 then Inl (Fault ''va_arg'')
     else Inr (Long_arg w # args, s))"
| "kput_conv c color (Str_arg str # args) s =
    (if c = 115 then Inr (args, kputs str color s)
     else if c = 99 \<or> c = 100 \<or> c = 120 then Inl (Fault ''va_arg'')
     else Inr (Str_arg str # args, s))"
| "kput_conv c color [] s =
    (if c = 99 \<or> c = 100 \<or> c = 120 \<or> c = 115 then Inl (Fault ''va_arg'') else Inr ([], s))"

fun cprintk :: "byte list \<Rightarrow> cint \<Rightarrow> arg list \<Rightarrow> 'a kcon_scheme \<Rightarrow> 'a kcon_scheme res" where
  "cprintk [] color args s = Inr s"
| "cprintk (ch # fmt) color args s =
    (if ch \<noteq> 37 then cprintk fmt color args (kputc (scast ch) color s)
     else case fmt of
       [] \<Rightarrow> Inl (Fault ''behind the format'')
     | c # fmt' \<Rightarrow> bindr (kput_conv c color args s) (\<lambda>(args', s'). cprintk fmt' color args' s'))"

definition printk :: "byte list \<Rightarrow> arg list \<Rightarrow> 'a kcon_scheme \<Rightarrow> 'a kcon_scheme res" where
  "printk fmt args s = cprintk fmt 0x7 args s"

section \<open>Scrolling\<close>

lemma clear_longs_apply:
  "n + 7 \<le> 2 ^ 64 \<Longrightarrow> clear_longs n a m x = (if 0 < n \<and> in_region a (n + 7) x then 0 else m x)"
proof (induction n arbitrary: a m)
  case (Suc n)
  have "clear_longs (Suc n) a m x = (if 0 < n \<and> in_region (a + 1) (n + 7) x then 0 else store64 m a 0 x)"
    using Suc by simp
  moreover have "in_region a 8 x \<or> 0 < n \<and> in_region (a + 1) (n + 7) x \<longleftrightarrow> in_region a (Suc n + 7) x"
    by (cases "x = a") (auto simp: in_region_def unat_diff_step)
  ultimately show ?case by (auto simp: store_le_apply)
qed simp

text \<open>
  What scrolling does to memory: the lines move up, but the two loops go too far.  The first copies one byte
  more than the screen has, so the first character of the new line is the byte behind the screen; the second
  clears seven bytes behind the screen.
\<close>

lemma kscroll_overruns:
  "mem (kscroll s) x =
    (if in_region SCR_START 3841 x then mem s (x + 160)
     else if in_region SCR_START (SCR_SIZE + 7) x then 0 else mem s x)"
proof -
  let ?m = "memcpy_loop 3841 SCR_START 0xB80A0 (mem s)"
  have copy: "?m x = (if in_region SCR_START 3841 x then mem s (x + 160) else mem s x)"
  proof (subst memcpy_loop_apply)
    show "SCR_START = (0xB80A0 :: addr) \<or> 3841 \<le> unat (SCR_START - 0xB80A0 :: addr)" by (simp only: unat_sub_if') simp
  qed (simp_all add: add.commute)
  have "mem (kscroll s) x = clear_longs 159 0xB8F01 ?m x" by (simp add: kscroll_def)
  also have "\<dots> = (if in_region 0xB8F01 166 x then 0 else ?m x)" by (simp add: clear_longs_apply)
  also have "in_region 0xB8F01 166 x \<longleftrightarrow> in_region SCR_START 4007 x \<and> \<not> in_region SCR_START 3841 x"
    by (subst (1 2 3) in_region_nowrap) auto
  finally show ?thesis using copy by (auto simp: in_region_def)
qed

text \<open>The coordinates: a line that is full goes on in the next one, but \<open>y\<close> is not told.\<close>

lemma kput_normal_pos:
  "k_pos s + 2 < SCR_END \<Longrightarrow> k_pos (kput_normal ch color s) = k_pos s + 2 \<and> k_y (kput_normal ch color s) = k_y s"
  by (auto simp: kput_normal_def Let_def dest: leD)

lemma scast_byte_eq: "(scast b = (scast c :: cint)) = (b = c)" for b c :: byte
proof -
  have "ucast (scast b :: cint) = b" for b :: byte by (rule bit_word_eqI) (auto simp: bit_simps)
  then show ?thesis by metis
qed

lemma kputs_pos:
  "9 \<notin> set str \<Longrightarrow> 10 \<notin> set str \<Longrightarrow> k_pos s = SCR_START + of_nat (2 * n) \<Longrightarrow> n + length str < 1999 \<Longrightarrow>
    k_pos (kputs str color s) = SCR_START + of_nat (2 * (n + length str)) \<and> k_y (kputs str color s) = k_y s"
proof (induction str arbitrary: s n)
  case (Cons ch str)
  have c: "scast ch \<noteq> (9 :: cint)" "scast ch \<noteq> (10 :: cint)"
    using Cons.prems(1,2) scast_byte_eq [of ch 9] scast_byte_eq [of ch 10] by auto
  have "k_pos s + 2 < SCR_END" using Cons.prems(3,4)
    by (simp add: word_less_nat_alt unat_word_ariths unat_of_nat take_bit_nat_eq_self)
  from kput_normal_pos [OF this, of "scast ch" color] Cons.prems(3) c
  have "k_pos (kputc (scast ch) color s) = SCR_START + of_nat (2 * Suc n)" "k_y (kputc (scast ch) color s) = k_y s"
    by (simp_all add: kputc_def)
  with Cons.IH [OF _ _ this(1)] Cons.prems show ?case by simp
qed simp

text \<open>A newline after more than 80 characters goes back into the text that was just written.\<close>

lemma newline_after_wrap:
  assumes "9 \<notin> set str" "10 \<notin> set str" "80 < length str" "length str < 1999"
  shows "k_pos (kputc 10 color (kputs str color (kcon_init s))) = SCR_START + 160 \<and>
    SCR_START + 160 < k_pos (kputs str color (kcon_init s))"
proof -
  have p: "k_pos (kputs str color (kcon_init s)) = SCR_START + of_nat (2 * length str)" "k_y (kputs str color (kcon_init s)) = 0"
    using kputs_pos [OF assms(1,2), of "kcon_init s" 0 color] assms(4) by (simp_all add: kcon_init_def)
  have "(0xB80A0 :: addr) < SCR_START + of_nat (2 * length str)"
    using assms(3,4) by (simp add: word_less_nat_alt unat_word_ariths unat_of_nat take_bit_nat_eq_self)
  then show ?thesis using p by (simp add: kputc_def kput_newline_def)
qed

end
