(* ===== verification/Monitor.thy ===== *)
theory Monitor
  imports Interrupts Ipc
begin

unbundle bit_operations_syntax

text \<open>
  The virtual machine monitor of a processor (\<open>src/vmm/main.c\<close>, \<open>src/vmm/vmx.c\<close>).  The state has the
  registers the code reads and writes, the two variables \<open>vmcs_config\<close> and \<open>vmx_capability\<close>, and what the
  processor keeps about virtualization: the region given to VMXON, the current VMCS, and for every VMCS its
  launch state and its fields, by their encoding.  The instructions behave as the processor's manual says, as
  far as the code depends on it: VMCLEAR and VMPTRLD fail on a bad pointer, VMLAUNCH wants a clear and
  VMRESUME a launched VMCS, and an entry fails when a control has a bit that the processor requires to be
  otherwise.  The checks of the guest and host state on entry are not modelled.

  A null pointer is address 0, which the monitor's tables map.  What the process manager does while the
  monitor waits for a message is a parameter.
\<close>

section \<open>State\<close>

record vmcs_config =
  vmcs_size :: cint
  revision_id :: cint
  pin_based_exec_ctrl :: cint
  cpu_based_exec_ctrl :: cint
  cpu_based_2nd_exec_ctrl :: cint
  vmexit_ctrl :: cint
  vmentry_ctrl :: cint

record vmx_capability =
  cap_ept :: cint
  cap_vpid :: cint
  has_load_efer :: bool

text \<open>The registers that \<open>setup_vmcs\<close> copies.\<close>

record selectors =
  sel_es :: "16 word"
  sel_cs :: "16 word"
  sel_ss :: "16 word"
  sel_ds :: "16 word"
  sel_fs :: "16 word"
  sel_gs :: "16 word"
  sel_ldt :: "16 word"

record vmcs =
  launched :: bool
  vmcs_fields :: "addr \<Rightarrow> addr"

record vmm = machine +
  self :: cpu_info
  msr :: "cint \<Rightarrow> addr"
  cr0 :: addr
  cr3 :: addr
  cr4 :: addr
  sels :: selectors
  gdtr :: "16 word \<times> addr"
  idtr :: "16 word \<times> addr"
  vmm_idt :: "gate list"
  vmcs_conf :: vmcs_config
  vmx_cap :: vmx_capability
  vmxon_region :: "addr option"
  current_vmcs :: "addr option"
  vmcss :: "addr \<Rightarrow> vmcs"
  guest :: "regs option"

abbreviation (input) "MSR_IA32_FEATURE_CONTROL \<equiv> 0x3A"
abbreviation (input) "MSR_IA32_SYSENTER_CS \<equiv> 0x174"
abbreviation (input) "MSR_IA32_SYSENTER_ESP \<equiv> 0x175"
abbreviation (input) "MSR_IA32_SYSENTER_EIP \<equiv> 0x176"
abbreviation (input) "MSR_IA32_VMX_BASIC \<equiv> 0x480"
abbreviation (input) "MSR_IA32_VMX_PINBASED_CTLS \<equiv> 0x481"
abbreviation (input) "MSR_IA32_VMX_PROCBASED_CTLS \<equiv> 0x482"
abbreviation (input) "MSR_IA32_VMX_EXIT_CTLS \<equiv> 0x483"
abbreviation (input) "MSR_IA32_VMX_ENTRY_CTLS \<equiv> 0x484"
abbreviation (input) "MSR_IA32_VMX_CR0_FIXED0 \<equiv> 0x486"
abbreviation (input) "MSR_IA32_VMX_CR4_FIXED0 \<equiv> 0x488"
abbreviation (input) "MSR_IA32_VMX_PROCBASED_CTLS2 \<equiv> 0x48B"
abbreviation (input) "MSR_IA32_VMX_EPT_VPID_CAP \<equiv> 0x48C"

abbreviation (input) "CPU_BASED_USE_TSC_OFFSETING \<equiv> 0x8"
abbreviation (input) "CPU_BASED_HLT_EXITING \<equiv> 0x80"
abbreviation (input) "CPU_BASED_INVLPG_EXITING \<equiv> 0x200"
abbreviation (input) "CPU_BASED_MWAIT_EXITING \<equiv> 0x400"
abbreviation (input) "CPU_BASED_CR3_LOAD_EXITING \<equiv> 0x8000"
abbreviation (input) "CPU_BASED_CR3_STORE_EXITING \<equiv> 0x10000"
abbreviation (input) "CPU_BASED_CR8_LOAD_EXITING \<equiv> 0x80000"
abbreviation (input) "CPU_BASED_CR8_STORE_EXITING \<equiv> 0x100000"
abbreviation (input) "CPU_BASED_TPR_SHADOW \<equiv> 0x200000"
abbreviation (input) "CPU_BASED_MOV_DR_EXITING \<equiv> 0x800000"
abbreviation (input) "CPU_BASED_USE_MSR_BITMAPS \<equiv> 0x10000000"
abbreviation (input) "CPU_BASED_MONITOR_EXITING \<equiv> 0x20000000"
abbreviation (input) "CPU_BASED_ACTIVATE_SECONDARY_CONTROLS \<equiv> 0x80000000"
abbreviation (input) "SECONDARY_EXEC_VIRTUALIZE_APIC_ACCESSES \<equiv> 0x1"
abbreviation (input) "SECONDARY_EXEC_ENABLE_EPT \<equiv> 0x2"
abbreviation (input) "SECONDARY_EXEC_RDTSCP \<equiv> 0x8"
abbreviation (input) "SECONDARY_EXEC_ENABLE_VPID \<equiv> 0x20"
abbreviation (input) "SECONDARY_EXEC_WBINVD_EXITING \<equiv> 0x40"
abbreviation (input) "PIN_BASED_EXT_INTR_MASK \<equiv> 0x1"
abbreviation (input) "PIN_BASED_NMI_EXITING \<equiv> 0x8"
abbreviation (input) "PIN_BASED_VIRTUAL_NMIS \<equiv> 0x20"
abbreviation (input) "VM_EXIT_HOST_ADDR_SPACE_SIZE \<equiv> 0x200"
abbreviation (input) "VM_EXIT_LOAD_IA32_EFER \<equiv> 0x200000"
abbreviation (input) "VM_ENTRY_LOAD_IA32_EFER \<equiv> 0x8000"
abbreviation (input) "VMX_VPID_EXTENT_SINGLE_CONTEXT_BIT \<equiv> 0x200"
abbreviation (input) "VMX_EPT_EXTENT_GLOBAL_BIT \<equiv> 0x4000000"

section \<open>The features of the processor\<close>

text \<open>\<open>read_msr\<close>: the low and the high half.\<close>

definition read_msr :: "cint \<Rightarrow> 'a vmm_scheme \<Rightarrow> cint \<times> cint" where
  "read_msr r s = (ucast (msr s r), ucast (drop_bit 32 (msr s r)))"

definition adjust_vmx_controls :: "cint \<Rightarrow> cint \<Rightarrow> cint \<Rightarrow> 'a vmm_scheme \<Rightarrow> cint option" where
  "adjust_vmx_controls ctl_min ctl_opt r s =
    (let (vmx_msr_low, vmx_msr_high) = read_msr r s;
         ctl = ((ctl_min OR ctl_opt) AND vmx_msr_high) OR vmx_msr_low
     in if ctl_min AND NOT ctl \<noteq> 0 then None else Some ctl)"

definition allow_1_setting :: "cint \<Rightarrow> cint \<Rightarrow> 'a vmm_scheme \<Rightarrow> bool" where
  "allow_1_setting r ctl s = (snd (read_msr r s) AND ctl \<noteq> 0)"

definition cpu_has_secondary_exec_ctrls :: "'a vmm_scheme \<Rightarrow> bool" where
  "cpu_has_secondary_exec_ctrls s = (cpu_based_exec_ctrl (vmcs_conf s) AND CPU_BASED_ACTIVATE_SECONDARY_CONTROLS \<noteq> 0)"

definition cpu_has_vmx_invvpid_single :: "'a vmm_scheme \<Rightarrow> bool" where
  "cpu_has_vmx_invvpid_single s = (cap_vpid (vmx_cap s) AND VMX_VPID_EXTENT_SINGLE_CONTEXT_BIT \<noteq> 0)"

definition cpu_has_vmx_ept :: "'a vmm_scheme \<Rightarrow> bool" where
  "cpu_has_vmx_ept s = (cpu_based_2nd_exec_ctrl (vmcs_conf s) AND SECONDARY_EXEC_ENABLE_EPT \<noteq> 0)"

definition cpu_has_vmx_invept_global :: "'a vmm_scheme \<Rightarrow> bool" where
  "cpu_has_vmx_invept_global s = (cap_ept (vmx_cap s) AND VMX_EPT_EXTENT_GLOBAL_BIT \<noteq> 0)"

text \<open>The controls that \<open>setup_vmcs_config\<close> asks for.\<close>

definition cpu_min :: cint where
  "cpu_min = CPU_BASED_CR8_LOAD_EXITING OR CPU_BASED_CR8_STORE_EXITING OR CPU_BASED_CR3_LOAD_EXITING OR
     CPU_BASED_CR3_STORE_EXITING OR CPU_BASED_MOV_DR_EXITING OR CPU_BASED_USE_TSC_OFFSETING OR CPU_BASED_MWAIT_EXITING OR
     CPU_BASED_MONITOR_EXITING OR CPU_BASED_INVLPG_EXITING OR CPU_BASED_HLT_EXITING"

definition cpu_opt :: cint where
  "cpu_opt = CPU_BASED_TPR_SHADOW OR CPU_BASED_USE_MSR_BITMAPS OR CPU_BASED_ACTIVATE_SECONDARY_CONTROLS"

definition cpu2_opt :: cint where
  "cpu2_opt = SECONDARY_EXEC_WBINVD_EXITING OR SECONDARY_EXEC_ENABLE_VPID OR SECONDARY_EXEC_ENABLE_EPT OR SECONDARY_EXEC_RDTSCP"

text \<open>The last part: what the basic register says of the VMCS, and the results.\<close>

definition store_vmcs_config :: "cint \<Rightarrow> cint \<Rightarrow> cint \<Rightarrow> cint \<Rightarrow> cint \<Rightarrow> 'a vmm_scheme \<Rightarrow> 'a vmm_scheme option" where
  "store_vmcs_config pin cpu cpu2 vmexit vmentry s =
    (let (low, high) = read_msr MSR_IA32_VMX_BASIC s in
     if high AND 0x1FFF > 0x1000 then None
     else if high AND push_bit 16 1 \<noteq> 0 then None
     else if drop_bit 18 high AND 15 \<noteq> 6 then None
     else Some (s\<lparr>vmcs_conf := (vmcs_conf s)\<lparr>vmcs_size := high AND 0x1FFF, revision_id := low, pin_based_exec_ctrl := pin,
              cpu_based_exec_ctrl := cpu, cpu_based_2nd_exec_ctrl := cpu2, vmexit_ctrl := vmexit, vmentry_ctrl := vmentry\<rparr>,
            vmx_cap := (vmx_cap s)\<lparr>has_load_efer := allow_1_setting MSR_IA32_VMX_ENTRY_CTLS VM_ENTRY_LOAD_IA32_EFER s \<and>
              allow_1_setting MSR_IA32_VMX_EXIT_CTLS VM_EXIT_LOAD_IA32_EFER s\<rparr>\<rparr>))"

text \<open>\<open>None\<close> is the result \<open>-EIO\<close>.\<close>

definition setup_vmcs_config :: "'a vmm_scheme \<Rightarrow> 'a vmm_scheme option" where
  "setup_vmcs_config s =
    Option.bind (adjust_vmx_controls (PIN_BASED_EXT_INTR_MASK OR PIN_BASED_NMI_EXITING) PIN_BASED_VIRTUAL_NMIS
      MSR_IA32_VMX_PINBASED_CTLS s) (\<lambda>pin.
    Option.bind (adjust_vmx_controls cpu_min cpu_opt MSR_IA32_VMX_PROCBASED_CTLS s) (\<lambda>cpu0.
      let cpu1 = (if cpu0 AND CPU_BASED_TPR_SHADOW \<noteq> 0
                  then cpu0 AND NOT CPU_BASED_CR8_LOAD_EXITING AND NOT CPU_BASED_CR8_STORE_EXITING else cpu0)
      in Option.bind (if cpu1 AND CPU_BASED_ACTIVATE_SECONDARY_CONTROLS \<noteq> 0
          then adjust_vmx_controls 0 cpu2_opt MSR_IA32_VMX_PROCBASED_CTLS2 s else Some 0) (\<lambda>cpu2.
        let cpu3 = (if cpu2 AND SECONDARY_EXEC_VIRTUALIZE_APIC_ACCESSES = 0 then cpu1 AND NOT CPU_BASED_TPR_SHADOW else cpu1);
            cpu4 = (if cpu2 AND SECONDARY_EXEC_ENABLE_EPT \<noteq> 0
                    then cpu3 AND NOT (CPU_BASED_CR3_LOAD_EXITING OR CPU_BASED_CR3_STORE_EXITING OR CPU_BASED_INVLPG_EXITING)
                    else cpu3);
            s1 = (if cpu2 AND SECONDARY_EXEC_ENABLE_EPT \<noteq> 0
                  then s\<lparr>vmx_cap := (vmx_cap s)\<lparr>cap_ept := fst (read_msr MSR_IA32_VMX_EPT_VPID_CAP s),
                    cap_vpid := snd (read_msr MSR_IA32_VMX_EPT_VPID_CAP s)\<rparr>\<rparr>
                  else s)
        in Option.bind (adjust_vmx_controls VM_EXIT_HOST_ADDR_SPACE_SIZE 0 MSR_IA32_VMX_EXIT_CTLS s1) (\<lambda>vmexit.
           Option.bind (adjust_vmx_controls 0 0 MSR_IA32_VMX_ENTRY_CTLS s1) (\<lambda>vmentry.
             store_vmcs_config pin cpu4 cpu2 vmexit vmentry s1)))))"

definition check_cpu_vmx_features :: "'a vmm_scheme \<Rightarrow> 'a vmm_scheme res" where
  "check_cpu_vmx_features s =
    (case setup_vmcs_config s of
       None \<Rightarrow> Inl (Panic ''setup_vmcs_config failed!'')
     | Some s1 \<Rightarrow>
        if \<not> cpu_has_vmx_ept s1 then Inl (Panic ''Your cpu does not support ept!'')
        else if \<not> cpu_has_secondary_exec_ctrls s1 then Inl (Panic ''Your cpu does not support secondary exec controls'')
        else if \<not> cpu_has_vmx_invept_global s1 then Inl (Panic ''Your cpu does not support invept global'')
        else if \<not> cpu_has_vmx_invvpid_single s1 then Inl (Panic ''Your cpu does not support invpid single'')
        else Inr s1)"

section \<open>The VMX instructions\<close>

text \<open>
  The low bits of an encoding say how wide a field is; an odd encoding is the upper half of the 64-bit field
  below it.
\<close>

definition field_width :: "addr \<Rightarrow> nat" where
  "field_width f = (if drop_bit 13 f AND 3 = 0 then 16 else if drop_bit 13 f AND 3 = 2 then 32 else 64)"

definition put_field :: "addr \<Rightarrow> addr \<Rightarrow> (addr \<Rightarrow> addr) \<Rightarrow> addr \<Rightarrow> addr" where
  "put_field f v fs =
    (if bit f 0 then fs(f - 1 := take_bit 32 (fs (f - 1)) OR push_bit 32 v) else fs(f := take_bit (field_width f) v))"

definition page_aligned :: "addr \<Rightarrow> bool" where
  "page_aligned p \<longleftrightarrow> p AND 0xFFF = 0"

text \<open>VMXON: nothing happens when the region or the control registers are not as they must be.\<close>

definition do_vmxon :: "addr \<Rightarrow> 'a vmm_scheme \<Rightarrow> 'a vmm_scheme" where
  "do_vmxon p s =
    (if page_aligned p \<and> bit (cr4 s) 13 \<and> msr s MSR_IA32_FEATURE_CONTROL AND 5 = 5 \<and>
       msr s MSR_IA32_VMX_CR0_FIXED0 AND NOT (cr0 s) = 0 \<and> msr s MSR_IA32_VMX_CR4_FIXED0 AND NOT (cr4 s) = 0 \<and>
       load32 (mem s) p = ucast (msr s MSR_IA32_VMX_BASIC)
     then s\<lparr>vmxon_region := Some p\<rparr> else s)"

definition clear_vmcs :: "addr \<Rightarrow> 'a vmm_scheme \<Rightarrow> 'a vmm_scheme res" where
  "clear_vmcs p s =
    (case vmxon_region s of
       None \<Rightarrow> Inl (Fault ''not in VMX operation'')
     | Some r \<Rightarrow>
        if \<not> page_aligned p \<or> p = r then Inl (Panic ''vmclear fail'')
        else Inr (s\<lparr>vmcss := (vmcss s)(p := (vmcss s p)\<lparr>launched := False\<rparr>),
               current_vmcs := (if current_vmcs s = Some p then None else current_vmcs s)\<rparr>))"

definition load_vmcs :: "addr \<Rightarrow> 'a vmm_scheme \<Rightarrow> 'a vmm_scheme res" where
  "load_vmcs p s =
    (case vmxon_region s of
       None \<Rightarrow> Inl (Fault ''not in VMX operation'')
     | Some r \<Rightarrow>
        if \<not> page_aligned p \<or> p = r \<or> load32 (mem s) p \<noteq> ucast (msr s MSR_IA32_VMX_BASIC) then Inl (Panic ''vmclear fail'')
        else Inr (s\<lparr>current_vmcs := Some p\<rparr>))"

definition vmx_vmread :: "addr \<Rightarrow> 'a vmm_scheme \<Rightarrow> addr res" where
  "vmx_vmread f s =
    (case current_vmcs s of None \<Rightarrow> Inl (Fault ''no current VMCS'') | Some p \<Rightarrow> Inr (vmcs_fields (vmcss s p) f))"

definition vmx_vmwrite :: "addr \<Rightarrow> addr \<Rightarrow> 'a vmm_scheme \<Rightarrow> 'a vmm_scheme res" where
  "vmx_vmwrite f v s =
    (case current_vmcs s of
       None \<Rightarrow> Inl (Panic ''Error executing VMXWRITE'')
     | Some p \<Rightarrow> Inr (s\<lparr>vmcss := (vmcss s)(p := (vmcss s p)\<lparr>vmcs_fields := put_field f v (vmcs_fields (vmcss s p))\<rparr>)\<rparr>))"

primrec vmwrites :: "(addr \<times> addr) list \<Rightarrow> 'a vmm_scheme \<Rightarrow> 'a vmm_scheme res" where
  "vmwrites [] s = Inr s"
| "vmwrites (fv # fvs) s = bindr (vmx_vmwrite (fst fv) (snd fv) s) (vmwrites fvs)"

abbreviation (input) "GUEST_ES_SELECTOR \<equiv> 0x800"
abbreviation (input) "GUEST_CS_SELECTOR \<equiv> 0x802"
abbreviation (input) "GUEST_SS_SELECTOR \<equiv> 0x804"
abbreviation (input) "GUEST_DS_SELECTOR \<equiv> 0x806"
abbreviation (input) "GUEST_FS_SELECTOR \<equiv> 0x808"
abbreviation (input) "GUEST_GS_SELECTOR \<equiv> 0x80A"
abbreviation (input) "GUEST_LDTR_SELECTOR \<equiv> 0x80C"
abbreviation (input) "GUEST_TR_SELECTOR \<equiv> 0x80E"
abbreviation (input) "HOST_ES_SELECTOR \<equiv> 0xC00"
abbreviation (input) "HOST_CS_SELECTOR \<equiv> 0xC02"
abbreviation (input) "HOST_SS_SELECTOR \<equiv> 0xC04"
abbreviation (input) "HOST_DS_SELECTOR \<equiv> 0xC06"
abbreviation (input) "HOST_FS_SELECTOR \<equiv> 0xC08"
abbreviation (input) "HOST_GS_SELECTOR \<equiv> 0xC0A"
abbreviation (input) "HOST_TR_SELECTOR \<equiv> 0xC0C"
abbreviation (input) "TSC_OFFSET \<equiv> 0x2010"
abbreviation (input) "TSC_OFFSET_HIGH \<equiv> 0x2011"
abbreviation (input) "EPT_POINTER \<equiv> 0x201A"
abbreviation (input) "VMCS_LINK_POINTER \<equiv> 0x2800"
abbreviation (input) "VMCS_LINK_POINTER_HIGH \<equiv> 0x2801"
abbreviation (input) "PIN_BASED_VM_EXEC_CONTROL \<equiv> 0x4000"
abbreviation (input) "CPU_BASED_VM_EXEC_CONTROL \<equiv> 0x4002"
abbreviation (input) "PAGE_FAULT_ERROR_CODE_MASK \<equiv> 0x4006"
abbreviation (input) "PAGE_FAULT_ERROR_CODE_MATCH \<equiv> 0x4008"
abbreviation (input) "CR3_TARGET_COUNT \<equiv> 0x400A"
abbreviation (input) "VM_EXIT_CONTROLS \<equiv> 0x400C"
abbreviation (input) "VM_EXIT_MSR_STORE_COUNT \<equiv> 0x400E"
abbreviation (input) "VM_EXIT_MSR_LOAD_COUNT \<equiv> 0x4010"
abbreviation (input) "VM_ENTRY_CONTROLS \<equiv> 0x4012"
abbreviation (input) "VM_ENTRY_MSR_LOAD_COUNT \<equiv> 0x4014"
abbreviation (input) "VM_ENTRY_INTR_INFO_FIELD \<equiv> 0x4016"
abbreviation (input) "SECONDARY_VM_EXEC_CONTROL \<equiv> 0x401E"
abbreviation (input) "VM_EXIT_REASON \<equiv> 0x4402"
abbreviation (input) "GUEST_CR0 \<equiv> 0x6800"
abbreviation (input) "GUEST_CR3 \<equiv> 0x6802"
abbreviation (input) "GUEST_CR4 \<equiv> 0x6804"
abbreviation (input) "GUEST_RSP \<equiv> 0x681C"
abbreviation (input) "GUEST_RIP \<equiv> 0x681E"
abbreviation (input) "GUEST_RFLAGS \<equiv> 0x6820"
abbreviation (input) "HOST_CR0 \<equiv> 0x6C00"
abbreviation (input) "HOST_CR3 \<equiv> 0x6C02"
abbreviation (input) "HOST_CR4 \<equiv> 0x6C04"
abbreviation (input) "HOST_GDTR_BASE \<equiv> 0x6C0C"
abbreviation (input) "HOST_IDTR_BASE \<equiv> 0x6C0E"
abbreviation (input) "HOST_RSP \<equiv> 0x6C14"
abbreviation (input) "HOST_RIP \<equiv> 0x6C16"

section \<open>Setting up a guest\<close>

text \<open>\<open>sgdt\<close> and \<open>sidt\<close> store the limit and behind it the base.\<close>

definition store_dtr :: "16 word \<times> addr \<Rightarrow> addr \<Rightarrow> memory \<Rightarrow> memory" where
  "store_dtr d p m = store64 (store_le 2 m p (fst d)) (p + 2) (snd d)"

text \<open>The low half of a capability register, with the bits \<open>b\<close> set; \<open>b\<close> is an \<open>int\<close> that is sign-extended.\<close>

definition control :: "cint \<Rightarrow> cint \<Rightarrow> 'a vmm_scheme \<Rightarrow> addr" where
  "control r b s = ucast (ucast (msr s r) :: cint) OR scast b"

definition host_selectors :: "selectors \<Rightarrow> (addr \<times> addr) list" where
  "host_selectors q =
    [(HOST_ES_SELECTOR, ucast (sel_es q)), (HOST_CS_SELECTOR, ucast (sel_cs q)), (HOST_SS_SELECTOR, ucast (sel_ss q)),
     (HOST_DS_SELECTOR, ucast (sel_ds q)), (HOST_FS_SELECTOR, ucast (sel_fs q)), (HOST_GS_SELECTOR, ucast (sel_gs q)),
     (HOST_TR_SELECTOR, 0x18), (VMCS_LINK_POINTER, 0xFFFFFFFF), (VMCS_LINK_POINTER_HIGH, 0xFFFFFFFF)]"

definition controls :: "'a vmm_scheme \<Rightarrow> (addr \<times> addr) list" where
  "controls s =
    [(PIN_BASED_VM_EXEC_CONTROL, control MSR_IA32_VMX_PINBASED_CTLS 0 s),
     (CPU_BASED_VM_EXEC_CONTROL, control MSR_IA32_VMX_PROCBASED_CTLS (push_bit 31 1) s),
     (SECONDARY_VM_EXEC_CONTROL, control MSR_IA32_VMX_PROCBASED_CTLS2 (push_bit 1 1 OR push_bit 3 1) s),
     (VM_EXIT_CONTROLS, control MSR_IA32_VMX_EXIT_CTLS (push_bit 9 1) s),
     (VM_ENTRY_CONTROLS, control MSR_IA32_VMX_ENTRY_CTLS (push_bit 9 1) s),
     (VM_EXIT_MSR_STORE_COUNT, 0), (VM_EXIT_MSR_LOAD_COUNT, 0), (VM_ENTRY_MSR_LOAD_COUNT, 0), (VM_ENTRY_INTR_INFO_FIELD, 0),
     (TSC_OFFSET, 0), (TSC_OFFSET_HIGH, 0), (PAGE_FAULT_ERROR_CODE_MASK, 0), (PAGE_FAULT_ERROR_CODE_MATCH, 0),
     (CR3_TARGET_COUNT, 0), (0x6008, 0), (0x600A, 0), (0x600C, 0), (0x600E, 0)]"

text \<open>The fields whose names begin with \<open>GUEST\<close>: selectors, limits, access rights and bases.\<close>

definition guest_selectors :: "selectors \<Rightarrow> (addr \<times> addr) list" where
  "guest_selectors q =
    [(GUEST_ES_SELECTOR, ucast (sel_es q)), (GUEST_CS_SELECTOR, ucast (sel_cs q)), (GUEST_SS_SELECTOR, ucast (sel_ss q)),
     (GUEST_DS_SELECTOR, ucast (sel_ds q)), (GUEST_FS_SELECTOR, ucast (sel_fs q)), (GUEST_GS_SELECTOR, ucast (sel_gs q)),
     (GUEST_LDTR_SELECTOR, ucast (sel_ldt q)), (GUEST_TR_SELECTOR, 0x18),
     (0x4802, 0xFFFFFFFF), (0x4800, 0xFFFFFFFF), (0x4804, 0xFFFFFFFF), (0x4806, 0xFFFFFFFF), (0x4808, 0xFFFFFFFF),
     (0x480A, 0xFFFFFFFF), (0x480C, 0xFFFF), (0x480E, 0xFF), (0x4810, 0), (0x4812, 0), (0x681A, 0), (0x4824, 0), (0x4826, 0),
     (0x4816, 0xA09B), (0x4814, 0xA093), (0x4818, 0xA093), (0x481A, 0xA093), (0x481C, 0xA093), (0x481E, 0xA093),
     (0x4820, 0x10000), (0x4822, 0x8B)]"

definition guest_registers :: "'a vmm_scheme \<Rightarrow> (addr \<times> addr) list" where
  "guest_registers s =
    (let v = vm_info (self s); eptp = (vm_ept v OR 0x6 OR push_bit 3 3) AND NOT (push_bit 6 1) in
     [(0x482A, msr s MSR_IA32_SYSENTER_CS), (GUEST_CR0, cr0 s), (GUEST_CR3, vm_page_tables v), (GUEST_CR4, cr4 s),
      (0x6806, 0), (0x6808, 0), (0x680A, 0), (0x680C, 0), (0x680E, 0), (0x6810, 0), (0x6812, 0), (0x6814, 0),
      (0x6816, 0), (0x6818, 0), (EPT_POINTER, eptp), (GUEST_RFLAGS, r_rflags (vm_regs v)),
      (0x6824, msr s MSR_IA32_SYSENTER_ESP), (0x6826, msr s MSR_IA32_SYSENTER_EIP)])"

definition host_registers :: "addr \<Rightarrow> addr \<Rightarrow> 'a vmm_scheme \<Rightarrow> (addr \<times> addr) list" where
  "host_registers host_entry dtr s =
    [(HOST_CR0, cr0 s), (HOST_CR3, cr3 s), (HOST_CR4, cr4 s), (0x6C06, 0), (0x6C08, 0), (0x6C0A, 0),
     (HOST_GDTR_BASE, load64 (mem s) (dtr + 2)), (HOST_IDTR_BASE, load64 (mem s) (dtr + 2)),
     (GUEST_RSP, r_rsp (vm_regs (vm_info (self s)))), (GUEST_RIP, r_rip (vm_regs (vm_info (self s)))),
     (HOST_RSP, r_rsp (vmm_regs (vmm_info (self s)))), (HOST_RIP, host_entry)]"

text \<open>\<open>h\<close> is the address of \<open>host_entry\<close>.  Both descriptor registers are stored at the null pointer.\<close>

definition setup_vmcs :: "addr \<Rightarrow> 'a vmm_scheme \<Rightarrow> 'a vmm_scheme res" where
  "setup_vmcs h s0 =
    (let s = s0\<lparr>mem := store_dtr (idtr s0) 0 (store_dtr (gdtr s0) 0 (mem s0))\<rparr> in
     vmwrites (host_selectors (sels s) @ controls s @ guest_selectors (sels s) @ guest_registers s @ host_registers h 0 s) s)"

section \<open>Entering and leaving the guest\<close>

text \<open>A control must have the bits of the low half of its register and no bit outside the high half.\<close>

definition control_ok :: "cint \<Rightarrow> addr \<Rightarrow> 'a vmm_scheme \<Rightarrow> bool" where
  "control_ok r f s \<longleftrightarrow> fst (read_msr r s) AND NOT (ucast f) = 0 \<and> ucast f AND NOT (snd (read_msr r s)) = 0"

definition controls_ok :: "(addr \<Rightarrow> addr) \<Rightarrow> 'a vmm_scheme \<Rightarrow> bool" where
  "controls_ok fs s \<longleftrightarrow>
    control_ok MSR_IA32_VMX_PINBASED_CTLS (fs PIN_BASED_VM_EXEC_CONTROL) s \<and>
    control_ok MSR_IA32_VMX_PROCBASED_CTLS (fs CPU_BASED_VM_EXEC_CONTROL) s \<and>
    (bit (fs CPU_BASED_VM_EXEC_CONTROL) 31 \<longrightarrow> control_ok MSR_IA32_VMX_PROCBASED_CTLS2 (fs SECONDARY_VM_EXEC_CONTROL) s) \<and>
    control_ok MSR_IA32_VMX_EXIT_CTLS (fs VM_EXIT_CONTROLS) s \<and> control_ok MSR_IA32_VMX_ENTRY_CTLS (fs VM_ENTRY_CONTROLS) s"

text \<open>
  The registers are loaded from \<open>vm_regs\<close>, instruction pointer, stack pointer, flags and page tables come from
  the VMCS.  An entry that fails goes on behind the instruction.
\<close>

definition vm_enter :: "bool \<Rightarrow> 'a vmm_scheme \<Rightarrow> 'a vmm_scheme" where
  "vm_enter want_launched s =
    (case current_vmcs s of
       None \<Rightarrow> s
     | Some p \<Rightarrow>
        let fs = vmcs_fields (vmcss s p) in
        if launched (vmcss s p) = want_launched \<and> controls_ok fs s
        then s\<lparr>vmcss := (vmcss s)(p := (vmcss s p)\<lparr>launched := True\<rparr>),
               guest := Some ((vm_regs (vm_info (self s)))\<lparr>r_rip := fs GUEST_RIP, r_rsp := fs GUEST_RSP,
                 r_rflags := fs GUEST_RFLAGS, r_cr3 := fs GUEST_CR3\<rparr>)\<rparr>
        else s)"

definition vmresume :: "'a vmm_scheme \<Rightarrow> 'a vmm_scheme" where
  "vmresume s = vm_enter True s"

definition vmlaunch :: "'a vmm_scheme \<Rightarrow> 'a vmm_scheme" where
  "vmlaunch s = vm_enter False s"

text \<open>What the processor does when the guest has to be left.\<close>

definition vm_exit :: "addr \<Rightarrow> regs \<Rightarrow> 'a vmm_scheme \<Rightarrow> 'a vmm_scheme" where
  "vm_exit reason g s =
    (case current_vmcs s of
       None \<Rightarrow> s
     | Some p \<Rightarrow>
        s\<lparr>vmcss := (vmcss s)(p := (vmcss s p)\<lparr>vmcs_fields := (vmcs_fields (vmcss s p))(VM_EXIT_REASON := reason,
            GUEST_RIP := r_rip g, GUEST_RSP := r_rsp g, GUEST_RFLAGS := r_rflags g)\<rparr>), guest := None\<rparr>)"

section \<open>The monitor\<close>

definition enable_cr0 :: "'a vmm_scheme \<Rightarrow> 'a vmm_scheme" where
  "enable_cr0 s = s\<lparr>cr0 := cr0 s OR push_bit 5 1\<rparr>"

text \<open>A write to the feature control register faults once it is locked.\<close>

definition msr_lock :: "'a vmm_scheme \<Rightarrow> 'a vmm_scheme res" where
  "msr_lock s =
    (if cr4 s AND 0x2000 \<noteq> 0 then Inl (Panic ''VMXE is already set!'')
     else
       (let old = msr s MSR_IA32_FEATURE_CONTROL in
        bindr
          (if old AND 5 \<noteq> 5
           then (if bit old 0 then Inl (Fault ''wrmsr'') else Inr (s\<lparr>msr := (msr s)(MSR_IA32_FEATURE_CONTROL := old OR 5)\<rparr>))
           else Inr s)
          (\<lambda>s1. Inr (s1\<lparr>cr4 := cr4 s1 OR 0x2000\<rparr>))))"

definition vmxon :: "addr \<Rightarrow> addr \<Rightarrow> 'a vmm_scheme \<Rightarrow> 'a vmm_scheme" where
  "vmxon vmcs_ptr vmxon_ptr s =
    (let rev = ucast (msr s MSR_IA32_VMX_BASIC) :: cint;
         m1 = memset vmcs_ptr 0 4096 (memset vmxon_ptr 0 4096 (mem s));
         m2 = store_le 4 (store_le 4 m1 vmxon_ptr rev) (vmxon_ptr + 4) (0 :: cint);
         m3 = store_le 4 (store_le 4 m2 vmcs_ptr rev) (vmcs_ptr + 4) (0 :: cint)
     in do_vmxon vmxon_ptr (s\<lparr>mem := m3\<rparr>))"

definition vmx_init :: "addr \<Rightarrow> 'a vmm_scheme \<Rightarrow> 'a vmm_scheme res" where
  "vmx_init h s =
    bindr (check_cpu_vmx_features s) (\<lambda>s1.
    bindr (msr_lock (enable_cr0 s1)) (\<lambda>s2.
      let v = vm_info (self s2); s3 = vmxon (vm_vmcs_ptr v) (vm_vmxon_ptr v) s2 in
      bindr (clear_vmcs (vm_vmcs_ptr v) s3) (\<lambda>s4.
      bindr (load_vmcs (vm_vmcs_ptr v) s4) (\<lambda>s5.
      bindr (setup_vmcs h s5) (\<lambda>s6.
        let s7 = vmlaunch s6 in
        if guest s7 = None then Inl (Panic ''We MUST NEVER get here.'') else Inr s7)))))"

text \<open>
  \<open>pm\<close> is what the process manager does to the structure of the processor and to memory while the monitor waits.
  When the entry fails, the function returns with nothing on its stack to return to.  After an exit for any
  other reason the monitor reports it and stays in an endless loop.
\<close>

definition host_entry :: "(cpu_info \<times> memory \<Rightarrow> cpu_info \<times> memory) \<Rightarrow> addr \<Rightarrow> 'a vmm_scheme \<Rightarrow> 'a vmm_scheme res" where
  "host_entry pm h s =
    bindr (vmx_vmread VM_EXIT_REASON s) (\<lambda>reason.
      if reason = 18 then
        (let (c, m) = pm (self s, mem s); s1 = s\<lparr>self := c, mem := m\<rparr> in
         bindr (msg_receive (self s1) 0 PM_ID (mem s1)) (\<lambda>(_, _, m1).
           let s2 = s1\<lparr>mem := m1\<rparr>; v = vm_info (self s2);
               r = load32 m1 (message_data (msg_input (self s2) + MSG_SIZE * PM_ID)) in
           bindr (if r \<noteq> - 1 then clear_vmcs (vm_vmcs_ptr v) s2 else Inr s2) (\<lambda>s3.
           bindr (load_vmcs (vm_vmcs_ptr v) s3) (\<lambda>s4.
           bindr (setup_vmcs h s4) (\<lambda>s5.
             let s6 = (if r = - 1 then vmresume s5 else vmlaunch s5) in
             if guest s6 = None then Inl (Fault ''return from host_entry'') else Inr s6)))))
      else Inl Blocked)"

text \<open>\<open>ebx\<close> is what \<open>cpuid\<close> answers.\<close>

definition check_lapic_id :: "cint \<Rightarrow> 'a vmm_scheme \<Rightarrow> 'a vmm_scheme res" where
  "check_lapic_id ebx s =
    (let i = ucast (drop_bit 24 ebx) :: byte in
     if cpuid (self s) \<noteq> lapic_id (self s) then Inl (Panic ''Cpuid is different from lapic_id'')
     else if i \<noteq> lapic_id (self s) then Inl (Panic ''Real lapic ID is different from the one in cpuinfo'')
     else Inr s)"

text \<open>Waiting for a message of the process manager.\<close>

definition await_pm :: "(cpu_info \<times> memory \<Rightarrow> cpu_info \<times> memory) \<Rightarrow> 'a vmm_scheme \<Rightarrow> 'a vmm_scheme res" where
  "await_pm pm s =
    (let (c, m) = pm (self s, mem s) in
     bindr (msg_receive c 0 PM_ID m) (\<lambda>(_, _, m1). Inr (s\<lparr>self := c, mem := m1\<rparr>)))"

text \<open>\<open>g\<close> and \<open>i\<close> are the places of the two descriptor tables.\<close>

definition vmm_main ::
    "(isr \<Rightarrow> addr) \<Rightarrow> addr \<Rightarrow> addr \<Rightarrow> addr \<Rightarrow> cint \<Rightarrow> (cpu_info \<times> memory \<Rightarrow> cpu_info \<times> memory) \<Rightarrow>
     (cpu_info \<times> memory \<Rightarrow> cpu_info \<times> memory) \<Rightarrow> 'a vmm_scheme \<Rightarrow> 'a vmm_scheme res" where
  "vmm_main handlers g i h ebx pm1 pm2 s =
    (let s1 = s\<lparr>mem := create_default_gdt g (mem s), gdtr := (79, g), vmm_idt := lib_idt_init handlers (vmm_idt s), idtr := (4095, i),
           self := (self s)\<lparr>cpu_ready := 1\<rparr>\<rparr> in
     bindr (if cpuid (self s1) \<noteq> PM_ID then await_pm pm1 s1 else Inr s1) (\<lambda>s2.
     bindr (if \<not> vmm_has_vm (vmm_info (self s2)) then await_pm pm2 s2 else Inr s2) (\<lambda>s3.
     bindr (check_lapic_id ebx s3) (vmx_init h))))"

section \<open>The fields of a guest\<close>

lemma vmwrites_fields:
  assumes "current_vmcs s = Some p"
  shows "vmwrites fvs s = Inr (s\<lparr>vmcss := (vmcss s)(p := (vmcss s p)\<lparr>vmcs_fields :=
    fold (\<lambda>(f, v). put_field f v) fvs (vmcs_fields (vmcss s p))\<rparr>)\<rparr>)"
  using assms by (induction fvs arbitrary: s) (auto simp: vmx_vmwrite_def)

definition setup_writes :: "addr \<Rightarrow> 'a vmm_scheme \<Rightarrow> (addr \<times> addr) list" where
  "setup_writes h s = host_selectors (sels s) @ controls s @ guest_selectors (sels s) @ guest_registers s @ host_registers h 0 s"

definition setup_fields :: "addr \<Rightarrow> 'a vmm_scheme \<Rightarrow> (addr \<Rightarrow> addr) \<Rightarrow> addr \<Rightarrow> addr" where
  "setup_fields h s = fold (\<lambda>(f, v). put_field f v) (setup_writes h s)"

lemma put_field_other: "\<not> bit f 0 \<Longrightarrow> g \<noteq> f \<Longrightarrow> g \<noteq> f + 1 \<Longrightarrow> put_field g v fs f = fs f"
  by (auto simp: put_field_def)

lemma put_fields_other:
  "\<not> bit f 0 \<Longrightarrow> f \<notin> fst ` set fvs \<Longrightarrow> f + 1 \<notin> fst ` set fvs \<Longrightarrow> fold (\<lambda>(f, v). put_field f v) fvs fs f = fs f"
  by (induction fvs arbitrary: fs) (auto simp: put_field_other)

text \<open>A field that is written once, and whose upper half is not, has the value written.\<close>

lemma put_fields_once:
  assumes "\<not> bit f 0" "(f, v) \<in> set fvs" "distinct (map fst fvs)" "f + 1 \<notin> fst ` set fvs"
  shows "fold (\<lambda>(f, v). put_field f v) fvs fs f = take_bit (field_width f) v"
proof -
  obtain xs ys where "fvs = xs @ (f, v) # ys" using split_list [OF assms(2)] by blast
  with assms put_fields_other [of f ys] show ?thesis by (auto simp: put_field_def image_Un)
qed

lemmas setup_writes_defs = setup_writes_def host_selectors_def controls_def guest_selectors_def guest_registers_def
  host_registers_def Let_def

lemma setup_writes_distinct: "distinct (map fst (setup_writes h s))"
proof -
  have "distinct (map unat (map fst (setup_writes h s)))" by (simp add: setup_writes_defs)
  then show ?thesis by (simp only: distinct_map)
qed

lemma setup_writes_odd: "\<forall>g \<in> fst ` set (setup_writes h s). bit g 0 \<longrightarrow> g = VMCS_LINK_POINTER_HIGH \<or> g = TSC_OFFSET_HIGH"
proof -
  have "list_all (\<lambda>n. odd n \<longrightarrow> n = 0x2801 \<or> n = 0x2011) (map unat (map fst (setup_writes h s)))" by (simp add: setup_writes_defs)
  moreover have "bit g 0 = odd (unat g)" for g :: addr using bit_unsigned_iff [where ?'a = nat, of g 0] by (simp add: bit_0)
  ultimately show ?thesis by (auto simp: list_all_iff word_unat_eq_iff)
qed

lemma setup_field:
  assumes "\<not> bit f 0" "(f, v) \<in> set (setup_writes h s)" "f \<noteq> VMCS_LINK_POINTER" "f \<noteq> TSC_OFFSET"
  shows "setup_fields h s fs f = take_bit (field_width f) v"
proof -
  have "bit (f + 1) 0" using assms(1) by (simp add: bit_0 even_plus_one_iff)
  moreover have "f + 1 \<noteq> 0x2801" "f + 1 \<noteq> 0x2011" using assms(3,4) by (auto simp: word_arith_wis [symmetric] dest: arg_cong [where f = "\<lambda>x. x - 1"])
  ultimately have "f + 1 \<notin> fst ` set (setup_writes h s)" using setup_writes_odd [of h s] by blast
  then show ?thesis unfolding setup_fields_def using put_fields_once [OF assms(1,2) setup_writes_distinct] by blast
qed

lemma setup_writes_in:
  "(f, v) \<in> set (controls s) \<Longrightarrow> (f, v) \<in> set (setup_writes h s)"
  "(f, v) \<in> set (guest_registers s) \<Longrightarrow> (f, v) \<in> set (setup_writes h s)"
  "(f, v) \<in> set (host_registers h 0 s) \<Longrightarrow> (f, v) \<in> set (setup_writes h s)"
  by (auto simp: setup_writes_def)

lemma setup_host:
  "setup_fields h s fs GUEST_RIP = r_rip (vm_regs (vm_info (self s)))"
  "setup_fields h s fs GUEST_RSP = r_rsp (vm_regs (vm_info (self s)))"
  "setup_fields h s fs HOST_RSP = r_rsp (vmm_regs (vmm_info (self s)))"
  "setup_fields h s fs HOST_RIP = h"
  "setup_fields h s fs HOST_GDTR_BASE = load64 (mem s) 2"
  "setup_fields h s fs HOST_IDTR_BASE = load64 (mem s) 2"
  by (subst setup_field [OF _ setup_writes_in(3)];
      simp add: host_registers_def field_width_def drop_bit_eq_div take_bit_word_eq_self)+

lemma setup_guest:
  "setup_fields h s fs GUEST_RFLAGS = r_rflags (vm_regs (vm_info (self s)))"
  "setup_fields h s fs GUEST_CR3 = vm_page_tables (vm_info (self s))"
  "setup_fields h s fs EPT_POINTER = (vm_ept (vm_info (self s)) OR 0x1E) AND 0xFFFFFFFFFFFFFFBF"
  by (subst setup_field [OF _ setup_writes_in(2)];
      (simp add: guest_registers_def Let_def)?; simp add: field_width_def drop_bit_eq_div push_bit_eq_mult or.assoc take_bit_word_eq_self)+

lemma setup_controls:
  "setup_fields h s fs PIN_BASED_VM_EXEC_CONTROL = take_bit 32 (control MSR_IA32_VMX_PINBASED_CTLS 0 s)"
  "setup_fields h s fs CPU_BASED_VM_EXEC_CONTROL = take_bit 32 (control MSR_IA32_VMX_PROCBASED_CTLS 0x80000000 s)"
  "setup_fields h s fs SECONDARY_VM_EXEC_CONTROL = take_bit 32 (control MSR_IA32_VMX_PROCBASED_CTLS2 0xA s)"
  "setup_fields h s fs VM_EXIT_CONTROLS = take_bit 32 (control MSR_IA32_VMX_EXIT_CTLS 0x200 s)"
  "setup_fields h s fs VM_ENTRY_CONTROLS = take_bit 32 (control MSR_IA32_VMX_ENTRY_CTLS 0x200 s)"
  by (subst setup_field [OF _ setup_writes_in(1)];
      (simp add: controls_def)?; simp add: field_width_def drop_bit_eq_div push_bit_eq_mult)+

section \<open>The controls the processor allows\<close>

text \<open>The documented form of a capability register: a bit that must be one may be one.\<close>

definition capability :: "cint \<Rightarrow> 'a vmm_scheme \<Rightarrow> bool" where
  "capability r s \<longleftrightarrow> fst (read_msr r s) AND NOT (snd (read_msr r s)) = 0"

definition allowed :: "cint \<Rightarrow> cint \<Rightarrow> 'a vmm_scheme \<Rightarrow> bool" where
  "allowed r c s \<longleftrightarrow> c AND NOT (snd (read_msr r s)) = 0"

lemma and_not_zero_iff: "(a :: 'a::len word) AND NOT b = 0 \<longleftrightarrow> (\<forall>n. bit a n \<longrightarrow> bit b n)"
  by (auto simp: bit_eq_iff bit_simps dest: bit_imp_le_length)

text \<open>
  C24. The negotiation of a control.  \<open>adjust_vmx_controls\<close> succeeds exactly when the processor allows all required
  bits; its result has the required bits, has no bit the processor forbids and every bit the processor demands,
  and of the optional bits those that are allowed.
\<close>

theorem adjust_vmx_controls_negotiates:
  assumes "capability r s"
  shows "((\<exists>c. adjust_vmx_controls ctl_min ctl_opt r s = Some c) \<longleftrightarrow> allowed r ctl_min s) \<and>
    (\<forall>c. adjust_vmx_controls ctl_min ctl_opt r s = Some c \<longrightarrow> control_ok r (ucast c) s \<and> ctl_min AND NOT c = 0 \<and>
      (\<forall>n. bit c n \<longleftrightarrow> bit (fst (read_msr r s)) n \<or> bit (ctl_min OR ctl_opt) n \<and> bit (snd (read_msr r s)) n))"
proof (intro conjI allI impI)
  let ?lo = "fst (read_msr r s)" and ?hi = "snd (read_msr r s)"
  let ?c = "((ctl_min OR ctl_opt) AND ?hi) OR ?lo"
  have b: "bit ?lo n \<Longrightarrow> bit ?hi n" for n using assms by (auto simp: capability_def and_not_zero_iff)
  have a: "adjust_vmx_controls ctl_min ctl_opt r s = (if ctl_min AND NOT ?c \<noteq> 0 then None else Some ?c)"
    by (simp add: adjust_vmx_controls_def case_prod_unfold Let_def)
  have "ctl_min AND NOT ?c = 0 \<longleftrightarrow> allowed r ctl_min s"
    unfolding allowed_def and_not_zero_iff using b by (auto simp: bit_or_iff bit_and_iff)
  then show "(\<exists>c. adjust_vmx_controls ctl_min ctl_opt r s = Some c) \<longleftrightarrow> allowed r ctl_min s" by (simp add: a)
  fix c assume "adjust_vmx_controls ctl_min ctl_opt r s = Some c"
  then have c: "c = ?c" "ctl_min AND NOT c = 0" by (auto simp: a split: if_splits)
  have u: "ucast (ucast c :: addr) = c" by (rule bit_word_eqI) (simp add: bit_unsigned_iff)
  show "control_ok r (ucast c) s" unfolding control_ok_def u and_not_zero_iff using b c by (auto simp: bit_or_iff bit_and_iff)
  show "ctl_min AND NOT c = 0" by (rule c(2))
  show "bit c n \<longleftrightarrow> bit ?lo n \<or> bit (ctl_min OR ctl_opt) n \<and> bit ?hi n" for n unfolding c(1) by (auto simp: bit_or_iff bit_and_iff)
qed

section \<open>The first entry\<close>

text \<open>What the processor must allow for the controls that \<open>setup_vmcs\<close> writes.\<close>

definition monitor_cpu :: "'a vmm_scheme \<Rightarrow> bool" where
  "monitor_cpu s \<longleftrightarrow>
    capability MSR_IA32_VMX_PINBASED_CTLS s \<and>
    capability MSR_IA32_VMX_PROCBASED_CTLS s \<and> allowed MSR_IA32_VMX_PROCBASED_CTLS CPU_BASED_ACTIVATE_SECONDARY_CONTROLS s \<and>
    capability MSR_IA32_VMX_PROCBASED_CTLS2 s \<and> allowed MSR_IA32_VMX_PROCBASED_CTLS2 (SECONDARY_EXEC_ENABLE_EPT OR SECONDARY_EXEC_RDTSCP) s \<and>
    capability MSR_IA32_VMX_EXIT_CTLS s \<and> allowed MSR_IA32_VMX_EXIT_CTLS VM_EXIT_HOST_ADDR_SPACE_SIZE s \<and>
    capability MSR_IA32_VMX_ENTRY_CTLS s \<and> allowed MSR_IA32_VMX_ENTRY_CTLS 0x200 s"

lemma control_low: "ucast (take_bit 32 (control r b s)) = fst (read_msr r s) OR b"
  by (rule bit_word_eqI) (auto simp: control_def read_msr_def bit_simps)

lemma control_ok_iff: "control_ok r (take_bit 32 (control r b s)) s \<longleftrightarrow> capability r s \<and> allowed r b s"
  unfolding control_ok_def control_low capability_def allowed_def and_not_zero_iff by (auto simp: bit_or_iff)

lemma controls_ok_setup: "controls_ok (setup_fields h s fs) s \<longleftrightarrow> monitor_cpu s"
proof -
  have "bit (take_bit 32 (control r 0x80000000 s)) 31" for r
    by (simp add: control_def bit_simps)
  moreover have "allowed r 0 s" for r by (simp add: allowed_def)
  ultimately show ?thesis unfolding controls_ok_def monitor_cpu_def setup_controls control_ok_iff by simp
qed

lemma read_msr_cong: "msr s' r = msr s r \<Longrightarrow> read_msr r s' = read_msr r s"
  by (simp add: read_msr_def)

lemma monitor_cpu_cong: "(\<And>r. r \<noteq> MSR_IA32_FEATURE_CONTROL \<Longrightarrow> msr s' r = msr s r) \<Longrightarrow> monitor_cpu s' = monitor_cpu s"
  by (simp add: monitor_cpu_def capability_def allowed_def read_msr_def)

lemma controls_ok_cong: "msr s' = msr s \<Longrightarrow> controls_ok fs s' = controls_ok fs s"
  by (simp add: controls_ok_def control_ok_def read_msr_def)

text \<open>The state behind \<open>setup_vmcs\<close>, and that of the guest after an entry.\<close>

definition dtr_stored :: "'a vmm_scheme \<Rightarrow> 'a vmm_scheme" where
  "dtr_stored s = s\<lparr>mem := store_dtr (idtr s) 0 (store_dtr (gdtr s) 0 (mem s))\<rparr>"

definition guest_regs :: "cpu_info \<Rightarrow> regs" where
  "guest_regs c = (vm_regs (vm_info c))\<lparr>r_cr3 := vm_page_tables (vm_info c)\<rparr>"

definition setup_done :: "addr \<Rightarrow> addr \<Rightarrow> 'a vmm_scheme \<Rightarrow> 'a vmm_scheme" where
  "setup_done h p s = (dtr_stored s)\<lparr>vmcss := (vmcss s)(p := (vmcss s p)\<lparr>vmcs_fields :=
     setup_fields h (dtr_stored s) (vmcs_fields (vmcss s p))\<rparr>)\<rparr>"

lemma dtr_stored_simps [simp]:
  "self (dtr_stored s) = self s" "msr (dtr_stored s) = msr s" "vmcss (dtr_stored s) = vmcss s" "idtr (dtr_stored s) = idtr s"
  "current_vmcs (dtr_stored s) = current_vmcs s" "vmxon_region (dtr_stored s) = vmxon_region s" "guest (dtr_stored s) = guest s"
  by (simp_all add: dtr_stored_def)

lemma setup_done_simps [simp]:
  "self (setup_done h p s) = self s" "msr (setup_done h p s) = msr s" "mem (setup_done h p s) = mem (dtr_stored s)"
  "current_vmcs (setup_done h p s) = current_vmcs s" "vmxon_region (setup_done h p s) = vmxon_region s"
  "guest (setup_done h p s) = guest s" "launched (vmcss (setup_done h p s) p) = launched (vmcss s p)"
  "vmcs_fields (vmcss (setup_done h p s) p) = setup_fields h (dtr_stored s) (vmcs_fields (vmcss s p))"
  by (simp_all add: setup_done_def)

lemma setup_vmcs_done: "current_vmcs s = Some p \<Longrightarrow> setup_vmcs h s = Inr (setup_done h p s)"
  unfolding setup_vmcs_def Let_def dtr_stored_def [symmetric]
  using vmwrites_fields [of "dtr_stored s" p "setup_writes h (dtr_stored s)"]
  by (simp add: setup_writes_def [symmetric] setup_fields_def setup_done_def)

lemma vm_enter_done:
  assumes "current_vmcs s = Some p" "launched (vmcss s p) = w"
  shows "vm_enter w (setup_done h p s) =
    (if monitor_cpu s
     then (setup_done h p s)\<lparr>vmcss := (vmcss (setup_done h p s))(p := (vmcss (setup_done h p s) p)\<lparr>launched := True\<rparr>),
       guest := Some (guest_regs (self s))\<rparr>
     else setup_done h p s)"
proof -
  have c: "controls_ok (setup_fields h (dtr_stored s) fs) (setup_done h p s) = monitor_cpu s" for fs
    using controls_ok_setup [of h "dtr_stored s" fs] controls_ok_cong [of "setup_done h p s" "dtr_stored s"]
      monitor_cpu_cong [of "dtr_stored s" s]
    by simp
  show ?thesis using assms by (simp add: vm_enter_def Let_def c setup_host setup_guest guest_regs_def)
qed

lemma page_aligned_dvd: "page_aligned p \<longleftrightarrow> 4096 dvd unat p"
  using aligned_iff_dvd [of p 12] by (simp add: page_aligned_def mask_eq_exp_minus_1)

lemma page_aligned_room:
  assumes "page_aligned p"
  shows "unat p + 4096 \<le> 2 ^ 64"
proof -
  obtain k where k: "unat p = 4096 * k" using assms by (auto simp: page_aligned_dvd)
  have "4096 * k < 18446744073709551616" unfolding k [symmetric] by simp
  then show ?thesis by (simp add: k)
qed

lemma page_aligned_disjoint: "page_aligned p \<Longrightarrow> page_aligned q \<Longrightarrow> p \<noteq> q \<Longrightarrow> disjoint_regions p 4096 q 4096"
  using page_aligned_room [of p] page_aligned_room [of q]
  by (intro disjoint_regionsI) (auto simp: page_aligned_dvd word_unat_eq_iff elim!: dvdE)

text \<open>The two descriptor registers land in the first page, one on top of the other.\<close>

lemma store_dtr_outside: "\<not> in_region p 10 x \<Longrightarrow> store_dtr d p m x = m x"
  by (simp add: store_dtr_def store_le_outside [of p 10 x 2 8] store_le_outside0 [of p 10 x 2])

lemma dtr_stored_page:
  assumes "page_aligned p" "p \<noteq> 0"
  shows "load32 (mem (dtr_stored s)) p = load32 (mem s) p"
proof (rule load_cong)
  fix x assume "in_region p 4 x"
  moreover have "disjoint_regions p 4096 0 4096" using page_aligned_disjoint [OF assms(1) _ assms(2)] by (simp add: page_aligned_def)
  ultimately have "\<not> in_region 0 4096 x" using disjoint_regionsD in_region_mono [of p 4 x 4096] by auto
  then have "\<not> in_region 0 10 x" using in_region_mono [of 0 10 x 4096] by auto
  then show "mem (dtr_stored s) x = mem s x" by (simp add: dtr_stored_def store_dtr_outside)
qed simp

lemma dtr_stored_base: "load64 (mem (dtr_stored s)) 2 = snd (idtr s)"
  by (simp add: dtr_stored_def store_dtr_def load_store_same)

text \<open>
  C39. After an exit the monitor runs with the interrupt descriptor table as its global descriptor table: \<open>setup_vmcs\<close>
  stores both descriptor registers through null pointers, in the same ten bytes, and the second overwrites the first.
\<close>

theorem setup_vmcs_host_tables:
  assumes "current_vmcs s = Some p"
  shows "\<exists>s'. setup_vmcs h s = Inr s' \<and> vmcs_fields (vmcss s' p) HOST_GDTR_BASE = snd (idtr s) \<and>
    vmcs_fields (vmcss s' p) HOST_IDTR_BASE = snd (idtr s)"
  using setup_vmcs_done [OF assms, of h] by (simp add: setup_done_def setup_host dtr_stored_base)

text \<open>The regions of the two pointers have the revision after \<open>vmxon\<close>.\<close>

lemma vmxon_revision:
  fixes s :: "'a vmm_scheme"
  assumes "page_aligned p" "page_aligned q" "p \<noteq> q"
  defines "m \<equiv> mem (vmxon p q s)"
  shows "load32 m p = ucast (msr s MSR_IA32_VMX_BASIC)" "load32 m q = ucast (msr s MSR_IA32_VMX_BASIC)"
proof -
  let ?r = "ucast (msr s MSR_IA32_VMX_BASIC) :: cint" and ?m1 = "memset p 0 4096 (memset q 0 4096 (mem s))"
  let ?m2 = "store_le 4 (store_le 4 ?m1 q ?r) (q + 4) (0 :: cint)"
  have m: "m = store_le 4 (store_le 4 ?m2 p ?r) (p + 4) (0 :: cint)"
    by (simp add: m_def vmxon_def do_vmxon_def Let_def)
  have 4: "load32 (store_le 4 n (a + 4) (0 :: cint)) a = load32 n a" for n a
    by (rule load_store_0sep) (simp_all add: sep_off_def)
  show "load32 m p = ?r" unfolding m 4 by (rule load_store_same) simp_all
  have "load32 m q = load32 ?m2 q"
  proof (rule load_cong)
    fix x assume "in_region q 4 x"
    then have "\<not> in_region p 4096 x"
      using disjoint_regionsD [OF page_aligned_disjoint [OF assms(2,1)]] in_region_mono [of q 4 x 4096] assms(3) by auto
    then show "m x = ?m2 x" unfolding m
      by (simp add: store_le_outside [of p 4096 x 4 4] store_le_outside0 [of p 4096 x 4])
  qed simp
  then show "load32 m q = ?r" unfolding 4 by (simp add: load_store_same)
qed

lemma store_config_frame: "store_vmcs_config pin cpu cpu2 vx ve s = Some s' \<Longrightarrow> \<exists>c v. s' = s\<lparr>vmcs_conf := c, vmx_cap := v\<rparr>"
  by (auto simp: store_vmcs_config_def Let_def case_prod_unfold split: if_splits)

lemma bind_SomeE: "Option.bind m f = Some y \<Longrightarrow> (\<And>x. m = Some x \<Longrightarrow> f x = Some y \<Longrightarrow> thesis) \<Longrightarrow> thesis"
  by (cases m) auto

lemma setup_config_frame:
  assumes "setup_vmcs_config s = Some s'"
  shows "\<exists>c v. s' = s\<lparr>vmcs_conf := c, vmx_cap := v\<rparr>"
proof -
  obtain pin cpu cpu2 vx ve b cap where
    "store_vmcs_config pin cpu cpu2 vx ve (if b then s\<lparr>vmx_cap := cap\<rparr> else s) = Some s'"
    using assms unfolding setup_vmcs_config_def Let_def by (elim bind_SomeE) (rule that, assumption)
  from store_config_frame [OF this] show ?thesis by (auto split: if_splits)
qed

lemma check_features_frame: "check_cpu_vmx_features s = Inr s1 \<Longrightarrow> \<exists>c v. s1 = s\<lparr>vmcs_conf := c, vmx_cap := v\<rparr>"
  by (auto simp: check_cpu_vmx_features_def dest: setup_config_frame split: option.splits if_splits)

lemma msr_lock_frame:
  assumes "cr4 s AND 0x2000 = 0" "bit (msr s MSR_IA32_FEATURE_CONTROL) 0 \<Longrightarrow> msr s MSR_IA32_FEATURE_CONTROL AND 5 = 5"
  obtains f where "msr_lock s = Inr (s\<lparr>msr := (msr s)(MSR_IA32_FEATURE_CONTROL := f), cr4 := cr4 s OR 0x2000\<rparr>)" "f AND 5 = 5"
proof
  let ?o = "msr s MSR_IA32_FEATURE_CONTROL"
  show "(?o OR 5) AND 5 = 5" by (rule bit_word_eqI) (auto simp: bit_simps)
  have "?o OR (?o AND 5) = ?o" by (rule bit_word_eqI) (auto simp: bit_simps)
  then have "?o OR 5 = ?o" if "?o AND 5 = 5" using that by simp
  then show "msr_lock s = Inr (s\<lparr>msr := (msr s)(MSR_IA32_FEATURE_CONTROL := ?o OR 5), cr4 := cr4 s OR 0x2000\<rparr>)"
    using assms by (auto simp: msr_lock_def Let_def)
qed

text \<open>VMXON, VMCLEAR and VMPTRLD on the two pages of the processor.\<close>

lemma vmxon_clear_load:
  assumes "page_aligned p" "page_aligned q" "p \<noteq> q" "bit (cr4 s) 13" "msr s MSR_IA32_FEATURE_CONTROL AND 5 = 5"
    and "msr s MSR_IA32_VMX_CR0_FIXED0 AND NOT (cr0 s) = 0" "msr s MSR_IA32_VMX_CR4_FIXED0 AND NOT (cr4 s) = 0"
  obtains m vs where "bindr (clear_vmcs p (vmxon p q s)) (load_vmcs p) =
      Inr (s\<lparr>mem := m, vmxon_region := Some q, vmcss := vs, current_vmcs := Some p\<rparr>)" "\<not> launched (vs p)"
    "load32 m p = ucast (msr s MSR_IA32_VMX_BASIC)"
proof -
  obtain m where m: "vmxon p q s = do_vmxon q (s\<lparr>mem := m\<rparr>)" by (simp add: vmxon_def Let_def)
  have "mem (vmxon p q s) = m" unfolding m by (simp add: do_vmxon_def)
  with vmxon_revision [OF assms(1-3), of s] have r: "load32 m p = ucast (msr s MSR_IA32_VMX_BASIC)"
    "load32 m q = ucast (msr s MSR_IA32_VMX_BASIC)" by simp_all
  have "vmxon p q s = s\<lparr>mem := m, vmxon_region := Some q\<rparr>" unfolding m do_vmxon_def using r(2) assms(2,4-7) by simp
  then have "bindr (clear_vmcs p (vmxon p q s)) (load_vmcs p) =
      Inr (s\<lparr>mem := m, vmxon_region := Some q, vmcss := (vmcss s)(p := (vmcss s p)\<lparr>launched := False\<rparr>), current_vmcs := Some p\<rparr>)"
    using assms(1,3) r(1) by (simp add: clear_vmcs_def load_vmcs_def)
  from that [OF this _ r(1)] show thesis by simp
qed

lemma vmx_init_enters:
  assumes "check_cpu_vmx_features s = Inr s1" "monitor_cpu s" "cr4 s AND 0x2000 = 0"
    and "bit (msr s MSR_IA32_FEATURE_CONTROL) 0 \<Longrightarrow> msr s MSR_IA32_FEATURE_CONTROL AND 5 = 5"
    and "msr s MSR_IA32_VMX_CR0_FIXED0 AND NOT (cr0 s OR 0x20) = 0" "msr s MSR_IA32_VMX_CR4_FIXED0 AND NOT (cr4 s OR 0x2000) = 0"
    and p: "p = vm_vmcs_ptr (vm_info (self s))" "page_aligned p"
    and q: "q = vm_vmxon_ptr (vm_info (self s))" "page_aligned q" "p \<noteq> q"
  shows "\<exists>s'. vmx_init h s = Inr s' \<and> guest s' = Some (guest_regs (self s)) \<and> current_vmcs s' = Some p \<and>
    vmcs_fields (vmcss s' p) EPT_POINTER = (vm_ept (vm_info (self s)) OR 0x1E) AND 0xFFFFFFFFFFFFFFBF \<and>
    vmcs_fields (vmcss s' p) HOST_RIP = h \<and> vmcs_fields (vmcss s' p) HOST_RSP = r_rsp (vmm_regs (vmm_info (self s)))"
proof -
  obtain cf cap where s1: "s1 = s\<lparr>vmcs_conf := cf, vmx_cap := cap\<rparr>" using check_features_frame [OF assms(1)] by blast
  obtain f where f: "msr_lock (enable_cr0 s1) = Inr ((enable_cr0 s1)\<lparr>msr := (msr s)(MSR_IA32_FEATURE_CONTROL := f), cr4 := cr4 s OR 0x2000\<rparr>)"
    "f AND 5 = 5"
    using msr_lock_frame [of "enable_cr0 s1"] assms(3,4) by (auto simp: s1 enable_cr0_def)
  define s2 where "s2 = (enable_cr0 s1)\<lparr>msr := (msr s)(MSR_IA32_FEATURE_CONTROL := f), cr4 := cr4 s OR 0x2000\<rparr>"
  have e: "self s2 = self s" "cr4 s2 = cr4 s OR 0x2000" "cr0 s2 = cr0 s OR 0x20" "msr s2 = (msr s)(MSR_IA32_FEATURE_CONTROL := f)"
    by (simp_all add: s2_def s1 enable_cr0_def)
  have r: "bit (cr4 s2) 13" "msr s2 MSR_IA32_FEATURE_CONTROL AND 5 = 5" "msr s2 MSR_IA32_VMX_CR0_FIXED0 AND NOT (cr0 s2) = 0"
    "msr s2 MSR_IA32_VMX_CR4_FIXED0 AND NOT (cr4 s2) = 0"
    using assms(5,6) f(2) by (simp_all only: e) (simp_all add: bit_simps)
  obtain m vs where s5: "bindr (clear_vmcs p (vmxon p q s2)) (load_vmcs p) =
      Inr (s2\<lparr>mem := m, vmxon_region := Some q, vmcss := vs, current_vmcs := Some p\<rparr>)" "\<not> launched (vs p)"
    by (rule vmxon_clear_load [OF p(2) q(2,3) r])
  define s5 where "s5 = s2\<lparr>mem := m, vmxon_region := Some q, vmcss := vs, current_vmcs := Some p\<rparr>"
  have cpu: "monitor_cpu s5" using assms(2) monitor_cpu_cong [of s5 s] by (simp add: s5_def e)
  have c: "current_vmcs s5 = Some p" "launched (vmcss s5 p) = False" "self s5 = self s" using s5(2) by (simp_all add: s5_def e)
  have "vmx_init h s = bindr (bindr (clear_vmcs p (vmxon p q s2)) (load_vmcs p)) (\<lambda>s5. bindr (setup_vmcs h s5) (\<lambda>s6.
      let s7 = vmlaunch s6 in if guest s7 = None then Inl (Panic ''We MUST NEVER get here.'') else Inr s7))"
    using f(1) by (simp add: vmx_init_def assms(1) s2_def [symmetric] e p(1) q(1) Let_def bindr_assoc)
  also have "\<dots> = Inr (vmlaunch (setup_done h p s5))"
    unfolding s5(1) s5_def [symmetric] using setup_vmcs_done [OF c(1)] cpu
    by (simp add: vmlaunch_def vm_enter_done [OF c(1,2)] Let_def)
  finally show ?thesis
    using cpu c by (simp add: vmlaunch_def vm_enter_done [OF c(1,2)] setup_host setup_guest)
qed

section \<open>Every later entry\<close>

text \<open>The guest runs on the current VMCS, which has been launched, with the registers of the processor's structure.\<close>

definition in_guest :: "'a vmm_scheme \<Rightarrow> bool" where
  "in_guest s \<longleftrightarrow>
    (let p = vm_vmcs_ptr (vm_info (self s)) in
     page_aligned p \<and> p \<noteq> 0 \<and> vmxon_region s \<noteq> None \<and> vmxon_region s \<noteq> Some p \<and> current_vmcs s = Some p \<and>
     launched (vmcss s p) \<and> load32 (mem s) p = ucast (msr s MSR_IA32_VMX_BASIC) \<and> monitor_cpu s \<and>
     guest s = Some (guest_regs (self s)))"

text \<open>
  What the process manager may do while the monitor waits: it leaves the pointer to the VMCS and the VMCS alone,
  and the message box is not in the VMCS.
\<close>

definition leaves_vmcs :: "addr \<Rightarrow> (cpu_info \<times> memory \<Rightarrow> cpu_info \<times> memory) \<Rightarrow> bool" where
  "leaves_vmcs p pm \<longleftrightarrow> (\<forall>c m. vm_vmcs_ptr (vm_info c) = p \<longrightarrow> vm_vmcs_ptr (vm_info (fst (pm (c, m)))) = p \<and>
     disjoint_regions p 4 (msg_input (fst (pm (c, m))) + 8) 8 \<and> (\<forall>x. in_region p 4 x \<longrightarrow> snd (pm (c, m)) x = m x))"

text \<open>The runs of a monitor: its start, and a stop of the guest with what the monitor makes of it.\<close>

inductive monitor_run :: "addr \<Rightarrow> 'a vmm_scheme \<Rightarrow> 'a vmm_scheme \<Rightarrow> bool" for h s0 where
  start: "vmx_init h s0 = Inr s \<Longrightarrow> monitor_run h s0 s"
| again: "monitor_run h s0 s \<Longrightarrow> leaves_vmcs (vm_vmcs_ptr (vm_info (self s0))) pm \<Longrightarrow>
    host_entry pm h (vm_exit 18 g s) = Inr s' \<Longrightarrow> monitor_run h s0 s'"

lemma entered_guest:
  assumes "current_vmcs s = Some p" "p = vm_vmcs_ptr (vm_info (self s))" "page_aligned p" "p \<noteq> 0" "vmxon_region s \<noteq> None"
    "vmxon_region s \<noteq> Some p" "load32 (mem s) p = ucast (msr s MSR_IA32_VMX_BASIC)" "monitor_cpu s" "launched (vmcss s p) = w"
  shows "in_guest (vm_enter w (setup_done h p s))"
proof -
  have "monitor_cpu t = monitor_cpu s" if "msr t = msr s" for t :: "'a vmm_scheme" using that by (intro monitor_cpu_cong) simp
  then show ?thesis unfolding vm_enter_done [OF assms(1,9)] using assms dtr_stored_page [OF assms(3,4), of s]
    by (simp add: in_guest_def Let_def)
qed

lemma vmx_init_in_guest:
  assumes "vmx_init h s0 = Inr s" "guest s0 = None" "vm_vmcs_ptr (vm_info (self s0)) \<noteq> 0"
  shows "in_guest s \<and> self s = self s0"
proof -
  define p q where "p = vm_vmcs_ptr (vm_info (self s0))" and "q = vm_vmxon_ptr (vm_info (self s0))"
  obtain s1 s2 s4 s5 where s: "check_cpu_vmx_features s0 = Inr s1" "msr_lock (enable_cr0 s1) = Inr s2"
    "clear_vmcs (vm_vmcs_ptr (vm_info (self s2))) (vmxon (vm_vmcs_ptr (vm_info (self s2))) (vm_vmxon_ptr (vm_info (self s2))) s2) = Inr s4"
    "load_vmcs (vm_vmcs_ptr (vm_info (self s2))) s4 = Inr s5"
    "bindr (setup_vmcs h s5) (\<lambda>s6. let s7 = vmlaunch s6 in
       if guest s7 = None then Inl (Panic ''We MUST NEVER get here.'') else Inr s7) = Inr s"
    using assms(1) by (auto simp: vmx_init_def Let_def)
  have e: "self s2 = self s0" "guest s2 = None"
    using s(1,2) assms(2) by (auto simp: msr_lock_def enable_cr0_def Let_def dest!: check_features_frame split: if_splits)
  note s' = s(3,4) [unfolded e, folded p_def q_def]
  have v: "self (vmxon p q s2) = self s0" "guest (vmxon p q s2) = None" by (simp_all add: vmxon_def do_vmxon_def Let_def e)
  have s5: "page_aligned p" "vmxon_region s5 \<noteq> None" "vmxon_region s5 \<noteq> Some p" "current_vmcs s5 = Some p"
    "launched (vmcss s5 p) = False" "load32 (mem s5) p = ucast (msr s5 MSR_IA32_VMX_BASIC)" "self s5 = self s0" "guest s5 = None"
    using s' by (auto simp: clear_vmcs_def load_vmcs_def v split: option.splits if_splits)
  have g: "guest (setup_done h p s5) = None" using s5(8) by simp
  then have "s = vm_enter False (setup_done h p s5)" "monitor_cpu s5"
    using s(5) setup_vmcs_done [OF s5(4), of h] vm_enter_done [OF s5(4,5), of h] by (auto simp: vmlaunch_def Let_def split: if_splits)
  then show ?thesis using entered_guest [OF s5(4) _ s5(1) _ s5(2,3,6) _ s5(5), of h] assms(3) s5(7) vm_enter_done [OF s5(4,5), of h]
    by (simp add: p_def)
qed

text \<open>From the message on: the VMCS is cleared or not, loaded, set up and entered.\<close>

definition reenter :: "addr \<Rightarrow> bool \<Rightarrow> 'a vmm_scheme \<Rightarrow> 'a vmm_scheme res" where
  "reenter h resume s =
    (let p = vm_vmcs_ptr (vm_info (self s)) in
     bindr (if \<not> resume then clear_vmcs p s else Inr s) (\<lambda>s3.
     bindr (load_vmcs p s3) (\<lambda>s4.
     bindr (setup_vmcs h s4) (\<lambda>s5.
       let s6 = vm_enter resume s5 in if guest s6 = None then Inl (Fault ''return from host_entry'') else Inr s6))))"

lemma reenter_in_guest:
  assumes "p = vm_vmcs_ptr (vm_info (self s))" "page_aligned p" "p \<noteq> 0" "vmxon_region s = Some q" "q \<noteq> p" "current_vmcs s = Some p"
    "launched (vmcss s p)" "load32 (mem s) p = ucast (msr s MSR_IA32_VMX_BASIC)" "monitor_cpu s"
  shows "\<exists>s'. reenter h resume s = Inr s' \<and> in_guest s' \<and> self s' = self s"
proof -
  define vs where "vs = (if resume then vmcss s else (vmcss s)(p := (vmcss s p)\<lparr>launched := False\<rparr>))"
  define s4 where "s4 = s\<lparr>vmcss := vs, current_vmcs := Some p\<rparr>"
  have l: "bindr (if \<not> resume then clear_vmcs p s else Inr s) (load_vmcs p) = Inr s4"
    using assms by (auto simp: clear_vmcs_def load_vmcs_def s4_def vs_def)
  have c: "current_vmcs s4 = Some p" "launched (vmcss s4 p) = resume" using assms(7) by (auto simp: s4_def vs_def)
  have "monitor_cpu s4" using assms(9) monitor_cpu_cong [of s4 s] by (simp add: s4_def)
  then have g: "in_guest (vm_enter resume (setup_done h p s4))" "self (vm_enter resume (setup_done h p s4)) = self s"
    using entered_guest [OF c(1) _ assms(2,3) _ _ _ _ c(2), of h] assms vm_enter_done [OF c, of h] by (simp_all add: s4_def)
  have "reenter h resume s = bindr (bindr (if \<not> resume then clear_vmcs p s else Inr s) (load_vmcs p)) (\<lambda>s4. bindr (setup_vmcs h s4) (\<lambda>s5.
      let s6 = vm_enter resume s5 in if guest s6 = None then Inl (Fault ''return from host_entry'') else Inr s6))"
    by (simp add: reenter_def assms(1) bindr_assoc Let_def)
  also have "\<dots> = Inr (vm_enter resume (setup_done h p s4))"
    unfolding l using setup_vmcs_done [OF c(1), of h] g(1) by (auto simp: in_guest_def Let_def)
  finally show ?thesis using g by blast
qed

lemma host_entry_reenters:
  assumes "in_guest s" "p = vm_vmcs_ptr (vm_info (self s))" "leaves_vmcs p pm"
  shows "host_entry pm h (vm_exit 18 g s) = Inl Blocked \<or>
    (\<exists>s'. host_entry pm h (vm_exit 18 g s) = Inr s' \<and> in_guest s' \<and> self s' = fst (pm (self s, mem s)))"
proof -
  obtain c m where cm: "pm (self s, mem s) = (c, m)" by fastforce
  let ?b = "msg_input c + 8" and ?m1 = "store64 m (msg_input c + 8) 0"
  obtain q where i: "page_aligned p" "p \<noteq> 0" "vmxon_region s = Some q" "q \<noteq> p" "current_vmcs s = Some p" "launched (vmcss s p)"
    "load32 (mem s) p = ucast (msr s MSR_IA32_VMX_BASIC)" "monitor_cpu s"
    using assms(1,2) by (auto simp: in_guest_def Let_def)
  have k: "vm_vmcs_ptr (vm_info c) = p" "disjoint_regions p 4 ?b 8" "\<And>x. in_region p 4 x \<Longrightarrow> m x = mem s x"
    using assms(2,3) cm unfolding leaves_vmcs_def by (metis fst_conv snd_conv)+
  have "load32 ?m1 p = load32 m p" by (rule load_store_other [OF k(2)]) simp_all
  also have "\<dots> = load32 (mem s) p" by (rule load_cong) (simp_all add: k(3))
  finally have r: "load32 ?m1 p = ucast (msr s MSR_IA32_VMX_BASIC)" using i(7) by simp
  let ?x = "vm_exit 18 g s" and ?r = "load32 ?m1 (message_data (msg_input c + MSG_SIZE * PM_ID)) = (- 1 :: cint)"
  let ?s2 = "?x\<lparr>self := c, mem := ?m1\<rparr>"
  have x: "vmx_vmread VM_EXIT_REASON ?x = Inr 18" "self ?x = self s" "mem ?x = mem s" using i(5) by (simp_all add: vm_exit_def vmx_vmread_def)
  have "vmxon_region ?x = vmxon_region s" "current_vmcs ?x = Some p" "launched (vmcss ?x p)" "msr ?x = msr s"
    using i(5,6) by (simp_all add: vm_exit_def)
  then have "\<exists>s'. reenter h ?r ?s2 = Inr s' \<and> in_guest s' \<and> self s' = c"
    using reenter_in_guest [of p ?s2 q h ?r] k(1) i r monitor_cpu_cong [of ?s2 s] by simp
  moreover have "host_entry pm h ?x = (if load64 m ?b = 0 then Inl Blocked else reenter h ?r ?s2)"
    by (cases ?r) (simp_all add: host_entry_def x cm msg_receive_def Let_def reenter_def vmresume_def vmlaunch_def cong: if_cong)
  ultimately show ?thesis by (simp add: cm)
qed

lemma monitor_run_in_guest:
  assumes "monitor_run h s0 s" "guest s0 = None" "vm_vmcs_ptr (vm_info (self s0)) \<noteq> 0"
  shows "in_guest s \<and> vm_vmcs_ptr (vm_info (self s)) = vm_vmcs_ptr (vm_info (self s0))"
  using assms
proof (induction rule: monitor_run.induct)
  case (start s)
  then show ?case using vmx_init_in_guest by metis
next
  case (again s pm g s')
  with host_entry_reenters [of s _ pm h g] have "in_guest s'" "self s' = fst (pm (self s, mem s))" by auto
  with again show ?case by (simp add: leaves_vmcs_def)
qed


section \<open>A machine\<close>

definition demo_msr :: "cint \<Rightarrow> addr" where
  "demo_msr = (\<lambda>_. 0)(MSR_IA32_FEATURE_CONTROL := 5, MSR_IA32_VMX_BASIC := 0x0018040000000010,
     MSR_IA32_VMX_PINBASED_CTLS := 0x0000007F00000016, MSR_IA32_VMX_PROCBASED_CTLS := 0xFFF9FFFE0401E172,
     MSR_IA32_VMX_EXIT_CTLS := 0x007FFFFF00036DFF, MSR_IA32_VMX_ENTRY_CTLS := 0x0000FFFF000011FF,
     MSR_IA32_VMX_CR0_FIXED0 := 0x80000021, MSR_IA32_VMX_CR4_FIXED0 := 0x2000,
     MSR_IA32_VMX_PROCBASED_CTLS2 := 0x000000FF00000000, MSR_IA32_VMX_EPT_VPID_CAP := 0x0000020004000000)"

definition demo_cpu :: cpu_info where
  "demo_cpu = zero_cpu\<lparr>msg_input := 0x400000, vm_info := zero_vm\<lparr>vm_vmcs_ptr := 0x5000, vm_vmxon_ptr := 0x6000, vm_ept := 0x7000,
     vm_regs := zero_regs\<lparr>r_rip := 0x1000000, r_rsp := 0x1200000, r_rflags := 2\<rparr>\<rparr>\<rparr>"

definition demo_vmm :: vmm where
  "demo_vmm = \<lparr>mem = (\<lambda>_. 0), self = demo_cpu, msr = demo_msr, cr0 = 0x80000011, cr3 = 0x8000, cr4 = 0x20,
     sels = \<lparr>sel_es = 0x20, sel_cs = 0x10, sel_ss = 0x20, sel_ds = 0x20, sel_fs = 0x20, sel_gs = 0x20, sel_ldt = 0\<rparr>,
     gdtr = (79, 0x9000), idtr = (4095, 0xA000), vmm_idt = [],
     vmcs_conf = \<lparr>vmcs_size = 0, revision_id = 0, pin_based_exec_ctrl = 0, cpu_based_exec_ctrl = 0, cpu_based_2nd_exec_ctrl = 0,
       vmexit_ctrl = 0, vmentry_ctrl = 0\<rparr>,
     vmx_cap = \<lparr>cap_ept = 0, cap_vpid = 0, has_load_efer = False\<rparr>,
     vmxon_region = None, current_vmcs = None, vmcss = (\<lambda>_. \<lparr>launched = False, vmcs_fields = (\<lambda>_. 0)\<rparr>), guest = None\<rparr>"

lemma demo_vmm_simps:
  "msr demo_vmm = demo_msr" "self demo_vmm = demo_cpu" "cr0 demo_vmm = 0x80000011" "cr4 demo_vmm = 0x20" "guest demo_vmm = None"
  "vm_vmcs_ptr (vm_info demo_cpu) = 0x5000" "vm_vmxon_ptr (vm_info demo_cpu) = 0x6000"
  by (simp_all add: demo_vmm_def demo_cpu_def)

lemma demo_read_msr:
  "read_msr MSR_IA32_VMX_PINBASED_CTLS demo_vmm = (0x16, 0x7F)" "read_msr MSR_IA32_VMX_PROCBASED_CTLS demo_vmm = (0x0401E172, 0xFFF9FFFE)"
  "read_msr MSR_IA32_VMX_EXIT_CTLS demo_vmm = (0x36DFF, 0x7FFFFF)" "read_msr MSR_IA32_VMX_ENTRY_CTLS demo_vmm = (0x11FF, 0xFFFF)"
  "read_msr MSR_IA32_VMX_PROCBASED_CTLS2 demo_vmm = (0, 0xFF)" "read_msr MSR_IA32_VMX_EPT_VPID_CAP demo_vmm = (0x4000000, 0x200)"
  "read_msr MSR_IA32_VMX_BASIC demo_vmm = (0x10, 0x180400)"
  by (simp_all add: read_msr_def demo_vmm_simps demo_msr_def drop_bit_eq_div)

lemma demo_monitor_cpu: "monitor_cpu demo_vmm"
  by (simp add: monitor_cpu_def capability_def allowed_def demo_read_msr)

lemma demo_adjust:
  "adjust_vmx_controls 0x9 0x20 MSR_IA32_VMX_PINBASED_CTLS demo_vmm = Some 0x3F"
  "adjust_vmx_controls cpu_min cpu_opt MSR_IA32_VMX_PROCBASED_CTLS demo_vmm = Some 0xB4B9E7FA"
  "adjust_vmx_controls 0 cpu2_opt MSR_IA32_VMX_PROCBASED_CTLS2 demo_vmm = Some 0x6A"
  by (simp_all add: adjust_vmx_controls_def demo_read_msr cpu_min_def cpu_opt_def cpu2_opt_def)

lemma demo_features: "\<exists>s1. check_cpu_vmx_features demo_vmm = Inr s1"
proof -
  let ?s = "demo_vmm\<lparr>vmx_cap := (vmx_cap demo_vmm)\<lparr>cap_ept := 0x4000000, cap_vpid := 0x200\<rparr>\<rparr>"
  have r: "read_msr r ?s = read_msr r demo_vmm" for r by (simp add: read_msr_def)
  have "adjust_vmx_controls VM_EXIT_HOST_ADDR_SPACE_SIZE 0 MSR_IA32_VMX_EXIT_CTLS ?s = Some 0x36FFF"
    "adjust_vmx_controls 0 0 MSR_IA32_VMX_ENTRY_CTLS ?s = Some 0x11FF"
    by (simp_all add: adjust_vmx_controls_def r demo_read_msr)
  then show ?thesis
    by (simp add: check_cpu_vmx_features_def setup_vmcs_config_def demo_adjust demo_read_msr store_vmcs_config_def r drop_bit_eq_div Let_def
        cpu_has_vmx_ept_def cpu_has_secondary_exec_ctrls_def cpu_has_vmx_invept_global_def cpu_has_vmx_invvpid_single_def)
qed

lemmas demo_conditions = demo_monitor_cpu demo_vmm_simps page_aligned_def demo_msr_def

lemma demo_vmx_init: "\<exists>s'. vmx_init 0x1000 demo_vmm = Inr s'"
proof -
  obtain s1 where "check_cpu_vmx_features demo_vmm = Inr s1" using demo_features by blast
  from vmx_init_enters [OF this, of "0x5000" "0x6000" "0x1000"] show ?thesis by (auto simp: demo_conditions)
qed

text \<open>
  C10. The monitor starts the guest.  On a processor that passes \<open>check_cpu_vmx_features\<close> and allows the controls that
  \<open>setup_vmcs\<close> writes, with virtualization not yet switched on and not locked away, and with two different pages
  for the VMCS and for VMXON, \<open>vmx_init\<close> enters the guest.  The guest runs with the registers and the page tables
  of the processor's structure, behind the nested tables of that structure; an exit leads to \<open>host_entry\<close> on the
  monitor's stack.
\<close>

theorem vmx_init_enters_guest:
  assumes "check_cpu_vmx_features s = Inr s1" "monitor_cpu s" "cr4 s AND 0x2000 = 0"
    and "bit (msr s MSR_IA32_FEATURE_CONTROL) 0 \<Longrightarrow> msr s MSR_IA32_FEATURE_CONTROL AND 5 = 5"
    and "msr s MSR_IA32_VMX_CR0_FIXED0 AND NOT (cr0 s OR 0x20) = 0" "msr s MSR_IA32_VMX_CR4_FIXED0 AND NOT (cr4 s OR 0x2000) = 0"
    and p: "p = vm_vmcs_ptr (vm_info (self s))" "page_aligned p"
    and q: "q = vm_vmxon_ptr (vm_info (self s))" "page_aligned q" "p \<noteq> q"
  shows "\<exists>s'. vmx_init h s = Inr s' \<and> guest s' = Some (guest_regs (self s)) \<and> current_vmcs s' = Some p \<and>
    vmcs_fields (vmcss s' p) EPT_POINTER = (vm_ept (vm_info (self s)) OR 0x1E) AND 0xFFFFFFFFFFFFFFBF \<and>
    vmcs_fields (vmcss s' p) HOST_RIP = h \<and> vmcs_fields (vmcss s' p) HOST_RSP = r_rsp (vmm_regs (vmm_info (self s)))"
  by (rule vmx_init_enters [OF assms])

theorem vmx_init_enters_guest_witness:
  "\<exists>s'. vmx_init 0x1000 demo_vmm = Inr s' \<and> guest s' = Some (guest_regs demo_cpu) \<and>
    vmcs_fields (vmcss s' 0x5000) EPT_POINTER = 0x701E"
proof -
  obtain s1 where "check_cpu_vmx_features demo_vmm = Inr s1" using demo_features by blast
  from vmx_init_enters_guest [OF this, of "0x5000" "0x6000" "0x1000"] show ?thesis by (auto simp: demo_conditions) (auto simp: demo_cpu_def)
qed

definition demo_pm :: "cpu_info \<times> memory \<Rightarrow> cpu_info \<times> memory" where
  "demo_pm = (\<lambda>(c, m). (c\<lparr>msg_input := 0x400000\<rparr>, store64 m 0x400008 1))"

lemma demo_leaves: "leaves_vmcs 0x5000 demo_pm"
proof -
  have d: "disjoint_regions 0x5000 4 0x400008 8" by (rule disjoint_regionsI) simp_all
  then have "store64 m 0x400008 w x = m x" if "in_region 0x5000 4 x" for m w x
    using disjoint_regionsD [OF d that] by (simp add: store_le_apply)
  with d show ?thesis by (simp add: leaves_vmcs_def demo_pm_def)
qed


theorem setup_vmcs_host_tables_witness:
  "\<exists>s'. setup_vmcs 0x1000 (demo_vmm\<lparr>current_vmcs := Some 0x5000\<rparr>) = Inr s' \<and> gdtr s' = (79, 0x9000) \<and>
    vmcs_fields (vmcss s' 0x5000) HOST_GDTR_BASE = 0xA000"
  using setup_vmcs_host_tables [of "demo_vmm\<lparr>current_vmcs := Some 0x5000\<rparr>" "0x5000" "0x1000"]
  by (auto simp: demo_vmm_def setup_vmcs_done setup_done_def dtr_stored_def)

theorem adjust_vmx_controls_negotiates_witness:
  "adjust_vmx_controls 0x9 0x20 MSR_IA32_VMX_PINBASED_CTLS demo_vmm = Some 0x3F \<and>
    control_ok MSR_IA32_VMX_PINBASED_CTLS 0x3F demo_vmm \<and> adjust_vmx_controls 0x80 0 MSR_IA32_VMX_PINBASED_CTLS demo_vmm = None"
proof -
  have c: "capability MSR_IA32_VMX_PINBASED_CTLS demo_vmm" by (simp add: capability_def demo_read_msr)
  have a: "\<not> allowed MSR_IA32_VMX_PINBASED_CTLS 0x80 demo_vmm" by (simp add: allowed_def demo_read_msr)
  have "adjust_vmx_controls 0x9 0x20 MSR_IA32_VMX_PINBASED_CTLS demo_vmm = Some 0x3F" by (rule demo_adjust(1))
  with adjust_vmx_controls_negotiates [OF c, of 9 "0x20"] adjust_vmx_controls_negotiates [OF c, of "0x80" 0] a show ?thesis by auto
qed

end
