(* ===== verification/Pci.thy ===== *)
theory Pci
  imports Interrupts
begin

unbundle bit_operations_syntax

text \<open>
  The PCI library of the network driver (\<open>src/drivers/pci/pci.c\<close>, \<open>pci.h\<close>).  The configuration space is a
  byte memory that is addressed through the two ports; \<open>wmask\<close> has the bits of it that can be written, the
  others keep their value, which is how a base address register tells its size.  \<open>DEBUG\<close> prints are left out.
\<close>

section \<open>State\<close>

record bar =
  bar_flags :: cint
  bar_reg :: nat
  bar_base :: cint
  bar_size :: cint

record pcidev =
  busnr :: byte
  pdev :: byte
  func :: byte
  baseclass :: byte
  psubclass :: byte
  infclass :: byte
  headt :: byte
  vid :: "16 word"
  did :: "16 word"
  ilr :: byte
  sts :: "16 word"
  ipr :: cint
  bars :: "bar list"
  bar_nr :: nat

record pci =
  confadd :: cint
  cfg :: memory
  wmask :: memory
  pcidevs :: "pcidev list"
  nr_pcidev :: nat
  pci_ioapic :: io_apic
  pci_idt :: "gate list"

abbreviation (input) "NR_PCIDEV \<equiv> 50"
abbreviation (input) "BAR_NR \<equiv> 6"
abbreviation (input) "PCI_VID \<equiv> 0x00"
abbreviation (input) "PCI_DID \<equiv> 0x02"
abbreviation (input) "PCI_CR \<equiv> 0x04"
abbreviation (input) "PCI_SR \<equiv> 0x06"
abbreviation (input) "PCI_PIFR \<equiv> 0x09"
abbreviation (input) "PCI_SCR \<equiv> 0x0A"
abbreviation (input) "PCI_BCR \<equiv> 0x0B"
abbreviation (input) "PCI_HEADT \<equiv> 0x0E"
abbreviation (input) "PCI_BAR \<equiv> 0x10"
abbreviation (input) "PCI_BAR_6 \<equiv> 0x24"
abbreviation (input) "PCI_ILR \<equiv> 0x3C"
abbreviation (input) "PCI_IPR \<equiv> 0x3D"
abbreviation (input) "NO_VID \<equiv> 0xFFFF"
abbreviation (input) "SUBCLASS_NET \<equiv> 2"
abbreviation (input) "PCI_BAR_IO_MASK \<equiv> 0xFFFFFFFC"
abbreviation (input) "PCI_BAR_MEM_MASK \<equiv> 0xFFFFFFF0"

section \<open>The configuration space\<close>

definition PCII_SELREG :: "cint \<Rightarrow> cint \<Rightarrow> cint \<Rightarrow> cint \<Rightarrow> cint" where
  "PCII_SELREG bus dv fn reg =
    0x80000000 OR (push_bit 16 bus AND 0xFF0000) OR (push_bit 11 dv AND 0xF800) OR (push_bit 8 fn AND 0x700) OR
    (push_bit 2 (reg div 4) AND 0xFC)"

text \<open>The place that the data port stands for.\<close>

definition conf_place :: "'a pci_scheme \<Rightarrow> addr" where
  "conf_place s = ucast (confadd s AND 0xFFFFFC)"

definition masked_store :: "nat \<Rightarrow> memory \<Rightarrow> memory \<Rightarrow> addr \<Rightarrow> 'b::len word \<Rightarrow> memory" where
  "masked_store n k m p v =
    (\<lambda>x. if in_region p n x then (m x AND NOT (k x)) OR (store_le n m p v x AND k x) else m x)"

definition PCII_RREG8 :: "cint \<Rightarrow> cint \<Rightarrow> cint \<Rightarrow> cint \<Rightarrow> 'a pci_scheme \<Rightarrow> byte \<times> 'a pci_scheme" where
  "PCII_RREG8 bus dv fn reg s =
    (let s1 = s\<lparr>confadd := PCII_SELREG bus dv fn reg\<rparr> in (cfg s1 (conf_place s1 + ucast (reg AND 3)), s1))"

definition PCII_RREG16 :: "cint \<Rightarrow> cint \<Rightarrow> cint \<Rightarrow> cint \<Rightarrow> 'a pci_scheme \<Rightarrow> 16 word \<times> 'a pci_scheme" where
  "PCII_RREG16 bus dv fn reg s =
    (let s1 = s\<lparr>confadd := PCII_SELREG bus dv fn reg\<rparr> in (load_le 2 (cfg s1) (conf_place s1 + ucast (reg AND 2)), s1))"

definition PCII_RREG32 :: "cint \<Rightarrow> cint \<Rightarrow> cint \<Rightarrow> cint \<Rightarrow> 'a pci_scheme \<Rightarrow> cint \<times> 'a pci_scheme" where
  "PCII_RREG32 bus dv fn reg s =
    (let s1 = s\<lparr>confadd := PCII_SELREG bus dv fn reg\<rparr> in (load_le 4 (cfg s1) (conf_place s1), s1))"

definition PCII_WREG8 :: "cint \<Rightarrow> cint \<Rightarrow> cint \<Rightarrow> cint \<Rightarrow> byte \<Rightarrow> 'a pci_scheme \<Rightarrow> 'a pci_scheme" where
  "PCII_WREG8 bus dv fn reg v s =
    (let s1 = s\<lparr>confadd := PCII_SELREG bus dv fn reg\<rparr> in
     s1\<lparr>cfg := masked_store 1 (wmask s1) (cfg s1) (conf_place s1 + ucast (reg AND 3)) v\<rparr>)"

definition PCII_WREG16 :: "cint \<Rightarrow> cint \<Rightarrow> cint \<Rightarrow> cint \<Rightarrow> 16 word \<Rightarrow> 'a pci_scheme \<Rightarrow> 'a pci_scheme" where
  "PCII_WREG16 bus dv fn reg v s =
    (let s1 = s\<lparr>confadd := PCII_SELREG bus dv fn reg\<rparr> in
     s1\<lparr>cfg := masked_store 2 (wmask s1) (cfg s1) (conf_place s1 + ucast (reg AND 2)) v\<rparr>)"

definition PCII_WREG32 :: "cint \<Rightarrow> cint \<Rightarrow> cint \<Rightarrow> cint \<Rightarrow> cint \<Rightarrow> 'a pci_scheme \<Rightarrow> 'a pci_scheme" where
  "PCII_WREG32 bus dv fn reg v s =
    (let s1 = s\<lparr>confadd := PCII_SELREG bus dv fn reg\<rparr> in s1\<lparr>cfg := masked_store 4 (wmask s1) (cfg s1) (conf_place s1) v\<rparr>)"

section \<open>The registers of a device\<close>

definition at_dev :: "nat \<Rightarrow> 'a pci_scheme \<Rightarrow> pcidev res" where
  "at_dev devidx s = (if devidx < length (pcidevs s) then Inr (pcidevs s ! devidx) else Inl (Fault ''behind pcidev''))"

definition upd_dev :: "nat \<Rightarrow> (pcidev \<Rightarrow> pcidev) \<Rightarrow> 'a pci_scheme \<Rightarrow> 'a pci_scheme res" where
  "upd_dev devidx f s = bindr (at_dev devidx s) (\<lambda>d. Inr (s\<lparr>pcidevs := (pcidevs s)[devidx := f d]\<rparr>))"

definition pci_attr_w8 :: "nat \<Rightarrow> cint \<Rightarrow> byte \<Rightarrow> 'a pci_scheme \<Rightarrow> 'a pci_scheme res" where
  "pci_attr_w8 devidx port v s =
    bindr (at_dev devidx s) (\<lambda>d. Inr (PCII_WREG8 (ucast (busnr d)) (ucast (pdev d)) (ucast (func d)) port v s))"

definition pci_attr_w16 :: "nat \<Rightarrow> cint \<Rightarrow> 16 word \<Rightarrow> 'a pci_scheme \<Rightarrow> 'a pci_scheme res" where
  "pci_attr_w16 devidx port v s =
    bindr (at_dev devidx s) (\<lambda>d. Inr (PCII_WREG16 (ucast (busnr d)) (ucast (pdev d)) (ucast (func d)) port v s))"

definition pci_attr_w32 :: "nat \<Rightarrow> cint \<Rightarrow> cint \<Rightarrow> 'a pci_scheme \<Rightarrow> 'a pci_scheme res" where
  "pci_attr_w32 devidx port v s =
    bindr (at_dev devidx s) (\<lambda>d. Inr (PCII_WREG32 (ucast (busnr d)) (ucast (pdev d)) (ucast (func d)) port v s))"

definition pci_attr_r8_u :: "nat \<Rightarrow> cint \<Rightarrow> 'a pci_scheme \<Rightarrow> (byte \<times> 'a pci_scheme) res" where
  "pci_attr_r8_u devidx port s =
    bindr (at_dev devidx s) (\<lambda>d. Inr (PCII_RREG8 (ucast (busnr d)) (ucast (pdev d)) (ucast (func d)) port s))"

definition pci_attr_r16 :: "nat \<Rightarrow> cint \<Rightarrow> 'a pci_scheme \<Rightarrow> (16 word \<times> 'a pci_scheme) res" where
  "pci_attr_r16 devidx port s =
    bindr (at_dev devidx s) (\<lambda>d. Inr (PCII_RREG16 (ucast (busnr d)) (ucast (pdev d)) (ucast (func d)) port s))"

definition pci_attr_r32_u :: "nat \<Rightarrow> cint \<Rightarrow> 'a pci_scheme \<Rightarrow> (cint \<times> 'a pci_scheme) res" where
  "pci_attr_r32_u devidx port s =
    bindr (at_dev devidx s) (\<lambda>d. Inr (PCII_RREG32 (ucast (busnr d)) (ucast (pdev d)) (ucast (func d)) port s))"

definition pci_attr_rsts :: "nat \<Rightarrow> 'a pci_scheme \<Rightarrow> (16 word \<times> 'a pci_scheme) res" where
  "pci_attr_rsts devidx s = bindr (at_dev devidx s) (\<lambda>d. Inr (PCII_RREG16 (ucast (busnr d)) 0 0 PCI_SR s))"

section \<open>Base address registers\<close>

text \<open>Entering a register in the table; \<open>i\<close> is its number.\<close>

definition add_bar :: "nat \<Rightarrow> cint \<Rightarrow> nat \<Rightarrow> cint \<Rightarrow> cint \<Rightarrow> 'a pci_scheme \<Rightarrow> 'a pci_scheme res" where
  "add_bar devidx flags i base sz s =
    bindr (at_dev devidx s) (\<lambda>d.
      if BAR_NR \<le> bar_nr d then Inl (Fault ''behind bar'')
      else
        bindr (upd_dev devidx (\<lambda>d. d\<lparr>bars := (bars d)[bar_nr d := \<lparr>bar_flags = flags, bar_reg = i, bar_base = base, bar_size = sz\<rparr>],
            bar_nr := Suc (bar_nr d)\<rparr>) s) (\<lambda>s1.
          if base = 0 then Inl (Panic ''Bar is zero!'') else Inr s1))"

text \<open>Reading the register back with all ones written to it, while the device does not decode addresses.\<close>

definition probe_bar :: "nat \<Rightarrow> cint \<Rightarrow> cint \<Rightarrow> 16 word \<Rightarrow> 'a pci_scheme \<Rightarrow> (cint \<times> 'a pci_scheme) res" where
  "probe_bar devidx reg bar enable s =
    bindr (pci_attr_r16 devidx PCI_CR s) (\<lambda>(cmd, s1).
    bindr (pci_attr_w16 devidx PCI_CR (cmd AND NOT enable) s1) (\<lambda>s2.
    bindr (pci_attr_w32 devidx reg 0xFFFFFFFF s2) (\<lambda>s3.
    bindr (pci_attr_r32_u devidx reg s3) (\<lambda>(bar2, s4).
    bindr (pci_attr_w32 devidx reg bar s4) (\<lambda>s5.
    bindr (pci_attr_w16 devidx PCI_CR cmd s5) (\<lambda>s6. Inr (bar2, s6)))))))"

text \<open>The memory registers: 32 bits, 32 bits below 1 MB, 64 bits.  The result says whether two words are taken.\<close>

definition record_mem_bar :: "nat \<Rightarrow> nat \<Rightarrow> cint \<Rightarrow> bool \<Rightarrow> cint \<Rightarrow> 'a pci_scheme \<Rightarrow> (bool \<times> 'a pci_scheme) res" where
  "record_mem_bar devidx i reg wide bar s =
    bindr (probe_bar devidx reg bar 2 s) (\<lambda>(bar2, s1).
      if bar2 = 0 then Inr (wide, s1)
      else bindr (add_bar devidx 0 i (bar AND PCI_BAR_MEM_MASK) (NOT (bar2 AND PCI_BAR_MEM_MASK) + 1) s1) (\<lambda>s2. Inr (wide, s2)))"

text \<open>The result says whether the register takes two words: \<open>width\<close> is 2 then, and 1 otherwise.\<close>

definition record_bar :: "nat \<Rightarrow> nat \<Rightarrow> bool \<Rightarrow> 'a pci_scheme \<Rightarrow> (bool \<times> 'a pci_scheme) res" where
  "record_bar devidx i is_last s =
    (let reg = PCI_BAR + 4 * of_nat i in
     bindr (pci_attr_r32_u devidx reg s) (\<lambda>(bar, s1).
       if bar AND 1 \<noteq> 0 then
         bindr (probe_bar devidx reg bar 1 s1) (\<lambda>(bar2, s2).
         bindr (add_bar devidx 1 i (bar AND PCI_BAR_IO_MASK) ((NOT (bar2 AND PCI_BAR_IO_MASK) AND 0xFFFF) + 1) s2) (\<lambda>s3.
           Inr (False, s3)))
       else if bar AND 6 = 0 \<or> bar AND 6 = 2 then record_mem_bar devidx i reg False bar s1
       else if bar AND 6 = 4 then
         (if is_last then Inr (False, s1)
          else
            bindr (pci_attr_r32_u devidx (reg + 4) s1) (\<lambda>(bar2, s2).
              if bar2 \<noteq> 0 then Inr (True, s2) else record_mem_bar devidx i reg True bar s2))
       else Inr (False, s1)))"

function record_bars_from :: "nat \<Rightarrow> nat \<Rightarrow> nat \<Rightarrow> 'a pci_scheme \<Rightarrow> 'a pci_scheme res" where
  "record_bars_from devidx last_reg i s =
    (if PCI_BAR + 4 * i \<le> last_reg then
       bindr (record_bar devidx i (PCI_BAR + 4 * i = last_reg) s) (\<lambda>(wide, s1).
         record_bars_from devidx last_reg (i + (if wide then 2 else 1)) s1)
     else Inr s)"
  by pat_completeness auto
termination by (relation "measure (\<lambda>(_, last_reg, i, _). last_reg - i)") auto

definition record_bars :: "nat \<Rightarrow> nat \<Rightarrow> 'a pci_scheme \<Rightarrow> 'a pci_scheme res" where
  "record_bars devidx last_reg s = record_bars_from devidx last_reg 0 s"

section \<open>Looking for devices\<close>

text \<open>What is read of a device that answers.\<close>

definition read_device :: "nat \<Rightarrow> 'a pci_scheme \<Rightarrow> 'a pci_scheme res" where
  "read_device n s =
    bindr (pci_attr_r8_u n PCI_HEADT s) (\<lambda>(ht, s1).
    bindr (upd_dev n (\<lambda>d. d\<lparr>headt := ht\<rparr>) s1) (\<lambda>s2.
    bindr (pci_attr_rsts n s2) (\<lambda>(st, s3).
    bindr (upd_dev n (\<lambda>d. d\<lparr>sts := st\<rparr>) s3) (\<lambda>s4.
    bindr (pci_attr_r8_u n PCI_BCR s4) (\<lambda>(bc, s5).
    bindr (pci_attr_r8_u n PCI_SCR s5) (\<lambda>(sc, s6).
    bindr (pci_attr_r8_u n PCI_PIFR s6) (\<lambda>(ic, s7).
    bindr (pci_attr_r8_u n PCI_ILR s7) (\<lambda>(il, s8).
    bindr (pci_attr_r8_u n PCI_IPR s8) (\<lambda>(ip, s9).
      upd_dev n (\<lambda>d. d\<lparr>baseclass := bc, psubclass := sc, infclass := ic, ilr := il, ipr := ucast ip\<rparr>) s9)))))))))"

text \<open>An Intel network card: its interrupt lines, its line register and its base addresses.\<close>

definition pirq_of :: "nat \<Rightarrow> nat \<Rightarrow> cint \<Rightarrow> byte" where
  "pirq_of dv fn pin = ucast ((drop_bit 3 (of_nat (dv * 8 + fn)) + pin - 2) AND 3)"

definition setup_network :: "(isr \<Rightarrow> addr) \<Rightarrow> nat \<Rightarrow> nat \<Rightarrow> nat \<Rightarrow> 'a pci_scheme \<Rightarrow> 'a pci_scheme res" where
  "setup_network h n dv fn s =
    bindr (at_dev n s) (\<lambda>d.
      let pirq = pirq_of dv fn (ipr d);
          s1 = s\<lparr>pci_ioapic := fold (\<lambda>k. ioapic_enable (ucast pirq + of_nat k + 16) 3) [0..<4] (pci_ioapic s)\<rparr>
      in bindr (for_loop 4 0 (\<lambda>k t. add_irq h (32 + unat pirq + k + 16) t) (pci_idt s1)) (\<lambda>t.
         bindr (pci_attr_w8 n PCI_ILR pirq (s1\<lparr>pci_idt := t\<rparr>)) (\<lambda>s2.
           record_bars n PCI_BAR_6 s2)))"

definition probe_func :: "(isr \<Rightarrow> addr) \<Rightarrow> nat \<Rightarrow> nat \<Rightarrow> nat \<Rightarrow> 'a pci_scheme \<Rightarrow> 'a pci_scheme res" where
  "probe_func h bus dv fn s =
    (let n = nr_pcidev s in
     bindr (upd_dev n (\<lambda>d. d\<lparr>busnr := of_nat bus, pdev := of_nat dv, func := of_nat fn\<rparr>) s) (\<lambda>s1.
     bindr (pci_attr_r16 n PCI_VID s1) (\<lambda>(v, s2).
     bindr (pci_attr_r16 n PCI_DID s2) (\<lambda>(i, s3).
       if v = NO_VID \<and> i = NO_VID then Inr s3
       else
         bindr (upd_dev n (\<lambda>d. d\<lparr>vid := v, did := i\<rparr>) s3) (\<lambda>s4.
         bindr (read_device n s4) (\<lambda>s5.
         bindr (at_dev n s5) (\<lambda>d.
         bindr (if baseclass d = SUBCLASS_NET \<and> vid d = 0x8086 then setup_network h n dv fn s5 else Inr s5) (\<lambda>s6.
           Inr (s6\<lparr>nr_pcidev := Suc n\<rparr>)))))))))"

definition probe_bus :: "(isr \<Rightarrow> addr) \<Rightarrow> nat \<Rightarrow> 'a pci_scheme \<Rightarrow> 'a pci_scheme res" where
  "probe_bus h bus s = for_loop 32 0 (\<lambda>dv. for_loop 8 0 (probe_func h bus dv)) s"

definition pci_init :: "(isr \<Rightarrow> addr) \<Rightarrow> 'a pci_scheme \<Rightarrow> 'a pci_scheme res" where
  "pci_init h s =
    (let s1 = (snd (PCII_RREG16 0 0 0 PCI_DID (snd (PCII_RREG16 0 0 0 PCI_VID s))))\<lparr>confadd := 0\<rparr>
     in for_loop 8 0 (probe_bus h) s1)"

text \<open>The first base address of the first network card that has one.\<close>

fun first_bar :: "pcidev list \<Rightarrow> bar option" where
  "first_bar [] = None"
| "first_bar (d # ds) = (if baseclass d = SUBCLASS_NET \<and> 0 < bar_nr d then Some (bars d ! 0) else first_bar ds)"

definition pci_get_e1000_reg :: "'a pci_scheme \<Rightarrow> (addr \<times> addr) res" where
  "pci_get_e1000_reg s =
    (case first_bar (take (nr_pcidev s) (pcidevs s)) of
       None \<Rightarrow> Inl (Panic ''Could not find e1000 base address and size'')
     | Some b \<Rightarrow> Inr (ucast (bar_base b), ucast (bar_size b)))"

section \<open>A base address register gives its size away\<close>

lemma masked_store_apply:
  "masked_store n k m p v x = (if in_region p n x then (m x AND NOT (k x)) OR (store_le n m p v x AND k x) else m x)"
  by (simp add: masked_store_def)

text \<open>The register as a word: the bits that cannot be written stay, the others become those of the value.\<close>

lemma load_masked_store:
  fixes v :: "'b::len word"
  assumes "LENGTH('b) = 8 * n" "n \<le> 2 ^ 64"
  shows "load_le n (masked_store n k m p v) p = (load_le n m p AND NOT (load_le n k p)) OR (v AND load_le n k p)"
proof (rule bit_word_eqI)
  fix i assume i: "i < LENGTH('b)"
  then have d: "i div 8 < n" using assms by auto
  then have u: "unat (of_nat (i div 8) :: addr) = i div 8" using assms(2) by (intro unat_of_nat_small) auto
  have m: "8 * (i div 8) + i mod 8 = i" by simp
  have "bit v (8 * (i div 8) + i mod 8) = bit v i" using m by simp
  then show "bit (load_le n (masked_store n k m p v) p :: 'b word) i =
      bit ((load_le n m p AND NOT (load_le n k p)) OR (v AND load_le n k p)) i"
    using i assms d u by (auto simp: bit_load_le masked_store_apply store_le_apply in_region_def bit_simps)
qed

lemma masked_store_eq:
  assumes "n \<le> 2 ^ 64" "\<And>x. in_region p n x \<Longrightarrow> (m x AND NOT (k x)) OR (store_le n m p v x AND k x) = m0 x"
    "\<And>x. \<not> in_region p n x \<Longrightarrow> m x = m0 x"
  shows "masked_store n k m p v = m0"
  using assms by (auto simp: masked_store_apply)

text \<open>Writing back what was there undoes a write to the same place.\<close>

lemma masked_store_back:
  fixes v :: "'b::len word" and w :: "'c::len word"
  assumes "n \<le> 2 ^ 64" "LENGTH('b) = 8 * n"
  shows "masked_store n k (masked_store n k m p w) p (load_le n m p :: 'b word) = m"
proof
  fix x
  show "masked_store n k (masked_store n k m p w) p (load_le n m p :: 'b word) x = m x"
  proof (cases "in_region p n x")
    case True
    let ?l = "load_le n m p :: 'b word"
    have s: "store_le n m' p ?l x = m x" for m'
    proof -
      have "store_le n m' p ?l x = ucast (drop_bit (8 * unat (x - p)) ?l)" using assms(1) True by (simp add: store_le_apply)
      also have "\<dots> = m x"
      proof (rule bit_word_eqI)
        fix j assume "j < LENGTH(8)"
        then have j: "(8 * unat (x - p) + j) div 8 = unat (x - p)" "(8 * unat (x - p) + j) mod 8 = j" "j < 8" by auto
        have "8 * unat (x - p) + j < 8 * n" using True j(3) by (simp add: in_region_def)
        then show "bit (ucast (drop_bit (8 * unat (x - p)) ?l) :: byte) j = bit (m x) j"
          using j assms(2) by (simp add: bit_simps bit_load_le)
      qed
      finally show ?thesis .
    qed
    show ?thesis using True by (simp add: masked_store_apply s) (rule bit_word_eqI, auto simp: bit_simps)
  qed (simp add: masked_store_apply)
qed

text \<open>Where the registers of a function are.\<close>

definition sel :: "pcidev \<Rightarrow> cint \<Rightarrow> cint" where
  "sel d reg = PCII_SELREG (ucast (busnr d)) (ucast (pdev d)) (ucast (func d)) reg"

definition func_place :: "pcidev \<Rightarrow> addr" where
  "func_place d = ucast (push_bit 16 (ucast (busnr d)) OR (push_bit 11 (ucast (pdev d)) AND 0xF800) OR
     (push_bit 8 (ucast (func d)) AND 0x700) :: cint)"

lemma conf_masks:
  "(0xFFFFFC :: cint) = push_bit 2 (mask 22)" "(0xFF0000 :: cint) = push_bit 16 (mask 8)" "(0xF800 :: cint) = push_bit 11 (mask 5)"
  "(0x700 :: cint) = push_bit 8 (mask 3)" "(0xFC :: cint) = push_bit 2 (mask 6)"
  by (simp_all add: mask_eq_exp_minus_1 push_bit_eq_mult)

lemma bit_enable: "bit (0x80000000 :: int) n = (n = 31)" "bit (0x80000000 :: nat) n = (n = 31)"
  using bit_exp_iff [where ?'a = int, of 31 n] bit_exp_iff [where ?'a = nat, of 31 n] by auto

lemma sel_place:
  assumes "unat reg < 256" "4 dvd unat reg"
  shows "ucast (sel d reg AND 0xFFFFFC) = func_place d + ucast reg"
proof -
  obtain r where r: "unat reg = 4 * r" using assms(2) by blast
  then have "r < 64" using assms(1) by simp
  then have q: "push_bit 2 (reg div 4) = reg"
    by (intro word_unat_eq_iff [THEN iffD2]) (simp add: push_bit_eq_mult unat_word_ariths unat_div r)
  have k: "take_bit 8 reg = reg"
    using assms(1) by (intro word_unat_eq_iff [THEN iffD2]) (simp add: unsigned_take_bit_eq take_bit_nat_eq_self)
  have b: "2 \<le> n \<and> n < 8" if "bit reg n" for n
  proof
    have "bit (push_bit 2 (reg div 4)) n" using that by (simp only: q)
    then show "2 \<le> n" by (simp add: bit_simps)
    have "bit (take_bit 8 reg) n" using that by (simp only: k)
    then show "n < 8" by (simp add: bit_simps)
  qed
  have "ucast (sel d reg AND 0xFFFFFC) = func_place d OR ucast reg"
    unfolding sel_def PCII_SELREG_def func_place_def q conf_masks
  proof (rule bit_word_eqI)
    fix n assume "n < LENGTH(64)"
    have w: "24 \<le> n \<longrightarrow> \<not> bit (busnr d) (n - 16)" using bit_imp_le_length [of "busnr d" "n - 16"] by auto
    have nb: "n < 2 \<or> 8 \<le> n \<longrightarrow> \<not> bit reg n" using b [of n] by auto
    consider "n < 2" | "2 \<le> n" "n < 8" | "8 \<le> n" "n < 11" | "11 \<le> n" "n < 16" | "16 \<le> n" "n < 24" | "24 \<le> n" by linarith
    then show "bit (ucast ((0x80000000 OR (push_bit 16 (ucast (busnr d)) AND push_bit 16 (mask 8)) OR
        (push_bit 11 (ucast (pdev d)) AND push_bit 11 (mask 5)) OR (push_bit 8 (ucast (func d)) AND push_bit 8 (mask 3)) OR
        (reg AND push_bit 2 (mask 6))) AND push_bit 2 (mask 22)) :: addr) n =
      bit (ucast (push_bit 16 (ucast (busnr d)) OR (push_bit 11 (ucast (pdev d)) AND push_bit 11 (mask 5)) OR
        (push_bit 8 (ucast (func d)) AND push_bit 8 (mask 3)) :: cint) OR ucast reg :: addr) n"
      using nb w by cases (simp_all add: bit_simps bit_enable less_diff_conv2)
  qed
  also have "\<dots> = func_place d + ucast reg"
    by (rule disjunctive_add_eq_or [symmetric], rule bit_word_eqI) (auto simp: func_place_def conf_masks bit_simps dest: b)
  finally show ?thesis .
qed

text \<open>The registers, through the place of the function.\<close>

lemmas pci_attr = pci_attr_r16_def pci_attr_w16_def pci_attr_r32_u_def pci_attr_w32_def

lemma pci_attr_at:
  assumes "at_dev i s = Inr d" "unat reg < 256" "4 dvd unat reg"
  shows "pci_attr_r32_u i reg s = Inr (load_le 4 (cfg s) (func_place d + ucast reg), s\<lparr>confadd := sel d reg\<rparr>)"
    "pci_attr_w32 i reg v s =
       Inr (s\<lparr>confadd := sel d reg, cfg := masked_store 4 (wmask s) (cfg s) (func_place d + ucast reg) v\<rparr>)"
    "pci_attr_r16 i PCI_CR s = Inr (load_le 2 (cfg s) (func_place d + 4), s\<lparr>confadd := sel d PCI_CR\<rparr>)"
    "pci_attr_w16 i PCI_CR w s =
       Inr (s\<lparr>confadd := sel d PCI_CR, cfg := masked_store 2 (wmask s) (cfg s) (func_place d + 4) w\<rparr>)"
  using assms sel_place [OF assms(2,3), of d] sel_place [of PCI_CR d]
  by (simp_all add: pci_attr PCII_RREG32_def PCII_WREG32_def PCII_RREG16_def PCII_WREG16_def conf_place_def sel_def Let_def
      flip: sel_def)

lemma at_dev_update [simp]: "at_dev i (s\<lparr>confadd := a\<rparr>) = at_dev i s" "at_dev i (s\<lparr>cfg := m\<rparr>) = at_dev i s"
  by (simp_all add: at_dev_def)

text \<open>
  The register is read with every writable bit set, and both registers are put back: nothing of the
  configuration space has changed.
\<close>

lemma probe_bar_result:
  assumes "at_dev i s = Inr d" "unat reg < 256" "4 dvd unat reg" "8 \<le> unat reg"
  shows "probe_bar i reg (load_le 4 (cfg s) (func_place d + ucast reg)) en s =
    Inr (load_le 4 (cfg s) (func_place d + ucast reg) OR load_le 4 (wmask s) (func_place d + ucast reg),
      s\<lparr>confadd := sel d PCI_CR\<rparr>)"
proof -
  let ?p = "func_place d + ucast reg" and ?c = "func_place d + 4"
  let ?k = "wmask s" and ?m = "cfg s"
  let ?m1 = "masked_store 2 ?k ?m ?c (load_le 2 ?m ?c AND NOT en)"
  have u: "unat (ucast reg :: addr) = unat reg" using assms(2) by (simp add: unsigned_ucast_eq take_bit_nat_eq_self)
  have "disjoint_regions ?p 4 ?c 2" using assms(2,4) u by (intro sep_off_disjoint) (simp add: sep_off_def)
  then have b: "load_le 4 ?m1 ?p = (load_le 4 ?m ?p :: cint)"
    by (intro load_cong) (auto simp: masked_store_apply dest: disjoint_regionsD)
  have re4: "masked_store 4 ?k (masked_store 4 ?k ?m1 ?p (0xFFFFFFFF :: cint)) ?p (load_le 4 ?m ?p :: cint) = ?m1"
    unfolding b [symmetric] by (rule masked_store_back) simp_all
  have re2: "masked_store 2 ?k ?m1 ?c (load_le 2 ?m ?c :: 16 word) = ?m"
    by (rule masked_store_back) simp_all
  have ones: "(0xFFFFFFFF :: cint) = - 1" by simp
  have two: "load_le 4 (masked_store 4 ?k ?m1 ?p (0xFFFFFFFF :: cint)) ?p = load_le 4 ?m ?p OR (load_le 4 ?k ?p :: cint)"
    unfolding ones by (subst load_masked_store) (auto simp: b intro!: bit_word_eqI simp: bit_simps)
  show ?thesis
    using assms(1) re4 re2 two
    by (simp add: probe_bar_def pci_attr_at [where d = d, OF _ assms(2,3)])
qed

text \<open>The number of a device's register, and the size that its writable bits give.\<close>

abbreviation (input) bar_place :: "pcidev \<Rightarrow> nat \<Rightarrow> addr" where
  "bar_place d j \<equiv> func_place d + ucast (PCI_BAR + 4 * of_nat j :: cint)"

lemma bar_reg_range:
  assumes "j \<le> 6"
  shows "unat (PCI_BAR + 4 * of_nat j :: cint) = PCI_BAR + 4 * j"
proof -
  have e: "(PCI_BAR + 4 * of_nat j :: cint) = of_nat (PCI_BAR + 4 * j)" by simp
  show ?thesis unfolding e by (rule unat_of_nat_small) (use assms in simp)
qed

lemma bar_size_bits:
  assumes "take_bit k (bar AND PCI_BAR_MEM_MASK) = 0" "4 \<le> k" "k < 32"
  shows "NOT ((bar OR NOT (mask k)) AND PCI_BAR_MEM_MASK) + 1 = (2 ^ k :: cint)"
proof -
  have m: "(PCI_BAR_MEM_MASK :: cint) = NOT (mask 4)" by (simp add: mask_eq_exp_minus_1)
  have z: "n < k \<Longrightarrow> \<not> (bit bar n \<and> 4 \<le> n)" for n
    using arg_cong [OF assms(1), of "\<lambda>w. bit w n"] assms(3) unfolding m by (auto simp: bit_simps)
  have "NOT ((bar OR NOT (mask k)) AND PCI_BAR_MEM_MASK) = mask k"
    unfolding m by (rule bit_word_eqI) (use z assms(2) in \<open>fastforce simp: bit_simps\<close>)
  then show ?thesis by (simp add: mask_eq_exp_minus_1)
qed

lemma add_bar_enters:
  assumes "at_dev i s = Inr d" "bar_nr d < BAR_NR" "base \<noteq> 0"
  shows "add_bar i flags j base sz s = Inr (s\<lparr>pcidevs := (pcidevs s)[i := d\<lparr>
    bars := (bars d)[bar_nr d := \<lparr>bar_flags = flags, bar_reg = j, bar_base = base, bar_size = sz\<rparr>],
    bar_nr := Suc (bar_nr d)\<rparr>]\<rparr>)"
  using assms by (simp add: add_bar_def upd_dev_def)

lemma record_mem_bar_result:
  assumes "at_dev i s = Inr d" "j \<le> 6" "bar_nr d < BAR_NR"
    "load_le 4 (cfg s) (bar_place d j) = bar" "load_le 4 (wmask s) (bar_place d j) = NOT (mask k :: cint)" "4 \<le> k" "k < 32"
    "bar AND PCI_BAR_MEM_MASK \<noteq> 0" "take_bit k (bar AND PCI_BAR_MEM_MASK) = 0"
  shows "record_mem_bar i j (PCI_BAR + 4 * of_nat j) wide bar s =
    Inr (wide, s\<lparr>confadd := sel d PCI_CR, pcidevs := (pcidevs s)[i := d\<lparr>
      bars := (bars d)[bar_nr d := \<lparr>bar_flags = 0, bar_reg = j, bar_base = bar AND PCI_BAR_MEM_MASK, bar_size = 2 ^ k\<rparr>],
      bar_nr := Suc (bar_nr d)\<rparr>]\<rparr>)"
proof -
  have u: "unat (PCI_BAR + 4 * of_nat j :: cint) = PCI_BAR + 4 * j" using assms(2) by (rule bar_reg_range)
  have "probe_bar i (PCI_BAR + 4 * of_nat j) bar 2 s = Inr (bar OR NOT (mask k), s\<lparr>confadd := sel d PCI_CR\<rparr>)"
    using probe_bar_result [OF assms(1), of "PCI_BAR + 4 * of_nat j" 2] assms(2) unfolding u assms(4,5) by (simp add: dvd_add)
  moreover have "bar OR NOT (mask k) \<noteq> 0" using assms(8) by (auto simp: or_eq_0_iff)
  ultimately show ?thesis
    using assms(1,3,8) bar_size_bits [OF assms(9,6,7)] by (simp add: record_mem_bar_def add_bar_enters [where d = d])
qed

lemma and_6_cases: "bar AND 6 = 0 \<or> bar AND 6 = 2 \<or> bar AND 6 = 4 \<or> bar AND (6 :: cint) = 6"
proof -
  have "(6 :: cint) = push_bit 1 (mask 2)" by (simp add: mask_eq_exp_minus_1)
  then have "bar AND 6 = (if bit bar 1 then push_bit 1 1 else 0) OR (if bit bar 2 then push_bit 2 1 else 0)"
    by (simp only:) (rule bit_word_eqI, auto simp: bit_simps less_Suc_eq numeral_2_eq_2)
  then show ?thesis by simp
qed

text \<open>
  C25.  A memory register is recorded with the base and the size it has: for a register of 32 bits, or of 64 bits
  with a zero upper half, whose writable bits are those from bit \<open>k\<close> on and whose base is not zero and aligned
  to its size, \<open>record_bar\<close> enters that base and the size \<open>2 ^ k\<close> behind the registers that the device already
  has, and the configuration space of the device is as before.
\<close>

theorem record_bar_finds:
  assumes "at_dev i s = Inr d" "j < BAR_NR" "bar_nr d < BAR_NR"
    "load_le 4 (cfg s) (bar_place d j) = bar" "load_le 4 (wmask s) (bar_place d j) = NOT (mask k :: cint)" "4 \<le> k" "k < 32"
    "bar AND 1 = 0" "bar AND 6 \<noteq> 6" "bar AND 6 = 4 \<longrightarrow> \<not> is_last \<and> load_le 4 (cfg s) (bar_place d (Suc j)) = (0 :: cint)"
    "bar AND PCI_BAR_MEM_MASK \<noteq> 0" "take_bit k (bar AND PCI_BAR_MEM_MASK) = 0"
  shows "record_bar i j is_last s = Inr (bar AND 6 = 4, s\<lparr>confadd := sel d PCI_CR, pcidevs := (pcidevs s)[i := d\<lparr>
    bars := (bars d)[bar_nr d := \<lparr>bar_flags = 0, bar_reg = j, bar_base = bar AND PCI_BAR_MEM_MASK, bar_size = 2 ^ k\<rparr>],
    bar_nr := Suc (bar_nr d)\<rparr>]\<rparr>)"
proof -
  have u: "unat (PCI_BAR + 4 * of_nat j :: cint) = PCI_BAR + 4 * j" "unat (PCI_BAR + 4 * of_nat (Suc j) :: cint) = PCI_BAR + 4 * Suc j"
    using assms(2) bar_reg_range [of j] bar_reg_range [of "Suc j"] by (simp_all del: of_nat_Suc)
  have r: "pci_attr_r32_u i (PCI_BAR + 4 * of_nat j) s = Inr (bar, s\<lparr>confadd := sel d (PCI_BAR + 4 * of_nat j)\<rparr>)"
    using assms(2,4) u(1) by (subst pci_attr_at(1) [OF assms(1)]) (simp_all add: dvd_add)
  have r2: "pci_attr_r32_u i (PCI_BAR + 4 * of_nat (Suc j)) (s\<lparr>confadd := a\<rparr>) =
      Inr (load_le 4 (cfg s) (bar_place d (Suc j)), s\<lparr>confadd := sel d (PCI_BAR + 4 * of_nat (Suc j))\<rparr>)" for a
    using assms(1,2) u(2) by (subst pci_attr_at(1) [where d = d]) (simp_all add: dvd_add)
  have e: "(PCI_BAR + 4 * of_nat j + 4 :: cint) = PCI_BAR + 4 * of_nat (Suc j)" by simp
  have m: "record_mem_bar i j (PCI_BAR + 4 * of_nat j) wide bar (s\<lparr>confadd := a\<rparr>) =
    Inr (wide, s\<lparr>confadd := sel d PCI_CR, pcidevs := (pcidevs s)[i := d\<lparr>
      bars := (bars d)[bar_nr d := \<lparr>bar_flags = 0, bar_reg = j, bar_base = bar AND PCI_BAR_MEM_MASK, bar_size = 2 ^ k\<rparr>],
      bar_nr := Suc (bar_nr d)\<rparr>]\<rparr>)" for wide a
    using record_mem_bar_result [of i "s\<lparr>confadd := a\<rparr>" d j bar k wide] assms by simp
  show ?thesis
    using and_6_cases [of bar] assms(8-10) r2 unfolding record_bar_def Let_def r e by (elim disjE) (simp_all add: m)
qed

text \<open>A card at device 3 of bus 0 with 128 KB of registers at 0xFEBC0000.\<close>

definition demo_dev :: pcidev where
  "demo_dev = \<lparr>busnr = 0, pdev = 3, func = 0, baseclass = 2, psubclass = 0, infclass = 0, headt = 0, vid = 0x8086, did = 0x100E,
     ilr = 11, sts = 0, ipr = 1, bars = replicate BAR_NR \<lparr>bar_flags = 0, bar_reg = 0, bar_base = 0, bar_size = 0\<rparr>, bar_nr = 0\<rparr>"

definition demo_pci :: pci where
  "demo_pci = \<lparr>confadd = 0, cfg = store_le 4 (\<lambda>_. 0) 0x1810 (0xFEBC0000 :: cint),
     wmask = store_le 4 (\<lambda>_. 0) 0x1810 (0xFFFE0000 :: cint), pcidevs = replicate NR_PCIDEV demo_dev, nr_pcidev = 1,
     pci_ioapic = \<lparr>io_reg = 0, io_data = (\<lambda>_. 0)\<rparr>, pci_idt = []\<rparr>"

theorem record_bar_finds_witness:
  "\<exists>s. record_bar 0 0 False demo_pci = Inr (False, s) \<and> bars (pcidevs s ! 0) ! 0 =
     \<lparr>bar_flags = 0, bar_reg = 0, bar_base = 0xFEBC0000, bar_size = 0x20000\<rparr> \<and> bar_nr (pcidevs s ! 0) = 1"
proof -
  have p: "bar_place demo_dev 0 = 0x1810" by (simp add: func_place_def demo_dev_def push_bit_eq_mult)
  have d: "at_dev 0 demo_pci = Inr demo_dev" by (simp add: at_dev_def demo_pci_def)
  have r: "load_le 4 (cfg demo_pci) (bar_place demo_dev 0) = (0xFEBC0000 :: cint)"
    "load_le 4 (wmask demo_pci) (bar_place demo_dev 0) = NOT (mask 17 :: cint)"
    unfolding p by (simp_all add: demo_pci_def load_store_same mask_eq_exp_minus_1)
  have "record_bar 0 0 False demo_pci = Inr ((0xFEBC0000 :: cint) AND 6 = 4,
      demo_pci\<lparr>confadd := sel demo_dev PCI_CR, pcidevs := (pcidevs demo_pci)[0 := demo_dev\<lparr>
    bars := (bars demo_dev)[bar_nr demo_dev := \<lparr>bar_flags = 0, bar_reg = 0, bar_base = 0xFEBC0000 AND PCI_BAR_MEM_MASK, bar_size = 2 ^ 17\<rparr>],
    bar_nr := Suc (bar_nr demo_dev)\<rparr>]\<rparr>)"
    by (rule record_bar_finds [OF d _ _ r]) (simp_all add: demo_dev_def take_bit_eq_mod)
  then show ?thesis by (simp add: demo_pci_def demo_dev_def)
qed

section \<open>The table stays well-formed\<close>

definition pci_wf :: "'a pci_scheme \<Rightarrow> bool" where
  "pci_wf s \<longleftrightarrow> length (pcidevs s) = NR_PCIDEV \<and> nr_pcidev s \<le> NR_PCIDEV \<and> length (pci_idt s) = NIDT \<and>
    (\<forall>i<NR_PCIDEV. length (bars (pcidevs s ! i)) = BAR_NR \<and> bar_nr (pcidevs s ! i) \<le> BAR_NR \<and>
      (nr_pcidev s \<le> i \<longrightarrow> bar_nr (pcidevs s ! i) = 0))"

text \<open>While the device in slot \<open>n\<close>, the next free one, is looked at: at most \<open>j\<close> of its registers are entered.\<close>

definition probing :: "nat \<Rightarrow> nat \<Rightarrow> 'a pci_scheme \<Rightarrow> bool" where
  "probing n j s \<longleftrightarrow> length (pcidevs s) = NR_PCIDEV \<and> n < NR_PCIDEV \<and> nr_pcidev s = n \<and> length (pci_idt s) = NIDT \<and>
    (\<forall>i<NR_PCIDEV. length (bars (pcidevs s ! i)) = BAR_NR \<and> bar_nr (pcidevs s ! i) \<le> BAR_NR \<and>
      (n < i \<longrightarrow> bar_nr (pcidevs s ! i) = 0) \<and> bar_nr (pcidevs s ! n) \<le> j)"

text \<open>The only ways to stop: a register that is implemented and has no address, and a table that is full.\<close>

definition ends :: "('b \<Rightarrow> bool) \<Rightarrow> 'b res \<Rightarrow> bool" where
  "ends P r \<longleftrightarrow> (case r of Inr x \<Rightarrow> P x | Inl e \<Rightarrow> e = Panic ''Bar is zero!'' \<or> e = Fault ''behind pcidev'')"

lemma ends_Inr: "P x \<Longrightarrow> ends P (Inr x)"
  by (simp add: ends_def)

lemma ends_bind: "ends P m \<Longrightarrow> (\<And>x. P x \<Longrightarrow> ends Q (f x)) \<Longrightarrow> ends Q (bindr m f)"
  by (cases m) (auto simp: ends_def)

lemma ends_mono: "ends P m \<Longrightarrow> (\<And>x. P x \<Longrightarrow> Q x) \<Longrightarrow> ends Q m"
  by (cases m) (auto simp: ends_def)

lemma at_dev_probing: "probing n j s \<Longrightarrow> at_dev n s = Inr (pcidevs s ! n)"
  by (simp add: at_dev_def probing_def)

lemma probing_update [simp]:
  "probing n j (s\<lparr>confadd := a\<rparr>) = probing n j s" "probing n j (s\<lparr>cfg := m\<rparr>) = probing n j s"
  by (simp_all add: probing_def)

lemma ends_attr:
  assumes "probing n j s"
  shows "ends (\<lambda>(_, t). probing n j t) (pci_attr_r8_u n p s)" "ends (\<lambda>(_, t). probing n j t) (pci_attr_r16 n p s)"
    "ends (\<lambda>(_, t). probing n j t) (pci_attr_r32_u n p s)" "ends (\<lambda>(_, t). probing n j t) (pci_attr_rsts n s)"
    "ends (probing n j) (pci_attr_w8 n p b s)" "ends (probing n j) (pci_attr_w16 n p h s)" "ends (probing n j) (pci_attr_w32 n p w s)"
proof -
  note at_dev_probing [OF assms]
  then show "ends (\<lambda>(_, t). probing n j t) (pci_attr_r8_u n p s)" "ends (\<lambda>(_, t). probing n j t) (pci_attr_r16 n p s)"
    "ends (\<lambda>(_, t). probing n j t) (pci_attr_r32_u n p s)" "ends (\<lambda>(_, t). probing n j t) (pci_attr_rsts n s)"
    "ends (probing n j) (pci_attr_w8 n p b s)" "ends (probing n j) (pci_attr_w16 n p h s)" "ends (probing n j) (pci_attr_w32 n p w s)"
    using assms by (simp_all add: pci_attr pci_attr_r8_u_def pci_attr_rsts_def pci_attr_w8_def PCII_RREG8_def PCII_RREG16_def
        PCII_RREG32_def PCII_WREG8_def PCII_WREG16_def PCII_WREG32_def Let_def ends_def)
qed

lemma ends_probe_bar:
  assumes "probing n j s"
  shows "ends (\<lambda>(_, t). probing n j t) (probe_bar n reg bar e s)"
  unfolding probe_bar_def
  by (rule ends_bind, rule ends_attr [OF assms], clarsimp, rule ends_bind, erule ends_attr,
      rule ends_bind, erule ends_attr, rule ends_bind, erule ends_attr, clarsimp,
      rule ends_bind, erule ends_attr, rule ends_bind, erule ends_attr, rule ends_Inr, simp)

lemma ends_add_bar:
  assumes "probing n j s" "j < BAR_NR"
  shows "ends (probing n (Suc j)) (add_bar n f i base sz s)"
proof -
  have "at_dev n s = Inr (pcidevs s ! n)" "bar_nr (pcidevs s ! n) < BAR_NR"
    using assms by (auto simp: at_dev_def probing_def)
  then show ?thesis using assms by (auto simp: add_bar_def upd_dev_def ends_def probing_def nth_list_update)
qed

lemma probing_Suc: "probing n j s \<Longrightarrow> probing n (Suc j) s"
  by (auto simp: probing_def)

lemma ends_record_mem_bar:
  assumes "probing n j s" "j < BAR_NR"
  shows "ends (\<lambda>(_, t). probing n (Suc j) t) (record_mem_bar n i reg wide bar s)"
  unfolding record_mem_bar_def
  by (rule ends_bind, rule ends_probe_bar [OF assms(1)])
    (auto intro!: ends_Inr probing_Suc ends_bind [OF ends_add_bar [OF _ assms(2)]])

lemma ends_record_bar:
  assumes "probing n j s" "j < BAR_NR"
  shows "ends (\<lambda>(_, t). probing n (Suc j) t) (record_bar n i is_last s)"
  unfolding record_bar_def Let_def
  by (rule ends_bind, rule ends_attr [OF assms(1)])
    (auto intro!: ends_Inr probing_Suc ends_record_mem_bar ends_bind [OF ends_attr(3)] ends_bind [OF ends_probe_bar]
      ends_bind [OF ends_add_bar [OF _ assms(2)]] simp: assms(2))

lemma ends_record_bars_from:
  "probing n i s \<Longrightarrow> ends (\<lambda>t. \<exists>j. probing n j t) (record_bars_from n PCI_BAR_6 i s)"
proof (induction n "PCI_BAR_6 :: nat" i s rule: record_bars_from.induct)
  case (1 n i s)
  show ?case
  proof (cases "PCI_BAR + 4 * i \<le> (PCI_BAR_6 :: nat)")
    case True
    then have e: "ends (\<lambda>(_, t). probing n (Suc i) t) (record_bar n i (PCI_BAR + 4 * i = (PCI_BAR_6 :: nat)) s)"
      using 1(2) by (intro ends_record_bar) auto
    show ?thesis
    proof (cases "record_bar n i (PCI_BAR + 4 * i = (PCI_BAR_6 :: nat)) s")
      case (Inl x)
      then show ?thesis using True e by (subst record_bars_from.simps) (simp add: ends_def)
    next
      case (Inr x)
      then obtain wide t where x: "x = (wide, t)" "probing n (Suc i) t" using e by (auto simp: ends_def)
      then have "probing n (i + (if wide then 2 else 1)) t" using probing_Suc [OF x(2)] by simp
      then have "ends (\<lambda>t. \<exists>j. probing n j t) (record_bars_from n PCI_BAR_6 (i + (if wide then 2 else 1)) t)"
        using 1(1) [OF True Inr] x(1) by blast
      then show ?thesis using True Inr x(1) by (subst record_bars_from.simps) simp
    qed
  next
    case False
    then show ?thesis using 1(2) by (subst record_bars_from.simps) (auto intro!: ends_Inr)
  qed
qed

lemma ends_upd_dev:
  assumes "probing n j s" "\<And>d. bars (f d) = bars d \<and> bar_nr (f d) = bar_nr d"
  shows "ends (probing n j) (upd_dev n f s)"
  using assms by (auto simp: upd_dev_def at_dev_def ends_def probing_def nth_list_update)

lemma ends_read_device:
  assumes "probing n j s"
  shows "ends (probing n j) (read_device n s)"
  unfolding read_device_def
  by (rule ends_bind, rule ends_attr [OF assms], clarsimp, rule ends_bind, erule ends_upd_dev, simp,
      rule ends_bind, erule ends_attr, clarsimp, rule ends_bind, erule ends_upd_dev, simp,
      (rule ends_bind, erule ends_attr, clarsimp)+, erule ends_upd_dev, simp)

lemma ends_for_loop:
  assumes "\<And>k x. P x \<Longrightarrow> k0 \<le> k \<Longrightarrow> k < k0 + n \<Longrightarrow> ends P (body k x)" "P x"
  shows "ends P (for_loop n k0 body x)"
  using assms
proof (induction n arbitrary: k0 x)
  case (Suc n)
  then show ?case by (auto intro!: ends_bind [where P = P])
qed (simp add: ends_Inr)

lemma pirq_of_less: "unat (pirq_of dv fn pin) < 4"
proof -
  have "w AND 3 = take_bit 2 w" for w :: cint by (simp add: take_bit_eq_mask mask_eq_exp_minus_1)
  then show ?thesis
    using take_bit_nat_less_exp [of 2 "unat (drop_bit 3 (of_nat (dv * 8 + fn)) + pin - 2 :: cint)"]
    by (simp add: pirq_of_def unsigned_ucast_eq unsigned_take_bit_eq take_bit_nat_eq_self)
qed

lemma ends_setup_network:
  assumes "probing n 0 s"
  shows "ends (\<lambda>t. \<exists>j. probing n j t) (setup_network h n dv fn s)"
proof -
  note d = at_dev_probing [OF assms]
  have "ends (\<lambda>t. length t = NIDT) (for_loop 4 0 (\<lambda>k. add_irq h (32 + unat (pirq_of dv fn (ipr (pcidevs s ! n))) + k + 16)) (pci_idt s))"
    using assms pirq_of_less [of dv fn "ipr (pcidevs s ! n)"]
    by (intro ends_for_loop) (auto simp: add_irq_def ends_def probing_def)
  moreover have "probing n 0 (s\<lparr>pci_ioapic := io, pci_idt := t\<rparr>)" if "length t = NIDT" for io t
    using that assms by (simp add: probing_def)
  ultimately show ?thesis
    unfolding setup_network_def record_bars_def d Let_def
    by (auto intro!: ends_bind [where P = "\<lambda>t. length t = NIDT"] ends_bind [OF ends_attr(5)] ends_record_bars_from)
qed

text \<open>Once every slot is taken, the next function that is looked at is written behind the table.\<close>

lemma probe_func_full: "length (pcidevs s) \<le> nr_pcidev s \<Longrightarrow> probe_func h bus dv fn s = Inl (Fault ''behind pcidev'')"
  by (simp add: probe_func_def upd_dev_def at_dev_def)

lemma probing_start: "pci_wf s \<Longrightarrow> nr_pcidev s < NR_PCIDEV \<Longrightarrow> probing (nr_pcidev s) 0 s"
  by (auto simp: pci_wf_def probing_def)

lemma probing_end: "probing n j s \<Longrightarrow> pci_wf (s\<lparr>nr_pcidev := Suc n\<rparr>)"
  by (auto simp: pci_wf_def probing_def)

lemma probing_wf: "probing n 0 s \<Longrightarrow> pci_wf s"
  by (auto simp: pci_wf_def probing_def)

lemma ends_probe_free:
  assumes "pci_wf s" "nr_pcidev s < NR_PCIDEV"
  shows "ends pci_wf (probe_func h bus dv fn s)"
proof -
  let ?n = "nr_pcidev s"
  have p: "probing ?n 0 s" using assms by (rule probing_start)
  have f: "ends pci_wf (bindr (at_dev ?n t) (\<lambda>d. bindr (if c d then setup_network h ?n dv fn t else Inr t)
      (\<lambda>t. Inr (t\<lparr>nr_pcidev := Suc ?n\<rparr>))))"
    if "probing ?n 0 t" for c and t :: "'a pci_scheme"
    using that at_dev_probing [OF that] ends_setup_network [OF that, of h dv fn]
    by (auto intro!: ends_Inr ends_bind [where P = "\<lambda>t. \<exists>j. probing ?n j t"] intro: probing_end)
  show ?thesis
    unfolding probe_func_def Let_def
    by (rule ends_bind, rule ends_upd_dev [OF p], simp, rule ends_bind, erule ends_attr, clarsimp, rule ends_bind, erule ends_attr)
      (auto intro!: ends_Inr ends_bind [OF ends_upd_dev] ends_bind [OF ends_read_device] f probing_wf [of ?n])
qed

lemma ends_probe_func: "pci_wf s \<Longrightarrow> ends pci_wf (probe_func h bus dv fn s)"
  using ends_probe_free [of s] probe_func_full [of s] by (cases "nr_pcidev s < NR_PCIDEV") (auto simp: pci_wf_def ends_def)

text \<open>
  C26.  The table of devices keeps its type.  Started on a table of fifty slots with six registers each, none of
  which is counted in a free slot, the search for devices ends with such a table, or stops for one of two
  reasons: a register without an address, or a function to look at while all slots are taken.  In particular
  no device ever gets a seventh register.
\<close>

theorem pci_init_keeps_table:
  assumes "pci_wf s"
  shows "case pci_init h s of
      Inr s' \<Rightarrow> pci_wf s'
    | Inl e \<Rightarrow> e = Panic ''Bar is zero!'' \<or> e = Fault ''behind pcidev''"
proof -
  have "ends pci_wf (probe_bus h bus t)" if "pci_wf t" for bus and t :: "'a pci_scheme"
    unfolding probe_bus_def using that by (intro ends_for_loop ends_probe_func)
  moreover have "pci_wf (s\<lparr>confadd := 0\<rparr>)" using assms by (simp add: pci_wf_def)
  ultimately have "ends pci_wf (pci_init h s)"
    by (simp add: pci_init_def PCII_RREG16_def Let_def ends_for_loop)
  then show ?thesis by (simp add: ends_def)
qed

theorem pci_init_keeps_table_witness:
  "\<exists>s :: pci. pci_wf s \<and> (case pci_init (\<lambda>_. 0) s of
      Inr s' \<Rightarrow> pci_wf s'
    | Inl e \<Rightarrow> e = Panic ''Bar is zero!'' \<or> e = Fault ''behind pcidev'')"
proof -
  have "pci_wf (demo_pci\<lparr>pci_idt := replicate NIDT (gate_of 0 0 0)\<rparr>)"
    by (simp add: pci_wf_def demo_pci_def demo_dev_def)
  then show ?thesis using pci_init_keeps_table by blast
qed

end
