(* ===== verification/E1000.thy ===== *)
theory E1000
  imports Pci Channel
begin

unbundle bit_operations_syntax

text \<open>
  The driver of the network card (\<open>src/drivers/net/e1000/main.c\<close>, \<open>e1000_hw.h\<close>) and its two connections to the
  network stack (\<open>lwip_input\<close> and \<open>arp_output\<close> of \<open>lwip-input.c\<close>).

  The card is a set of registers behind \<open>base_reg\<close>: writing the reset bit of the control register gives all of
  them the values they have after a reset, and the statistics are cleared when they are read.  It transmits the
  packets of a ring of descriptors and fills the buffers of another one; what it does on its own are the steps
  \<open>nic_send\<close> and \<open>nic_receive\<close>.  \<open>dma\<close> says which address of the driver lies at a physical address.  The network
  stack itself is a parameter.
\<close>

section \<open>State\<close>

record nic = pci +
  nmem :: memory
  nregs :: "addr \<Rightarrow> cint"
  nreset :: "addr \<Rightarrow> cint"
  bar0 :: addr
  dma :: "addr \<Rightarrow> addr"
  ncpu :: cpu_info
  base_reg :: addr
  size_reg :: addr
  rx_desc :: addr
  tx_desc :: addr
  rx_buf :: addr
  tx_buf :: addr

abbreviation (input) "E1000_RXDESC_NR \<equiv> 256"
abbreviation (input) "E1000_TXDESC_NR \<equiv> 256"
abbreviation (input) "E1000_IOBUF_SIZE \<equiv> 2048"
abbreviation (input) "E1000_REG_CTRL \<equiv> 0x00000"
abbreviation (input) "E1000_REG_STATUS \<equiv> 0x00008"
abbreviation (input) "E1000_REG_FCAL \<equiv> 0x00028"
abbreviation (input) "E1000_REG_FCAH \<equiv> 0x0002C"
abbreviation (input) "E1000_REG_FCT \<equiv> 0x00030"
abbreviation (input) "E1000_REG_IMS \<equiv> 0x000D0"
abbreviation (input) "E1000_REG_RCTL \<equiv> 0x00100"
abbreviation (input) "E1000_REG_TCTL \<equiv> 0x00400"
abbreviation (input) "E1000_REG_FCTTV \<equiv> 0x00170"
abbreviation (input) "E1000_REG_RDBAL \<equiv> 0x02800"
abbreviation (input) "E1000_REG_RDBAH \<equiv> 0x02804"
abbreviation (input) "E1000_REG_RDLEN \<equiv> 0x02808"
abbreviation (input) "E1000_REG_RDH \<equiv> 0x02810"
abbreviation (input) "E1000_REG_RDT \<equiv> 0x02818"
abbreviation (input) "E1000_REG_TDBAL \<equiv> 0x03800"
abbreviation (input) "E1000_REG_TDBAH \<equiv> 0x03804"
abbreviation (input) "E1000_REG_TDLEN \<equiv> 0x03808"
abbreviation (input) "E1000_REG_TDH \<equiv> 0x03810"
abbreviation (input) "E1000_REG_TDT \<equiv> 0x03818"
abbreviation (input) "E1000_REG_CRCERRS \<equiv> 0x04000"
abbreviation (input) "E1000_REG_TPR \<equiv> 0x040D0"
abbreviation (input) "E1000_REG_MTA \<equiv> 0x05200"
abbreviation (input) "E1000_REG_RAL \<equiv> 0x05400"
abbreviation (input) "E1000_REG_RAH \<equiv> 0x05404"

section \<open>The registers of the card\<close>

definition nic_store :: "addr \<Rightarrow> cint \<Rightarrow> 'a nic_scheme \<Rightarrow> 'a nic_scheme" where
  "nic_store off v s =
    (if off = E1000_REG_CTRL \<and> bit v 26 then s\<lparr>nregs := nreset s\<rparr> else s\<lparr>nregs := (nregs s)(off := v)\<rparr>)"

definition nic_load :: "addr \<Rightarrow> 'a nic_scheme \<Rightarrow> cint \<times> 'a nic_scheme" where
  "nic_load off s =
    (nregs s off, if E1000_REG_CRCERRS \<le> off \<and> off < E1000_REG_CRCERRS + 0x100 then s\<lparr>nregs := (nregs s)(off := 0)\<rparr> else s)"

definition e1000_reg_write :: "cint \<Rightarrow> cint \<Rightarrow> 'a nic_scheme \<Rightarrow> 'a nic_scheme res" where
  "e1000_reg_write reg v s =
    (if 0x1FFFF < reg then Inl (Panic ''E1000: regs > 0x1ffff'') else Inr (nic_store (base_reg s + ucast reg - bar0 s) v s))"

definition e1000_reg_read :: "cint \<Rightarrow> 'a nic_scheme \<Rightarrow> (cint \<times> 'a nic_scheme) res" where
  "e1000_reg_read reg s =
    (if 0x1FFFF \<le> reg then Inl (Panic ''E1000: regs < 0x1ffff'') else Inr (nic_load (base_reg s + ucast reg - bar0 s) s))"

definition e1000_reg_set :: "cint \<Rightarrow> cint \<Rightarrow> 'a nic_scheme \<Rightarrow> 'a nic_scheme res" where
  "e1000_reg_set reg v s = bindr (e1000_reg_read reg s) (\<lambda>(d, s1). e1000_reg_write reg (d OR v) s1)"

definition e1000_reg_unset :: "cint \<Rightarrow> cint \<Rightarrow> 'a nic_scheme \<Rightarrow> 'a nic_scheme res" where
  "e1000_reg_unset reg v s = bindr (e1000_reg_read reg s) (\<lambda>(d, s1). e1000_reg_write reg (d AND NOT v) s1)"

text \<open>The loop that waits is left out.\<close>

definition e1000_reset_hw :: "'a nic_scheme \<Rightarrow> 'a nic_scheme res" where
  "e1000_reset_hw s = e1000_reg_set E1000_REG_CTRL (push_bit 26 1) s"

section \<open>Starting the card\<close>

definition phys_of :: "string \<Rightarrow> addr \<Rightarrow> 'a nic_scheme \<Rightarrow> addr res" where
  "phys_of msg v s = bindr (virt2phys (ncpu s) v) (\<lambda>p. if p = 0 then Inl (Panic msg) else Inr p)"

definition set_buffers :: "addr \<Rightarrow> addr \<Rightarrow> 'a nic_scheme \<Rightarrow> 'a nic_scheme res" where
  "set_buffers desc p s =
    for_loop E1000_RXDESC_NR 0 (\<lambda>i t. Inr (t\<lparr>nmem := store32 (nmem t) (desc + of_nat (16 * i)) (ucast (p + of_nat (i * E1000_IOBUF_SIZE)))\<rparr>)) s"

definition e1000_init_buf :: "'a nic_scheme \<Rightarrow> 'a nic_scheme res" where
  "e1000_init_buf s =
    bindr (phys_of ''e1000_init_buf: rx_buf_p = 0'' (rx_buf s) s) (\<lambda>rx_buf_p.
    bindr (phys_of ''e1000_init_buf: rx_desc_p = 0'' (rx_desc s) s) (\<lambda>rx_desc_p.
    bindr (phys_of ''e1000_init_buf: tx_buf_p = 0'' (tx_buf s) s) (\<lambda>tx_buf_p.
    bindr (phys_of ''e1000_init_buf: tx_desc_p = 0'' (tx_desc s) s) (\<lambda>tx_desc_p.
      run
       [set_buffers (rx_desc s) rx_buf_p,
        set_buffers (tx_desc s) tx_buf_p,
        e1000_reg_write E1000_REG_RDBAL (ucast rx_desc_p),
        e1000_reg_write E1000_REG_RDBAH 0,
        e1000_reg_write E1000_REG_RDLEN (E1000_RXDESC_NR * 16),
        e1000_reg_write E1000_REG_RDH 0,
        e1000_reg_write E1000_REG_RDT (E1000_RXDESC_NR - 1),
        e1000_reg_unset E1000_REG_RCTL (push_bit 16 1 OR push_bit 17 1),
        e1000_reg_set E1000_REG_RCTL (push_bit 1 1),
        e1000_reg_write E1000_REG_TDBAL (ucast tx_desc_p),
        e1000_reg_write E1000_REG_TDBAH 0,
        e1000_reg_write E1000_REG_TDLEN (E1000_TXDESC_NR * 16),
        e1000_reg_write E1000_REG_TDH 0,
        e1000_reg_write E1000_REG_TDT 0,
        e1000_reg_set E1000_REG_TCTL (push_bit 1 1 OR push_bit 3 1)] s))))"

definition clear_mta :: "'a nic_scheme \<Rightarrow> 'a nic_scheme res" where
  "clear_mta s = for_loop 128 0 (\<lambda>i. e1000_reg_write (E1000_REG_MTA + of_nat i) 0) s"

definition clear_statistics :: "'a nic_scheme \<Rightarrow> 'a nic_scheme res" where
  "clear_statistics s = for_loop 64 0 (\<lambda>i. e1000_reg_write (E1000_REG_CRCERRS + of_nat (i * 4)) 0) s"

definition ims_bits :: cint where
  "ims_bits = push_bit 2 1 OR push_bit 6 1 OR push_bit 7 1 OR push_bit 1 1 OR push_bit 0 1"

definition e1000_init :: "(isr \<Rightarrow> addr) \<Rightarrow> 'a nic_scheme \<Rightarrow> 'a nic_scheme res" where
  "e1000_init h s =
    bindr (pci_init h s) (\<lambda>s1.
    bindr (pci_get_e1000_reg s1) (\<lambda>(b, z).
    bindr (e1000_reg_read E1000_REG_STATUS (s1\<lparr>base_reg := b, size_reg := z\<rparr>)) (\<lambda>(v, s2).
      if v AND 2 = 0 then Inl (Panic ''E1000 is not enabled!'')
      else
        run
         [e1000_reset_hw,
          e1000_reg_set E1000_REG_CTRL (push_bit 5 1 OR push_bit 6 1),
          e1000_reg_unset E1000_REG_CTRL (push_bit 3 1),
          e1000_reg_unset E1000_REG_CTRL (push_bit 31 1),
          e1000_reg_unset E1000_REG_CTRL (push_bit 7 1),
          e1000_reg_write E1000_REG_FCAL 0,
          e1000_reg_write E1000_REG_FCAH 0,
          e1000_reg_write E1000_REG_FCT 0,
          e1000_reg_write E1000_REG_FCTTV 0,
          e1000_reg_unset E1000_REG_CTRL (push_bit 30 1),
          clear_mta,
          clear_statistics,
          e1000_reg_write E1000_REG_RAL 0x12005452,
          e1000_reg_write E1000_REG_RAH 0x5634,
          e1000_reg_set E1000_REG_RAH (push_bit 31 1),
          e1000_reg_set E1000_REG_RCTL (push_bit 4 1),
          e1000_init_buf,
          e1000_reg_set E1000_REG_IMS ims_bits] s2)))"

section \<open>Sending and receiving\<close>

text \<open>\<open>(tail + 1) % 256\<close> on \<open>int\<close>.\<close>

definition next_desc :: "cint \<Rightarrow> cint" where
  "next_desc tail = (let k = sint (tail + 1) in word_of_int (sgn k * (abs k mod E1000_TXDESC_NR)))"

definition e1000_write :: "addr \<Rightarrow> cint \<Rightarrow> 'a nic_scheme \<Rightarrow> 'a nic_scheme res" where
  "e1000_write write_buf len s =
    bindr (e1000_reg_read E1000_REG_TDT s) (\<lambda>(tail, s1).
      let m1 = memcpy (tx_buf s1 + scast (tail * E1000_IOBUF_SIZE)) write_buf (scast len) (nmem s1);
          d = tx_desc s1 + 16 * scast tail;
          m2 = m1(d + 12 := 0);
          m3 = store_le 2 m2 (d + 8) (ucast len :: 16 word);
          m4 = m3(d + 11 := 1 OR 2 OR 8)
      in e1000_reg_write E1000_REG_TDT (next_desc tail) (s1\<lparr>nmem := m4\<rparr>))"

text \<open>\<open>input\<close> is \<open>lwip_input\<close>.\<close>

definition e1000_read :: "(addr \<Rightarrow> cint \<Rightarrow> 'a nic_scheme \<Rightarrow> 'a nic_scheme res) \<Rightarrow> 'a nic_scheme \<Rightarrow> 'a nic_scheme res" where
  "e1000_read input s =
    bindr (e1000_reg_read E1000_REG_RDT s) (\<lambda>(tail, s1).
      let cur = next_desc tail; desc = rx_desc s1 + 16 * scast tail; buf = rx_buf s1 + scast (cur * E1000_IOBUF_SIZE) in
      bindr (e1000_reg_write E1000_REG_RDT cur s1) (\<lambda>s2.
        input buf (ucast (load_le 2 (nmem s2) (desc + 8) :: 16 word)) s2))"

text \<open>One turn of the loop of \<open>rx_packet\<close>.\<close>

definition rx_turn :: "(addr \<Rightarrow> cint \<Rightarrow> 'a nic_scheme \<Rightarrow> 'a nic_scheme res) \<Rightarrow> 'a nic_scheme \<Rightarrow> 'a nic_scheme res" where
  "rx_turn input s =
    bindr (e1000_reg_read E1000_REG_TPR s) (\<lambda>(missed_packets, s1).
      for_loop (unat missed_packets) 0 (\<lambda>_. e1000_read input) s1)"

section \<open>The connections to the network stack\<close>

record pbuf =
  pb_next :: addr
  payload :: addr
  pb_len :: "16 word"

text \<open>\<open>pbuf_alloc\<close> and \<open>netif_input\<close> are those of the stack; a buffer that is not there is a null pointer.\<close>

definition lwip_input ::
    "('w \<Rightarrow> 16 word \<Rightarrow> pbuf option \<times> 'w) \<Rightarrow> (pbuf \<Rightarrow> 'w \<Rightarrow> 'w res) \<Rightarrow> addr \<Rightarrow> cint \<Rightarrow> 'w \<Rightarrow> 'w res" where
  "lwip_input pbuf_alloc netif_input packet len w =
    (case pbuf_alloc w (ucast len) of
       (None, _) \<Rightarrow> Inl (Fault ''null pbuf'')
     | (Some p, w1) \<Rightarrow> netif_input (p\<lparr>payload := packet\<rparr>) w1)"

definition arp_output :: "pbuf option \<Rightarrow> 'a nic_scheme \<Rightarrow> 'a nic_scheme res" where
  "arp_output p s =
    (case p of
       None \<Rightarrow> Inl (Panic ''arp_output: pbuf is null'')
     | Some b \<Rightarrow> if pb_next b \<noteq> 0 then Inl (Panic ''Packet is too big'') else e1000_write (payload b) (ucast (pb_len b)) s)"

section \<open>What the card does\<close>

text \<open>The numbers from the head to the tail of a ring of \<open>N\<close> places.\<close>

definition ring :: "nat \<Rightarrow> nat \<Rightarrow> nat \<Rightarrow> nat list" where
  "ring N h t = map (\<lambda>k. (h + k) mod N) [0..<(t + N - h) mod N]"

text \<open>The transmit ring: descriptors from the head up to the tail belong to the card.\<close>

definition tx_base :: "'a nic_scheme \<Rightarrow> addr" where
  "tx_base s = dma s (ucast (nregs s E1000_REG_TDBAL) OR push_bit 32 (ucast (nregs s E1000_REG_TDBAH)))"

definition tx_head :: "'a nic_scheme \<Rightarrow> nat" where
  "tx_head s = unat (nregs s E1000_REG_TDH)"

definition tx_tail :: "'a nic_scheme \<Rightarrow> nat" where
  "tx_tail s = unat (nregs s E1000_REG_TDT)"

definition tx_size :: "'a nic_scheme \<Rightarrow> nat" where
  "tx_size s = unat (nregs s E1000_REG_TDLEN) div 16"

definition tx_len :: "'a nic_scheme \<Rightarrow> nat \<Rightarrow> nat" where
  "tx_len s i = unat (load_le 2 (nmem s) (tx_base s + of_nat (16 * i) + 8) :: 16 word)"

definition tx_place :: "'a nic_scheme \<Rightarrow> nat \<Rightarrow> addr" where
  "tx_place s i = dma s (load64 (nmem s) (tx_base s + of_nat (16 * i)))"

definition tx_packet :: "'a nic_scheme \<Rightarrow> nat \<Rightarrow> byte list" where
  "tx_packet s i = map (\<lambda>k. nmem s (tx_place s i + of_nat k)) [0..<tx_len s i]"

definition tx_pending :: "'a nic_scheme \<Rightarrow> nat list" where
  "tx_pending s = ring (tx_size s) (tx_head s) (tx_tail s)"

definition tx_queue :: "'a nic_scheme \<Rightarrow> byte list list" where
  "tx_queue s = map (tx_packet s) (tx_pending s)"

definition nic_send :: "'a nic_scheme \<Rightarrow> (byte list \<times> 'a nic_scheme) option" where
  "nic_send s =
    (if tx_head s = tx_tail s then None
     else Some (tx_packet s (tx_head s), s\<lparr>nregs := (nregs s)(E1000_REG_TDH := of_nat ((tx_head s + 1) mod tx_size s))\<rparr>))"

text \<open>The receive ring: a packet is lost when the head has reached the tail.\<close>

definition rx_base :: "'a nic_scheme \<Rightarrow> addr" where
  "rx_base s = dma s (ucast (nregs s E1000_REG_RDBAL) OR push_bit 32 (ucast (nregs s E1000_REG_RDBAH)))"

definition nic_receive :: "byte list \<Rightarrow> 'a nic_scheme \<Rightarrow> 'a nic_scheme" where
  "nic_receive pkt s =
    (let hd = nregs s E1000_REG_RDH; d = rx_base s + 16 * ucast hd in
     if hd = nregs s E1000_REG_RDT then s
     else s\<lparr>nmem := (store_le 2 (put_bytes (nmem s) (dma s (load64 (nmem s) d)) pkt) (d + 8) (of_nat (length pkt) :: 16 word))(d + 12 := 3),
       nregs := (nregs s)(E1000_REG_RDH := of_nat (Suc (unat hd) mod (unat (nregs s E1000_REG_RDLEN) div 16)),
         E1000_REG_TPR := nregs s E1000_REG_TPR + 1)\<rparr>)"

section \<open>Rings\<close>

lemma ring_unfold: "h < N \<Longrightarrow> t < N \<Longrightarrow> ring N h t = (if h \<le> t then [h..<t] else [h..<N] @ [0..<t])"
proof (cases "h \<le> t")
  case True
  assume b: "h < N" "t < N"
  have e: "t + N - h = t - h + N" using True by simp
  have "(t + N - h) mod N = t - h" unfolding e using b by (subst mod_add_self2) simp
  then show ?thesis using True b by (intro nth_equalityI) (simp_all add: ring_def)
next
  case False
  assume b: "h < N" "t < N"
  have c: "(t + N - h) mod N = t + N - h" using False b by simp
  have m: "(h + k) mod N = (if h + k < N then h + k else h + k - N)" if "k < t + N - h" for k
    using that b False by (simp add: mod_if)
  have "ring N h t ! k = ([h..<N] @ [0..<t]) ! k" if "k < t + N - h" for k
    using that b m [OF that] by (auto simp: ring_def c nth_append)
  then show ?thesis using False b by (simp add: list_eq_iff_nth_eq) (simp add: ring_def c)
qed

lemma ring_empty: "h < N \<Longrightarrow> ring N h h = []"
  by (simp add: ring_def)

lemma ring_range: "h < N \<Longrightarrow> t < N \<Longrightarrow> i \<in> set (ring N h t) \<Longrightarrow> i < N \<and> i \<noteq> t"
  by (auto simp: ring_unfold split: if_splits)

lemma ring_snoc:
  assumes "h < N" "t < N" "Suc t mod N \<noteq> h"
  shows "ring N h (Suc t mod N) = ring N h t @ [t]"
  using assms mod_less_divisor [of N "Suc t"] by (auto simp: ring_unfold mod_Suc split: if_splits)

lemma ring_pop:
  assumes "h < N" "t < N" "h \<noteq> t"
  shows "ring N h t = h # ring N (Suc h mod N) t"
  using assms by (auto simp: ring_unfold mod_Suc upt_conv_Cons split: if_splits)

section \<open>Writing one slot of a ring\<close>

text \<open>
  A ring has its descriptors at \<open>d\<close> and its buffers at \<open>b\<close>.  Memory \<open>m'\<close> differs from \<open>m\<close> only in the buffer of slot
  \<open>t\<close> and in the second half of its descriptor.
\<close>

definition slot_written :: "addr \<Rightarrow> addr \<Rightarrow> nat \<Rightarrow> memory \<Rightarrow> memory \<Rightarrow> bool" where
  "slot_written d b t m m' \<longleftrightarrow> disjoint_regions d 4096 b 0x80000 \<and> t < 256 \<and>
    (\<forall>x. \<not> in_region (b + of_nat (2048 * t)) 2048 x \<longrightarrow> \<not> in_region (d + of_nat (16 * t) + 8) 8 x \<longrightarrow> m' x = m x)"

lemma desc_not_buf:
  assumes "disjoint_regions d 4096 b 0x80000" "i < 256" "j < 256" "in_region (d + of_nat (16 * i)) 16 x"
  shows "\<not> in_region (b + of_nat (2048 * j)) 2048 x"
proof -
  have "in_region d 4096 x" using slot_region [of i 256 16 d x] assms(2,4) by simp
  then have "\<not> in_region b 0x80000 x" using assms(1) by (auto dest: disjoint_regionsD)
  then show ?thesis using slot_region [of j 256 2048 b x] assms(3) by auto
qed

lemma slot_desc:
  assumes "slot_written d b t m m'" "i < 256" "i \<noteq> t" "in_region (d + of_nat (16 * i)) 16 x"
  shows "m' x = m x"
proof -
  have "\<not> in_region (b + of_nat (2048 * t)) 2048 x"
    using assms by (intro desc_not_buf [of d b i]) (auto simp: slot_written_def)
  moreover have "\<not> in_region (d + of_nat (16 * t) + 8) 8 x"
    using slot_apart [of t i 256 16 d x] assms in_region_sub [of "d + of_nat (16 * t)" 8 8 x 16] by (auto simp: slot_written_def)
  ultimately show ?thesis using assms(1) by (simp add: slot_written_def)
qed

lemma slot_len:
  assumes "slot_written d b t m m'" "i < 256" "i \<noteq> t"
  shows "load_le 2 m' (d + of_nat (16 * i) + 8) = (load_le 2 m (d + of_nat (16 * i) + 8) :: 16 word)"
  using in_region_sub [of "d + of_nat (16 * i)" 8 2 _ 16] slot_desc [OF assms] by (intro load_cong) auto

lemma slot_place:
  assumes "slot_written d b t m m'" "i < 256"
  shows "load64 m' (d + of_nat (16 * i)) = load64 m (d + of_nat (16 * i))"
proof (rule load_cong)
  fix x assume x: "in_region (d + of_nat (16 * i)) 8 x"
  then have x16: "in_region (d + of_nat (16 * i)) 16 x" by (rule in_region_mono) simp
  show "m' x = m x"
  proof (cases "i = t")
    case True
    have "disjoint_regions (d + of_nat (16 * i) + 0) 8 (d + of_nat (16 * i) + 8) 8"
      by (rule sep_off_disjoint) (simp add: sep_off_def)
    then have "\<not> in_region (d + of_nat (16 * t) + 8) 8 x" using x True by (auto dest: disjoint_regionsD)
    then show ?thesis using assms desc_not_buf [OF _ assms(2) _ x16, of b t] True by (auto simp: slot_written_def)
  qed (rule slot_desc [OF assms _ x16])
qed simp

lemma slot_buf:
  assumes "slot_written d b t m m'" "i < 256" "i \<noteq> t" "in_region (b + of_nat (2048 * i)) 2048 x"
  shows "m' x = m x"
proof -
  have "\<not> in_region (b + of_nat (2048 * t)) 2048 x"
    using slot_apart [of t i 256 2048 b x] assms by (auto simp: slot_written_def)
  moreover have "\<not> in_region (d + of_nat (16 * t) + 8) 8 x"
    using desc_not_buf [of d b t i x] assms in_region_sub [of "d + of_nat (16 * t)" 8 8 x 16] by (auto simp: slot_written_def)
  ultimately show ?thesis using assms(1) by (simp add: slot_written_def)
qed

lemma in_slot: "k < 2048 \<Longrightarrow> in_region p 2048 (p + of_nat k)"
  using unat_of_nat_small [where ?'a = 64, of k] by (simp add: in_region_def)

section \<open>The transmit ring is a queue\<close>

definition tx_ok :: "'a nic_scheme \<Rightarrow> bool" where
  "tx_ok s \<longleftrightarrow> base_reg s = bar0 s \<and> nregs s E1000_REG_TDLEN = 4096 \<and> tx_head s < 256 \<and> tx_tail s < 256 \<and>
    tx_base s = tx_desc s \<and> (\<forall>i<256. tx_place s i = tx_buf s + of_nat (2048 * i)) \<and>
    disjoint_regions (tx_desc s) 4096 (tx_buf s) 0x80000 \<and> (\<forall>i\<in>set (tx_pending s). tx_len s i \<le> 2048)"

lemma reg_write_plain:
  assumes "base_reg s = bar0 s" "reg \<le> 0x1FFFF" "reg \<noteq> 0"
  shows "e1000_reg_write reg v s = Inr (s\<lparr>nregs := (nregs s)(ucast reg := v)\<rparr>)"
proof -
  have "unat (ucast reg :: addr) = unat reg" by (rule unat_ucast_addr)
  then have "ucast reg \<noteq> (0 :: addr)" using assms(3) by (metis unat_eq_0)
  then show ?thesis using assms(1,2) by (simp add: e1000_reg_write_def nic_store_def)
qed

lemma next_desc_small:
  assumes "unat t < 256"
  shows "next_desc t = of_nat (Suc (unat t) mod 256)"
proof -
  have e: "t + 1 = of_nat (Suc (unat t))" by simp
  have "sint (of_nat (Suc (unat t)) :: cint) = int (Suc (unat t))" using assms by (intro sint_of_nat_cint) simp
  moreover have "int (Suc (unat t)) mod 256 = int (Suc (unat t) mod 256)" by (simp add: zmod_int)
  ultimately show ?thesis unfolding next_desc_def e Let_def by (simp del: of_nat_Suc)
qed

text \<open>The memory after a packet of \<open>n\<close> bytes has been put into slot \<open>t\<close>.\<close>

definition tx_filled :: "addr \<Rightarrow> nat \<Rightarrow> 'a nic_scheme \<Rightarrow> memory" where
  "tx_filled p n s =
    (let d = tx_desc s + of_nat (16 * tx_tail s) in
     (store_le 2 ((memcpy (tx_buf s + of_nat (2048 * tx_tail s)) p (of_nat n) (nmem s))(d + 12 := 0)) (d + 8) (of_nat n :: 16 word))
       (d + 11 := 0xB))"

lemma e1000_write_result:
  assumes "tx_ok s" "n \<le> 2048"
  shows "e1000_write p (of_nat n) s =
    Inr (s\<lparr>nmem := tx_filled p n s, nregs := (nregs s)(E1000_REG_TDT := of_nat (Suc (tx_tail s) mod 256))\<rparr>)"
proof -
  let ?t = "nregs s E1000_REG_TDT"
  have t: "unat ?t < 256" using assms(1) by (simp add: tx_ok_def tx_tail_def)
  obtain k where k: "?t = of_nat k" "k < 256" "tx_tail s = k" using t that [of "unat ?t"] by (simp add: tx_tail_def)
  then have "scast (?t * 2048) = (of_nat (2048 * k) :: addr)" "scast ?t = (of_nat k :: addr)"
    using scast_of_nat_cint [of "2048 * k"] scast_of_nat_cint [of k] by (simp_all add: mult.commute)
  moreover have "scast (of_nat n :: cint) = (of_nat n :: addr)" using assms(2) by (intro scast_of_nat_cint) simp
  moreover have "ucast (of_nat n :: cint) = (of_nat n :: 16 word)" by (rule bit_word_eqI) (auto simp: bit_simps)
  ultimately show ?thesis
    using assms(1) next_desc_small [OF t] k(3) t
    by (simp add: e1000_write_def e1000_reg_read_def nic_load_def tx_ok_def reg_write_plain tx_filled_def Let_def flip: tx_tail_def)
qed

lemma tx_filled_outside:
  assumes "\<not> in_region (tx_buf s + of_nat (2048 * tx_tail s)) 2048 x" "\<not> in_region (tx_desc s + of_nat (16 * tx_tail s) + 8) 8 x"
    "n \<le> 2048"
  shows "tx_filled p n s x = nmem s x"
proof -
  let ?d = "tx_desc s + of_nat (16 * tx_tail s)"
  have "x \<noteq> ?d + 12" "\<not> in_region (?d + 8) 2 x" "x \<noteq> ?d + 11"
    using assms(2) by (auto simp: in_region_def)
  moreover have "unat (of_nat n :: addr) = n" using assms(3) by (intro unat_of_nat_small) simp
  then have "\<not> in_region (tx_buf s + of_nat (2048 * tx_tail s)) (unat (of_nat n :: addr)) x"
    using assms(1,3) in_region_mono [of _ n x 2048] by auto
  ultimately show ?thesis by (simp add: tx_filled_def Let_def store_le_apply memcpy_outside)
qed

lemma tx_filled_len: "load_le 2 (tx_filled p n s) (tx_desc s + of_nat (16 * tx_tail s) + 8) = (of_nat n :: 16 word)"
  unfolding tx_filled_def Let_def by (subst load_upd_other) (simp_all add: in_region_def load_store_same)

lemma tx_filled_slot: "tx_ok s \<Longrightarrow> n \<le> 2048 \<Longrightarrow> slot_written (tx_desc s) (tx_buf s) (tx_tail s) (nmem s) (tx_filled p n s)"
  using tx_filled_outside by (auto simp: slot_written_def tx_ok_def)

lemma tx_filled_data:
  assumes "tx_ok s" "n \<le> 2048" "k < n" "disjoint_regions (tx_buf s + of_nat (2048 * tx_tail s)) n p n"
  shows "tx_filled p n s (tx_buf s + of_nat (2048 * tx_tail s) + of_nat k) = nmem s (p + of_nat k)"
proof -
  let ?x = "tx_buf s + of_nat (2048 * tx_tail s) + of_nat k" and ?d = "tx_desc s + of_nat (16 * tx_tail s)"
  have t: "tx_tail s < 256" using assms(1) by (simp add: tx_ok_def)
  have "in_region (tx_buf s + of_nat (2048 * tx_tail s)) 2048 ?x" using assms(2,3) by (intro in_slot) simp
  then have "\<not> in_region ?d 16 ?x" using desc_not_buf [OF _ t t] assms(1) by (auto simp: tx_ok_def)
  moreover have "in_region ?d 16 (?d + 12)" "in_region ?d 16 (?d + 11)" "in_region (?d + 8) 2 ?x \<Longrightarrow> in_region ?d 16 ?x"
    using in_region_sub [of ?d 8 2 ?x 16] by (simp_all add: in_region_def)
  ultimately have "?x \<noteq> ?d + 12" "\<not> in_region (?d + 8) 2 ?x" "?x \<noteq> ?d + 11" by metis+
  moreover have "memcpy (tx_buf s + of_nat (2048 * tx_tail s)) p (of_nat n) (nmem s) ?x = nmem s (p + of_nat k)"
    using assms(2-4) by (intro memcpy_copied) auto
  ultimately show ?thesis by (simp add: tx_filled_def Let_def store_le_apply)
qed

text \<open>The state after a call.\<close>

definition tx_after :: "addr \<Rightarrow> nat \<Rightarrow> 'a nic_scheme \<Rightarrow> 'a nic_scheme" where
  "tx_after p n s = s\<lparr>nmem := tx_filled p n s, nregs := (nregs s)(E1000_REG_TDT := of_nat (Suc (tx_tail s) mod 256))\<rparr>"

lemma tx_after_simps [simp]:
  "nmem (tx_after p n s) = tx_filled p n s" "tx_desc (tx_after p n s) = tx_desc s" "tx_buf (tx_after p n s) = tx_buf s"
  "tx_base (tx_after p n s) = tx_base s" "tx_head (tx_after p n s) = tx_head s" "tx_size (tx_after p n s) = tx_size s"
  "base_reg (tx_after p n s) = base_reg s" "bar0 (tx_after p n s) = bar0 s"
  "nregs (tx_after p n s) E1000_REG_TDLEN = nregs s E1000_REG_TDLEN" "dma (tx_after p n s) = dma s"
  by (simp_all add: tx_after_def tx_base_def tx_head_def tx_size_def)

lemma tx_after_tail [simp]: "tx_tail (tx_after p n s) = Suc (tx_tail s) mod 256"
  unfolding tx_after_def tx_tail_def by (simp del: of_nat_Suc) (rule unat_of_nat_small, simp)

lemma tx_after_len:
  assumes "tx_ok s" "n \<le> 2048" "i < 256"
  shows "tx_len (tx_after p n s) i = (if i = tx_tail s then n else tx_len s i)"
proof (cases "i = tx_tail s")
  case True
  have "unat (of_nat n :: 16 word) = n" using assms(2) by (intro unat_of_nat_small) simp
  then show ?thesis using True assms(1) tx_filled_len [of p n s] by (simp add: tx_len_def tx_ok_def)
next
  case False
  then show ?thesis using slot_len [OF tx_filled_slot [OF assms(1,2)] assms(3), of p] assms(1) by (simp add: tx_len_def tx_ok_def)
qed

lemma tx_after_place:
  assumes "tx_ok s" "n \<le> 2048" "i < 256"
  shows "tx_place (tx_after p n s) i = tx_place s i"
  using slot_place [OF tx_filled_slot [OF assms(1,2)] assms(3), of p] assms(1) by (simp add: tx_place_def tx_ok_def)

lemma tx_after_packet:
  assumes "tx_ok s" "n \<le> 2048" "i < 256" "i \<noteq> tx_tail s" "tx_len s i \<le> 2048"
  shows "tx_packet (tx_after p n s) i = tx_packet s i"
  using assms slot_buf [OF tx_filled_slot [OF assms(1,2)] assms(3,4) in_slot]
  by (auto simp: tx_packet_def tx_after_len tx_after_place tx_ok_def)

lemma tx_after_new:
  assumes "tx_ok s" "bytes_at (nmem s) p pkt" "length pkt \<le> 2048"
    "disjoint_regions (tx_buf s + of_nat (2048 * tx_tail s)) (length pkt) p (length pkt)"
  shows "tx_packet (tx_after p (length pkt) s) (tx_tail s) = pkt"
proof -
  have t: "tx_tail s < 256" "tx_place s (tx_tail s) = tx_buf s + of_nat (2048 * tx_tail s)" using assms(1) by (auto simp: tx_ok_def)
  then show ?thesis
    using assms(2) tx_filled_data [OF assms(1,3) _ assms(4)]
    by (intro nth_equalityI) (simp_all add: tx_packet_def tx_after_len [OF assms(1,3)] tx_after_place [OF assms(1,3)] bytes_at_nth)
qed

lemma tx_size_ok: "tx_ok s \<Longrightarrow> tx_size s = 256"
  by (simp add: tx_ok_def tx_size_def)

lemma tx_append:
  assumes "tx_ok s" "bytes_at (nmem s) p pkt" "length pkt \<le> 2048" "Suc (tx_tail s) mod 256 \<noteq> tx_head s"
    "disjoint_regions (tx_buf s + of_nat (2048 * tx_tail s)) (length pkt) p (length pkt)"
  shows "tx_queue (tx_after p (length pkt) s) = tx_queue s @ [pkt]" "tx_ok (tx_after p (length pkt) s)"
proof -
  have b: "tx_head s < 256" "tx_tail s < 256" using assms(1) by (simp_all add: tx_ok_def)
  have p: "tx_pending (tx_after p (length pkt) s) = tx_pending s @ [tx_tail s]"
    using ring_snoc [OF b assms(4)] by (simp add: tx_pending_def tx_size_ok [OF assms(1)])
  have r: "i < 256 \<and> i \<noteq> tx_tail s" if "i \<in> set (tx_pending s)" for i
    using ring_range [OF b] that by (simp add: tx_pending_def tx_size_ok [OF assms(1)])
  have l: "tx_len s i \<le> 2048" if "i \<in> set (tx_pending s)" for i using that assms(1) by (simp add: tx_ok_def)
  show "tx_queue (tx_after p (length pkt) s) = tx_queue s @ [pkt]"
    using r l tx_after_packet [OF assms(1,3)] tx_after_new [OF assms(1-3,5)] by (auto simp: tx_queue_def p)
  show "tx_ok (tx_after p (length pkt) s)"
    using assms(1,3) b r l tx_after_len [OF assms(1,3)] tx_after_place [OF assms(1,3)]
    by (auto simp: tx_ok_def p)
qed

lemma tx_send:
  assumes "tx_ok s" "nic_send s = Some (pkt, s')"
  shows "tx_queue s = pkt # tx_queue s'" "tx_ok s'"
proof -
  let ?h = "Suc (tx_head s) mod 256"
  have s': "s' = s\<lparr>nregs := (nregs s)(E1000_REG_TDH := of_nat ?h)\<rparr>" and ht: "tx_head s \<noteq> tx_tail s" "pkt = tx_packet s (tx_head s)"
    using assms tx_size_ok [OF assms(1)] by (auto simp: nic_send_def split: if_splits)
  have [simp]: "tx_base s' = tx_base s" "tx_tail s' = tx_tail s" "tx_size s' = tx_size s" "nmem s' = nmem s" "dma s' = dma s"
    "tx_desc s' = tx_desc s" "tx_buf s' = tx_buf s" "base_reg s' = base_reg s" "bar0 s' = bar0 s"
    "nregs s' E1000_REG_TDLEN = nregs s E1000_REG_TDLEN"
    by (simp_all add: s' tx_base_def tx_tail_def tx_size_def)
  have h: "tx_head s' = ?h" unfolding s' tx_head_def by (simp del: of_nat_Suc) (rule unat_of_nat_small, simp)
  have [simp]: "tx_place s' = tx_place s" "tx_len s' = tx_len s" "tx_packet s' = tx_packet s"
    by (auto simp: tx_place_def tx_len_def tx_packet_def)
  have b: "tx_head s < 256" "tx_tail s < 256" using assms(1) by (simp_all add: tx_ok_def)
  have p: "tx_pending s = tx_head s # tx_pending s'"
    using ring_pop [OF b ht(1)] by (simp add: tx_pending_def tx_size_ok [OF assms(1)] h)
  show "tx_queue s = pkt # tx_queue s'" by (simp add: tx_queue_def p ht(2))
  show "tx_ok s'" using assms(1) by (auto simp: tx_ok_def h p)
qed

text \<open>
  What happens over time, with what was handed to the driver and what has left the card: calls of
  \<open>e1000_write\<close> while the ring has a free place, packets that the card sends, and changes of the memory
  outside the ring and its buffers.
\<close>

inductive tx_run :: "'a nic_scheme \<Rightarrow> byte list list \<Rightarrow> byte list list \<Rightarrow> 'a nic_scheme \<Rightarrow> bool" for s where
  tx_start: "tx_run s [] [] s"
| tx_write: "tx_run s w out t \<Longrightarrow> bytes_at (nmem t) p pkt \<Longrightarrow> length pkt \<le> 2048 \<Longrightarrow>
    disjoint_regions (tx_buf t) 0x80000 p (length pkt) \<Longrightarrow> Suc (tx_tail t) mod 256 \<noteq> tx_head t \<Longrightarrow>
    e1000_write p (of_nat (length pkt)) t = Inr t' \<Longrightarrow> tx_run s (w @ [pkt]) out t'"
| tx_sent: "tx_run s w out t \<Longrightarrow> nic_send t = Some (pkt, t') \<Longrightarrow> tx_run s w (out @ [pkt]) t'"
| tx_others: "tx_run s w out t \<Longrightarrow>
    (\<And>x. in_region (tx_desc t) 4096 x \<or> in_region (tx_buf t) 0x80000 x \<Longrightarrow> m x = nmem t x) \<Longrightarrow>
    tx_run s w out (t\<lparr>nmem := m\<rparr>)"

lemma buf_slot:
  assumes "i < 256" "k < 2048"
  shows "in_region (tx_buf s) 0x80000 (tx_buf s + of_nat (2048 * i) + of_nat k)"
proof -
  have "in_region (tx_buf s + of_nat (2048 * i)) 2048 (tx_buf s + of_nat (2048 * i) + of_nat k)"
    using assms(2) by (rule in_slot)
  then show ?thesis using slot_region [of i 256 2048 "tx_buf s"] assms(1) by simp
qed

lemma buf_slot_disjoint:
  assumes "disjoint_regions (tx_buf s) 0x80000 p n" "i < 256" "n \<le> 2048"
  shows "disjoint_regions (tx_buf s + of_nat (2048 * i)) n p n"
  using assms slot_region [of i 256 2048 "tx_buf s"] in_region_mono [of _ n _ 2048]
  by (auto simp: disjoint_regions_def)

lemma tx_elsewhere:
  assumes "tx_ok s" "\<And>x. in_region (tx_desc s) 4096 x \<or> in_region (tx_buf s) 0x80000 x \<Longrightarrow> m x = nmem s x"
  shows "tx_queue (s\<lparr>nmem := m\<rparr>) = tx_queue s" "tx_ok (s\<lparr>nmem := m\<rparr>)"
proof -
  let ?t = "s\<lparr>nmem := m\<rparr>"
  have [simp]: "tx_base ?t = tx_base s" "tx_head ?t = tx_head s" "tx_tail ?t = tx_tail s" "tx_size ?t = tx_size s"
    by (simp_all add: tx_base_def tx_head_def tx_tail_def tx_size_def)
  have b: "tx_head s < 256" "tx_tail s < 256" using assms(1) by (simp_all add: tx_ok_def)
  have p: "tx_pending ?t = tx_pending s" by (simp add: tx_pending_def)
  have d: "m x = nmem s x" if "in_region (tx_desc s + of_nat (16 * i)) 16 x" "i < 256" for i x
    using slot_region [of i 256 16 "tx_desc s" x] that assms(2) by simp
  have l: "tx_len ?t i = tx_len s i" if "i < 256" for i
  proof -
    have "(load_le 2 m (tx_desc s + of_nat (16 * i) + 8) :: 16 word) = load_le 2 (nmem s) (tx_desc s + of_nat (16 * i) + 8)"
      using d [OF _ that] in_region_sub [of "tx_desc s + of_nat (16 * i)" 8 2 _ 16] by (intro load_cong) auto
    then show ?thesis using assms(1) by (simp add: tx_len_def tx_ok_def)
  qed
  have pl: "tx_place ?t i = tx_place s i" if "i < 256" for i
  proof -
    have "load64 m (tx_desc s + of_nat (16 * i)) = load64 (nmem s) (tx_desc s + of_nat (16 * i))"
      using d [OF _ that] in_region_mono [of "tx_desc s + of_nat (16 * i)" 8 _ 16] by (intro load_cong) auto
    then show ?thesis using assms(1) by (simp add: tx_place_def tx_ok_def)
  qed
  have r: "i < 256" if "i \<in> set (tx_pending s)" for i
    using ring_range [OF b] that by (simp add: tx_pending_def tx_size_ok [OF assms(1)])
  have pk: "tx_packet ?t i = tx_packet s i" if "i \<in> set (tx_pending s)" for i
    using that assms r [OF that] buf_slot [OF r [OF that], of _ s] by (auto simp: tx_packet_def l pl tx_ok_def)
  show "tx_queue ?t = tx_queue s" using pk by (simp add: tx_queue_def p)
  show "tx_ok ?t" using assms(1) l pl r by (auto simp: tx_ok_def p)
qed

lemma tx_run_queue:
  assumes "tx_run s w out t" "tx_ok s"
  shows "tx_ok t \<and> tx_queue s @ w = out @ tx_queue t"
  using assms
proof (induction rule: tx_run.induct)
  case (tx_write w out t p pkt t')
  then have ok: "tx_ok t" and q: "tx_queue s @ w = out @ tx_queue t" by auto
  have "disjoint_regions (tx_buf t + of_nat (2048 * tx_tail t)) (length pkt) p (length pkt)"
    using tx_write(3,4) ok by (intro buf_slot_disjoint) (auto simp: tx_ok_def)
  then show ?case
    using tx_append [OF ok tx_write(2,3,5)] tx_write(6) q by (simp add: e1000_write_result [OF ok tx_write(3)] flip: tx_after_def)
next
  case (tx_sent w out t pkt t')
  then show ?case using tx_send [of t pkt t'] by auto
next
  case (tx_others w out t m)
  then show ?case using tx_elsewhere [of t m] by auto
qed simp

text \<open>
  C13.  The transmit ring is a queue.  From an empty ring on, however calls of \<open>e1000_write\<close>, packets that the card
  sends and other work of the driver interleave, as long as no call is made with a full ring, what has been
  handed to the driver is what the card has sent followed by what still waits in the ring, in this order and
  byte for byte.
\<close>

theorem e1000_write_queues:
  assumes "tx_run s written out t" "tx_ok s" "tx_queue s = []"
  shows "written = out @ tx_queue t"
  using tx_run_queue [OF assms(1,2)] assms(3) by simp

text \<open>
  The driver does not look whether the ring is full.  A packet that is written when 255 packets wait makes the
  tail meet the head, so that the card takes the ring for empty: all 256 packets are lost.
\<close>

lemma e1000_write_full_loses:
  assumes "tx_ok s" "Suc (tx_tail s) mod 256 = tx_head s" "n \<le> 2048"
  shows "\<exists>s'. e1000_write p (of_nat n) s = Inr s' \<and> length (tx_queue s) = 255 \<and> tx_queue s' = []"
proof -
  have b: "tx_head s < 256" "tx_tail s < 256" using assms(1) by (simp_all add: tx_ok_def)
  have "length (tx_queue s) = 255"
    using ring_unfold [OF b] b assms(2) by (auto simp: tx_queue_def tx_pending_def tx_size_ok [OF assms(1)] mod_Suc split: if_splits)
  moreover have "tx_queue (tx_after p n s) = []"
    using ring_empty [OF b(1)] assms(2) by (simp add: tx_queue_def tx_pending_def tx_size_ok [OF assms(1)])
  ultimately show ?thesis by (simp add: e1000_write_result [OF assms(1,3)] flip: tx_after_def)
qed

section \<open>What the network stack gets\<close>

definition rx_head :: "'a nic_scheme \<Rightarrow> nat" where
  "rx_head s = unat (nregs s E1000_REG_RDH)"

definition rx_tail :: "'a nic_scheme \<Rightarrow> nat" where
  "rx_tail s = unat (nregs s E1000_REG_RDT)"

definition rx_len :: "'a nic_scheme \<Rightarrow> nat \<Rightarrow> 16 word" where
  "rx_len s i = load_le 2 (nmem s) (rx_desc s + of_nat (16 * i) + 8)"

definition rx_ok :: "'a nic_scheme \<Rightarrow> bool" where
  "rx_ok s \<longleftrightarrow> base_reg s = bar0 s \<and> nregs s E1000_REG_RDLEN = 4096 \<and> rx_head s < 256 \<and> rx_tail s < 256 \<and>
    rx_base s = rx_desc s \<and> (\<forall>i<256. dma s (load64 (nmem s) (rx_desc s + of_nat (16 * i))) = rx_buf s + of_nat (2048 * i)) \<and>
    disjoint_regions (rx_desc s) 4096 (rx_buf s) 0x80000"

text \<open>Every packet has been taken: the head is one place ahead of the tail.\<close>

definition rx_idle :: "'a nic_scheme \<Rightarrow> bool" where
  "rx_idle s \<longleftrightarrow> rx_ok s \<and> rx_head s = Suc (rx_tail s) mod 256"

definition rx_filled :: "byte list \<Rightarrow> 'a nic_scheme \<Rightarrow> memory" where
  "rx_filled pkt s =
    (let d = rx_desc s + of_nat (16 * rx_head s) in
     (store_le 2 (put_bytes (nmem s) (rx_buf s + of_nat (2048 * rx_head s)) pkt) (d + 8) (of_nat (length pkt) :: 16 word))(d + 12 := 3))"

definition rx_after :: "byte list \<Rightarrow> 'a nic_scheme \<Rightarrow> 'a nic_scheme" where
  "rx_after pkt s = s\<lparr>nmem := rx_filled pkt s, nregs := (nregs s)(E1000_REG_RDH := of_nat (Suc (rx_head s) mod 256),
     E1000_REG_TPR := nregs s E1000_REG_TPR + 1, E1000_REG_RDT := of_nat (rx_head s))\<rparr>"

lemma rx_filled_outside:
  assumes "\<not> in_region (rx_buf s + of_nat (2048 * rx_head s)) 2048 x" "\<not> in_region (rx_desc s + of_nat (16 * rx_head s) + 8) 8 x"
    "length pkt \<le> 2048"
  shows "rx_filled pkt s x = nmem s x"
proof -
  let ?d = "rx_desc s + of_nat (16 * rx_head s)"
  have "x \<noteq> ?d + 12" "\<not> in_region (?d + 8) 2 x" using assms(2) by (auto simp: in_region_def)
  moreover have "\<not> in_region (rx_buf s + of_nat (2048 * rx_head s)) (length pkt) x"
    using assms(1,3) in_region_mono [of _ "length pkt" x 2048] by auto
  ultimately show ?thesis using assms(3) by (simp add: rx_filled_def Let_def store_le_apply put_bytes_outside)
qed

lemma rx_filled_len: "load_le 2 (rx_filled pkt s) (rx_desc s + of_nat (16 * rx_head s) + 8) = (of_nat (length pkt) :: 16 word)"
  unfolding rx_filled_def Let_def by (subst load_upd_other) (simp_all add: in_region_def load_store_same)

lemma rx_filled_slot: "rx_ok s \<Longrightarrow> length pkt \<le> 2048 \<Longrightarrow> slot_written (rx_desc s) (rx_buf s) (rx_head s) (nmem s) (rx_filled pkt s)"
  using rx_filled_outside by (auto simp: slot_written_def rx_ok_def)

lemma rx_filled_data:
  assumes "rx_ok s" "length pkt \<le> 2048"
  shows "bytes_at (rx_filled pkt s) (rx_buf s + of_nat (2048 * rx_head s)) pkt"
proof -
  let ?b = "rx_buf s + of_nat (2048 * rx_head s)" and ?d = "rx_desc s + of_nat (16 * rx_head s)"
  have h: "rx_head s < 256" using assms(1) by (simp add: rx_ok_def)
  have "rx_filled pkt s x = put_bytes (nmem s) ?b pkt x" if "in_region ?b (length pkt) x" for x
  proof -
    have "in_region ?b 2048 x" using that assms(2) by (rule in_region_mono)
    then have "\<not> in_region ?d 16 x" using desc_not_buf [OF _ h h] assms(1) by (auto simp: rx_ok_def)
    moreover have "in_region ?d 16 (?d + 12)" "in_region (?d + 8) 2 x \<Longrightarrow> in_region ?d 16 x"
      using in_region_sub [of ?d 8 2 x 16] by (simp_all add: in_region_def)
    ultimately have "x \<noteq> ?d + 12" "\<not> in_region (?d + 8) 2 x" by metis+
    then show ?thesis by (simp add: rx_filled_def Let_def store_le_apply)
  qed
  then have "bytes_at (rx_filled pkt s) ?b pkt = bytes_at (put_bytes (nmem s) ?b pkt) ?b pkt"
    using assms(2) by (intro bytes_at_cong) auto
  then show ?thesis using assms(2) by (simp add: bytes_at_put_bytes)
qed

lemma rx_after_regs [simp]:
  "nmem (rx_after pkt s) = rx_filled pkt s" "rx_desc (rx_after pkt s) = rx_desc s" "rx_buf (rx_after pkt s) = rx_buf s"
  "rx_base (rx_after pkt s) = rx_base s" "base_reg (rx_after pkt s) = base_reg s" "bar0 (rx_after pkt s) = bar0 s"
  "nregs (rx_after pkt s) E1000_REG_RDLEN = nregs s E1000_REG_RDLEN" "dma (rx_after pkt s) = dma s"
  by (simp_all add: rx_after_def rx_base_def)

lemma rx_after_head [simp]: "rx_head (rx_after pkt s) = Suc (rx_head s) mod 256"
  unfolding rx_after_def rx_head_def by (simp del: of_nat_Suc) (rule unat_of_nat_small, simp)

lemma rx_after_tail [simp]: "rx_tail (rx_after pkt s) = rx_head s"
  by (simp add: rx_after_def rx_tail_def rx_head_def)

lemma rx_after_idle:
  assumes "rx_idle s" "length pkt \<le> 2048"
  shows "rx_idle (rx_after pkt s)"
  using assms slot_place [OF rx_filled_slot [OF _ assms(2), of s]] by (auto simp: rx_idle_def rx_ok_def)

lemma rx_after_len:
  assumes "rx_idle s" "length pkt \<le> 2048"
  shows "rx_len (rx_after pkt s) (rx_head s) = of_nat (length pkt)"
    "rx_len (rx_after pkt s) (rx_tail s) = rx_len s (rx_tail s)"
proof -
  show "rx_len (rx_after pkt s) (rx_head s) = of_nat (length pkt)" using rx_filled_len [of pkt s] by (simp add: rx_len_def)
  have "rx_tail s < 256" "rx_tail s \<noteq> rx_head s" using assms(1) by (auto simp: rx_idle_def rx_ok_def mod_Suc split: if_splits)
  then show "rx_len (rx_after pkt s) (rx_tail s) = rx_len s (rx_tail s)"
    using slot_len [OF rx_filled_slot [OF _ assms(2), of s]] assms(1) by (simp add: rx_len_def rx_idle_def)
qed

lemma nic_receive_idle:
  assumes "rx_idle s"
  shows "nic_receive pkt s = s\<lparr>nmem := rx_filled pkt s, nregs := (nregs s)(E1000_REG_RDH := of_nat (Suc (rx_head s) mod 256),
     E1000_REG_TPR := nregs s E1000_REG_TPR + 1)\<rparr>"
proof -
  have h: "rx_head s < 256" "rx_base s = rx_desc s" "nregs s E1000_REG_RDLEN = 4096"
    "dma s (load64 (nmem s) (rx_desc s + of_nat (16 * rx_head s))) = rx_buf s + of_nat (2048 * rx_head s)"
    using assms by (auto simp: rx_idle_def rx_ok_def)
  have d: "rx_base s + 16 * ucast (nregs s E1000_REG_RDH) = rx_desc s + of_nat (16 * rx_head s)"
    by (simp add: h(2) rx_head_def)
  have "nregs s E1000_REG_RDH \<noteq> nregs s E1000_REG_RDT"
    using assms h(1) by (auto simp: rx_idle_def rx_ok_def rx_head_def rx_tail_def mod_Suc split: if_splits)
  then show ?thesis unfolding nic_receive_def Let_def d h(4) by (simp add: rx_filled_def Let_def h(3) flip: rx_head_def)
qed

text \<open>What \<open>e1000_read\<close> passes on after the card has received a packet.\<close>

lemma rx_step:
  assumes "rx_idle s" "length pkt \<le> 2048"
  shows "e1000_read input (nic_receive pkt s) =
    input (rx_buf s + of_nat (2048 * rx_head s)) (ucast (rx_len s (rx_tail s))) (rx_after pkt s)"
proof -
  let ?s = "nic_receive pkt s"
  have ok: "base_reg s = bar0 s" "rx_head s < 256" "rx_tail s < 256" "rx_head s = Suc (rx_tail s) mod 256"
    using assms(1) by (auto simp: rx_idle_def rx_ok_def)
  have t: "nregs s E1000_REG_RDT = of_nat (rx_tail s)" by (simp add: rx_tail_def)
  have rd: "e1000_reg_read E1000_REG_RDT ?s = Inr (of_nat (rx_tail s), ?s)"
    using ok(1) t by (simp add: e1000_reg_read_def nic_load_def nic_receive_idle [OF assms(1)])
  have u: "unat (of_nat (rx_tail s) :: cint) = rx_tail s" using ok(3) by (intro unat_of_nat_small) simp
  have c: "next_desc (of_nat (rx_tail s)) = of_nat (rx_head s)" using next_desc_small [of "of_nat (rx_tail s)"] ok(3,4) u by simp
  have l: "rx_buf ?s = rx_buf s" "rx_desc ?s = rx_desc s" by (simp_all add: nic_receive_idle [OF assms(1)])
  have "scast (of_nat (2048 * rx_head s) :: cint) = (of_nat (2048 * rx_head s) :: addr)"
    by (rule scast_of_nat_cint) (use ok(2) in simp)
  then have sc: "scast (of_nat (rx_head s) * 2048 :: cint) = (of_nat (2048 * rx_head s) :: addr)"
    "scast (of_nat (rx_tail s) :: cint) = (of_nat (rx_tail s) :: addr)"
    using ok(3) by (simp_all add: mult.commute scast_of_nat_cint)
  have "e1000_reg_write E1000_REG_RDT (of_nat (rx_head s)) ?s = Inr (rx_after pkt s)"
    using ok(1) by (subst reg_write_plain) (simp_all add: nic_receive_idle [OF assms(1)] rx_after_def fun_upd_twist)
  then show ?thesis
    using rx_after_len(2) [OF assms] by (simp add: e1000_read_def rd c sc l Let_def rx_len_def)
qed

text \<open>
  C40.  The network stack gets every packet with the length of the one before it.  When the card has received the
  packet \<open>p\<close> and the driver has passed it on, and then receives the packet \<open>q\<close>, the driver passes on the
  buffer that holds \<open>q\<close>, but the length of \<open>p\<close>: \<open>e1000_read\<close> looks at the descriptor of the tail and not at the
  one after it.
\<close>

theorem e1000_read_stale_length:
  assumes "rx_idle s" "length p \<le> 2048" "length q \<le> 2048"
    "e1000_read (\<lambda>_ _ t. Inr t) (nic_receive p s) = Inr s1"
  shows "\<exists>s2. e1000_read input (nic_receive q s1) = input (rx_buf s + of_nat (2048 * rx_head s1)) (of_nat (length p)) s2 \<and>
    bytes_at (nmem s2) (rx_buf s + of_nat (2048 * rx_head s1)) q"
proof -
  have s1: "s1 = rx_after p s" using assms(4) rx_step [OF assms(1,2)] by simp
  have i: "rx_idle s1" unfolding s1 using assms(1,2) by (rule rx_after_idle)
  have "ucast (of_nat (length p) :: 16 word) = (of_nat (length p) :: cint)"
    using assms(2) by (intro word_unat_eq_iff [THEN iffD2]) (simp add: unsigned_ucast_eq unat_of_nat take_bit_nat_eq_self)
  then show ?thesis
    using rx_step [OF i assms(3), of input] rx_filled_data [of s1 q] i assms(3) rx_after_len(1) [OF assms(1,2)]
    by (auto simp: s1 rx_idle_def)
qed

section \<open>The rings after initialisation\<close>

lemma reg_read_plain:
  assumes "base_reg s = bar0 s" "reg < 0x1FFFF" "\<not> (0x4000 \<le> reg \<and> reg < 0x4100)"
  shows "e1000_reg_read reg s = Inr (nregs s (ucast reg), s)"
proof -
  have "\<not> (0x4000 \<le> (ucast reg :: addr) \<and> ucast reg < (0x4100 :: addr))"
    using assms(3) by (simp add: word_le_nat_alt word_less_nat_alt unat_ucast_addr)
  then show ?thesis using assms(1,2) by (auto simp: e1000_reg_read_def nic_load_def)
qed

lemma reg_set_plain:
  assumes "base_reg s = bar0 s" "reg < 0x1FFFF" "\<not> (0x4000 \<le> reg \<and> reg < 0x4100)" "reg \<noteq> 0"
  shows "e1000_reg_set reg v s = Inr (s\<lparr>nregs := (nregs s)(ucast reg := nregs s (ucast reg) OR v)\<rparr>)"
    "e1000_reg_unset reg v s = Inr (s\<lparr>nregs := (nregs s)(ucast reg := nregs s (ucast reg) AND NOT v)\<rparr>)"
  using assms by (simp_all add: e1000_reg_set_def e1000_reg_unset_def reg_read_plain reg_write_plain)

lemma set_buffers_loop:
  assumes "n + k \<le> 256"
  shows "\<exists>m. for_loop n k (\<lambda>i t. Inr (t\<lparr>nmem := store32 (nmem t) (d + of_nat (16 * i)) (ucast (p + of_nat (i * 2048)))\<rparr>)) s =
      Inr (s\<lparr>nmem := m\<rparr>) \<and> (\<forall>i. k \<le> i \<longrightarrow> i < n + k \<longrightarrow> load32 m (d + of_nat (16 * i)) = ucast (p + of_nat (i * 2048))) \<and>
      (\<forall>x. (\<forall>i. k \<le> i \<longrightarrow> i < n + k \<longrightarrow> \<not> in_region (d + of_nat (16 * i)) 4 x) \<longrightarrow> m x = nmem s x)"
  using assms
proof (induction n arbitrary: k s)
  case (Suc n)
  let ?s = "s\<lparr>nmem := store32 (nmem s) (d + of_nat (16 * k)) (ucast (p + of_nat (k * 2048)))\<rparr>"
  obtain m where m: "for_loop n (Suc k) (\<lambda>i t. Inr (t\<lparr>nmem := store32 (nmem t) (d + of_nat (16 * i)) (ucast (p + of_nat (i * 2048)))\<rparr>)) ?s =
      Inr (?s\<lparr>nmem := m\<rparr>)" "\<And>i. Suc k \<le> i \<Longrightarrow> i < n + Suc k \<Longrightarrow> load32 m (d + of_nat (16 * i)) = ucast (p + of_nat (i * 2048))"
      "\<And>x. (\<forall>i. Suc k \<le> i \<longrightarrow> i < n + Suc k \<longrightarrow> \<not> in_region (d + of_nat (16 * i)) 4 x) \<Longrightarrow> m x = nmem ?s x"
    using Suc.IH [of "Suc k" ?s] Suc.prems by auto
  have "m x = nmem ?s x" if "in_region (d + of_nat (16 * k)) 4 x" for x
  proof (rule m(3), intro allI impI)
    fix i assume i: "Suc k \<le> i" "i < n + Suc k"
    have "in_region (d + of_nat (16 * k)) 16 x" using that by (rule in_region_mono) simp
    then have "\<not> in_region (d + of_nat (16 * i)) 16 x" using slot_apart [of i k 256 16 d x] i Suc.prems by simp
    then show "\<not> in_region (d + of_nat (16 * i)) 4 x" using in_region_mono [of _ 4 x 16] by auto
  qed
  then have "load32 m (d + of_nat (16 * k)) = load32 (nmem ?s) (d + of_nat (16 * k))" by (intro load_cong) auto
  then have k: "load32 m (d + of_nat (16 * k)) = ucast (p + of_nat (k * 2048))" by (simp add: load_store_same)
  have o: "m x = nmem s x" if "\<forall>i. k \<le> i \<longrightarrow> i < Suc n + k \<longrightarrow> \<not> in_region (d + of_nat (16 * i)) 4 x" for x
    using m(3) [of x] that by (simp add: store_le_apply)
  have l: "load32 m (d + of_nat (16 * i)) = ucast (p + of_nat (i * 2048))" if "k \<le> i" "i < Suc n + k" for i
    using that k m(2) [of i] by (cases "i = k") auto
  show ?case using m(1) l o by (intro exI [of _ m]) simp
next
  case 0
  show ?case by (intro exI [of _ "nmem s"]) simp
qed

lemma load64_halves: "load64 m a = ucast (load32 m a) OR push_bit 32 (ucast (load32 m (a + 4)))"
proof (rule bit_word_eqI)
  fix i assume i: "i < LENGTH(64)"
  show "bit (load64 m a) i = bit (ucast (load32 m a) OR push_bit 32 (ucast (load32 m (a + 4))) :: addr) i"
  proof (cases "i < 32")
    case False
    then obtain j where j: "i = j + 32" by (metis le_add_diff_inverse2 not_le)
    then have "i div 8 = j div 8 + 4" "i mod 8 = j mod 8" by presburger+
    then show ?thesis using i j by (auto simp: bit_simps bit_load_le algebra_simps)
  qed (use i in \<open>auto simp: bit_simps bit_load_le\<close>)
qed

lemma set_buffers_place:
  assumes "unat p + 0x80000 \<le> 2 ^ 32" "\<And>i. i < 256 \<Longrightarrow> load32 (nmem s) (d + of_nat (16 * i) + 4) = 0"
  shows "\<exists>m. set_buffers d p s = Inr (s\<lparr>nmem := m\<rparr>) \<and> (\<forall>i<256. load64 m (d + of_nat (16 * i)) = p + of_nat (2048 * i)) \<and>
    (\<forall>x. \<not> in_region d 4096 x \<longrightarrow> m x = nmem s x)"
proof -
  obtain m where m: "set_buffers d p s = Inr (s\<lparr>nmem := m\<rparr>)"
      "\<And>i. i < 256 \<Longrightarrow> load32 m (d + of_nat (16 * i)) = ucast (p + of_nat (i * 2048))"
      "\<And>x. (\<forall>i<256. \<not> in_region (d + of_nat (16 * i)) 4 x) \<Longrightarrow> m x = nmem s x"
    using set_buffers_loop [of 256 0 d p s] unfolding set_buffers_def by auto
  have o: "m x = nmem s x" if "\<not> in_region d 4096 x" for x
    using m(3) [of x] that slot_region [of _ 256 16 d x] in_region_mono [of _ 4 x 16] by auto
  have h: "load32 m (d + of_nat (16 * i) + 4) = 0" if i: "i < 256" for i
  proof -
    have "m x = nmem s x" if x: "in_region (d + of_nat (16 * i) + 4) 4 x" for x
    proof (rule m(3), intro allI impI)
      fix j assume j: "j < (256 :: nat)"
      have x16: "in_region (d + of_nat (16 * i)) 16 x" using x by (rule in_region_sub) simp
      have "disjoint_regions (d + of_nat (16 * i) + 0) 4 (d + of_nat (16 * i) + 4) 4"
        by (rule sep_off_disjoint) (simp add: sep_off_def)
      then have "\<not> in_region (d + of_nat (16 * i)) 4 x" using x by (auto dest: disjoint_regionsD)
      then show "\<not> in_region (d + of_nat (16 * j)) 4 x"
        using slot_apart [of j i 256 16 d x] i j x16 in_region_mono [of _ 4 x 16] by (cases "i = j") auto
    qed
    then have "load32 m (d + of_nat (16 * i) + 4) = load32 (nmem s) (d + of_nat (16 * i) + 4)" by (intro load_cong) auto
    then show ?thesis using assms(2) [OF i] by simp
  qed
  have "load64 m (d + of_nat (16 * i)) = p + of_nat (2048 * i)" if i: "i < 256" for i
  proof -
    have u: "unat (of_nat (2048 * i) :: addr) = 2048 * i" using i by (intro unat_of_nat_small) simp
    have "unat p + 2048 * i < 2 ^ 64" using i assms(1) by simp
    then have "unat (p + of_nat (2048 * i)) = unat p + 2048 * i" using u by (simp add: unat_word_ariths)
    then have "unat (p + of_nat (2048 * i)) < 2 ^ 32" using i assms(1) by simp
    then have "ucast (ucast (p + of_nat (2048 * i)) :: cint) = p + of_nat (2048 * i)"
      by (intro word_unat_eq_iff [THEN iffD2]) (simp only: unat_ucast_addr unat_ucast_cint)
    then show ?thesis using m(2) [OF i] h [OF i] by (simp add: load64_halves mult.commute)
  qed
  then show ?thesis using m(1) o by blast
qed

text \<open>
  What the initialisation relies on: the rings and buffers are apart, lie below 4 GB where \<open>virt2phys\<close> says, and
  the upper halves of the addresses in the descriptors are zero, as static memory is.
\<close>

definition mapped :: "'a nic_scheme \<Rightarrow> addr \<Rightarrow> nat \<Rightarrow> bool" where
  "mapped s v n \<longleftrightarrow> (\<exists>p. virt2phys (ncpu s) v = Inr p \<and> p \<noteq> 0 \<and> unat p + n \<le> 2 ^ 32 \<and>
    (\<forall>k<n. dma s (p + of_nat k) = v + of_nat k))"

definition rings_mapped :: "'a nic_scheme \<Rightarrow> bool" where
  "rings_mapped s \<longleftrightarrow> mapped s (rx_desc s) 4096 \<and> mapped s (tx_desc s) 4096 \<and> mapped s (rx_buf s) 0x80000 \<and>
    mapped s (tx_buf s) 0x80000 \<and> disjoint_regions (rx_desc s) 4096 (tx_desc s) 4096 \<and>
    disjoint_regions (rx_desc s) 4096 (rx_buf s) 0x80000 \<and> disjoint_regions (tx_desc s) 4096 (tx_buf s) 0x80000 \<and>
    (\<forall>i<256. load32 (nmem s) (rx_desc s + of_nat (16 * i) + 4) = 0 \<and> load32 (nmem s) (tx_desc s + of_nat (16 * i) + 4) = 0)"

lemma ucast_below_4GB: "unat p < 2 ^ 32 \<Longrightarrow> ucast (ucast (p :: addr) :: cint) = p"
  by (intro word_unat_eq_iff [THEN iffD2]) (simp only: unat_ucast_addr unat_ucast_cint)

lemma load_other_ring:
  assumes "disjoint_regions d 4096 e 4096" "\<And>x. \<not> in_region d 4096 x \<Longrightarrow> m' x = m x" "i < 256" "unat a + n \<le> 16"
  shows "load_le n m' (e + of_nat (16 * i) + a) = (load_le n m (e + of_nat (16 * i) + a) :: 'b::len word)"
proof (rule load_cong)
  fix x assume "in_region (e + of_nat (16 * i) + a) n x"
  then have "in_region (e + of_nat (16 * i)) 16 x" using assms(4) by (rule in_region_sub)
  then have "in_region e 4096 x" using slot_region [of i 256 16 e x] assms(3) by simp
  then show "m' x = m x" using assms(1,2) by (auto dest: disjoint_regionsD)
qed (use assms(4) in simp)

lemma buffers_set:
  assumes "rings_mapped s" "virt2phys (ncpu s) (rx_buf s) = Inr rb" "virt2phys (ncpu s) (tx_buf s) = Inr tb"
  shows "\<exists>m. run [set_buffers (rx_desc s) rb, set_buffers (tx_desc s) tb] s = Inr (s\<lparr>nmem := m\<rparr>) \<and>
    (\<forall>i<256. load64 m (rx_desc s + of_nat (16 * i)) = rb + of_nat (2048 * i) \<and> load64 m (tx_desc s + of_nat (16 * i)) = tb + of_nat (2048 * i))"
proof -
  have b: "unat rb + 0x80000 \<le> 2 ^ 32" "unat tb + 0x80000 \<le> 2 ^ 32" and d: "disjoint_regions (rx_desc s) 4096 (tx_desc s) 4096"
    and z: "\<And>i. i < 256 \<Longrightarrow> load32 (nmem s) (rx_desc s + of_nat (16 * i) + 4) = 0"
      "\<And>i. i < 256 \<Longrightarrow> load32 (nmem s) (tx_desc s + of_nat (16 * i) + 4) = 0"
    using assms by (auto simp: rings_mapped_def mapped_def)
  obtain m1 where m1: "set_buffers (rx_desc s) rb s = Inr (s\<lparr>nmem := m1\<rparr>)"
      "\<And>i. i < 256 \<Longrightarrow> load64 m1 (rx_desc s + of_nat (16 * i)) = rb + of_nat (2048 * i)"
      "\<And>x. \<not> in_region (rx_desc s) 4096 x \<Longrightarrow> m1 x = nmem s x"
    using set_buffers_place [OF b(1), of s "rx_desc s"] z(1) by auto
  have "load32 m1 (tx_desc s + of_nat (16 * i) + 4) = 0" if "i < 256" for i
    using load_other_ring [of "rx_desc s" "tx_desc s" m1 "nmem s" i 4 4, where ?'b = 32] d m1(3) that z(2) [OF that] by simp
  then obtain m2 where m2: "set_buffers (tx_desc s) tb (s\<lparr>nmem := m1\<rparr>) = Inr (s\<lparr>nmem := m2\<rparr>)"
      "\<And>i. i < 256 \<Longrightarrow> load64 m2 (tx_desc s + of_nat (16 * i)) = tb + of_nat (2048 * i)"
      "\<And>x. \<not> in_region (tx_desc s) 4096 x \<Longrightarrow> m2 x = m1 x"
    using set_buffers_place [OF b(2), of "s\<lparr>nmem := m1\<rparr>" "tx_desc s"] by auto
  have "load64 m2 (rx_desc s + of_nat (16 * i)) = rb + of_nat (2048 * i)" if "i < 256" for i
    using load_other_ring [of "tx_desc s" "rx_desc s" m2 m1 i 0 8, where ?'b = 64] d m2(3) m1(2) that by (simp add: disjoint_regions_sym)
  then show ?thesis using m1(1) m2(1,2) by auto
qed

text \<open>The registers of the rings after the rest of \<open>e1000_init_buf\<close>.\<close>

definition ring_regs :: "addr \<Rightarrow> addr \<Rightarrow> (addr \<Rightarrow> cint) \<Rightarrow> bool" where
  "ring_regs rd td r \<longleftrightarrow> r E1000_REG_RDBAL = ucast rd \<and> r E1000_REG_RDBAH = 0 \<and> r E1000_REG_RDLEN = 4096 \<and> r E1000_REG_RDH = 0 \<and>
    r E1000_REG_RDT = 255 \<and> r E1000_REG_TDBAL = ucast td \<and> r E1000_REG_TDBAH = 0 \<and> r E1000_REG_TDLEN = 4096 \<and>
    r E1000_REG_TDH = 0 \<and> r E1000_REG_TDT = 0"

lemma init_buf_regs:
  assumes "rings_mapped s" "base_reg s = bar0 s"
  shows "\<exists>rb rd tb td m r. e1000_init_buf s = Inr (s\<lparr>nmem := m, nregs := r\<rparr>) \<and> ring_regs rd td r \<and>
    virt2phys (ncpu s) (rx_buf s) = Inr rb \<and> virt2phys (ncpu s) (rx_desc s) = Inr rd \<and> virt2phys (ncpu s) (tx_buf s) = Inr tb \<and>
    virt2phys (ncpu s) (tx_desc s) = Inr td \<and> (\<forall>i<256. load64 m (rx_desc s + of_nat (16 * i)) = rb + of_nat (2048 * i) \<and>
      load64 m (tx_desc s + of_nat (16 * i)) = tb + of_nat (2048 * i))"
proof -
  obtain rb rd tb td where p: "virt2phys (ncpu s) (rx_buf s) = Inr rb" "virt2phys (ncpu s) (rx_desc s) = Inr rd"
      "virt2phys (ncpu s) (tx_buf s) = Inr tb" "virt2phys (ncpu s) (tx_desc s) = Inr td" "rb \<noteq> 0" "rd \<noteq> 0" "tb \<noteq> 0" "td \<noteq> 0"
    using assms(1) by (auto simp: rings_mapped_def mapped_def)
  obtain m where m: "run [set_buffers (rx_desc s) rb, set_buffers (tx_desc s) tb] s = Inr (s\<lparr>nmem := m\<rparr>)"
      "\<forall>i<256. load64 m (rx_desc s + of_nat (16 * i)) = rb + of_nat (2048 * i) \<and> load64 m (tx_desc s + of_nat (16 * i)) = tb + of_nat (2048 * i)"
    using buffers_set [OF assms(1) p(1,3)] by blast
  have "\<exists>r. e1000_init_buf s = Inr (s\<lparr>nmem := m, nregs := r\<rparr>) \<and> ring_regs rd td r"
    using assms(2) p m(1)
    by (auto simp: e1000_init_buf_def phys_of_def reg_write_plain reg_set_plain ring_regs_def)
  then show ?thesis using p m(2) by blast
qed

lemma mapped_dma:
  assumes "mapped s v n" "virt2phys (ncpu s) v = Inr p" "k < n"
  shows "dma s (p + of_nat k) = v + of_nat k" "unat p < 2 ^ 32"
  using assms by (auto simp: mapped_def)

lemma init_buf_establishes:
  assumes "rings_mapped s" "base_reg s = bar0 s"
  shows "\<exists>s'. e1000_init_buf s = Inr s' \<and> tx_ok s' \<and> tx_queue s' = [] \<and> rx_idle s' \<and>
    tx_head s' = 0 \<and> tx_tail s' = 0 \<and> tx_buf s' = tx_buf s"
proof -
  obtain rb rd tb td m r where i: "e1000_init_buf s = Inr (s\<lparr>nmem := m, nregs := r\<rparr>)" "ring_regs rd td r"
      "virt2phys (ncpu s) (rx_buf s) = Inr rb" "virt2phys (ncpu s) (rx_desc s) = Inr rd" "virt2phys (ncpu s) (tx_buf s) = Inr tb"
      "virt2phys (ncpu s) (tx_desc s) = Inr td"
      "\<And>i. i < 256 \<Longrightarrow> load64 m (rx_desc s + of_nat (16 * i)) = rb + of_nat (2048 * i)"
      "\<And>i. i < 256 \<Longrightarrow> load64 m (tx_desc s + of_nat (16 * i)) = tb + of_nat (2048 * i)"
    using init_buf_regs [OF assms] by blast
  let ?s = "s\<lparr>nmem := m, nregs := r\<rparr>"
  have mp: "mapped s (rx_desc s) 4096" "mapped s (tx_desc s) 4096" "mapped s (rx_buf s) 0x80000" "mapped s (tx_buf s) 0x80000"
    using assms(1) by (simp_all add: rings_mapped_def)
  have dm: "dma s rd = rx_desc s" "dma s td = tx_desc s"
    using mapped_dma(1) [OF mp(1) i(4), of 0] mapped_dma(1) [OF mp(2) i(6), of 0] by simp_all
  have dp: "dma s (rb + of_nat (2048 * k)) = rx_buf s + of_nat (2048 * k)" "dma s (tb + of_nat (2048 * k)) = tx_buf s + of_nat (2048 * k)"
    if "k < 256" for k
    using that mapped_dma(1) [OF mp(3) i(3), of "2048 * k"] mapped_dma(1) [OF mp(4) i(5), of "2048 * k"] by simp_all
  have lo: "ucast (ucast rd :: cint) = rd" "ucast (ucast td :: cint) = td"
    using mapped_dma(2) [OF mp(1) i(4), of 0] mapped_dma(2) [OF mp(2) i(6), of 0] by (auto intro!: ucast_below_4GB)
  have tb: "tx_base ?s = tx_desc s" and rb: "rx_base ?s = rx_desc s"
    using i(2) lo dm by (simp_all add: tx_base_def rx_base_def ring_regs_def)
  have ht: "tx_head ?s = 0" "tx_tail ?s = 0" "rx_head ?s = 0" "rx_tail ?s = 255"
    using i(2) by (simp_all add: tx_head_def tx_tail_def rx_head_def rx_tail_def ring_regs_def)
  have e: "tx_pending ?s = []" using ht by (simp add: tx_pending_def ring_def)
  have "tx_place ?s k = tx_buf s + of_nat (2048 * k)" if "k < 256" for k
    using i(8) [OF that] dp(2) [OF that] tb by (simp add: tx_place_def)
  then have "tx_ok ?s" using assms i(2) ht tb e by (simp add: tx_ok_def ring_regs_def rings_mapped_def)
  moreover have "rx_idle ?s"
    using assms i(2,7) ht rb dp(1) by (simp add: rx_idle_def rx_ok_def ring_regs_def rings_mapped_def)
  ultimately show ?thesis using i(1) e ht by (intro exI [of _ ?s]) (simp add: tx_queue_def)
qed

text \<open>
  C27.  The initialisation hands both rings to the card.  With the rings and buffers apart and mapped below 4 GB,
  \<open>e1000_init_buf\<close> returns with the transmit ring well-formed and empty, and with the receive ring well-formed and
  all its buffers but one ready for packets.
\<close>

theorem e1000_init_buf_rings:
  assumes "rings_mapped s" "base_reg s = bar0 s"
  shows "\<exists>s'. e1000_init_buf s = Inr s' \<and> tx_ok s' \<and> tx_queue s' = [] \<and> rx_idle s'"
  using init_buf_establishes [OF assms] by blast

section \<open>A card\<close>

definition demo_nic :: nic where
  "demo_nic = \<lparr>confadd = 0, cfg = (\<lambda>_. 0), wmask = (\<lambda>_. 0), pcidevs = [], nr_pcidev = 0,
     pci_ioapic = \<lparr>io_reg = 0, io_data = (\<lambda>_. 0)\<rparr>, pci_idt = [],
     nmem = (\<lambda>_. 0), nregs = (\<lambda>_. 0), nreset = (\<lambda>_. 0), bar0 = 0xFEBC0000, dma = (\<lambda>p. p),
     ncpu = zero_cpu\<lparr>vm_info := zero_vm\<lparr>vm_code_vaddr := 0x1000, vm_code_paddr := 0x1000, vm_data_vaddr := 0x1000000\<rparr>\<rparr>,
     base_reg = 0xFEBC0000, size_reg = 0x20000, rx_desc = 0x10000, tx_desc = 0x11000, rx_buf = 0x100000, tx_buf = 0x200000\<rparr>"

lemma demo_nic_mapped: "rings_mapped demo_nic" "base_reg demo_nic = bar0 demo_nic"
proof -
  have v: "virt2phys (ncpu demo_nic) v = Inr v" if "0x1000 \<le> v" "v < 0x1000000" for v
    using that by (simp add: virt2phys_def demo_nic_def)
  have m: "mapped demo_nic v n" if "0x1000 \<le> v" "v < 0x1000000" "unat v + n \<le> 2 ^ 32" for v n
    using that v [OF that(1,2)] by (auto simp: mapped_def demo_nic_def)
  show "rings_mapped demo_nic"
    using m [of "0x10000" 4096] m [of "0x11000" 4096] m [of "0x100000" "0x80000"] m [of "0x200000" "0x80000"]
    by (simp add: rings_mapped_def demo_nic_def load_zero disjoint_regionsI)
qed (simp add: demo_nic_def)

theorem e1000_init_buf_rings_witness:
  "\<exists>s'. e1000_init_buf demo_nic = Inr s' \<and> tx_ok s' \<and> tx_queue s' = [] \<and> rx_idle s'"
  by (rule e1000_init_buf_rings [OF demo_nic_mapped])

lemma demo_started:
  obtains s :: nic where "tx_ok s" "tx_queue s = []" "rx_idle s" "tx_head s = 0" "tx_tail s = 0" "disjoint_regions (tx_buf s) 0x80000 0 1"
proof -
  have "disjoint_regions (tx_buf demo_nic) 0x80000 0 1" by (simp add: demo_nic_def disjoint_regionsI)
  then show ?thesis using init_buf_establishes [OF demo_nic_mapped] that by metis
qed

theorem e1000_write_queues_witness:
  "\<exists>(s :: nic) pkt t. tx_ok s \<and> tx_queue s = [] \<and> tx_run s [pkt] [] t \<and> length pkt = 1 \<and> tx_queue t = [pkt]"
proof (rule demo_started)
  fix s :: nic
  assume s: "tx_ok s" "tx_queue s = []" "tx_head s = 0" "tx_tail s = 0" "disjoint_regions (tx_buf s) 0x80000 0 1"
  let ?p = "[nmem s 0]"
  have "e1000_write 0 (of_nat (length ?p)) s = Inr (tx_after 0 1 s)"
    using e1000_write_result [OF s(1), of 1 0] by (simp add: tx_after_def)
  then have r: "tx_run s ([] @ [?p]) [] (tx_after 0 1 s)"
    using s(3-5) by (intro tx_write [OF tx_start, of s 0 ?p]) simp_all
  then have "[] @ [?p] = [] @ tx_queue (tx_after 0 1 s)" using s(1,2) by (rule e1000_write_queues)
  then show ?thesis using s(1,2) r by (intro exI [of _ s] exI [of _ ?p] exI [of _ "tx_after 0 1 s"]) simp
qed

lemma fill_ring:
  fixes s :: "'a nic_scheme"
  assumes "tx_ok s" "tx_head s = 0" "tx_tail s = 0" "disjoint_regions (tx_buf s) 0x80000 p 1" "n < 256"
  shows "\<exists>t :: 'a nic_scheme. tx_ok t \<and> tx_head t = 0 \<and> tx_tail t = n \<and> tx_buf t = tx_buf s"
  using assms(5)
proof (induction n)
  case (Suc n)
  then obtain t :: "'a nic_scheme" where t: "tx_ok t" "tx_head t = 0" "tx_tail t = n" "tx_buf t = tx_buf s" by auto
  have "disjoint_regions (tx_buf t + of_nat (2048 * tx_tail t)) 1 p 1"
    using t(3,4) assms(4) Suc.prems by (intro buf_slot_disjoint) simp_all
  then have "tx_ok (tx_after p (length [nmem t p]) t)" using t Suc.prems by (intro tx_append(2)) simp_all
  then show ?case using t Suc.prems by (intro exI [of _ "tx_after p 1 t"]) simp
qed (use assms in blast)

lemma e1000_write_full_loses_witness:
  "\<exists>(s :: nic) s'. e1000_write 0 (of_nat 60) s = Inr s' \<and> length (tx_queue s) = 255 \<and> tx_queue s' = []"
proof (rule demo_started)
  fix s :: nic
  assume s: "tx_ok s" "tx_head s = 0" "tx_tail s = 0" "disjoint_regions (tx_buf s) 0x80000 0 1"
  obtain t :: nic where t: "tx_ok t" "tx_head t = 0" "tx_tail t = 255" using fill_ring [OF s, of 255] by auto
  then show ?thesis using e1000_write_full_loses [OF t(1), of 60 0] by auto
qed

theorem e1000_read_stale_length_witness:
  "\<exists>(s :: nic) s1 s2. e1000_read (\<lambda>_ _ t. Inr t) (nic_receive [1] s) = Inr s1 \<and>
     e1000_read (\<lambda>b l t. Inr (t\<lparr>size_reg := ucast l\<rparr>)) (nic_receive [2, 3] s1) = Inr (s2\<lparr>size_reg := 1\<rparr>) \<and>
     bytes_at (nmem s2) (rx_buf s + of_nat (2048 * rx_head s1)) [2, 3]"
proof (rule demo_started)
  fix s :: nic
  assume i: "rx_idle s"
  have "e1000_read (\<lambda>_ _ t. Inr t) (nic_receive [1] s) = Inr (rx_after [1] s)" by (rule rx_step [OF i]) simp
  then show ?thesis
    by (rule_tac exI [of _ s], rule_tac exI [of _ "rx_after [1] s"])
      (use e1000_read_stale_length [OF i, of "[1]" "[2, 3]" "rx_after [1] s" "\<lambda>b l t. Inr (t\<lparr>size_reg := ucast l\<rparr>)"] in auto)
qed

end
