(* ===== verification/Exec_Args.thy ===== *)
theory Exec_Args
  imports Process_Props
begin

text \<open>
  The arguments of a program that is started: \<open>pass_args\<close> of \<open>local_exec\<close> copies the saved strings to
  the top of the new stack, one below the other, and the array of their addresses below them.
\<close>

section \<open>The strings\<close>

text \<open>The space that the strings take with their terminators, and the bytes of that many below \<open>p\<close>.\<close>

definition space :: "byte list list \<Rightarrow> nat" where
  "space args = (\<Sum>a\<leftarrow>args. Suc (length a))"

definition below :: "addr \<Rightarrow> nat \<Rightarrow> addr \<Rightarrow> bool" where
  "below p n x \<longleftrightarrow> unat p - n \<le> unat x \<and> unat x < unat p"

lemma space_simps [simp]: "space [] = 0" "space (a # args) = Suc (length a) + space args"
  by (simp_all add: space_def)

lemma unat_below: "n \<le> unat p \<Longrightarrow> unat (p - of_nat n :: addr) = unat p - n"
proof -
  assume n: "n \<le> unat p"
  have "unat p < 2 ^ 64" using unsigned_less [of p, where ?'a = nat] by simp
  then have "n < 2 ^ LENGTH(64)" unfolding len64 using n by (rule le_less_trans [rotated])
  then have "unat (of_nat n :: addr) = n" by (rule unat_of_nat_small)
  then show ?thesis using n by (simp add: unat_sub_if')
qed

lemma below_region: "n \<le> unat p \<Longrightarrow> in_region (p - of_nat n) n x \<longleftrightarrow> below p n x"
proof -
  assume n: "n \<le> unat p"
  note u = unat_below [OF n]
  have "unat p < 2 ^ 64" using unsigned_less [of p, where ?'a = nat] by simp
  then have "unat (p - of_nat n) + n \<le> 2 ^ 64" unfolding u using n by linarith
  from in_region_nowrap [OF this] show ?thesis unfolding below_def u using n by simp
qed

lemma below_split: "below p (k + n) x \<longleftrightarrow> below p k x \<or> below (p - of_nat k) n x" if "k + n \<le> unat p"
proof -
  have u: "unat (p - of_nat k) = unat p - k" using that by (intro unat_below) simp
  show ?thesis unfolding below_def u using that by arith
qed

text \<open>What \<open>push_args\<close> leaves behind for the strings \<open>args\<close>, the first of which has number \<open>i\<close>.\<close>

definition pushed :: "byte list list \<Rightarrow> nat \<Rightarrow> addr \<Rightarrow> addr \<Rightarrow> addr \<Rightarrow> memory \<Rightarrow> bool" where
  "pushed args i ptrs phys virt m \<longleftrightarrow> (\<forall>k < length args.
     load64 m (ptrs + of_nat (8 * (i + k))) = virt - of_nat (space (take (Suc k) args)) \<and>
     str_at m (phys - of_nat (space (take (Suc k) args))) (args ! k))"

definition saved :: "byte list list \<Rightarrow> nat \<Rightarrow> addr \<Rightarrow> memory \<Rightarrow> bool" where
  "saved args i vec m \<longleftrightarrow> (\<forall>k < length args. str_at m (vec + of_nat (256 * (i + k))) (args ! k) \<and> length (args ! k) < 256)"

text \<open>The place for the strings, the table of addresses and the saved arguments lie apart.\<close>

definition apart :: "nat \<Rightarrow> addr \<Rightarrow> addr \<Rightarrow> addr \<Rightarrow> bool" where
  "apart n phys vec ptrs \<longleftrightarrow> n \<le> unat phys \<and> disjoint_regions vec 4096 ptrs 128 \<and>
    (\<forall>x. below phys n x \<longrightarrow> \<not> in_region vec 4096 x \<and> \<not> in_region ptrs 128 x)"

lemma push_one:
  assumes "str_at m (vec + of_nat (256 * i)) a" "length a < 256" "i < 16" "apart (Suc (length a)) phys vec ptrs"
  shows "\<exists>m'. strcpy (phys - of_nat (Suc (length a))) (vec + of_nat (256 * i)) (store64 m (ptrs + of_nat (8 * i)) v) = Some m' \<and>
    load64 m' (ptrs + of_nat (8 * i)) = v \<and> str_at m' (phys - of_nat (Suc (length a))) a \<and>
    (\<forall>x. \<not> below phys (Suc (length a)) x \<longrightarrow> \<not> in_region (ptrs + of_nat (8 * i)) 8 x \<longrightarrow> m' x = m x)"
proof -
  let ?d = "phys - of_nat (Suc (length a))" and ?src = "vec + of_nat (256 * i)" and ?t = "ptrs + of_nat (8 * i)"
  let ?m1 = "store64 m ?t v"
  let ?m2 = "put_bytes ?m1 ?d (a @ [0])"
  have dst: "in_region ?d (Suc (length a)) x \<longleftrightarrow> below phys (Suc (length a)) x" for x
    using assms(4) by (intro below_region) (simp add: apart_def)
  have src: "in_region vec 4096 x" if "in_region ?src (Suc (length a)) x" for x
    using that slot_region [of i 16 256 vec x] in_region_mono [of ?src "Suc (length a)" x 256] assms(2,3) by simp
  have ptrs: "in_region ptrs 128 x" if "in_region ?t 8 x" for x
    using that slot_region [of i 16 8 ptrs x] assms(3) by simp
  have "str_at ?m1 ?src a = str_at m ?src a"
    using src ptrs assms(2,4) disjoint_regionsD [of vec 4096 ptrs 128]
    by (intro str_at_cong) (auto simp: store_le_apply apart_def)
  then have "strcpy ?d ?src ?m1 = Some ?m2"
    using assms dst src by (intro strcpy_str) (auto simp: apart_def disjoint_regions_def)
  moreover have "load64 ?m2 ?t = load64 ?m1 ?t"
    using ptrs dst assms(2,4) by (intro load_cong put_bytes_outside) (auto simp: apart_def)
  then have "load64 ?m2 ?t = v" by (simp add: load_store_same)
  moreover have "str_at ?m2 ?d a"
    using assms(1,2) str_at_nonzero by (intro str_at_put_bytes) auto
  moreover have "?m2 x = m x" if "\<not> below phys (Suc (length a)) x" "\<not> in_region ?t 8 x" for x
    using that dst [of x] assms(2) put_bytes_outside [of "a @ [0]" ?d x ?m1] by (simp add: store_le_apply)
  ultimately show ?thesis by blast
qed

lemma apart_mono:
  assumes "apart (k + n) phys vec ptrs"
  shows "apart k phys vec ptrs" "apart n (phys - of_nat k) vec ptrs"
proof -
  have le: "k + n \<le> unat phys" using assms by (simp add: apart_def)
  then have "unat (phys - of_nat k) = unat phys - k" by (intro unat_below) simp
  then show "apart k phys vec ptrs" "apart n (phys - of_nat k) vec ptrs"
    using assms le by (auto simp: apart_def below_split [OF le])
qed

lemma saved_kept:
  assumes "saved (a # args) i vec m" "i + length (a # args) \<le> 16" "apart n phys vec ptrs"
    "\<And>x. \<not> below phys n x \<Longrightarrow> \<not> in_region (ptrs + of_nat (8 * i)) 8 x \<Longrightarrow> m1 x = m x"
  shows "saved args (Suc i) vec m1"
  unfolding saved_def
proof (intro allI impI conjI)
  fix k assume k: "k < length args"
  let ?a = "vec + of_nat (256 * (Suc i + k))"
  have s: "str_at m ?a (args ! k)" "length (args ! k) < 256"
    using assms(1) [unfolded saved_def, rule_format, of "Suc k"] k by simp_all
  have "m1 x = m x" if "in_region ?a (Suc (length (args ! k))) x" for x
  proof -
    have "in_region vec 4096 x"
      using slot_region [of "Suc i + k" 16 256 vec x] in_region_mono [OF that, of 256] s(2) k assms(2) by simp
    moreover have "in_region ptrs 128 x" if "in_region (ptrs + of_nat (8 * i)) 8 x"
      using slot_region [of i 16 8 ptrs x] that assms(2) by simp
    ultimately show ?thesis
      using assms(3) disjoint_regionsD [of vec 4096 ptrs 128] by (intro assms(4)) (auto simp: apart_def)
  qed
  then show "str_at m1 ?a (args ! k)" using s str_at_cong [of ?a "args ! k" m1 m] by simp
  show "length (args ! k) < 256" by (rule s(2))
qed

text \<open>What was written for the first string survives when the others are written below it.\<close>

lemma pushed_kept:
  assumes "n + k \<le> unat phys" "apart k (phys - of_nat n) vec ptrs" "apart n phys vec ptrs" "i + Suc l \<le> 16"
    and m': "\<And>x. \<not> below (phys - of_nat n) k x \<Longrightarrow> (\<forall>j < l. \<not> in_region (ptrs + of_nat (8 * (Suc i + j))) 8 x) \<Longrightarrow> m' x = m x"
    and x: "in_region (ptrs + of_nat (8 * i)) 8 x \<or> in_region (phys - of_nat n) n x"
  shows "m' x = m x"
proof (rule m')
  have slot: "in_region ptrs 128 x" if "in_region (ptrs + of_nat (8 * j)) 8 x" "j < 16" for j
    using slot_region [of j 16 8 ptrs x] that by simp
  have p: "unat (phys - of_nat n) = unat phys - n" using assms(1) by (intro unat_below) simp
  have r: "in_region (phys - of_nat n) n x \<longleftrightarrow> below phys n x" using assms(1) by (intro below_region) simp
  show "\<not> below (phys - of_nat n) k x"
    using x assms(2,4) slot [of i] p r by (auto simp: apart_def below_def)
  show "\<forall>j < l. \<not> in_region (ptrs + of_nat (8 * (Suc i + j))) 8 x"
  proof (intro allI impI)
    fix j assume "j < l"
    then have j: "Suc i + j < 16" "i \<noteq> Suc i + j" "i < 16" using assms(4) by simp_all
    show "\<not> in_region (ptrs + of_nat (8 * (Suc i + j))) 8 x"
      using x slot_apart [OF j(2,3,1), of 8 ptrs x] slot [of "Suc i + j"] j(1) assms(3) r by (auto simp: apart_def)
  qed
qed

lemma push_args_ok:
  assumes "saved args i (arg_vector s) (mem s)" "i + length args \<le> 16" "apart (space args) phys (arg_vector s) (argv_ptr s)"
  shows "\<exists>m'. push_args (length args) i phys virt s =
      Inr (phys - of_nat (space args), virt - of_nat (space args), s\<lparr>mem := m'\<rparr>) \<and>
    pushed args i (argv_ptr s) phys virt m' \<and>
    (\<forall>x. \<not> below phys (space args) x \<longrightarrow>
      (\<forall>k < length args. \<not> in_region (argv_ptr s + of_nat (8 * (i + k))) 8 x) \<longrightarrow> m' x = mem s x)"
  using assms
proof (induction args arbitrary: i phys virt s)
  case Nil
  then show ?case by (auto simp: pushed_def intro!: exI [of _ "mem s"])
next
  case (Cons a args)
  let ?vec = "arg_vector s" and ?ptrs = "argv_ptr s" and ?n = "Suc (length a)"
  let ?p = "phys - of_nat ?n" and ?v = "virt - of_nat ?n"
  have a: "str_at (mem s) (?vec + of_nat (256 * i)) a" "length a < 256"
    using Cons.prems(1) by (force simp: saved_def)+
  have i: "i < 16" using Cons.prems(2) by simp
  have ap: "apart ?n phys ?vec ?ptrs" "apart (space args) ?p ?vec ?ptrs"
    using apart_mono [of ?n "space args" phys ?vec ?ptrs] Cons.prems(3) by simp_all
  have le: "?n + space args \<le> unat phys" using Cons.prems(3) by (simp add: apart_def)
  obtain m1 where m1: "strcpy ?p (?vec + of_nat (256 * i)) (store64 (mem s) (?ptrs + of_nat (8 * i)) ?v) = Some m1"
    "load64 m1 (?ptrs + of_nat (8 * i)) = ?v" "str_at m1 ?p a"
    "\<And>x. \<not> below phys ?n x \<Longrightarrow> \<not> in_region (?ptrs + of_nat (8 * i)) 8 x \<Longrightarrow> m1 x = mem s x"
    using push_one [OF a i ap(1)] by blast
  have "saved args (Suc i) ?vec m1" using saved_kept [OF Cons.prems(1,2) ap(1) m1(4)] .
  then obtain m' where m': "push_args (length args) (Suc i) ?p ?v (s\<lparr>mem := m1\<rparr>) =
      Inr (?p - of_nat (space args), ?v - of_nat (space args), s\<lparr>mem := m'\<rparr>)"
    "pushed args (Suc i) ?ptrs ?p ?v m'"
    "\<And>x. \<not> below ?p (space args) x \<Longrightarrow> (\<forall>k < length args. \<not> in_region (?ptrs + of_nat (8 * (Suc i + k))) 8 x) \<Longrightarrow> m' x = m1 x"
    using Cons.IH [of "Suc i" "s\<lparr>mem := m1\<rparr>" ?p ?v] Cons.prems(2) ap(2) by auto
  have "scast (of_nat (length a) + 1 :: cint) = (of_nat ?n :: addr)"
    using a(2) scast_of_nat_cint [of ?n] by (simp add: add.commute)
  then have "push_args (length (a # args)) i phys virt s =
      Inr (phys - of_nat (space (a # args)), virt - of_nat (space (a # args)), s\<lparr>mem := m'\<rparr>)"
    using strlen_str [OF a(1)] m1(1) m'(1) by (simp add: Let_def algebra_simps)
  moreover have "pushed (a # args) i ?ptrs phys virt m'"
    unfolding pushed_def
  proof (intro allI impI)
    fix k assume "k < length (a # args)"
    show "load64 m' (?ptrs + of_nat (8 * (i + k))) = virt - of_nat (space (take (Suc k) (a # args))) \<and>
      str_at m' (phys - of_nat (space (take (Suc k) (a # args)))) ((a # args) ! k)"
    proof (cases k)
      case 0
      have kept: "m' x = m1 x" if "in_region (?ptrs + of_nat (8 * i)) 8 x \<or> in_region ?p ?n x" for x
        using pushed_kept [OF le ap(2,1) _ m'(3) that] Cons.prems(2) by simp
      have "load64 m' (?ptrs + of_nat (8 * i)) = load64 m1 (?ptrs + of_nat (8 * i))"
        using kept by (intro load_cong) simp_all
      then have "load64 m' (?ptrs + of_nat (8 * i)) = ?v" using m1(2) by simp
      moreover have "str_at m' ?p a" using m1(3) kept a(2) str_at_cong [of ?p a m' m1] by simp
      ultimately show ?thesis using 0 by simp
    next
      case (Suc j)
      then show ?thesis
        using m'(2) [unfolded pushed_def, rule_format, of j] \<open>k < length (a # args)\<close> by (simp add: algebra_simps)
    qed
  qed
  moreover have "m' x = mem s x"
    if out: "\<not> below phys (space (a # args)) x" "\<forall>k < length (a # args). \<not> in_region (?ptrs + of_nat (8 * (i + k))) 8 x" for x
  proof -
    have "\<not> below phys ?n x" "\<not> below ?p (space args) x" using out(1) below_split [OF le, of x] by simp_all
    moreover have "\<not> in_region (?ptrs + of_nat (8 * i)) 8 x" using out(2) [rule_format, of 0] by simp
    moreover have "\<not> in_region (?ptrs + of_nat (8 * (Suc i + k))) 8 x" if "k < length args" for k
      using that out(2) [rule_format, of "Suc k"] by simp
    ultimately show ?thesis using m1(4) m'(3) by simp
  qed
  ultimately show ?case by blast
qed

section \<open>The array of addresses\<close>

lemma store_argv_ok:
  assumes "n \<le> 16" "disjoint_regions dst (8 * n) src (8 * n)"
  shows "(\<forall>k < n. load64 (store_argv n dst src m) (dst + of_nat (8 * k)) = load64 m (src + of_nat (8 * k))) \<and>
    (\<forall>x. \<not> in_region dst (8 * n) x \<longrightarrow> store_argv n dst src m x = m x)"
  using assms
proof (induction n)
  case (Suc n)
  let ?m = "store_argv n dst src m" and ?d = "\<lambda>k. dst + of_nat (8 * k) :: addr"
  have slot: "in_region a (8 * Suc n) x" if "in_region (a + of_nat (8 * k)) 8 x" "k < Suc n" for a k x
    using slot_region [of k "Suc n" 8 a x] that Suc.prems(1) by simp
  have IH: "\<And>k. k < n \<Longrightarrow> load64 ?m (?d k) = load64 m (src + of_nat (8 * k))"
    "\<And>x. \<not> in_region dst (8 * n) x \<Longrightarrow> ?m x = m x"
    using Suc.IH Suc.prems disjoint_regions_mono [OF Suc.prems(2), of "8 * n" "8 * n"] by auto
  have "load64 ?m (src + of_nat (8 * n)) = load64 m (src + of_nat (8 * n))"
    using slot [of src n] disjoint_regionsD [OF Suc.prems(2)] in_region_mono [of dst "8 * n" _ "8 * Suc n"]
    by (intro load_cong IH(2)) auto
  moreover have "load64 (store64 ?m (?d n) v) (?d k) = load64 ?m (?d k)" if "k < n" for k v
    using that Suc.prems(1) slot_apart [of n k 16 8 dst] by (intro load_cong) (auto simp: store_le_apply)
  moreover have "store64 ?m (?d n) v x = m x" if "\<not> in_region dst (8 * Suc n) x" for v x
    using that slot [of dst n x] IH(2) [of x] in_region_mono [of dst "8 * n" x "8 * Suc n"]
    by (auto simp: store_le_apply)
  ultimately show ?case by (auto simp: Let_def IH(1) [simplified] less_Suc_eq load_store_same)
qed simp

text \<open>
  C16.  A program that is started finds its arguments.  \<open>pass_args\<close> sets \<open>rdi\<close> to their number and
  \<open>rsi\<close> to an array on the new stack; entry \<open>k\<close> of it is the virtual address, in the new program, of a
  copy of argument \<open>k\<close>, and \<open>rsp\<close> is below all of it.
\<close>

theorem exec_passes_arguments:
  assumes "saved args 0 (arg_vector s) (mem s)" "length args \<le> 16"
    and rsp: "rsp = r_rsp (vm_regs (vmi s i))" "virt2phys (cpus s i) rsp = Inr p"
    and ap: "apart (space args + 8 * length args) p (arg_vector s) (argv_ptr s)"
  shows "\<exists>s' argv. pass_args i (length args) s = Inr s' \<and> r_rdi (vm_regs (vmi s' i)) = of_nat (length args) \<and>
    r_rsi (vm_regs (vmi s' i)) = rsp - of_nat argv \<and> r_rsp (vm_regs (vmi s' i)) = rsp - of_nat (argv + 8) \<and>
    (\<forall>k < length args. \<exists>d \<le> argv. load64 (mem s') (p - of_nat argv + of_nat (8 * k)) = rsp - of_nat d \<and>
      str_at (mem s') (p - of_nat d) (args ! k))"
proof -
  let ?n = "length args" and ?vec = "arg_vector s" and ?ptrs = "argv_ptr s"
  let ?argv = "space args + 8 * length args"
  let ?phys = "p - of_nat (space args)"
  have le: "?argv \<le> unat p" using ap by (simp add: apart_def)
  obtain m1 where m1: "push_args ?n 0 p rsp s = Inr (?phys, rsp - of_nat (space args), s\<lparr>mem := m1\<rparr>)"
    "pushed args 0 ?ptrs p rsp m1"
    using push_args_ok [OF assms(1) _ apart_mono(1) [OF ap]] assms(2) by auto
  let ?dst = "p - of_nat ?argv"
  have dst: "?phys - of_nat (8 * ?n) = ?dst" by (simp add: algebra_simps)
  have low: "in_region ?dst (8 * ?n) x \<longleftrightarrow> below ?phys (8 * ?n) x" for x
    unfolding dst [symmetric] using unat_below [of "space args" p] le by (intro below_region) simp
  have "disjoint_regions ?dst (8 * ?n) ?ptrs (8 * ?n)"
    unfolding disjoint_regions_def low
    using apart_mono(2) [OF ap] in_region_mono [of ?ptrs "8 * ?n" _ 128] assms(2) by (auto simp: apart_def)
  note st = store_argv_ok [OF assms(2) this, of m1]
  let ?m2 = "store_argv ?n ?dst ?ptrs m1"
  have "\<exists>d \<le> ?argv. load64 ?m2 (?dst + of_nat (8 * k)) = rsp - of_nat d \<and> str_at ?m2 (p - of_nat d) (args ! k)"
    if k: "k < ?n" for k
  proof -
    let ?d = "space (take (Suc k) args)"
    have d: "?d \<le> space args" "Suc (length (args ! k)) \<le> ?d"
      using k arg_cong [OF append_take_drop_id [of "Suc k" args], of space]
      by (simp_all add: space_def take_Suc_conv_app_nth)
    have "?m2 x = m1 x" if "in_region (p - of_nat ?d) (Suc (length (args ! k))) x" for x
    proof -
      have "below p ?d x" using in_region_mono [OF that d(2)] d(1) le by (subst (asm) below_region) simp_all
      then have "\<not> below ?phys (8 * ?n) x"
        using unat_below [of "space args" p] le d(1) by (auto simp: below_def)
      then show ?thesis using st low by blast
    qed
    then have "str_at ?m2 (p - of_nat ?d) (args ! k)"
      using m1(2) k str_at_cong [of "p - of_nat ?d" "args ! k" ?m2 m1] assms(1) by (auto simp: pushed_def saved_def)
    moreover have "load64 ?m2 (?dst + of_nat (8 * k)) = rsp - of_nat ?d"
      using st m1(2) k by (simp add: pushed_def)
    ultimately show ?thesis using d(1) by (intro exI [of _ ?d]) simp
  qed
  then show ?thesis
    using m1(1) rsp
    by (intro exI [of _ ?argv] exI conjI) (auto simp: pass_args_def Let_def dst upd_vm_def algebra_simps)
qed

definition demo_exec :: pm where
  "demo_exec = demo_pm\<lparr>mem := put_bytes (put_bytes (\<lambda>_. 0) 0x1000 [112]) 0x1100 [97, 98],
     arg_vector := 0x1000, argv_ptr := 0x3000,
     cpus := (\<lambda>_. zero_cpu)(4 := zero_cpu\<lparr>vm_info := zero_vm\<lparr>vm_stack_vaddr := 0x400000, vm_end_vaddr := 0x600000,
       vm_stack_paddr := 0x800000, vm_regs := zero_regs\<lparr>r_rsp := 0x600000\<rparr>\<rparr>\<rparr>)\<rparr>"

theorem exec_passes_arguments_witness:
  "\<exists>s' argv. pass_args 4 2 demo_exec = Inr s' \<and> r_rdi (vm_regs (vmi s' 4)) = 2 \<and>
    (\<exists>d \<le> argv. load64 (mem s') (0xa00000 - of_nat argv + 8) = 0x600000 - of_nat d \<and>
      str_at (mem s') (0xa00000 - of_nat d) [97, 98])"
proof -
  let ?args = "[[112], [97, 98]] :: byte list list"
  have "saved ?args 0 (arg_vector demo_exec) (mem demo_exec)"
    by (auto simp: saved_def demo_exec_def less_Suc_eq)
  moreover have "r_rsp (vm_regs (vmi demo_exec 4)) = 0x600000" by (simp add: demo_exec_def)
  moreover have "virt2phys (cpus demo_exec 4) 0x600000 = Inr 0xa00000"
    by (simp add: virt2phys_def demo_exec_def zero_cpu_def zero_vm_def Let_def)
  moreover have "apart (space ?args + 8 * length ?args) 0xa00000 (arg_vector demo_exec) (argv_ptr demo_exec)"
    by (auto simp: apart_def demo_exec_def below_def in_region_nowrap disjoint_regions_def)
  ultimately obtain s' argv where s': "pass_args 4 (length ?args) demo_exec = Inr s'"
    "r_rdi (vm_regs (vmi s' 4)) = of_nat (length ?args)"
    "\<forall>k < length ?args. \<exists>d \<le> argv. load64 (mem s') (0xa00000 - of_nat argv + of_nat (8 * k)) = 0x600000 - of_nat d \<and>
      str_at (mem s') (0xa00000 - of_nat d) (?args ! k)"
    using exec_passes_arguments [of ?args demo_exec "0x600000" 4 "0xa00000"] by auto
  show ?thesis
    using s'(1,2) s'(3) [rule_format, of 1] by (intro exI [of _ s'] exI [of _ argv]) (simp add: numeral_2_eq_2)
qed

end
