(* ===== verification/Channel_Lists.thy ===== *)
theory Channel_Lists
  imports Process_Props
begin

text \<open>
  The list of channels that a driver polls, kept by the process manager (\<open>add_channel_list\<close> and
  \<open>remove_channel_list\<close> of \<open>src/vms/pm/main.c\<close>).  The specification is a list: adding appends,
  removing takes the entry out.  The array implements it as long as it is not full.
\<close>

section \<open>The array\<close>

definition chan_list :: "memory \<Rightarrow> addr \<Rightarrow> addr list" where
  "chan_list m chs = takeWhile (\<lambda>c. c \<noteq> 0) (map (chan m chs) [0..<MAX_CHANNELS])"

text \<open>Behind the first zero there are only zeros.\<close>

definition packed :: "memory \<Rightarrow> addr \<Rightarrow> bool" where
  "packed m chs \<longleftrightarrow> (\<forall>j < MAX_CHANNELS. length (chan_list m chs) \<le> j \<longrightarrow> chan m chs j = 0)"

text \<open>The array and the word behind it, which the removal may write.\<close>

abbreviation (input) "CHANNELS_SIZE \<equiv> 264"

lemma chan_set_chan:
  assumes "j \<le> MAX_CHANNELS" "k \<le> MAX_CHANNELS"
  shows "chan (set_chan m chs k v) chs j = (if j = k then v else chan m chs j)"
proof -
  have u: "unat (of_nat (8 * i) :: addr) = 8 * i" if "i \<le> MAX_CHANNELS" for i
    using that by (intro unat_of_nat_small) simp
  have "sep_off (of_nat (8 * j)) 8 (of_nat (8 * k)) 8" if "j \<noteq> k"
    using that assms u [of j] u [of k] by (simp only: sep_off_def) auto
  then show ?thesis
    unfolding chan_def set_chan_def by (cases "j = k") (simp_all add: load_store_same load_store_sep)
qed

lemma set_chan_outside:
  assumes "k \<le> MAX_CHANNELS" "\<not> in_region chs CHANNELS_SIZE x"
  shows "set_chan m chs k v x = m x"
proof -
  have "unat (of_nat (8 * k) :: addr) = 8 * k" using assms(1) by (intro unat_of_nat_small) simp
  then show ?thesis using assms store_le_outside [of chs 264 x "of_nat (8 * k)" 8] by (simp add: set_chan_def)
qed

lemma chan_list_nth:
  "i < length (chan_list m chs) \<Longrightarrow> chan_list m chs ! i = chan m chs i"
  "i < length (chan_list m chs) \<Longrightarrow> chan m chs i \<noteq> 0"
  "length (chan_list m chs) \<le> MAX_CHANNELS"
proof -
  have l: "length (chan_list m chs) \<le> MAX_CHANNELS"
    using length_takeWhile_le [of "\<lambda>c. c \<noteq> 0" "map (chan m chs) [0..<MAX_CHANNELS]"] by (simp add: chan_list_def)
  then show "length (chan_list m chs) \<le> MAX_CHANNELS" .
  show n: "chan_list m chs ! i = chan m chs i" if "i < length (chan_list m chs)"
    using that l takeWhile_nth [of i "\<lambda>c. c \<noteq> 0" "map (chan m chs) [0..<MAX_CHANNELS]"] by (simp add: chan_list_def)
  show "chan m chs i \<noteq> 0" if "i < length (chan_list m chs)"
    using n [OF that] nth_mem [OF that] set_takeWhileD by (fastforce simp: chan_list_def)
qed

lemma chan_list_end: "length (chan_list m chs) < MAX_CHANNELS \<Longrightarrow> chan m chs (length (chan_list m chs)) = 0"
  using nth_length_takeWhile [of "\<lambda>c. c \<noteq> 0" "map (chan m chs) [0..<MAX_CHANNELS]"] by (simp add: chan_list_def)

lemma chan_list_eqI:
  assumes "length cs \<le> MAX_CHANNELS" "\<And>i. i < length cs \<Longrightarrow> chan m chs i = cs ! i" "0 \<notin> set cs"
    "length cs < MAX_CHANNELS \<Longrightarrow> chan m chs (length cs) = 0"
  shows "chan_list m chs = cs"
proof -
  let ?v = "map (chan m chs) [0..<MAX_CHANNELS]"
  have t: "take (length cs) ?v = cs" using assms(1,2) by (intro nth_equalityI) simp_all
  have "takeWhile (\<lambda>c. c \<noteq> 0) (cs @ drop (length cs) ?v) = cs @ takeWhile (\<lambda>c. c \<noteq> 0) (drop (length cs) ?v)"
    using assms(3) by (intro takeWhile_append2) auto
  moreover have "takeWhile (\<lambda>c. c \<noteq> 0) (drop (length cs) ?v) = []"
  proof (cases "length cs < MAX_CHANNELS")
    case True
    then have "drop (length cs) ?v = 0 # drop (Suc (length cs)) ?v"
      using assms(4) by (simp add: Cons_nth_drop_Suc [symmetric])
    then show ?thesis by simp
  qed simp
  ultimately show ?thesis using t append_take_drop_id [of "length cs" ?v] by (simp add: chan_list_def)
qed

section \<open>Adding\<close>

lemma add_channel_from_first:
  assumes "\<And>j. i \<le> j \<Longrightarrow> j < i + r \<Longrightarrow> chan m chs j \<noteq> 0" "r < n" "chan m chs (i + r) = 0"
  shows "add_channel_from n i chs c m = set_chan m chs (i + r) c"
  using assms
proof (induction n arbitrary: i r)
  case (Suc n)
  show ?case
  proof (cases r)
    case (Suc q)
    with Suc.prems Suc.IH [of "Suc i" q] show ?thesis by simp
  qed (use Suc.prems in simp)
qed simp

lemma add_channel_from_full:
  "(\<And>j. i \<le> j \<Longrightarrow> j < i + n \<Longrightarrow> chan m chs j \<noteq> 0) \<Longrightarrow> add_channel_from n i chs c m = m"
  by (induction n arbitrary: i) auto

text \<open>
  C29.  Adding a channel appends it to the list of the driver and touches nothing else.  When the list
  has 32 entries the channel is dropped without notice: \<open>local_channel\<close> hands it out all the same.
\<close>

theorem add_channel_appends:
  assumes "chs = vm_channels (vm_info (cpus s i))" "chs \<noteq> 0" "c \<noteq> 0" "packed (mem s) chs"
  shows "\<exists>m'. add_channel_list i c s = Inr (s\<lparr>mem := m'\<rparr>) \<and> packed m' chs \<and>
    chan_list m' chs = (if length (chan_list (mem s) chs) < MAX_CHANNELS then chan_list (mem s) chs @ [c]
      else chan_list (mem s) chs) \<and>
    (\<forall>x. \<not> in_region chs CHANNELS_SIZE x \<longrightarrow> m' x = mem s x)"
proof -
  let ?l = "chan_list (mem s) chs" and ?m = "add_channel_from MAX_CHANNELS 0 chs c (mem s)"
  have a: "add_channel_list i c s = Inr (s\<lparr>mem := ?m\<rparr>)"
    using assms by (simp add: add_channel_list_def Let_def)
  show ?thesis
  proof (cases "length ?l < MAX_CHANNELS")
    case True
    have m: "?m = set_chan (mem s) chs (length ?l) c"
      using add_channel_from_first [of 0 "length ?l" "mem s" chs MAX_CHANNELS c] True chan_list_nth(2) chan_list_end [OF True]
      by simp
    have l: "chan_list ?m chs = ?l @ [c]"
    proof (rule chan_list_eqI)
      show "chan ?m chs j = (?l @ [c]) ! j" if "j < length (?l @ [c])" for j
        using that True by (simp add: m chan_set_chan nth_append chan_list_nth(1))
      show "0 \<notin> set (?l @ [c])" using assms(3) by (auto simp: in_set_conv_nth chan_list_nth)
      show "chan ?m chs (length (?l @ [c])) = 0" if "length (?l @ [c]) < MAX_CHANNELS"
        using that assms(4) by (simp add: m chan_set_chan packed_def)
    qed (use True in simp)
    have "packed ?m chs" unfolding packed_def l using assms(4) by (simp add: m chan_set_chan packed_def)
    then show ?thesis using a l True set_chan_outside [of "length ?l" chs] m by auto
  next
    case False
    then have "?m = mem s"
      using chan_list_nth(2) [of _ "mem s" chs] by (intro add_channel_from_full) simp
    then show ?thesis using a assms(4) False by (intro exI [of _ ?m]) simp
  qed
qed

definition demo_channel_list :: "addr list \<Rightarrow> memory" where
  "demo_channel_list cs = foldl (\<lambda>m (k, c). set_chan m 0x6000 k c) (\<lambda>_. 0) (zip [0..<length cs] cs)"

definition demo_driver_pm :: "memory \<Rightarrow> pm" where
  "demo_driver_pm m = demo_pm\<lparr>mem := m, cpus := (\<lambda>_. zero_cpu)(0 := zero_cpu\<lparr>ncpus := 6\<rparr>,
     3 := zero_cpu\<lparr>vm_info := zero_vm\<lparr>vm_channels := 0x6000\<rparr>\<rparr>)\<rparr>"

lemma chan_zero: "chan (\<lambda>_. 0) chs k = 0"
  by (simp add: chan_def load_zero)

lemma demo_channel_list_chan:
  "length cs \<le> MAX_CHANNELS \<Longrightarrow> j \<le> MAX_CHANNELS \<Longrightarrow>
    chan (demo_channel_list cs) 0x6000 j = (if j < length cs then cs ! j else 0)"
proof (induction cs rule: rev_induct)
  case (snoc c cs)
  have "demo_channel_list (cs @ [c]) = set_chan (demo_channel_list cs) 0x6000 (length cs) c"
    by (simp add: demo_channel_list_def)
  with snoc show ?case by (simp add: chan_set_chan nth_append)
qed (simp add: demo_channel_list_def chan_zero)

lemma demo_channel_list:
  assumes "length cs \<le> MAX_CHANNELS" "0 \<notin> set cs"
  shows "chan_list (demo_channel_list cs) 0x6000 = cs" "packed (demo_channel_list cs) 0x6000"
proof -
  show l: "chan_list (demo_channel_list cs) 0x6000 = cs"
    using assms by (intro chan_list_eqI) (simp_all add: demo_channel_list_chan)
  show "packed (demo_channel_list cs) 0x6000"
    unfolding packed_def l using assms(1) by (simp add: demo_channel_list_chan)
qed

lemmas demo_two_channels = demo_channel_list [of "[0x8000, 0x9000]", simplified]

theorem add_channel_appends_witness:
  "\<exists>m'. add_channel_list 3 0xa000 (demo_driver_pm (demo_channel_list [0x8000, 0x9000])) =
      Inr (demo_driver_pm m') \<and> chan_list m' 0x6000 = [0x8000, 0x9000, 0xa000]"
proof -
  let ?s = "demo_driver_pm (demo_channel_list [0x8000, 0x9000])"
  have s: "0x6000 = vm_channels (vm_info (cpus ?s 3))" "mem ?s = demo_channel_list [0x8000, 0x9000]"
    "?s\<lparr>mem := m\<rparr> = demo_driver_pm m" for m
    by (simp_all add: demo_driver_pm_def)
  show ?thesis
    using add_channel_appends [OF s(1), of "0xa000"] demo_two_channels by (auto simp: s(2,3))
qed

section \<open>Removing\<close>

lemma shift_channels_spec:
  assumes "k + n \<le> 31" "r \<le> n" "\<And>j. k \<le> j \<Longrightarrow> j < k + r \<Longrightarrow> chan m chs j \<noteq> 0"
    "r < n \<Longrightarrow> chan m chs (k + r) = 0"
  shows "\<exists>m'. shift_channels n k chs m = (k + r, m') \<and>
    (\<forall>j \<le> MAX_CHANNELS. chan m' chs j = (if k \<le> j \<and> j < k + r then chan m chs (Suc j) else chan m chs j)) \<and>
    (\<forall>x. \<not> in_region chs CHANNELS_SIZE x \<longrightarrow> m' x = m x)"
  using assms
proof (induction n arbitrary: k r m)
  case (Suc n)
  show ?case
  proof (cases r)
    case 0
    with Suc.prems show ?thesis by auto
  next
    case (Suc q)
    let ?m = "set_chan m chs k (chan m chs (Suc k))"
    have c: "chan ?m chs j = (if j = k then chan m chs (Suc k) else chan m chs j)" if "j \<le> MAX_CHANNELS" for j
      using that Suc.prems(1) by (simp add: chan_set_chan)
    obtain m' where m': "shift_channels n (Suc k) chs ?m = (Suc k + q, m')"
      "\<And>j. j \<le> MAX_CHANNELS \<Longrightarrow> chan m' chs j = (if Suc k \<le> j \<and> j < Suc k + q then chan ?m chs (Suc j) else chan ?m chs j)"
      "\<And>x. \<not> in_region chs CHANNELS_SIZE x \<Longrightarrow> m' x = ?m x"
      using Suc.IH [of "Suc k" q ?m] Suc.prems Suc c by auto
    have "chan m' chs j = (if k \<le> j \<and> j < k + r then chan m chs (Suc j) else chan m chs j)" if "j \<le> MAX_CHANNELS" for j
      using that m'(2) [OF that] c [of j] c [of "Suc j"] Suc Suc.prems(1,2) by auto
    moreover have "m' x = m x" if "\<not> in_region chs CHANNELS_SIZE x" for x
      using m'(3) [OF that] set_chan_outside [OF _ that, of k] Suc.prems(1) by simp
    ultimately show ?thesis using m'(1) Suc Suc.prems(3) [of k] by auto
  qed
qed auto

text \<open>One pass over an array that holds the channel once, at index \<open>p\<close> of a list of \<open>L\<close> entries.\<close>

lemma remove_at_hit:
  assumes "packed m chs" "L = length (chan_list m chs)" "p < L" "L < MAX_CHANNELS" "chan m chs p = c"
  shows "\<exists>m'. remove_at c chs p (f, m) = Inr (int p, m') \<and>
    (\<forall>j < MAX_CHANNELS. chan m' chs j = (if p \<le> j \<and> j < L then chan m chs (Suc j) else chan m chs j)) \<and>
    (\<forall>x. \<not> in_region chs CHANNELS_SIZE x \<longrightarrow> m' x = m x)"
proof -
  have z: "chan m chs L = 0" "L - p \<le> 31 - p" using chan_list_end assms(2,4) by simp_all
  obtain m1 where m1: "shift_channels (31 - p) p chs m = (p + (L - p), m1)"
    "\<And>j. j \<le> MAX_CHANNELS \<Longrightarrow> chan m1 chs j = (if p \<le> j \<and> j < p + (L - p) then chan m chs (Suc j) else chan m chs j)"
    "\<And>x. \<not> in_region chs CHANNELS_SIZE x \<Longrightarrow> m1 x = m x"
    using shift_channels_spec [of p "31 - p" "L - p" m chs] assms z chan_list_nth(2) [of _ m chs] by auto
  have "chan (set_chan m1 chs (Suc L) 0) chs j = (if p \<le> j \<and> j < L then chan m chs (Suc j) else chan m chs j)"
    if "j < MAX_CHANNELS" for j
    using that m1(2) [of j] assms by (auto simp: chan_set_chan packed_def)
  then show ?thesis
    using m1 assms set_chan_outside [of "Suc L" chs _ m1 0] by (auto simp: remove_at_def)
qed

lemma remove_at_miss: "chan m chs j \<noteq> c \<Longrightarrow> remove_at c chs j (f, m) = Inr (f, m)"
  by (simp add: remove_at_def)

lemma remove_loop_miss:
  "(\<And>j. k \<le> j \<Longrightarrow> j < k + n \<Longrightarrow> chan m chs j \<noteq> c) \<Longrightarrow> for_loop n k (remove_at c chs) (f, m) = Inr (f, m)"
  by (induction n arbitrary: k) (simp_all add: remove_at_miss)

lemma for_loop_split:
  "for_loop (n + l) k body s = bindr (for_loop n k body s) (for_loop l (k + n) body)"
proof (induction n arbitrary: k s)
  case (Suc n)
  show ?case by (cases "body k s") (simp_all add: Suc)
qed simp

lemma remove_loop:
  assumes "packed m chs" "c \<noteq> 0" "distinct (chan_list m chs)" "c \<in> set (chan_list m chs)"
    "length (chan_list m chs) < MAX_CHANNELS"
  shows "\<exists>p m'. for_loop MAX_CHANNELS 0 (remove_at c chs) (f, m) = Inr (int p, m') \<and> packed m' chs \<and>
    chan_list m' chs = remove1 c (chan_list m chs) \<and> (\<forall>x. \<not> in_region chs CHANNELS_SIZE x \<longrightarrow> m' x = m x)"
proof -
  let ?l = "chan_list m chs"
  let ?L = "length ?l"
  obtain p where p: "p < ?L" "?l ! p = c" using assms(4) by (auto simp: in_set_conv_nth)
  then have cp: "chan m chs p = c" by (simp add: chan_list_nth)
  have once: "chan m chs j \<noteq> c" if "j < MAX_CHANNELS" "j \<noteq> p" for j
  proof (cases "j < ?L")
    case True
    then show ?thesis using p that(2) assms(3) nth_eq_iff_index_eq chan_list_nth(1) by metis
  next
    case False
    then show ?thesis using assms(1,2) that(1) by (simp add: packed_def)
  qed
  obtain m' where m': "remove_at c chs p (f, m) = Inr (int p, m')"
    "\<And>j. j < MAX_CHANNELS \<Longrightarrow> chan m' chs j = (if p \<le> j \<and> j < ?L then chan m chs (Suc j) else chan m chs j)"
    "\<forall>x. \<not> in_region chs CHANNELS_SIZE x \<longrightarrow> m' x = m x"
    using remove_at_hit [OF assms(1) refl p(1) assms(5) cp] by blast
  have before: "for_loop p 0 (remove_at c chs) (f, m) = Inr (f, m)"
    using once p(1) assms(5) by (intro remove_loop_miss) simp
  have behind: "for_loop (MAX_CHANNELS - Suc p) (Suc p) (remove_at c chs) (int p, m') = Inr (int p, m')"
    using once p(1) assms(5) m'(2) cp chan_list_end [of m chs] assms(2)
    by (intro remove_loop_miss) (auto simp: less_Suc_eq)
  have "for_loop (p + Suc (MAX_CHANNELS - Suc p)) 0 (remove_at c chs) (f, m) = Inr (int p, m')"
    unfolding for_loop_split before using m'(1) behind by simp
  then have "for_loop MAX_CHANNELS 0 (remove_at c chs) (f, m) = Inr (int p, m')" using p(1) assms(5) by simp
  moreover have l: "chan_list m' chs = take p ?l @ drop (Suc p) ?l"
  proof (rule chan_list_eqI)
    show "chan m' chs j = (take p ?l @ drop (Suc p) ?l) ! j" if "j < length (take p ?l @ drop (Suc p) ?l)" for j
      using that p(1) assms(5) by (auto simp: m'(2) nth_append chan_list_nth(1))
    show "0 \<notin> set (take p ?l @ drop (Suc p) ?l)"
      using chan_list_nth(1,2) [of _ m chs] by (fastforce simp: in_set_conv_nth dest!: in_set_takeD in_set_dropD)
    show "chan m' chs (length (take p ?l @ drop (Suc p) ?l)) = 0"
      using p(1) assms(5) chan_list_end [OF assms(5)] by (cases ?L) (auto simp: m'(2))
  qed (use p(1) assms(5) in simp)
  moreover have "packed m' chs"
    unfolding packed_def l using p(1) assms(1,5) chan_list_end [OF assms(5)] by (auto simp: m'(2) packed_def)
  moreover have "remove1 c ?l = take p ?l @ drop (Suc p) ?l"
  proof -
    have s: "?l = take p ?l @ c # drop (Suc p) ?l" using id_take_nth_drop [OF p(1)] p(2) by simp
    then have "c \<notin> set (take p ?l)" using assms(3) by (metis distinct_append disjoint_iff list.set_intros(1))
    then show ?thesis by (subst s) (simp add: remove1_append)
  qed
  ultimately show ?thesis using m'(3) by metis
qed

text \<open>Processors whose array does not hold the channel are passed over.\<close>

lemma remove_cpus_miss:
  assumes "\<And>k. k0 \<le> k \<Longrightarrow> k < k0 + n \<Longrightarrow> vm_channels (vm_info (cpus s k)) = 0 \<or>
      (\<forall>j < MAX_CHANNELS. chan m (vm_channels (vm_info (cpus s k))) j \<noteq> c)" "k0 + n \<le> 256"
  shows "for_loop n k0 (remove_from_cpu c s) (f, m) = Inr (f, m)"
  using assms
proof (induction n arbitrary: k0)
  case (Suc n)
  have u: "unat (of_nat k0 :: addr) = k0" using Suc.prems(2) by (intro unat_of_nat_small) simp
  then have g: "get_cpu_info (of_nat k0) = Some k0"
    using Suc.prems(2) by (simp add: get_cpu_info_def word_less_nat_alt)
  have "remove_from_cpu c s k0 (f, m) = Inr (f, m)"
    using Suc.prems(1) [of k0] remove_loop_miss [of 0 MAX_CHANNELS m "vm_channels (vm_info (cpus s k0))" c f]
    by (auto simp: remove_from_cpu_def g deref_def Let_def)
  then show ?case using Suc.IH [of "Suc k0"] Suc.prems by simp
qed simp

lemma chan_cong:
  assumes "\<And>x. in_region chs 256 x \<Longrightarrow> m x = m' x" "j < MAX_CHANNELS"
  shows "chan m chs j = chan m' chs j"
proof -
  have "unat (of_nat (8 * j) :: addr) = 8 * j" using assms(2) by (intro unat_of_nat_small) simp
  then show ?thesis
    unfolding chan_def using assms in_region_sub [of chs "of_nat (8 * j)" 8 _ 256] by (intro load_cong) simp_all
qed

text \<open>
  Closing a channel takes it out of the list of the driver that has it, keeps the order of the
  others, and touches nothing outside the array and the word behind it.  The list must not be full;
  the arrays of the drivers lie apart and hold the channel once.
\<close>

lemma remove_channel_removes:
  assumes "i < unat (ncpus (self s))" "unat (ncpus (self s)) \<le> 256"
    and chs: "chs = vm_channels (vm_info (cpus s i))" "chs \<noteq> 0"
    and l: "packed (mem s) chs" "distinct (chan_list (mem s) chs)" "length (chan_list (mem s) chs) < MAX_CHANNELS"
      "c \<noteq> 0" "c \<in> set (chan_list (mem s) chs)"
    and others: "\<And>k. k < unat (ncpus (self s)) \<Longrightarrow> k \<noteq> i \<Longrightarrow> vm_channels (vm_info (cpus s k)) = 0 \<or>
      disjoint_regions chs CHANNELS_SIZE (vm_channels (vm_info (cpus s k))) 256 \<and>
      (\<forall>j < MAX_CHANNELS. chan (mem s) (vm_channels (vm_info (cpus s k))) j \<noteq> c)"
  shows "\<exists>m'. remove_channel_list c s = Inr (s\<lparr>mem := m'\<rparr>) \<and> packed m' chs \<and>
    chan_list m' chs = remove1 c (chan_list (mem s) chs) \<and> (\<forall>x. \<not> in_region chs CHANNELS_SIZE x \<longrightarrow> m' x = mem s x)"
proof -
  let ?N = "unat (ncpus (self s))"
  obtain p m' where m': "for_loop MAX_CHANNELS 0 (remove_at c chs) (- 1, mem s) = Inr (int p, m')" "packed m' chs"
    "chan_list m' chs = remove1 c (chan_list (mem s) chs)" "\<And>x. \<not> in_region chs CHANNELS_SIZE x \<Longrightarrow> m' x = mem s x"
    using remove_loop [OF l(1,4,2,5,3)] by blast
  have "unat (of_nat i :: addr) = i" using assms(1,2) by (intro unat_of_nat_small) simp
  then have "get_cpu_info (of_nat i) = Some i"
    using assms(1,2) by (simp add: get_cpu_info_def word_less_nat_alt)
  then have hit: "remove_from_cpu c s i (- 1, mem s) = Inr (int p, m')"
    using m'(1) chs by (simp add: remove_from_cpu_def deref_def)
  have before: "for_loop i 0 (remove_from_cpu c s) (- 1, mem s) = Inr (- 1, mem s)"
  proof (rule remove_cpus_miss)
    fix k assume "k < 0 + i"
    then show "vm_channels (vm_info (cpus s k)) = 0 \<or> (\<forall>j < MAX_CHANNELS. chan (mem s) (vm_channels (vm_info (cpus s k))) j \<noteq> c)"
      using others [of k] assms(1) by auto
  qed (use assms(1,2) in simp)
  have behind: "for_loop (?N - Suc i) (Suc i) (remove_from_cpu c s) (int p, m') = Inr (int p, m')"
  proof (rule remove_cpus_miss)
    fix k assume k: "Suc i \<le> k" "k < Suc i + (?N - Suc i)"
    let ?chs = "vm_channels (vm_info (cpus s k))"
    have "chan m' ?chs j = chan (mem s) ?chs j" if "disjoint_regions chs CHANNELS_SIZE ?chs 256" "j < MAX_CHANNELS" for j
      using that disjoint_regionsD [of chs 264 ?chs 256] by (intro chan_cong m'(4)) auto
    moreover have "k < ?N" using k assms(1) by simp
    ultimately show "?chs = 0 \<or> (\<forall>j < MAX_CHANNELS. chan m' ?chs j \<noteq> c)" using others [of k] k by auto
  qed (use assms(1,2) in simp)
  have "for_loop (i + Suc (?N - Suc i)) 0 (remove_from_cpu c s) (- 1, mem s) = Inr (int p, m')"
    unfolding for_loop_split before using hit behind by simp
  then have "for_loop ?N 0 (remove_from_cpu c s) (- 1, mem s) = Inr (int p, m')" using assms(1) by simp
  then have "remove_channel_list c s = Inr (s\<lparr>mem := m'\<rparr>)" using l(4) by (simp add: remove_channel_list_def)
  then show ?thesis using m' by blast
qed

lemma remove_channel_removes_witness:
  "\<exists>m'. remove_channel_list 0x8000 (demo_driver_pm (demo_channel_list [0x8000, 0x9000])) =
      Inr (demo_driver_pm m') \<and> chan_list m' 0x6000 = [0x9000]"
proof -
  let ?s = "demo_driver_pm (demo_channel_list [0x8000, 0x9000])"
  have s: "0x6000 = vm_channels (vm_info (cpus ?s 3))" "mem ?s = demo_channel_list [0x8000, 0x9000]"
    "?s\<lparr>mem := m\<rparr> = demo_driver_pm m" "unat (ncpus (self ?s)) = 6"
    "k \<noteq> 3 \<Longrightarrow> vm_channels (vm_info (cpus ?s k)) = 0" for m k
    by (simp_all add: demo_driver_pm_def zero_cpu_def zero_vm_def)
  have "\<exists>m'. remove_channel_list 0x8000 ?s = Inr (?s\<lparr>mem := m'\<rparr>) \<and> packed m' 0x6000 \<and>
    chan_list m' 0x6000 = remove1 0x8000 (chan_list (mem ?s) 0x6000) \<and>
    (\<forall>x. \<not> in_region 0x6000 CHANNELS_SIZE x \<longrightarrow> m' x = mem ?s x)"
    by (rule remove_channel_removes [OF _ _ s(1)]) (simp_all add: s(2,4,5) demo_two_channels)
  then show ?thesis by (auto simp: s(2,3) demo_two_channels(1))
qed

text \<open>
  From a full list the last entry is never removed: the loop that moves the entries up stops
  short of it and the zero goes one word past the array.  Closing that channel frees its page while
  the driver goes on polling it.
\<close>

lemma remove_channel_full_keeps_last:
  assumes "distinct (chan_list m chs)" "length (chan_list m chs) = MAX_CHANNELS" "c = chan m chs 31"
  shows "\<exists>m'. for_loop MAX_CHANNELS 0 (remove_at c chs) (f, m) = Inr (31, m') \<and>
    chan_list m' chs = chan_list m chs \<and> chan m' chs MAX_CHANNELS = 0"
proof -
  let ?m = "set_chan m chs MAX_CHANNELS 0"
  have "chan m chs j \<noteq> c" if "j < 31" for j
    using that assms nth_eq_iff_index_eq [OF assms(1), of j 31] by (simp add: chan_list_nth(1) [symmetric])
  then have before: "for_loop 31 0 (remove_at c chs) (f, m) = Inr (f, m)"
    by (intro remove_loop_miss) simp
  have "for_loop (31 + Suc 0) 0 (remove_at c chs) (f, m) = Inr (31, ?m)"
    unfolding for_loop_split before using assms(3) by (simp add: remove_at_def)
  moreover have "chan_list ?m chs = chan_list m chs"
    using assms(2) chan_list_nth(1,2) [of _ m chs]
    by (intro chan_list_eqI) (auto simp: chan_set_chan in_set_conv_nth)
  ultimately show ?thesis by (auto simp: chan_set_chan)
qed

lemma remove_channel_full_keeps_last_witness:
  "\<exists>m'. for_loop MAX_CHANNELS 0 (remove_at 32 0x6000) (- 1, demo_channel_list (map of_nat [1..<33])) = Inr (31, m') \<and>
    32 \<in> set (chan_list m' 0x6000)"
proof -
  let ?cs = "map of_nat [1..<33] :: addr list"
  have cs: "length ?cs \<le> MAX_CHANNELS" "0 \<notin> set ?cs" "distinct ?cs" "32 \<in> set ?cs" "?cs ! 31 = 32"
    by (simp_all add: upt_rec)
  have "chan (demo_channel_list ?cs) 0x6000 31 = 32"
    using cs(1,5) demo_channel_list_chan [of ?cs 31] by simp
  then show ?thesis
    using remove_channel_full_keeps_last [of "demo_channel_list ?cs" "0x6000" 32 "- 1"]
      demo_channel_list(1) [OF cs(1,2)] cs by auto
qed

end
