(* ===== verification/File_System.thy ===== *)
theory File_System
  imports Process_Manager
begin

text \<open>
  The file server: \<open>src/vms/fs/main.c\<close>.  The files lie in memory at \<open>filesystem\<close>: a count of four
  bytes, the headers, then the contents.  The table of open files of a program is an array of 32
  descriptors in memory; \<open>fds\<close> is its address.

  The structures that the server keeps on its stack and sends as a whole, padding and unset fields
  included, lie in memory at \<open>frame\<close>.  Where the layout of the stack is the compiler's choice, the
  model takes one without overlap.  \<open>world\<close> is what the rest of the system does to memory while the
  server waits.  The \<open>halt\<close> of the code is a fault.
\<close>

section \<open>State\<close>

record fs = sys +
  filesystem :: addr
  frame :: addr

abbreviation (input) "OPEN_IPC \<equiv> 1"
abbreviation (input) "READ_IPC \<equiv> 2"
abbreviation (input) "CLOSE_IPC \<equiv> 3"
abbreviation (input) "READ_ACK \<equiv> 6"
abbreviation (input) "WRITE_IPC \<equiv> 7"
abbreviation (input) "WRITE_ACK \<equiv> 8"

abbreviation fs_self :: "'a sys_scheme \<Rightarrow> cpu_info" where
  "fs_self s \<equiv> cpus s FS_ID"

text \<open>The local variables \<open>opentmp\<close> (36 bytes), \<open>openreply\<close> (16 bytes) and \<open>readreply\<close> (24 bytes).\<close>

definition opentmp :: "'a fs_scheme \<Rightarrow> addr" where
  "opentmp s = frame s"

definition openreply :: "'a fs_scheme \<Rightarrow> addr" where
  "openreply s = frame s + 40"

definition readreply :: "'a fs_scheme \<Rightarrow> addr" where
  "readreply s = frame s + 56"

definition upd_mem :: "(memory \<Rightarrow> memory) \<Rightarrow> 'a machine_scheme \<Rightarrow> 'a machine_scheme" where
  "upd_mem f s = s\<lparr>mem := f (mem s)\<rparr>"

definition fs_reply :: "cint \<Rightarrow> cint \<Rightarrow> cint \<Rightarrow> byte list \<Rightarrow> 'a sys_scheme \<Rightarrow> 'a sys_scheme res" where
  "fs_reply sender dest num bs s =
    bindr (msg_reply_bytes (fs_self s) sender dest num bs (mem s)) (\<lambda>m. Inr (s\<lparr>mem := m\<rparr>))"

definition fs_reply_mem :: "cint \<Rightarrow> cint \<Rightarrow> cint \<Rightarrow> addr \<Rightarrow> cint \<Rightarrow> 'a sys_scheme \<Rightarrow> 'a sys_scheme res" where
  "fs_reply_mem sender dest num dat sz s =
    bindr (msg_reply (fs_self s) sender dest num dat sz (mem s)) (\<lambda>m. Inr (s\<lparr>mem := m\<rparr>))"

section \<open>Descriptors and names\<close>

definition fs_get_cpu_info :: "addr \<Rightarrow> nat option" where
  "fs_get_cpu_info cpu = (if cpu > MAX_CPUS then None else Some (unat cpu))"

definition get_fds :: "cint \<Rightarrow> 'a sys_scheme \<Rightarrow> addr res" where
  "get_fds sender s =
    (if MAX_CPUS <s sender then Inr 0
     else deref (fs_get_cpu_info (scast sender)) (\<lambda>i. Inr (vm_fds (vm_info (cpus s i)))))"

definition nth_fd :: "memory \<Rightarrow> addr \<Rightarrow> cint \<Rightarrow> file_descriptor" where
  "nth_fd m fds fd = get_fd m (fds + 24 * scast fd)"

text \<open>\<open>for (i = 2; i < MAX_FD; i++) if (fds[i].offset == 0) break;\<close>\<close>

primrec free_fd_from :: "nat \<Rightarrow> nat \<Rightarrow> addr \<Rightarrow> memory \<Rightarrow> nat" where
  "free_fd_from 0 i fds m = i"
| "free_fd_from (Suc n) i fds m =
    (if fd_offset (get_fd m (fd_addr fds i)) = 0 then i else free_fd_from n (Suc i) fds m)"

definition free_fd :: "addr \<Rightarrow> memory \<Rightarrow> nat" where
  "free_fd fds m = free_fd_from (MAX_FD - 2) 2 fds m"

text \<open>\<open>num_files = (int)*filesystem\<close> reads one \<open>char\<close>, which is signed.\<close>

definition num_files :: "addr \<Rightarrow> memory \<Rightarrow> cint" where
  "num_files fs m = scast (m fs)"

definition nth_header :: "addr \<Rightarrow> nat \<Rightarrow> addr" where
  "nth_header fs i = fs + 4 + of_nat (HEADER_SIZE * i)"

primrec find_file_from :: "nat \<Rightarrow> nat \<Rightarrow> addr \<Rightarrow> addr \<Rightarrow> memory \<Rightarrow> nat option res" where
  "find_file_from 0 i fs path m = Inr None"
| "find_file_from (Suc n) i fs path m =
    (case strcmp (nth_header fs i) path m of
       None \<Rightarrow> Inl Blocked
     | Some r \<Rightarrow> if r = 0 then Inr (Some i) else find_file_from n (Suc i) fs path m)"

definition find_file :: "addr \<Rightarrow> addr \<Rightarrow> memory \<Rightarrow> nat option res" where
  "find_file fs path m = find_file_from (nat (sint (num_files fs m))) 0 fs path m"

section \<open>Open\<close>

definition open_fail :: "'a fs_scheme \<Rightarrow> 'a fs_scheme" where
  "open_fail s = upd_mem (\<lambda>m. store32 m (openreply s) (- 1)) s"

definition local_open_char ::
    "(memory \<Rightarrow> memory) \<Rightarrow> addr \<Rightarrow> cint \<Rightarrow> 'a fs_scheme \<Rightarrow> 'a fs_scheme res" where
  "local_open_char world path sender s =
    (if MAX_CPUS <s sender \<or> sender <s 0 then Inr (open_fail s)
     else bindr (get_fds sender s) (\<lambda>fds.
       if fds = 0 then Inr (open_fail s)
       else bindr (if str_at (mem s) path (chars ''stdin'') then Inr (0, KBD_ID)
                   else if str_at (mem s) path (chars ''stdout'') then Inr (1, CONSOLE_ID)
                   else if str_at (mem s) path (chars ''junkfd'') then Inr (free_fd fds (mem s), JUNK_ID)
                   else Inl (Fault ''halt'')) (\<lambda>(fd, dst).
         let p = fd_addr fds fd in
         if fd_offset (get_fd (mem s) p) \<noteq> 0 then Inr (open_fail s)
         else
           (let req = frame s + 80; m0 = store64 (store64 (mem s) req (scast sender)) (req + 8) dst in
            bindr (msg_send (fs_self s) PM_ID CHANNEL_IPC req 16 m0) (\<lambda>m1.
            bindr (msg_receive (fs_self s) 0 PM_ID (world m1)) (\<lambda>(_, _, m2).
              let m3 = memcpy (p + 16) (message_data (msg_input (fs_self s))) 8 m2;
                  m4 = store64 (store32 (store32 m3 p TYPE_CHAR) (p + 4) 0) (p + 8) dst;
                  m5 = store32 m4 (openreply s) (of_nat fd)
              in Inr (s\<lparr>mem := store64 m5 (openreply s + 8) (fd_offset (get_fd m5 p))\<rparr>)))))))"

definition local_open ::
    "(memory \<Rightarrow> memory) \<Rightarrow> addr \<Rightarrow> cint \<Rightarrow> cint \<Rightarrow> 'a fs_scheme \<Rightarrow> 'a fs_scheme res" where
  "local_open world path flags sender s =
    (if str_at (mem s) path (chars ''stdin'') \<or> str_at (mem s) path (chars ''stdout'') \<or>
        str_at (mem s) path (chars ''junkfd'')
     then local_open_char world path sender s
     else bindr (get_fds sender s) (\<lambda>fds.
       if fds = 0 then Inr (open_fail s)
       else
         (let fd = free_fd fds (mem s) in
          if fd \<ge> MAX_FD then Inr (open_fail s)
          else if flags \<noteq> 0 then Inr (open_fail s)
          else bindr (find_file (filesystem s) path (mem s)) (\<lambda>r.
            case r of
              None \<Rightarrow> Inr (open_fail s)
            | Some i \<Rightarrow>
               (let h = get_header (mem s) (nth_header (filesystem s) i);
                    m1 = put_fd (mem s) (fd_addr fds fd)
                      \<lparr>fd_type = hdr_type h, fd_length = hdr_length h, fd_dst = 0, fd_offset = hdr_offset h\<rparr>
                in Inr (s\<lparr>mem := store64 (store32 m1 (openreply s) (of_nat fd)) (openreply s + 8) 0\<rparr>))))))"

section \<open>Read and write\<close>

definition local_read_char :: "cint \<Rightarrow> cint \<Rightarrow> cint \<Rightarrow> 'a fs_scheme \<Rightarrow> (cint \<times> 'a fs_scheme) res" where
  "local_read_char fd count sender s =
    (if MAX_FD <s fd \<or> MAX_CPUS <s sender \<or> sender <s 0 then Inl (Fault ''halt'')
     else bindr (get_fds sender s) (\<lambda>fds.
       if fds = 0 then Inr (0, s)
       else
         (let channel = fd_offset (nth_fd (mem s) fds fd) in
          if channel = 0 then Inl (Fault ''halt'')
          else bindr (fs_reply sender (if fd = 0 then KBD_ID else CONSOLE_ID) READ_IPC
                  (le_bytes 8 (scast sender :: addr) @ le_bytes 8 channel @ le_bytes 8 (scast count :: addr)) s)
            (\<lambda>s1. Inr (count, s1)))))"

definition local_read_file :: "cint \<Rightarrow> addr \<Rightarrow> cint \<Rightarrow> cint \<Rightarrow> 'a fs_scheme \<Rightarrow> (cint \<times> 'a fs_scheme) res" where
  "local_read_file fd buf count sender s =
    bindr (get_fds sender s) (\<lambda>fds.
      if fds = 0 then Inr (0, s)
      else
        (let d = nth_fd (mem s) fds fd; n = (if count > fd_length d then fd_length d else count)
         in Inr (n, upd_mem (memcpy buf (filesystem s + fd_offset d) (scast n)) s)))"

definition get_type :: "cint \<Rightarrow> cint \<Rightarrow> 'a sys_scheme \<Rightarrow> cint res" where
  "get_type fd sender s =
    (if MAX_FD <s fd \<or> fd <s 0 then Inr (- 1)
     else bindr (get_fds sender s) (\<lambda>fds.
       if fds = 0 then Inr (- 1)
       else if fd_type (nth_fd (mem s) fds fd) = 0 then Inr (- 1)
       else Inr (fd_type (nth_fd (mem s) fds fd))))"

definition local_read :: "cint \<Rightarrow> addr \<Rightarrow> cint \<Rightarrow> cint \<Rightarrow> 'a fs_scheme \<Rightarrow> (cint \<times> 'a fs_scheme) res" where
  "local_read fd buf count sender s =
    bindr (get_type fd sender s) (\<lambda>type.
      if type <s 0 then Inr (- 1, s)
      else bindr (get_fds sender s) (\<lambda>fds.
        if fds = 0 then Inr (- 1, s)
        else if fd_type (nth_fd (mem s) fds fd) = TYPE_CHAR then local_read_char fd count sender s
        else if fd_type (nth_fd (mem s) fds fd) = TYPE_FILE then local_read_file fd buf count sender s
        else Inl (Fault ''halt'')))"

text \<open>\<open>struct write_reply\<close> is two \<open>int\<close>s, \<open>struct console_write\<close> three words.\<close>

definition local_write :: "cint \<Rightarrow> addr \<Rightarrow> cint \<Rightarrow> cint \<Rightarrow> 'a fs_scheme \<Rightarrow> 'a fs_scheme res" where
  "local_write fd buf count sender s =
    bindr (get_type fd sender s) (\<lambda>type.
    bindr (if type = TYPE_FILE \<or> fd \<noteq> 1
           then fs_reply FS_ID sender WRITE_IPC (le_bytes 4 sender @ le_bytes 4 (- 1 :: cint)) s else Inr s)
      (fs_reply sender CONSOLE_ID WRITE_IPC
        (le_bytes 8 (scast sender :: addr) @ le_bytes 8 buf @ le_bytes 8 (scast count :: addr))))"

section \<open>Close\<close>

definition local_close_char ::
    "(memory \<Rightarrow> memory) \<Rightarrow> (memory \<Rightarrow> memory) \<Rightarrow> cint \<Rightarrow> cint \<Rightarrow> 'a fs_scheme \<Rightarrow> 'a fs_scheme res" where
  "local_close_char driver pm fd sender s =
    deref (fs_get_cpu_info (scast sender)) (\<lambda>cpu.
      let p = vm_fds (vm_info (cpus s cpu)) + 24 * scast fd; cnl = fd_offset (get_fd (mem s) p) in
      bindr (cnl_send cnl (store64 (mem s) (channel_data cnl) 0x87654321)) (\<lambda>m1.
      bindr (cnl_receive cnl (driver m1)) (\<lambda>m2.
      let req = frame s + 80 in
      bindr (msg_send (fs_self s) PM_ID CHANNEL_CLOSE_IPC req 8 (store64 m2 req cnl)) (\<lambda>m3.
      bindr (msg_receive (fs_self s) 0 PM_ID (pm m3)) (\<lambda>(_, _, m4).
        if m4 (message_data (msg_input (fs_self s))) \<noteq> 0
        then Inl (Panic ''FS: The reply from PM when closing the channel is not 0'')
        else
          fs_reply FS_ID (if fd = 0 then KBD_ID else if fd = 1 then CONSOLE_ID else JUNK_ID) CHANNEL_CLOSE_IPC
            (le_bytes 4 (0 :: cint)) (s\<lparr>mem := store64 m4 (p + 16) 0\<rparr>))))))"

definition local_close ::
    "(memory \<Rightarrow> memory) \<Rightarrow> (memory \<Rightarrow> memory) \<Rightarrow> cint \<Rightarrow> cint \<Rightarrow> 'a fs_scheme \<Rightarrow> (cint \<times> 'a fs_scheme) res" where
  "local_close driver pm fd sender s =
    (if MAX_FD <s fd then Inr (- 1, s)
     else bindr (get_fds sender s) (\<lambda>fds.
       if fds = 0 then Inr (- 1, s)
       else
         (let p = fds + 24 * scast fd in
          bindr (if fd_type (get_fd (mem s) p) = TYPE_CHAR then local_close_char driver pm fd sender s else Inr s) (\<lambda>s1.
            Inr (0, upd_mem (\<lambda>m. store64 (store32 (store32 m p 0) (p + 4) 0) (p + 16) 0) s1)))))"

section \<open>Loading a program, and the loop\<close>

definition local_load :: "addr \<Rightarrow> 'a fs_scheme \<Rightarrow> addr res" where
  "local_load path s =
    bindr (find_file (filesystem s) path (mem s)) (\<lambda>r.
      case r of
        None \<Rightarrow> Inr 0
      | Some i \<Rightarrow> Inr (filesystem s + hdr_offset (get_header (mem s) (nth_header (filesystem s) i))))"

definition fs_request ::
    "(memory \<Rightarrow> memory) \<Rightarrow> (memory \<Rightarrow> memory) \<Rightarrow> addr \<Rightarrow> 'a fs_scheme \<Rightarrow> 'a fs_scheme res" where
  "fs_request driver pm m s =
    (let sender = message_from (mem s) m; num = message_number (mem s) m; data = message_data m;
         to_sender = ucast sender :: cint in
     if num = OPEN_IPC then
       (if is_driver sender then fs_reply FS_ID to_sender OPEN_IPC (le_bytes 4 (- 1 :: cint)) s
        else
          (let s1 = upd_mem (memcpy (opentmp s) data 36) s in
           bindr (local_open pm (opentmp s1) (load32 (mem s1) (opentmp s1 + 32)) to_sender s1)
             (\<lambda>s2. fs_reply_mem FS_ID to_sender OPEN_IPC (openreply s2) 16 s2)))
     else if num = READ_IPC then
       (let fd = load32 (mem s) data in
        bindr (local_read fd (load64 (mem s) (data + 8)) (load32 (mem s) (data + 16)) to_sender s) (\<lambda>(r, s1).
        bindr (get_type fd to_sender s1) (\<lambda>type.
          if type = TYPE_FILE then
            (let s2 = upd_mem (\<lambda>m. store64 (store32 (store32 m (readreply s1 + 4) TYPE_FILE) (readreply s1 + 8) r)
                        (readreply s1 + 16) 0) s1
             in fs_reply_mem FS_ID to_sender READ_IPC (readreply s2) 24 s2)
          else Inr s1)))
     else if num = CLOSE_IPC then
       bindr (local_close driver pm (load32 (mem s) data) to_sender s) (\<lambda>(r, s1).
         fs_reply FS_ID to_sender CLOSE_IPC (le_bytes 4 r) s1)
     else if num = LOAD_IPC then
       (if sender \<noteq> PM_ID then fs_reply FS_ID to_sender LOAD_IPC (le_bytes 8 (0 :: addr)) s
        else bindr (local_load data s) (\<lambda>f. fs_reply FS_ID to_sender LOAD_IPC (le_bytes 8 f) s))
     else if num = WRITE_IPC then
       local_write (load32 (mem s) data) (load64 (mem s) (data + 8)) (load32 (mem s) (data + 16)) to_sender s
     else if num = READ_ACK then
       bindr (fs_reply_mem FS_ID (load32 (mem s) data) READ_IPC data 24 s)
         (fs_reply_mem FS_ID KBD_ID READ_IPC data 24)
     else if num = WRITE_ACK then
       bindr (fs_reply_mem FS_ID (load32 (mem s) data) WRITE_IPC data 8 s)
         (fs_reply_mem FS_ID CONSOLE_ID WRITE_IPC data 8)
     else Inr s)"

definition fs_init :: "'a fs_scheme \<Rightarrow> 'a fs_scheme" where
  "fs_init s = s\<lparr>filesystem := vm_args (fs_self s)\<rparr>"

definition fs_turn :: "(memory \<Rightarrow> memory) \<Rightarrow> (memory \<Rightarrow> memory) \<Rightarrow> 'a fs_scheme \<Rightarrow> 'a fs_scheme res" where
  "fs_turn driver pm s =
    bindr (msg_check (fs_self s) (mem s)) (\<lambda>(m, mem'). fs_request driver pm m (s\<lparr>mem := mem'\<rparr>))"

end
