(* ===== verification/Initrd.thy ===== *)
theory Initrd
  imports File_System
begin

text \<open>
  The program that builds the image of the RAM disk (\<open>src/initrd/create_initrd.c\<close>), and that the
  file server finds in the image what was put in.

  A file on the command line is its base name and, if it can be opened, its contents.  The image is
  the bytes that \<open>main\<close> writes.  The variable \<open>h_tmp\<close> is reused for all headers, so the bytes of the
  name after the terminating zero are those of earlier names; \<open>junk\<close> is what they are at the start.
\<close>

section \<open>Building the image\<close>

type_synonym host_file = "byte list \<times> byte list option"

abbreviation (input) "MAX_SIZE \<equiv> 0x400000"

text \<open>
  \<open>strcpy (h_tmp.name, name)\<close>.  What runs over the field lands in the fields behind it, which are set
  afterwards, until the 56 bytes of \<open>h_tmp\<close> are exceeded.
\<close>

definition set_name :: "byte list \<Rightarrow> byte list \<Rightarrow> byte list res" where
  "set_name name buf =
    (if length name \<ge> HEADER_SIZE then Inl (Fault ''h_tmp overrun'')
     else Inr (take 32 (name @ 0 # drop (Suc (length name)) buf)))"

definition header_bytes :: "byte list \<Rightarrow> cint \<Rightarrow> cint \<Rightarrow> addr \<Rightarrow> byte list" where
  "header_bytes name type len off =
    name @ le_bytes 4 type @ le_bytes 4 len @ le_bytes 8 (0 :: addr) @ le_bytes 8 off"

text \<open>\<open>len\<close> and \<open>off\<close> are \<open>int\<close>; \<open>off\<close> is sign-extended when it is stored.\<close>

fun write_headers :: "byte list \<Rightarrow> cint \<Rightarrow> host_file list \<Rightarrow> byte list res" where
  "write_headers buf off [] = Inr []"
| "write_headers buf off ((name, None) # files) = Inl (Panic ''File not found!'')"
| "write_headers buf off ((name, Some content) # files) =
    (let len = of_nat (length content) in
     if MAX_SIZE <s len then Inl (Panic ''File is bigger than MAX'')
     else bindr (set_name name buf) (\<lambda>buf'.
          bindr (write_headers buf' (off + len) files) (\<lambda>rest.
            Inr (header_bytes buf' TYPE_FILE len (scast off) @ rest))))"

fun write_files :: "host_file list \<Rightarrow> byte list res" where
  "write_files [] = Inr []"
| "write_files ((name, None) # files) = Inl (Fault ''fseek of NULL'')"
| "write_files ((name, Some content) # files) =
    (let len = of_nat (length content) :: cint in
     if len <s 0 then Inl (Fault ''buffer overrun'')
     else bindr (write_files files) (\<lambda>rest. Inr (take (unat len) content @ rest)))"

definition create_initrd :: "byte list \<Rightarrow> host_file list \<Rightarrow> byte list res" where
  "create_initrd junk files =
    (let total = of_nat (length files) + 2 :: cint; off = 56 * total + 4 in
     if files = [] then Inl (Panic ''Usage'')
     else bindr (set_name (chars ''stdin'') junk) (\<lambda>buf1.
          bindr (set_name (chars ''stdout'') buf1) (\<lambda>buf2.
          bindr (write_headers buf2 off files) (\<lambda>headers.
          bindr (write_files files) (\<lambda>contents.
            Inr (le_bytes 4 total @ header_bytes buf1 TYPE_CHAR 0 0 @ header_bytes buf2 TYPE_CHAR 0 0 @
                 headers @ contents))))))"

section \<open>Bytes in memory\<close>

lemma length_le_bytes [simp]: "length (le_bytes n w) = n"
  by (simp add: le_bytes_def)

lemma load_le_bytes:
  assumes "bytes_at m a (le_bytes n w)" "LENGTH('a) = 8 * n"
  shows "load_le n m a = (w :: 'a::len word)"
proof (rule bit_word_eqI)
  fix i assume i: "i < LENGTH('a)"
  then have "i div 8 < n" using assms(2) by linarith
  then have "m (a + of_nat (i div 8)) = ucast (drop_bit (8 * (i div 8)) w)"
    using assms(1) by (simp add: bytes_at_nth le_bytes_def)
  then show "bit (load_le n m a :: 'a word) i = bit w i"
    using i assms(2) by (simp add: bit_load_le bit_simps mult_div_mod_eq)
qed

section \<open>What the image holds\<close>

definition host_ok :: "host_file \<Rightarrow> bool" where
  "host_ok f \<longleftrightarrow> 0 \<notin> set (fst f) \<and> length (fst f) < 32 \<and> snd f \<noteq> None \<and> length (the (snd f)) \<le> MAX_SIZE"

definition sizes :: "host_file list \<Rightarrow> nat" where
  "sizes files = (\<Sum>f\<leftarrow>files. length (the (snd f)))"

definition file_header :: "nat \<Rightarrow> byte list \<Rightarrow> header" where
  "file_header off content =
    \<lparr>hdr_type = TYPE_FILE, hdr_length = of_nat (length content), hdr_dst = 0, hdr_offset = of_nat off\<rparr>"

lemma length_header_bytes: "length name = 32 \<Longrightarrow> length (header_bytes name t l off) = 56"
  by (simp add: header_bytes_def)

lemma header_bytes_get:
  assumes "bytes_at m a (header_bytes name t l off)" "length name = 32"
  shows "get_header m a = \<lparr>hdr_type = t, hdr_length = l, hdr_dst = 0, hdr_offset = off\<rparr>"
  using assms by (simp add: header_bytes_def bytes_at_append get_header_def load_le_bytes add.commute)

lemma header_bytes_name:
  assumes "set_name name buf = Inr buf'" "bytes_at m a (header_bytes buf' t l off)"
    "0 \<notin> set name" "length name < 32"
  shows "str_at m a name"
proof -
  have "buf' = name @ 0 # take (31 - length name) (drop (Suc (length name)) buf)"
    using assms(1,4) by (auto simp: set_name_def take_Cons' Suc_diff_Suc split: if_splits)
  then show ?thesis using assms(2,3) by (auto simp: header_bytes_def intro: str_at_bytes)
qed

lemma set_name_length:
  "set_name name buf = Inr buf' \<Longrightarrow> length buf = 32 \<Longrightarrow> length name < 32 \<Longrightarrow> length buf' = 32"
  by (auto simp: set_name_def split: if_splits)

lemma set_name_total: "length name < 32 \<Longrightarrow> \<exists>buf'. set_name name buf = Inr buf'"
  by (simp add: set_name_def)

lemma small_sless: "n \<le> MAX_SIZE \<Longrightarrow> \<not> MAX_SIZE <s (of_nat n :: cint) \<and> \<not> (of_nat n :: cint) <s 0"
  by (simp add: word_sless_alt sint_of_nat_cint)

lemma write_headers_total:
  assumes "\<forall>f \<in> set files. host_ok f" "length buf = 32"
  shows "\<exists>hs. write_headers buf off files = Inr hs \<and> length hs = 56 * length files"
  using assms
proof (induction files arbitrary: buf off)
  case (Cons f files)
  then obtain name c where f: "f = (name, Some c)" "length c \<le> MAX_SIZE" "length name < 32"
    by (cases f) (auto simp: host_ok_def)
  then obtain buf' where b: "set_name name buf = Inr buf'" "length buf' = 32"
    using set_name_total set_name_length Cons.prems(2) by blast
  obtain hs where "write_headers buf' (off + of_nat (length c)) files = Inr hs" "length hs = 56 * length files"
    using Cons.IH [OF _ b(2)] Cons.prems(1) by fastforce
  with f b show ?case by (simp add: Let_def small_sless length_header_bytes)
qed simp

lemma write_files_concat:
  assumes "\<forall>f \<in> set files. host_ok f"
  shows "write_files files = Inr (concat (map (the \<circ> snd) files))"
  using assms
proof (induction files)
  case (Cons f files)
  then obtain name c where f: "f = (name, Some c)" "length c \<le> MAX_SIZE"
    by (cases f) (auto simp: host_ok_def)
  then have "unat (of_nat (length c) :: cint) = length c"
    by (intro unat_of_nat_small) simp
  with f Cons show ?case by (simp add: Let_def small_sless)
qed simp

lemma write_headers_entry:
  assumes "write_headers buf (of_nat off) files = Inr hs" "bytes_at m a hs" "length buf = 32"
    "\<forall>f \<in> set files. host_ok f" "off + sizes files < 2 ^ 31"
    "i < length files" "files ! i = (name, Some c)"
  shows "str_at m (a + of_nat (56 * i)) name \<and>
    get_header m (a + of_nat (56 * i)) = file_header (off + sizes (take i files)) c"
  using assms
proof (induction files arbitrary: buf off hs a i)
  case (Cons f files)
  then obtain nm d where f: "f = (nm, Some d)" "length d \<le> MAX_SIZE" "length nm < 32" "0 \<notin> set nm"
    by (cases f) (auto simp: host_ok_def)
  with Cons.prems(1) obtain buf' rest where b: "set_name nm buf = Inr buf'"
    and w: "write_headers buf' (of_nat (off + length d)) files = Inr rest"
    and hs: "hs = header_bytes buf' TYPE_FILE (of_nat (length d)) (scast (of_nat off :: cint)) @ rest"
    by (auto simp: Let_def small_sless)
  have l: "length buf' = 32" using b Cons.prems(3) f(3) by (rule set_name_length)
  have off: "scast (of_nat off :: cint) = (of_nat off :: addr)"
    using Cons.prems(5) by (intro scast_of_nat_cint) simp
  have at: "bytes_at m a (header_bytes buf' TYPE_FILE (of_nat (length d)) (of_nat off))"
    "bytes_at m (a + 56) rest"
    using Cons.prems(2) by (simp_all add: hs off bytes_at_append length_header_bytes l)
  show ?case
  proof (cases i)
    case 0
    with Cons.prems(7) f header_bytes_name [OF b at(1) f(4,3)] header_bytes_get [OF at(1) l] show ?thesis
      by (simp add: file_header_def sizes_def)
  next
    case (Suc j)
    have "off + length d + sizes files < 2 ^ 31" using Cons.prems(5) f by (simp add: sizes_def)
    from Cons.IH [OF w at(2) l _ this] Cons.prems(4,6,7) Suc
    have "str_at m (a + 56 + of_nat (56 * j)) name \<and>
      get_header m (a + 56 + of_nat (56 * j)) = file_header (off + length d + sizes (take j files)) c"
      by simp
    with Suc f show ?thesis by (simp add: sizes_def algebra_simps)
  qed
qed simp

lemma contents_entry:
  assumes "bytes_at m a (concat (map (the \<circ> snd) files))" "i < length files" "files ! i = (name, Some c)"
  shows "bytes_at m (a + of_nat (sizes (take i files))) c"
  using assms
proof (induction files arbitrary: a i)
  case (Cons f files)
  show ?case
  proof (cases i)
    case (Suc j)
    from Cons.IH [of "a + of_nat (length (the (snd f)))" j] Cons.prems Suc show ?thesis
      by (simp add: bytes_at_append sizes_def algebra_simps)
  qed (use Cons.prems in \<open>simp add: bytes_at_append sizes_def\<close>)
qed simp

text \<open>The files that fit: at most 125 of them, with distinct names other than those of the devices.\<close>

definition files_ok :: "host_file list \<Rightarrow> bool" where
  "files_ok files \<longleftrightarrow> files \<noteq> [] \<and> length files \<le> 125 \<and> (\<forall>f \<in> set files. host_ok f) \<and>
    56 * (length files + 2) + 4 + sizes files < 2 ^ 31 \<and> distinct (map fst files) \<and>
    chars ''stdin'' \<notin> set (map fst files) \<and> chars ''stdout'' \<notin> set (map fst files)"

definition data_start :: "host_file list \<Rightarrow> nat" where
  "data_start files = 56 * (length files + 2) + 4"

lemma length_concat_sizes: "length (concat (map (the \<circ> snd) files)) = sizes files"
  by (induction files) (simp_all add: sizes_def)

lemma chars_std:
  "length (chars ''stdin'') = 5" "length (chars ''stdout'') = 6" "0 \<notin> set (chars ''stdin'')"
  "0 \<notin> set (chars ''stdout'')" "chars ''stdin'' \<noteq> chars ''stdout''"
  by (simp_all add: chars_def)

lemma create_initrd_cases:
  assumes "files \<noteq> []" "\<forall>f \<in> set files. host_ok f" "length junk = 32" "data_start files + sizes files < 2 ^ 31"
  obtains buf1 buf2 hs where "set_name (chars ''stdin'') junk = Inr buf1" "length buf1 = 32"
    "set_name (chars ''stdout'') buf1 = Inr buf2" "length buf2 = 32"
    "write_headers buf2 (of_nat (data_start files)) files = Inr hs" "length hs = 56 * length files"
    "create_initrd junk files = Inr (le_bytes 4 (of_nat (length files + 2) :: cint) @ header_bytes buf1 TYPE_CHAR 0 0 @
       header_bytes buf2 TYPE_CHAR 0 0 @ hs @ concat (map (the \<circ> snd) files))"
proof -
  obtain buf1 where b1: "set_name (chars ''stdin'') junk = Inr buf1" "length buf1 = 32"
    using set_name_total [of "chars ''stdin''" junk] set_name_length [of "chars ''stdin''" junk] assms(3)
    by (auto simp: chars_std)
  obtain buf2 where b2: "set_name (chars ''stdout'') buf1 = Inr buf2" "length buf2 = 32"
    using set_name_total [of "chars ''stdout''" buf1] set_name_length [of "chars ''stdout''" buf1] b1(2)
    by (auto simp: chars_std)
  obtain hs where hs: "write_headers buf2 (of_nat (data_start files)) files = Inr hs" "length hs = 56 * length files"
    using write_headers_total [OF assms(2) b2(2)] by blast
  have n: "of_nat (length files) + 2 = (of_nat (length files + 2) :: cint)" by simp
  have off: "56 * of_nat (length files + 2) + 4 = (of_nat (data_start files) :: cint)"
    by (simp add: data_start_def algebra_simps)
  show thesis
    by (rule that [OF b1 b2 hs])
      (simp only: create_initrd_def Let_def n off if_not_P [OF assms(1)] b1(1) b2(1) hs(1) bindr.simps write_files_concat [OF assms(2)])
qed

lemma create_initrd_total:
  assumes "files_ok files" "length junk = 32"
  shows "\<exists>img. create_initrd junk files = Inr img \<and> length img = data_start files + sizes files"
proof -
  have p: "files \<noteq> []" "\<forall>f \<in> set files. host_ok f" "data_start files + sizes files < 2 ^ 31"
    using assms(1) by (auto simp: files_ok_def data_start_def)
  show ?thesis
  proof (rule create_initrd_cases [OF p(1,2) assms(2) p(3)])
    fix buf1 buf2 hs
    assume "length buf1 = 32" "length buf2 = 32" "length hs = 56 * length files"
      and c: "create_initrd junk files = Inr (le_bytes 4 (of_nat (length files + 2) :: cint) @ header_bytes buf1 TYPE_CHAR 0 0 @
        header_bytes buf2 TYPE_CHAR 0 0 @ hs @ concat (map (the \<circ> snd) files))"
    then show ?thesis unfolding c
      by (simp add: length_header_bytes length_concat_sizes data_start_def del: length_concat)
  qed
qed

lemma count_byte:
  assumes "bytes_at m fs (le_bytes 4 (of_nat k :: cint))"
  shows "m fs = of_nat k"
proof -
  have "[0..<4] = [0, 1, 2, 3 :: nat]" by (simp add: upt_rec)
  with assms have "m fs = ucast (of_nat k :: cint)" by (simp add: le_bytes_def)
  also have "ucast (of_nat k :: cint) = (of_nat k :: byte)"
    by (rule bit_word_eqI) (auto simp: bit_simps)
  finally show ?thesis .
qed

lemma image_entry:
  assumes "files_ok files" "length junk = 32" "create_initrd junk files = Inr img" "bytes_at m fs img"
    "i < length files" "files ! i = (name, Some c)"
  shows "str_at m (nth_header fs (i + 2)) name"
    "get_header m (nth_header fs (i + 2)) = file_header (data_start files + sizes (take i files)) c"
    "bytes_at m (fs + of_nat (data_start files + sizes (take i files))) c"
    "str_at m (nth_header fs 0) (chars ''stdin'')" "str_at m (nth_header fs 1) (chars ''stdout'')"
    "m fs = of_nat (length files + 2)"
proof -
  have p: "files \<noteq> []" "\<forall>f \<in> set files. host_ok f" "data_start files + sizes files < 2 ^ 31"
    using assms(1) by (auto simp: files_ok_def data_start_def)
  obtain buf1 buf2 hs where b: "set_name (chars ''stdin'') junk = Inr buf1" "length buf1 = 32"
    "set_name (chars ''stdout'') buf1 = Inr buf2" "length buf2 = 32"
    "write_headers buf2 (of_nat (data_start files)) files = Inr hs" "length hs = 56 * length files"
    and c: "create_initrd junk files = Inr (le_bytes 4 (of_nat (length files + 2) :: cint) @ header_bytes buf1 TYPE_CHAR 0 0 @
       header_bytes buf2 TYPE_CHAR 0 0 @ hs @ concat (map (the \<circ> snd) files))"
    using create_initrd_cases [OF p(1,2) assms(2) p(3)] by metis
  have img: "img = le_bytes 4 (of_nat (length files + 2) :: cint) @ header_bytes buf1 TYPE_CHAR 0 0 @
       header_bytes buf2 TYPE_CHAR 0 0 @ hs @ concat (map (the \<circ> snd) files)"
    using assms(3) unfolding c by simp
  have at: "bytes_at m fs (le_bytes 4 (of_nat (length files + 2) :: cint))"
    "bytes_at m (fs + 4) (header_bytes buf1 TYPE_CHAR 0 0)" "bytes_at m (fs + 60) (header_bytes buf2 TYPE_CHAR 0 0)"
    "bytes_at m (fs + 116) hs" "bytes_at m (fs + of_nat (data_start files)) (concat (map (the \<circ> snd) files))"
    using assms(4) img
    by (simp_all add: bytes_at_append length_header_bytes b(2,4,6) data_start_def algebra_simps)
  have e: "str_at m (fs + 116 + of_nat (56 * i)) name \<and> get_header m (fs + 116 + of_nat (56 * i)) =
      file_header (data_start files + sizes (take i files)) c"
    using write_headers_entry [OF b(5) at(4) b(4) p(2,3) assms(5,6)] by simp
  have a: "nth_header fs (i + 2) = fs + 116 + of_nat (56 * i)" by (simp add: nth_header_def algebra_simps)
  show "str_at m (nth_header fs (i + 2)) name"
    "get_header m (nth_header fs (i + 2)) = file_header (data_start files + sizes (take i files)) c"
    using e a by simp_all
  show "bytes_at m (fs + of_nat (data_start files + sizes (take i files))) c"
    using contents_entry [OF at(5) assms(5,6)] by (simp add: add.assoc)
  show "str_at m (nth_header fs 0) (chars ''stdin'')"
    using header_bytes_name [OF b(1) at(2)] by (simp add: nth_header_def chars_std)
  show "str_at m (nth_header fs 1) (chars ''stdout'')"
    using header_bytes_name [OF b(3) at(3)] by (simp add: nth_header_def chars_std add.assoc)
  show "m fs = of_nat (length files + 2)" using at(1) by (rule count_byte)
qed

section \<open>The file server finds the files\<close>

lemma find_file_from_hit:
  assumes "\<forall>j < k. \<exists>ys. str_at m (nth_header fs (i + j)) ys \<and> ys \<noteq> xs" "str_at m (nth_header fs (i + k)) xs"
    "str_at m path xs" "k < n"
  shows "find_file_from n i fs path m = Inr (Some (i + k))"
  using assms
proof (induction n arbitrary: i k)
  case (Suc n)
  show ?case
  proof (cases k)
    case 0
    with Suc.prems(2,3) show ?thesis by (simp add: strcmp_str)
  next
    case (Suc l)
    obtain ys where ys: "str_at m (nth_header fs i) ys" "ys \<noteq> xs" using Suc.prems(1) Suc by force
    then obtain r where "strcmp (nth_header fs i) path m = Some r" "r \<noteq> 0"
      using strcmp_str [OF ys(1) Suc.prems(3)] by (auto split: if_splits)
    moreover have "find_file_from n (Suc i) fs path m = Inr (Some (Suc i + l))"
    proof (rule Suc.IH)
      show "\<forall>j < l. \<exists>ys. str_at m (nth_header fs (Suc i + j)) ys \<and> ys \<noteq> xs"
        using Suc.prems(1) Suc by (metis Suc_less_eq add_Suc_shift)
    qed (use Suc.prems Suc in simp_all)
    ultimately show ?thesis using Suc by simp
  qed
qed simp

lemma num_files_small:
  assumes "m fs = of_nat k" "k < 128"
  shows "nat (sint (num_files fs m)) = k"
proof -
  have "sint (of_nat k :: byte) = int k"
    using assms(2) by (simp add: sint_uint signed_take_bit_int_eq_self uint_nat unat_of_nat_small
        take_bit_int_eq_self signed_of_nat)
  with assms show ?thesis by (simp add: num_files_def signed_scast_eq signed_take_bit_int_eq_self)
qed

lemma sint_byte_negative:
  assumes "128 \<le> k" "k < 256"
  shows "sint (of_nat k :: byte) = int k - 256"
proof -
  have "(of_nat k :: byte) = of_int (int k - 256)" by simp
  also have "sint \<dots> = int k - 256"
    using assms by (simp only: signed_of_int of_int_eq_id id_apply) (rule signed_take_bit_int_eq_self; simp)
  finally show ?thesis .
qed

lemma find_file_image:
  assumes "files_ok files" "length junk = 32" "create_initrd junk files = Inr img" "bytes_at m fs img"
    "i < length files" "files ! i = (name, Some c)" "str_at m path name"
  shows "find_file fs path m = Inr (Some (i + 2))"
proof -
  note e = image_entry [OF assms(1-4)]
  have names: "distinct (map fst files)" "chars ''stdin'' \<noteq> name" "chars ''stdout'' \<noteq> name"
    using assms(1,5,6) nth_mem [OF assms(5)] by (force simp: files_ok_def)+
  have "\<exists>ys. str_at m (nth_header fs (0 + j)) ys \<and> ys \<noteq> name" if j: "j < i + 2" for j
  proof -
    have "j = 0 \<or> j = 1 \<or> (\<exists>l. j = l + 2 \<and> l < i)" using j by presburger
    then consider "j = 0" | "j = 1" | l where "j = l + 2" "l < i" by blast
    then show ?thesis
    proof cases
      case 3
      then have l: "l < length files" using assms(5) by simp
      obtain nm d where d: "files ! l = (nm, Some d)"
        using assms(1) nth_mem [OF l] by (cases "files ! l") (force simp: files_ok_def host_ok_def)
      have "nm \<noteq> name"
        using names(1) l assms(5) 3(2) d assms(6) nth_eq_iff_index_eq [of "map fst files" l i] by auto
      with e(1) [OF l d] 3 show ?thesis by auto
    qed (use e(4,5) [OF assms(5,6)] names in auto)
  qed
  moreover have "nat (sint (num_files fs m)) = length files + 2"
    using e(6) [OF assms(5,6)] assms(1) by (intro num_files_small) (simp_all add: files_ok_def)
  ultimately show ?thesis
    using find_file_from_hit [of "i + 2" m fs 0 name path "length files + 2"] e(1) [OF assms(5,6)] assms(5,7)
    by (simp add: find_file_def del: find_file_from.simps)
qed

section \<open>Opening and reading\<close>

lemma get_fds_eq:
  assumes "k \<le> 255"
  shows "get_fds (of_nat k) s = Inr (vm_fds (vm_info (cpus s k)))"
proof -
  have "\<not> MAX_CPUS <s (of_nat k :: cint)" using assms by (simp add: word_sless_alt sint_of_nat_cint)
  moreover have "scast (of_nat k :: cint) = (of_nat k :: addr)" using assms by (intro scast_of_nat_cint) simp
  moreover have "unat (of_nat k :: addr) = k" using assms by (intro unat_of_nat_small) simp
  ultimately show ?thesis using assms
    by (simp add: get_fds_def fs_get_cpu_info_def word_less_nat_alt deref_def)
qed

lemma free_fd_from_ge: "i \<le> free_fd_from n i fds m"
  by (induction n arbitrary: i) (simp_all, metis Suc_leD)

lemma nth_fd_of_nat: "fd < 2 ^ 31 \<Longrightarrow> nth_fd m fds (of_nat fd) = get_fd m (fd_addr fds fd)"
  by (simp add: nth_fd_def fd_addr_def scast_of_nat_cint)

lemma fd_addr_region:
  assumes "fd < MAX_FD" "in_region (fd_addr fds fd) 24 x"
  shows "in_region fds 768 x"
proof -
  have "unat (of_nat (24 * fd) :: addr) = 24 * fd" using assms(1) by (intro unat_of_nat_small) simp
  then show ?thesis using assms in_region_sub [of fds "of_nat (24 * fd)" 24 x 768] by (simp add: fd_addr_def)
qed

lemma get_fd_cong: "(\<And>x. in_region p 24 x \<Longrightarrow> m x = m' x) \<Longrightarrow> get_fd m p = get_fd m' p"
  using in_region_sub [of p 0 4 _ 24] in_region_sub [of p 4 4 _ 24] in_region_sub [of p 8 8 _ 24] in_region_sub [of p 16 8 _ 24]
  by (simp add: get_fd_def) (intro conjI load_cong; simp)

definition opened :: "'a fs_scheme \<Rightarrow> addr \<Rightarrow> nat \<Rightarrow> file_descriptor \<Rightarrow> memory" where
  "opened s fds fd d = store64 (store32 (put_fd (mem s) (fd_addr fds fd) d) (openreply s) (of_nat fd)) (openreply s + 8) 0"

lemma opened_outside:
  assumes "fd < MAX_FD" "\<not> in_region fds 768 x" "\<not> in_region (frame s) 128 x"
  shows "opened s fds fd d x = mem s x"
proof -
  have "\<not> in_region (fd_addr fds fd) 24 x" using fd_addr_region assms by blast
  moreover have "openreply s + 8 = frame s + 48" by (simp add: openreply_def)
  ultimately show ?thesis using assms(3)
    by (simp add: opened_def put_fd_outside openreply_def store_le_outside [where k = 128] add.assoc)
qed

lemma opened_fd:
  assumes "fd < MAX_FD" "disjoint_regions fds 768 (frame s) 128"
  shows "get_fd (opened s fds fd d) (fd_addr fds fd) = d"
proof -
  have "get_fd (opened s fds fd d) (fd_addr fds fd) = get_fd (put_fd (mem s) (fd_addr fds fd) d) (fd_addr fds fd)"
  proof (rule get_fd_cong)
    fix x assume "in_region (fd_addr fds fd) 24 x"
    then have "\<not> in_region (frame s) 128 x"
      using assms fd_addr_region disjoint_regionsD by blast
    then show "opened s fds fd d x = put_fd (mem s) (fd_addr fds fd) d x"
      by (simp add: opened_def openreply_def store_le_outside [where k = 128] add.assoc)
  qed
  then show ?thesis by (simp add: get_put_fd)
qed

lemma local_open_file:
  assumes "str_at (mem s) path name" "name \<notin> {chars ''stdin'', chars ''stdout'', chars ''junkfd''}" "k \<le> 255"
    and fds: "fds = vm_fds (vm_info (cpus s k))" "fds \<noteq> 0" "free_fd fds (mem s) < MAX_FD"
    and "find_file (filesystem s) path (mem s) = Inr (Some j)"
    "get_header (mem s) (nth_header (filesystem s) j) = file_header off c"
  shows "local_open world path 0 (of_nat k) s = Inr (s\<lparr>mem := opened s fds (free_fd fds (mem s))
    \<lparr>fd_type = TYPE_FILE, fd_length = of_nat (length c), fd_dst = 0, fd_offset = of_nat off\<rparr>\<rparr>)"
proof -
  have "\<not> str_at (mem s) path (chars ''stdin'')" "\<not> str_at (mem s) path (chars ''stdout'')"
    "\<not> str_at (mem s) path (chars ''junkfd'')"
    using assms(1,2) str_at_unique by blast+
  then show ?thesis using assms
    by (simp add: local_open_def get_fds_eq Let_def opened_def file_header_def)
qed

lemma cint_min: "n < 2 ^ 31 \<Longrightarrow> l < 2 ^ 31 \<Longrightarrow>
    (if (of_nat n :: cint) > of_nat l then of_nat l else of_nat n) = (of_nat (min n l) :: cint)"
  by (simp add: word_less_nat_alt unat_of_nat_small min_def)

lemma local_read_opened:
  assumes "k \<le> 255" "fds = vm_fds (vm_info (cpus s k))" "fds \<noteq> 0" "fd < MAX_FD" "n < 2 ^ 31" "length c < 2 ^ 31"
    and d: "get_fd (mem s) (fd_addr fds fd) =
      \<lparr>fd_type = TYPE_FILE, fd_length = of_nat (length c), fd_dst = 0, fd_offset = off\<rparr>"
    and c: "bytes_at (mem s) (filesystem s + off) c"
    and b: "disjoint_regions buf (length c) (filesystem s + off) (length c)"
  shows "\<exists>s'. local_read (of_nat fd) buf (of_nat n) (of_nat k) s = Inr (of_nat (min n (length c)), s') \<and>
    bytes_at (mem s') buf (take n c)"
proof -
  have fd: "nth_fd (mem s) fds (of_nat fd) =
      \<lparr>fd_type = TYPE_FILE, fd_length = of_nat (length c), fd_dst = 0, fd_offset = off\<rparr>"
    using assms(4) d by (simp add: nth_fd_of_nat)
  have i: "\<not> MAX_FD <s (of_nat fd :: cint)" "\<not> (of_nat fd :: cint) <s 0"
    using assms(4) by (simp_all add: word_sless_alt sint_of_nat_cint)
  have l: "length (take n c) = min n (length c)" by simp
  have "disjoint_regions buf (length (take n c)) (filesystem s + off) (length (take n c))"
    using b by (rule disjoint_regions_mono) simp_all
  from bytes_at_memcpy [OF this _ bytes_at_take [OF c]] assms(6)
  have "bytes_at (memcpy buf (filesystem s + off) (of_nat (min n (length c))) (mem s)) buf (take n c)"
    unfolding l by simp
  moreover have "scast (of_nat (min n (length c)) :: cint) = (of_nat (min n (length c)) :: addr)"
    using assms(6) by (intro scast_of_nat_cint) simp
  ultimately show ?thesis
    using i fd assms(1,3) cint_min [OF assms(5,6)]
    by (cases "(of_nat n :: cint) > of_nat (length c)")
      (simp_all add: local_read_def get_type_def get_fds_eq assms(2) [symmetric] local_read_file_def Let_def upd_mem_def
        word_sless_alt del: of_nat_min)
qed

section \<open>Properties\<close>

text \<open>
  C14.  What goes into the image comes out of the file server.  For at most 125 files with distinct
  short names the image is built, and when it lies in memory at \<open>filesystem\<close>, \<open>local_load\<close> finds
  every file by its name and returns the address of its contents.
\<close>

theorem initrd_load_round_trip:
  assumes "files_ok files" "length junk = 32"
  shows "\<exists>img. create_initrd junk files = Inr img \<and>
    (\<forall>s path i name c. bytes_at (mem s) (filesystem s) img \<longrightarrow> i < length files \<longrightarrow> files ! i = (name, Some c) \<longrightarrow>
       str_at (mem s) path name \<longrightarrow>
       (\<exists>p. local_load path s = Inr p \<and> bytes_at (mem s) p c))"
proof -
  obtain img where img: "create_initrd junk files = Inr img" using create_initrd_total [OF assms] by blast
  have "\<exists>p. local_load path s = Inr p \<and> bytes_at (mem s) p c"
    if "bytes_at (mem s) (filesystem s) img" "i < length files" "files ! i = (name, Some c)" "str_at (mem s) path name"
    for s :: "'a fs_scheme" and path i name c
    using image_entry(2,3) [OF assms img that(1-3)] find_file_image [OF assms img that]
    by (simp add: local_load_def file_header_def)
  with img show ?thesis by blast
qed

definition demo_files :: "host_file list" where
  "demo_files = [(chars ''init'', Some [1, 2, 3]), (chars ''sh'', Some [])]"

lemma demo_files_ok: "files_ok demo_files" "data_start demo_files + sizes demo_files = 231"
  by (simp_all add: demo_files_def files_ok_def data_start_def sizes_def host_ok_def chars_def)

definition demo_image :: "byte list \<Rightarrow> memory" where
  "demo_image img = put_bytes (put_bytes (\<lambda>_. 0) 0x100000 img) 0x2000 (chars ''init'')"

lemma demo_image_at:
  assumes "length img = 231"
  shows "bytes_at (demo_image img) 0x100000 img" "str_at (demo_image img) 0x2000 (chars ''init'')"
    "free_fd 0x4000 (demo_image img) = 2"
proof -
  have far: "demo_image img x = put_bytes (\<lambda>_. 0) 0x2000 (chars ''init'') x" if "unat x < 0x100000" for x
    using that assms put_bytes_outside [of img "0x100000" x "\<lambda>_. 0"]
    by (simp add: demo_image_def chars_def in_region_nowrap)
  have "bytes_at (demo_image img) 0x100000 img = bytes_at (put_bytes (\<lambda>_. 0) 0x100000 img) 0x100000 img"
    using assms by (intro bytes_at_cong) (auto simp: demo_image_def chars_def in_region_nowrap)
  then show "bytes_at (demo_image img) 0x100000 img" using assms by (simp add: bytes_at_put_bytes)
  show "str_at (demo_image img) 0x2000 (chars ''init'')" by (simp add: chars_def far)
  have "load64 (demo_image img) 0x4040 = load64 (\<lambda>_. 0) 0x4040"
    by (rule load_cong) (auto simp: far chars_def in_region_nowrap)
  then have "fd_offset (get_fd (demo_image img) (fd_addr 0x4000 2)) = 0"
    by (simp add: get_fd_def fd_addr_def load_zero)
  then show "free_fd 0x4000 (demo_image img) = 2"
    by (simp add: free_fd_def numeral_eq_Suc)
qed

theorem initrd_load_round_trip_witness:
  "\<exists>img p. create_initrd (replicate 32 7) demo_files = Inr img \<and>
    local_load 0x2000 \<lparr>mem = demo_image img, cpus = (\<lambda>_. zero_cpu), filesystem = 0x100000, frame = 0\<rparr> = Inr p \<and>
    bytes_at (demo_image img) p [1, 2, 3]"
proof -
  obtain img where img: "create_initrd (replicate 32 7) demo_files = Inr img"
    and load: "\<forall>s path i name c. bytes_at (mem s) (filesystem s) img \<longrightarrow> i < length demo_files \<longrightarrow>
      demo_files ! i = (name, Some c) \<longrightarrow> str_at (mem s) path name \<longrightarrow>
      (\<exists>p. local_load path (s :: fs) = Inr p \<and> bytes_at (mem s) p c)"
    using initrd_load_round_trip [OF demo_files_ok(1), of "replicate 32 7"] by auto
  have l: "length img = 231"
    using create_initrd_total [OF demo_files_ok(1), of "replicate 32 7"] demo_files_ok(2) img by auto
  let ?s = "\<lparr>mem = demo_image img, cpus = (\<lambda>_. zero_cpu), filesystem = 0x100000, frame = 0\<rparr>"
  have "\<exists>p. local_load 0x2000 ?s = Inr p \<and> bytes_at (mem ?s) p [1, 2, 3]"
    using load [rule_format, of ?s 0 "chars ''init''" "[1, 2, 3]" "0x2000"] demo_image_at(1,2) [OF l]
    by (simp add: demo_files_def)
  with img show ?thesis by auto
qed

text \<open>
  C15.  Opening a file of the image and reading from it gives the caller the first bytes of the file:
  the descriptor is the lowest free one from 2 on, and a read of \<open>n\<close> bytes delivers the shorter of \<open>n\<close>
  and the length of the file.
\<close>

theorem open_read_round_trip:
  assumes "files_ok files" "length junk = 32" "create_initrd junk files = Inr img"
    "bytes_at (mem s) (filesystem s) img" "i < length files" "files ! i = (name, Some c)"
    "str_at (mem s) path name" "name \<noteq> chars ''junkfd''" "k \<le> 255"
    and fds: "fds = vm_fds (vm_info (cpus s k))" "fds \<noteq> 0" "fd = free_fd fds (mem s)" "fd < MAX_FD"
    and apart: "disjoint_regions (filesystem s) (length img) fds 768" "disjoint_regions (filesystem s) (length img) (frame s) 128"
      "disjoint_regions fds 768 (frame s) 128"
    and buf: "disjoint_regions buf (length c) (filesystem s) (length img)" "n < 2 ^ 31"
  shows "\<exists>s1 s2. local_open world path 0 (of_nat k) s = Inr s1 \<and>
    load32 (mem s1) (openreply s1) = of_nat fd \<and>
    local_read (of_nat fd) buf (of_nat n) (of_nat k) s1 = Inr (of_nat (min n (length c)), s2) \<and>
    bytes_at (mem s2) buf (take n c)"
proof -
  let ?off = "data_start files + sizes (take i files)"
  let ?d = "\<lparr>fd_type = TYPE_FILE, fd_length = of_nat (length c), fd_dst = 0, fd_offset = of_nat ?off\<rparr>"
  let ?s1 = "s\<lparr>mem := opened s fds fd ?d\<rparr>"
  have nm: "name \<notin> {chars ''stdin'', chars ''stdout'', chars ''junkfd''}"
    using assms(1,5,6,8) nth_mem [OF assms(5)] by (force simp: files_ok_def)
  have o: "local_open world path 0 (of_nat k) s = Inr ?s1"
    using local_open_file [OF assms(7) nm assms(9) fds(1,2) _ find_file_image [OF assms(1-7)] image_entry(2) [OF assms(1-6)]]
      fds(3,4) by simp
  have len: "length img = data_start files + sizes files" "length img < 2 ^ 31"
    using create_initrd_total [OF assms(1,2)] assms(1,3) by (auto simp: files_ok_def data_start_def)
  have "sizes files = sizes (take i files) + length c + sizes (drop (Suc i) files)"
    using arg_cong [OF id_take_nth_drop [OF assms(5)], of sizes] assms(6) by (simp add: sizes_def)
  then have off: "?off + length c \<le> length img" using len by simp
  have "opened s fds fd ?d x = mem s x" if "in_region (filesystem s) (length img) x" for x
    using that apart fds(4) by (blast intro: opened_outside dest: disjoint_regionsD)
  with bytes_at_cong [of "filesystem s" img "opened s fds fd ?d" "mem s"] assms(4) len(2)
  have im: "bytes_at (mem ?s1) (filesystem s) img" by simp
  have content: "bytes_at (mem ?s1) (filesystem ?s1 + of_nat ?off) c"
    using image_entry(3) [OF assms(1-3) im assms(5,6)] by simp
  have "unat (of_nat ?off :: addr) = ?off" using off len(2) by (intro unat_of_nat_small) simp
  then have "disjoint_regions buf (length c) (filesystem ?s1 + of_nat ?off) (length c)"
    using buf(1) off in_region_sub [of "filesystem s" "of_nat ?off" "length c" _ "length img"]
    by (auto simp: disjoint_regions_def)
  with local_read_opened [of k fds ?s1 fd n c, OF assms(9) _ fds(2,4) buf(2) _ _ content] opened_fd [OF fds(4) apart(3), of ?d] fds(1) off len(2)
  obtain s2 where "local_read (of_nat fd) buf (of_nat n) (of_nat k) ?s1 = Inr (of_nat (min n (length c)), s2)"
    "bytes_at (mem s2) buf (take n c)" by auto
  moreover have "load32 (mem ?s1) (openreply ?s1) = of_nat fd"
    by (simp add: opened_def openreply_def layout_simps add.assoc)
  ultimately show ?thesis using o by blast
qed

definition demo_fs :: "byte list \<Rightarrow> fs" where
  "demo_fs img = \<lparr>mem = demo_image img,
     cpus = (\<lambda>_. zero_cpu)(7 := zero_cpu\<lparr>vm_info := zero_vm\<lparr>vm_fds := 0x4000\<rparr>\<rparr>),
     filesystem = 0x100000, frame = 0x8000\<rparr>"

lemma demo_fs_simps [simp]:
  "mem (demo_fs img) = demo_image img" "filesystem (demo_fs img) = 0x100000" "frame (demo_fs img) = 0x8000"
  "vm_fds (vm_info (cpus (demo_fs img) 7)) = 0x4000"
  by (simp_all add: demo_fs_def)

theorem open_read_round_trip_witness:
  "\<exists>img s1 s2. create_initrd (replicate 32 7) demo_files = Inr img \<and>
    local_open id 0x2000 0 7 (demo_fs img) = Inr s1 \<and> load32 (mem s1) (openreply s1) = 2 \<and>
    local_read 2 0x9000 2 7 s1 = Inr (2, s2) \<and> bytes_at (mem s2) 0x9000 [1, 2]"
proof -
  obtain img where img: "create_initrd (replicate 32 7) demo_files = Inr img" "length img = 231"
    using create_initrd_total [OF demo_files_ok(1), of "replicate 32 7"] demo_files_ok(2) by auto
  note d = demo_image_at [OF img(2)]
  have l: "(0 :: nat) < length demo_files" "demo_files ! 0 = (chars ''init'', Some [1, 2, 3])"
    by (simp_all add: demo_files_def)
  have apart: "disjoint_regions 0x100000 231 0x4000 768" "disjoint_regions 0x100000 231 0x8000 128"
    "disjoint_regions 0x4000 768 0x8000 128" "disjoint_regions 0x9000 3 0x100000 231"
    by (rule disjoint_regionsI; simp)+
  have "chars ''init'' \<noteq> chars ''junkfd''" by (simp add: chars_def)
  then have "\<exists>s1 s2. local_open id 0x2000 0 (of_nat 7) (demo_fs img) = Inr s1 \<and> load32 (mem s1) (openreply s1) = of_nat 2 \<and>
      local_read (of_nat 2) 0x9000 (of_nat 2) (of_nat 7) s1 = Inr (of_nat (min 2 (length [1, 2, 3 :: byte])), s2) \<and>
      bytes_at (mem s2) 0x9000 (take 2 [1, 2, 3])"
    by (intro open_read_round_trip [OF demo_files_ok(1) _ img(1) _ l, where fds = "0x4000"]) (simp_all add: d img(2) apart apart(4) [simplified numeral_3_eq_3])
  with img show ?thesis by simp
qed

text \<open>
  The image counts its files in four bytes, but the file server reads one signed byte of the
  count.  From 126 files on (128 entries with the two devices) and up to 253, no name is found any
  more: loading a program fails for every path.
\<close>

lemma initrd_too_many_files:
  assumes "126 \<le> length files" "length files \<le> 253" "create_initrd junk files = Inr img"
    "bytes_at (mem s) (filesystem s) img"
  shows "local_load path s = Inr 0"
proof -
  let ?k = "length files + 2"
  obtain rest where "img = le_bytes 4 (of_nat (length files) + 2 :: cint) @ rest"
    using assms(3) by (auto simp: create_initrd_def Let_def split: if_splits)
  then have "bytes_at (mem s) (filesystem s) (le_bytes 4 (of_nat ?k :: cint))"
    using assms(4) by (simp add: bytes_at_append add.commute)
  then have b: "mem s (filesystem s) = of_nat ?k" by (rule count_byte)
  have "nat (sint (num_files (filesystem s) (mem s))) = 0"
  proof -
    have "sint (of_nat ?k :: byte) = int ?k - 256"
      using assms(1,2) by (intro sint_byte_negative) simp_all
    then show ?thesis using assms(2) b by (simp add: num_files_def signed_scast_eq signed_take_bit_int_eq_self)
  qed
  then show ?thesis by (simp add: local_load_def find_file_def)
qed

lemma initrd_too_many_files_witness:
  "\<exists>img. create_initrd (replicate 32 0) (replicate 126 ([97], Some [])) = Inr img \<and>
    local_load 0x2000 \<lparr>mem = put_bytes (\<lambda>_. 0) 0x100000 img, cpus = (\<lambda>_. zero_cpu), filesystem = 0x100000, frame = 0\<rparr> = Inr 0"
proof -
  let ?files = "replicate 126 ([97 :: byte], Some ([] :: byte list))"
  have ok: "?files \<noteq> []" "\<forall>f \<in> set ?files. host_ok f" "length (replicate 32 (0 :: byte)) = 32"
    "data_start ?files + sizes ?files < 2 ^ 31"
    by (simp_all add: host_ok_def data_start_def sizes_def sum_list_replicate)
  obtain img where img: "create_initrd (replicate 32 0) ?files = Inr img" "length img < 2 ^ 31"
    by (rule create_initrd_cases [OF ok]) (auto simp: length_header_bytes)
  have "bytes_at (put_bytes (\<lambda>_. 0) 0x100000 img) 0x100000 img"
    using img(2) by (intro bytes_at_put_bytes) simp
  then show ?thesis
    using initrd_too_many_files [OF _ _ img(1), where path = "0x2000" and
        s = "\<lparr>mem = put_bytes (\<lambda>_. 0) 0x100000 img, cpus = (\<lambda>_. zero_cpu), filesystem = 0x100000, frame = 0\<rparr>"] img(1)
    by simp
qed

end
