(* ===== verification/File_Props.thy ===== *)
theory File_Props
  imports Initrd
begin

text \<open>
  Properties of the requests of the file server: what \<open>local_open\<close> does on every path, that
  \<open>local_close\<close> gives a descriptor back, and the requests the checks let through although they should
  not: descriptors outside the table, and writes to anything but the console.
\<close>

section \<open>Descriptors\<close>

lemma free_fd_from_spec:
  assumes "r = free_fd_from n i fds m" "r < i + n"
  shows "fd_offset (get_fd m (fd_addr fds r)) = 0 \<and> (\<forall>j. i \<le> j \<longrightarrow> j < r \<longrightarrow> fd_offset (get_fd m (fd_addr fds j)) \<noteq> 0)"
  using assms
proof (induction n arbitrary: i)
  case 0
  then show ?case by simp
next
  case (Suc n)
  then show ?case
  proof (cases "fd_offset (get_fd m (fd_addr fds i)) = 0")
    case False
    with Suc.IH [of "Suc i"] Suc.prems show ?thesis
      by simp (metis Suc_leI le_neq_implies_less)
  qed simp
qed

lemma free_fd_from_le: "free_fd_from n i fds m \<le> i + n"
  by (induction n arbitrary: i) (simp_all, metis add_Suc_shift le_SucI add_Suc)

lemma free_fd_from_found:
  assumes "fd_offset (get_fd m (fd_addr fds j)) = 0" "i \<le> j"
  shows "free_fd_from n i fds m \<le> j \<or> i + n \<le> j"
  using assms(2)
proof (induction n arbitrary: i)
  case (Suc n)
  show ?case
  proof (cases "fd_offset (get_fd m (fd_addr fds i)) = 0")
    case False
    then have "Suc i \<le> j" using assms(1) Suc.prems by (metis Suc_leI le_neq_implies_less)
    with Suc.IH [of "Suc i"] False show ?thesis by simp
  qed (use Suc.prems in simp)
qed simp

lemma free_fd_bounds: "2 \<le> free_fd fds m" "free_fd fds m \<le> MAX_FD"
  using free_fd_from_ge [of 2 30 fds m] free_fd_from_le [of 30 2 fds m] by (simp_all add: free_fd_def)

text \<open>What is left alone when only the reply and one descriptor are written.\<close>

definition only_changes :: "'a fs_scheme \<Rightarrow> addr \<Rightarrow> nat \<Rightarrow> memory \<Rightarrow> bool" where
  "only_changes s p n m \<longleftrightarrow> (\<forall>x. \<not> in_region p n x \<longrightarrow> \<not> in_region (openreply s) 16 x \<longrightarrow> m x = mem s x)"

lemma opened_only: "only_changes s (fd_addr fds fd) 24 (opened s fds fd d)"
  by (simp add: only_changes_def opened_def put_fd_outside store_le_outside [where k = 16] store_le_outside0 [where k = 16])

text \<open>
  Opening a regular file either fails, with -1 in the reply and nothing else changed, or takes
  the lowest free descriptor from 2 to 31 and changes that descriptor and the reply only.  It fails
  when no descriptor is free, when anything but reading is asked for, and when there is no such file.
\<close>

lemma local_open_descriptor:
  assumes "str_at (mem s) path name" "name \<notin> {chars ''stdin'', chars ''stdout'', chars ''junkfd''}" "k \<le> 255"
    and fds: "fds = vm_fds (vm_info (cpus s k))" "fds \<noteq> 0"
    and res: "local_open world path flags (of_nat k) s = Inr s'"
  shows "(load32 (mem s') (openreply s) = - 1 \<and> only_changes s 0 0 (mem s') \<and>
      (free_fd fds (mem s) = MAX_FD \<or> flags \<noteq> 0 \<or> find_file (filesystem s) path (mem s) = Inr None)) \<or>
    (\<exists>fd i. load32 (mem s') (openreply s) = of_nat fd \<and> 2 \<le> fd \<and> fd < MAX_FD \<and> flags = 0 \<and>
      fd_offset (get_fd (mem s) (fd_addr fds fd)) = 0 \<and>
      (\<forall>j. 2 \<le> j \<longrightarrow> j < fd \<longrightarrow> fd_offset (get_fd (mem s) (fd_addr fds j)) \<noteq> 0) \<and>
      find_file (filesystem s) path (mem s) = Inr (Some i) \<and> only_changes s (fd_addr fds fd) 24 (mem s'))"
proof -
  have dev: "\<not> str_at (mem s) path (chars ''stdin'')" "\<not> str_at (mem s) path (chars ''stdout'')"
    "\<not> str_at (mem s) path (chars ''junkfd'')"
    using assms(1,2) str_at_unique by blast+
  have fail: "load32 (mem (open_fail s)) (openreply s) = - 1 \<and> only_changes s 0 0 (mem (open_fail s))"
    by (simp add: open_fail_def upd_mem_def only_changes_def layout_simps store_le_outside0 [where k = 16])
  let ?fd = "free_fd fds (mem s)"
  consider "?fd = MAX_FD" "s' = open_fail s" | "flags \<noteq> 0" "s' = open_fail s" |
    "find_file (filesystem s) path (mem s) = Inr None" "s' = open_fail s" |
    i where "?fd < MAX_FD" "flags = 0" "find_file (filesystem s) path (mem s) = Inr (Some i)"
      "mem s' = opened s fds ?fd (let h = get_header (mem s) (nth_header (filesystem s) i) in
        \<lparr>fd_type = hdr_type h, fd_length = hdr_length h, fd_dst = 0, fd_offset = hdr_offset h\<rparr>)"
  proof (cases "find_file (filesystem s) path (mem s)")
    case (Inr r)
    then show thesis using res free_fd_bounds [of fds "mem s"] assms(3) fds dev that
      by (cases r) (auto simp: local_open_def get_fds_eq Let_def opened_def split: if_splits)
  qed (use res free_fd_bounds [of fds "mem s"] assms(3) fds dev that in
      \<open>auto simp: local_open_def get_fds_eq Let_def split: if_splits\<close>)
  then show ?thesis
  proof cases
    case 4
    have "fd_offset (get_fd (mem s) (fd_addr fds ?fd)) = 0 \<and>
      (\<forall>j. 2 \<le> j \<longrightarrow> j < ?fd \<longrightarrow> fd_offset (get_fd (mem s) (fd_addr fds j)) \<noteq> 0)"
      using free_fd_from_spec [of ?fd 30 2 fds "mem s"] 4(1) by (simp add: free_fd_def)
    moreover have "load32 (mem s') (openreply s) = of_nat ?fd"
      by (simp add: 4(4) opened_def layout_simps)
    ultimately show ?thesis using 4 free_fd_bounds(1) [of fds "mem s"] opened_only by metis
  qed (use fail in auto)
qed

lemma local_open_descriptor_witness:
  "\<exists>s'. local_open id 0x2000 1 7 (demo_fs []) = Inr s' \<and> load32 (mem s') (openreply (demo_fs [])) = - 1 \<and>
    only_changes (demo_fs []) 0 0 (mem s')"
proof -
  have str: "str_at (mem (demo_fs [])) 0x2000 (chars ''init'')" by (simp add: demo_image_def chars_def)
  have name: "chars ''init'' \<notin> {chars ''stdin'', chars ''stdout'', chars ''junkfd''}" by (simp add: chars_def)
  have "\<not> str_at (mem (demo_fs [])) 0x2000 (chars n)" if "n \<in> {''stdin'', ''stdout'', ''junkfd''}" for n
    using str_at_unique [OF str, of "chars n"] that by (auto simp: chars_def)
  then have "local_open id 0x2000 1 (of_nat 7) (demo_fs []) = Inr (open_fail (demo_fs []))"
    using get_fds_eq [of 7 "demo_fs []"] by (simp add: local_open_def Let_def)
  with local_open_descriptor [OF str name _ refl _ this] show ?thesis by auto
qed

section \<open>Close\<close>

definition closed :: "memory \<Rightarrow> addr \<Rightarrow> memory" where
  "closed m p = store64 (store32 (store32 m p 0) (p + 4) 0) (p + 16) 0"

lemma closed_outside: "\<not> in_region p 24 x \<Longrightarrow> closed m p x = m x"
  by (simp add: closed_def store_le_outside [where k = 24] store_le_outside0 [where k = 24])

lemma closed_fd: "fd_type (get_fd (closed m p) p) = 0" "fd_offset (get_fd (closed m p) p) = 0"
  by (simp_all add: closed_def get_fd_def layout_simps)

lemma local_close_file:
  assumes "get_fds sender s = Inr fds" "fds \<noteq> 0" "\<not> MAX_FD <s fd"
    "fd_type (get_fd (mem s) (fds + 24 * scast fd)) \<noteq> TYPE_CHAR"
  shows "local_close driver pm fd sender s = Inr (0, s\<lparr>mem := closed (mem s) (fds + 24 * scast fd)\<rparr>)"
  using assms by (simp add: local_close_def Let_def closed_def upd_mem_def)

text \<open>
  Closing a regular file gives the descriptor back and touches nothing else: reads and writes on
  it are refused from then on, and the next \<open>local_open\<close> does not look past it.
\<close>

lemma local_close_releases:
  assumes "k \<le> 255" "fds = vm_fds (vm_info (cpus s k))" "fds \<noteq> 0" "fd < MAX_FD"
    "fd_type (get_fd (mem s) (fd_addr fds fd)) \<noteq> TYPE_CHAR"
  shows "\<exists>s'. local_close driver pm (of_nat fd) (of_nat k) s = Inr (0, s') \<and>
    local_read (of_nat fd) buf n (of_nat k) s' = Inr (- 1, s') \<and> (2 \<le> fd \<longrightarrow> free_fd fds (mem s') \<le> fd) \<and>
    (\<forall>x. \<not> in_region (fd_addr fds fd) 24 x \<longrightarrow> mem s' x = mem s x)"
proof -
  let ?p = "fd_addr fds fd" and ?s' = "s\<lparr>mem := closed (mem s) (fd_addr fds fd)\<rparr>"
  have p: "fds + 24 * scast (of_nat fd :: cint) = ?p"
    using assms(4) by (simp add: fd_addr_def scast_of_nat_cint)
  have g: "get_fds (of_nat k) s = Inr fds" "get_fds (of_nat k) ?s' = Inr fds"
    using assms(1,2) by (simp_all add: get_fds_eq)
  have i: "\<not> MAX_FD <s (of_nat fd :: cint)" "\<not> (of_nat fd :: cint) <s 0"
    using assms(4) by (simp_all add: word_sless_alt sint_of_nat_cint)
  have "local_close driver pm (of_nat fd) (of_nat k) s = Inr (0, ?s')"
    using local_close_file [OF g(1) assms(3) i(1)] assms(5) by (simp add: p)
  moreover have "local_read (of_nat fd) buf n (of_nat k) ?s' = Inr (- 1, ?s')"
    using g(2) i assms(3) closed_fd(1) [of "mem s" ?p]
    by (simp add: local_read_def get_type_def nth_fd_def p word_sless_alt)
  moreover have "2 \<le> fd \<longrightarrow> free_fd fds (mem ?s') \<le> fd"
    using free_fd_from_found [of "mem ?s'" fds fd 2 30] closed_fd(2) [of "mem s" ?p] assms(4)
    by (simp add: free_fd_def)
  ultimately show ?thesis using closed_outside by auto
qed

lemma local_close_releases_witness:
  "\<exists>s'. local_close id id 3 7 (demo_fs []) = Inr (0, s') \<and> local_read 3 0x9000 1 7 s' = Inr (- 1, s') \<and>
    free_fd 0x4000 (mem s') \<le> 3"
proof -
  have "load32 (demo_image []) 0x4048 = 0"
    by (simp add: demo_image_def chars_def load_upd_other in_region_nowrap load_zero)
  then have "fd_type (get_fd (mem (demo_fs [])) (fd_addr 0x4000 3)) \<noteq> TYPE_CHAR"
    by (simp add: get_fd_def fd_addr_def)
  then show ?thesis
    using local_close_releases [of 7 "0x4000" "demo_fs []" 3 id id "0x9000" 1] by auto
qed

text \<open>
  \<open>local_close\<close> checks its descriptor against the wrong bound and only from above.  With 32 it
  clears the bytes right behind the table of the caller, with -1 those right in front of it.
\<close>

lemma local_close_outside_table:
  assumes "k \<le> 255" "fds = vm_fds (vm_info (cpus s k))" "fds \<noteq> 0" "p = fds + 768 \<and> fd = 32 \<or> p = fds - 24 \<and> fd = - 1"
    "fd_type (get_fd (mem s) p) \<noteq> TYPE_CHAR"
  shows "\<exists>s'. local_close driver pm fd (of_nat k) s = Inr (0, s') \<and> load64 (mem s') p = 0 \<and> load64 (mem s') (p + 16) = 0"
proof -
  have p: "fds + 24 * scast fd = p" "\<not> MAX_FD <s fd" using assms(4) by (auto simp: word_sless_alt)
  have g: "get_fds (of_nat k) s = Inr fds" using assms(1,2) by (simp add: get_fds_eq)
  have "load64 (closed (mem s) p) p = 0"
  proof (rule bit_word_eqI)
    fix n assume n: "n < LENGTH(64)"
    have "closed (mem s) p (p + of_nat j) = 0" if "j < 8" for j
    proof -
      have "j = 0 \<or> j = 1 \<or> j = 2 \<or> j = 3 \<or> j = 4 \<or> j = 5 \<or> j = 6 \<or> j = 7" using that by presburger
      then show ?thesis
        by (elim disjE) (simp_all add: closed_def store_le_apply in_region_def)
    qed
    then show "bit (load64 (closed (mem s) p) p) n = bit (0 :: addr) n"
      using n by (simp add: bit_load_le)
  qed
  moreover have "load64 (closed (mem s) p) (p + 16) = 0"
    by (simp add: closed_def layout_simps)
  ultimately show ?thesis
    using local_close_file [OF g assms(3) p(2)] assms(5) by (simp add: p(1))
qed

lemma local_close_outside_table_witness:
  "\<exists>s s' :: fs. local_close id id (- 1) 7 s = Inr (0, s') \<and> load64 (mem s) 0x3ff8 = 7 \<and> load64 (mem s') 0x3ff8 = 0"
proof -
  let ?s = "(demo_fs [])\<lparr>mem := store64 (\<lambda>_. 0) 0x3ff8 7\<rparr>"
  have "vm_fds (vm_info (cpus ?s 7)) = 0x4000" by (simp add: demo_fs_def)
  moreover have "fd_type (get_fd (mem ?s) 0x3fe8) \<noteq> TYPE_CHAR"
    by (simp add: get_fd_def mem_eval)
  ultimately have "\<exists>s'. local_close id id (- 1) (of_nat 7) ?s = Inr (0, s') \<and> load64 (mem s') 0x3fe8 = 0 \<and>
      load64 (mem s') (0x3fe8 + 16) = 0"
    by (intro local_close_outside_table [where fds = "0x4000"]) simp_all
  moreover have "load64 (mem ?s) 0x3ff8 = 7" by (simp add: mem_eval)
  ultimately show ?thesis by fastforce
qed

end
