(* ===== verification/Exec_Load.thy ===== *)
theory Exec_Load
  imports Exec_Args Channel_Lists File_Props
begin

text \<open>
  The way from \<open>exec\<close> to the contents of a program: the process manager sends the path to the file
  server (\<open>msg_send\<close>), the server takes the request from its box (\<open>msg_check\<close>), looks the name up in
  the image (\<open>local_load\<close>) and replies with the address.
\<close>

section \<open>The request\<close>

text \<open>
  \<open>local_exec\<close> passes \<open>sizeof (char *)\<close> as the length of the path: eight bytes.  What the file server
  reads behind them is what the box held before.
\<close>

lemma path_in_box:
  assumes "str_at m path name" "length name < 8" "\<And>i. i < 8 \<Longrightarrow> m2 (dat + of_nat i) = m (path + of_nat i)"
  shows "str_at m2 dat name"
proof -
  have b: "bytes_at m path (name @ [0])" using assms(1)
    by (induction name arbitrary: path) auto
  have "bytes_at m2 dat (name @ [0])"
    using b assms(2,3) unfolding bytes_at_nth by simp
  then show ?thesis using str_at_nonzero [OF assms(1)] by (intro str_at_bytes)
qed

lemma prefix_in_box:
  assumes "str_at m path name" "8 \<le> length name" "\<And>i. i < 8 \<Longrightarrow> m2 (dat + of_nat i) = m (path + of_nat i)"
    "m2 (dat + 8) = 0"
  shows "str_at m2 dat (take 8 name)"
proof -
  have b: "bytes_at m path (name @ [0])" using assms(1)
    by (induction name arbitrary: path) auto
  have "bytes_at m2 dat (take 8 name @ [0])"
    unfolding bytes_at_nth
  proof (intro allI impI)
    fix i assume "i < length (take 8 name @ [0])"
    then have "i < 8 \<or> i = 8" using assms(2) by auto
    then show "m2 (dat + of_nat i) = (take 8 name @ [0]) ! i"
      using b [unfolded bytes_at_nth, rule_format, of i] assms(2-4) by (auto simp: nth_append)
  qed
  then show ?thesis using str_at_nonzero [OF assms(1)] in_set_takeD by (intro str_at_bytes) fastforce+
qed

section \<open>The reply\<close>

lemma reply_box:
  assumes "m' = store64 (put_bytes (store64 m p a) (p + 16) (le_bytes 8 (w :: addr))) (p + 8) v"
  shows "message_number m' p = v" "load64 m' (message_data p) = w" "\<not> in_region p 64 x \<Longrightarrow> m' x = m x"
proof -
  let ?m1 = "store64 m p a"
  let ?m2 = "put_bytes ?m1 (p + 16) (le_bytes 8 w)"
  show "message_number m' p = v" by (simp add: assms message_number_def load_store_same)
  have "load64 m' (p + 16) = load64 ?m2 (p + 16)" by (simp add: assms layout_simps)
  then show "load64 m' (message_data p) = w"
    using load_le_bytes [OF bytes_at_put_bytes [of "le_bytes 8 w" ?m1 "p + 16"]] by (simp add: message_data_def)
  assume x: "\<not> in_region p 64 x"
  then have "\<not> in_region (p + 16) 8 x" using in_region_sub [of p 16 8 x 64] by auto
  then show "m' x = m x"
    using x put_bytes_outside [of "le_bytes 8 w" "p + 16" x ?m1]
    by (simp add: assms store_le_outside [where k = 64] store_le_outside0 [where k = 64])
qed

lemma fs_reply_ok:
  assumes "ipc_layout (cpus s) n inb outb bm" "2 < n" "dest < n" "p = msg_input (cpus s dest) + 64"
  shows "fs_reply FS_ID (of_nat dest) num (le_bytes 8 (w :: addr)) s =
    Inr (s\<lparr>mem := store64 (put_bytes (store64 (mem s) p 1) (p + 16) (le_bytes 8 w)) (p + 8) (scast num)\<rparr>)"
proof -
  note l = ipc_layoutD [OF assms(1), of FS_ID] and ld = ipc_layoutD [OF assms(1,3)]
  have "scast (SZ_4KB * of_nat dest :: cint) = (of_nat (4096 * dest) :: addr)"
    using ld(7) scast_of_nat_cint [of "4096 * dest"] by simp
  then show ?thesis
    using l ld assms(2,4) by (simp add: fs_reply_def msg_reply_bytes_def check_server_def message_data_def Let_def ac_simps)
qed

section \<open>The turn of the file server\<close>

lemma fs_turn_load:
  assumes "msg_check (fs_self s) (mem s) = Inr (b, m)" "message_from m b = PM_ID" "message_number m b = LOAD_IPC"
    and "local_load (message_data b) (s\<lparr>mem := m\<rparr>) = Inr w"
    and "ipc_layout (cpus s) n inb outb bm" "2 < n"
  shows "\<exists>m'. fs_turn driver pm s = Inr (s\<lparr>mem := m'\<rparr>) \<and> message_number m' (inb + 64) = LOAD_IPC \<and>
    load64 m' (message_data (inb + 64)) = w \<and> (\<forall>x. \<not> in_region (inb + 64) 64 x \<longrightarrow> m' x = m x)"
proof -
  have p: "inb + 64 = msg_input (cpus s 0) + 64" using ipc_layoutD(3) [OF assms(5), of 0] assms(6) by simp
  let ?m' = "store64 (put_bytes (store64 m (inb + 64) 1) (inb + 64 + 16) (le_bytes 8 w)) (inb + 64 + 8) LOAD_IPC"
  have "fs_reply FS_ID 0 LOAD_IPC (le_bytes 8 w) (s\<lparr>mem := m\<rparr>) = Inr (s\<lparr>mem := ?m'\<rparr>)"
    using fs_reply_ok [of "s\<lparr>mem := m\<rparr>" n inb outb bm 0 "inb + 64" LOAD_IPC w] assms(5,6) p by simp
  then have "fs_turn driver pm s = Inr (s\<lparr>mem := ?m'\<rparr>)"
    using assms(1-4) by (simp add: fs_turn_def fs_request_def Let_def)
  then show ?thesis using reply_box [of ?m' m "inb + 64" 1 w] by blast
qed

lemma image_kept:
  assumes "bytes_at m fs img" "length img \<le> 2 ^ 64" "\<And>x. in_region fs (length img) x \<Longrightarrow> m' x = m x"
  shows "bytes_at m' fs img"
  using assms bytes_at_cong [of fs img m' m] by simp

lemma local_load_image:
  assumes "files_ok files" "length junk = 32" "create_initrd junk files = Inr img" "bytes_at (mem s) (filesystem s) img"
    "i < length files" "files ! i = (name, Some c)" "str_at (mem s) path name"
  shows "local_load path s = Inr (filesystem s + of_nat (data_start files + sizes (take i files)))"
  using image_entry(2) [OF assms(1-6)] find_file_image [OF assms] by (simp add: local_load_def file_header_def)

end
