(* ===== verification/Clients.thy ===== *)
theory Clients
  imports File_System
begin

text \<open>
  The system calls of a program: \<open>src/lib/fs.c\<close> and \<open>src/lib/pm.c\<close>.  A call builds a request, sends it
  to a server, or over a channel to a driver, and waits for the answer.

  \<open>c\<close> is the \<open>cpuinfo\<close> of the program and \<open>world\<close> is what the rest of the system does to memory while
  the program waits.  The request lies on the stack of the program, at \<open>tmp\<close>.  Memory is what the
  program sees, where the pages of its channels are at their physical addresses.
\<close>

section \<open>Files\<close>

text \<open>\<open>cpuinfo->msg_input[server].data\<close>\<close>

definition reply_data :: "cpu_info \<Rightarrow> addr \<Rightarrow> addr" where
  "reply_data c server = message_data (msg_input c + MSG_SIZE * server)"

text \<open>\<open>len = strlen (path) > 32 ? 32 : strlen (path)\<close>, then \<open>strncpy\<close> and the zero behind.\<close>

definition copy_path :: "addr \<Rightarrow> addr \<Rightarrow> memory \<Rightarrow> memory res" where
  "copy_path dest path m =
    (case strlen path m of
       None \<Rightarrow> Inl Blocked
     | Some l \<Rightarrow>
        (let len = (if 32 <s l then 32 else scast l :: addr) in Inr ((strncpy dest path len m)(dest + len := 0))))"

definition open_file ::
    "(memory \<Rightarrow> memory) \<Rightarrow> cpu_info \<Rightarrow> addr \<Rightarrow> addr \<Rightarrow> cint \<Rightarrow> memory \<Rightarrow> (cint \<times> memory) res" where
  "open_file world c tmp pathname flags m =
    bindr (copy_path tmp pathname m) (\<lambda>m1.
    bindr (msg_send c FS_ID OPEN_IPC tmp 36 (store32 m1 (tmp + 32) flags)) (\<lambda>m2.
    bindr (msg_receive c 0 FS_ID (world m2)) (\<lambda>(_, _, m3).
      let fd = load32 m3 (reply_data c FS_ID) in Inr (if fd <s 0 then - 1 else fd, m3))))"

text \<open>\<open>stdin\<close> and \<open>stdout\<close> are the addresses of the two literals.\<close>

definition open_std ::
    "(memory \<Rightarrow> memory) \<Rightarrow> cpu_info \<Rightarrow> addr \<Rightarrow> addr \<Rightarrow> addr \<Rightarrow> memory \<Rightarrow> memory res" where
  "open_std world c tmp stdin stdout m =
    bindr (open_file world c tmp stdin 0 m) (\<lambda>(fd, m1).
      if fd <s 0 then Inl (Panic ''Failed to open stdin for VM'')
      else bindr (open_file world c tmp stdout 2 m1) (\<lambda>(fd', m2).
        if fd' <s 0 then Inl (Panic ''Failed to open stdout for VM'') else Inr m2))"

text \<open>The size check compares as \<open>size_t\<close>, so it refuses negative counts as well.\<close>

definition read_char ::
    "(memory \<Rightarrow> memory) \<Rightarrow> cpu_info \<Rightarrow> cint \<Rightarrow> addr \<Rightarrow> cint \<Rightarrow> memory \<Rightarrow> (cint \<times> memory) res" where
  "read_char world c fd buf count m =
    (let cnl = fd_offset (nth_fd m (vm_fds (vm_info c)) fd) in
     if scast count \<ge> (4096 - 12 - 8 :: addr) then Inl (Panic ''Count too large!'')
     else
       bindr (cnl_send cnl (store64 m (channel_data cnl) (scast count))) (\<lambda>m1.
       bindr (cnl_receive cnl (world m1)) (\<lambda>m2.
         let m3 = (if channel_result m2 cnl \<noteq> - 1
                   then memcpy buf (channel_data cnl) (scast (channel_result m2 cnl)) m2 else m2)
         in Inr (channel_result m3 cnl, m3))))"

definition read_file ::
    "(memory \<Rightarrow> memory) \<Rightarrow> cpu_info \<Rightarrow> addr \<Rightarrow> cint \<Rightarrow> addr \<Rightarrow> cint \<Rightarrow> memory \<Rightarrow> (cint \<times> memory) res" where
  "read_file world c tmp fd buf count m =
    (if fd_type (nth_fd m (vm_fds (vm_info c)) fd) = TYPE_CHAR then read_char world c fd buf count m
     else
       bindr (virt2phys c buf) (\<lambda>p.
       bindr (msg_send c FS_ID READ_IPC tmp 24
           (store32 (store64 (store32 m tmp fd) (tmp + 8) p) (tmp + 16) count)) (\<lambda>m1.
       bindr (msg_receive c 0 FS_ID (world m1)) (\<lambda>(_, _, m2).
         Inr (load32 m2 (reply_data c FS_ID + 8), m2)))))"

definition write_char ::
    "(memory \<Rightarrow> memory) \<Rightarrow> cpu_info \<Rightarrow> cint \<Rightarrow> addr \<Rightarrow> cint \<Rightarrow> memory \<Rightarrow> (cint \<times> memory) res" where
  "write_char world c fd buf count m =
    (let cnl = fd_offset (nth_fd m (vm_fds (vm_info c)) fd) in
     if scast count \<ge> (4096 - 12 - 8 :: addr) then Inl (Panic ''Count too large!'')
     else
       (let m1 = memcpy (channel_data cnl + 8) buf (scast count) (store64 m (channel_data cnl) (scast count)) in
        bindr (cnl_send cnl m1) (\<lambda>m2.
        bindr (cnl_receive cnl (world m2)) (\<lambda>m3. Inr (channel_result m3 cnl, m3)))))"

text \<open>Both branches of the test on the type leave \<open>write\<close>; the code behind it is never reached.\<close>

definition write_file ::
    "(memory \<Rightarrow> memory) \<Rightarrow> cpu_info \<Rightarrow> cint \<Rightarrow> addr \<Rightarrow> cint \<Rightarrow> memory \<Rightarrow> (cint \<times> memory) res" where
  "write_file world c fd buf count m =
    (let type = fd_type (nth_fd m (vm_fds (vm_info c)) fd) in
     if type = 0 then Inl (Panic ''Type is worng!'')
     else if type = TYPE_CHAR then write_char world c fd buf count m
     else Inl (Panic ''Only CHAR devices are available for write''))"

definition close_file ::
    "(memory \<Rightarrow> memory) \<Rightarrow> cpu_info \<Rightarrow> addr \<Rightarrow> cint \<Rightarrow> memory \<Rightarrow> (cint \<times> memory) res" where
  "close_file world c tmp fd m =
    bindr (msg_send c FS_ID CLOSE_IPC tmp 4 (store32 m tmp fd)) (\<lambda>m1.
    bindr (msg_receive c 0 FS_ID (world m1)) (\<lambda>(_, _, m2). Inr (load32 m2 (reply_data c FS_ID), m2)))"

section \<open>Processes\<close>

definition empty_call :: "(memory \<Rightarrow> memory) \<Rightarrow> cpu_info \<Rightarrow> memory \<Rightarrow> (cint \<times> memory) res" where
  "empty_call world c m =
    bindr (msg_send c PM_ID 999 0 0 m) (\<lambda>m1.
    bindr (msg_receive c 0 PM_ID (world m1)) (\<lambda>(_, _, m2). Inr (load32 m2 (reply_data c PM_ID), m2)))"

text \<open>\<open>cpuinfo_vaddr\<close> is the address of the variable \<open>cpuinfo\<close> of the program.\<close>

definition fork_internal ::
    "(memory \<Rightarrow> memory) \<Rightarrow> cpu_info \<Rightarrow> addr \<Rightarrow> addr \<Rightarrow> addr \<Rightarrow> memory \<Rightarrow> (cint \<times> memory) res" where
  "fork_internal world c tmp cpuinfo_vaddr register_array_vaddr m =
    bindr (virt2phys c register_array_vaddr) (\<lambda>p.
    bindr (msg_send c PM_ID FORK_IPC tmp 16 (store64 (store64 m tmp cpuinfo_vaddr) (tmp + 8) p)) (\<lambda>m1.
    bindr (msg_receive c 0 PM_ID (world m1)) (\<lambda>(_, _, m2). Inr (load32 m2 (reply_data c PM_ID), m2))))"

text \<open>
  \<open>exec\<close> saves the registers, but none of the segment and control registers, in a static structure at
  \<open>registers\<close>, sends its request and leaves the machine; \<open>r_rip r\<close> is the address of \<open>exec_resume\<close>.
\<close>

definition exec_regs :: "regs \<Rightarrow> addr \<Rightarrow> memory \<Rightarrow> memory" where
  "exec_regs r p m =
    fold (\<lambda>(off, w) m. store64 m (p + off) w)
      [(40, r_rdi r), (0, r_rax r), (120, r_rflags r), (64, r_rip r), (48, r_rsp r), (56, r_rbp r),
       (8, r_rbx r), (16, r_rcx r), (24, r_rdx r), (32, r_rsi r), (128, r_r8 r), (136, r_r9 r),
       (144, r_r10 r), (152, r_r11 r), (160, r_r12 r), (168, r_r13 r), (176, r_r14 r), (184, r_r15 r)] m"

definition exec_call :: "cpu_info \<Rightarrow> addr \<Rightarrow> addr \<Rightarrow> addr \<Rightarrow> regs \<Rightarrow> addr \<Rightarrow> memory \<Rightarrow> memory res" where
  "exec_call c tmp path argv r registers m =
    bindr (copy_path tmp path m) (\<lambda>m1.
    bindr (if argv \<noteq> 0 then virt2phys c argv else Inr 0) (\<lambda>p.
    bindr (virt2phys c registers) (\<lambda>q.
      msg_send c PM_ID EXEC_IPC tmp 48
        (store64 (exec_regs r registers (store64 m1 (tmp + 32) p)) (tmp + 40) q))))"

definition waitpid_call ::
    "(memory \<Rightarrow> memory) \<Rightarrow> cpu_info \<Rightarrow> addr \<Rightarrow> cint \<Rightarrow> addr \<Rightarrow> memory \<Rightarrow> (cint \<times> memory) res" where
  "waitpid_call world c tmp pid status_buf m =
    bindr (msg_send c PM_ID WAITPID_IPC tmp 4 (store32 m tmp pid)) (\<lambda>m1.
    bindr (msg_receive c 0 PM_ID (world m1)) (\<lambda>(_, _, m2).
      let m3 = store32 m2 status_buf (load32 m2 (reply_data c PM_ID + 4)) in
      Inr (load32 m3 (reply_data c PM_ID), m3)))"

definition exit_call :: "cpu_info \<Rightarrow> addr \<Rightarrow> cint \<Rightarrow> memory \<Rightarrow> memory res" where
  "exit_call c tmp status m = msg_send c PM_ID EXIT_IPC tmp 4 (store32 m tmp status)"

end
