(* ===== verification/Drivers.thy ===== *)
theory Drivers
  imports Channel Console
begin

text \<open>
  The character drivers: the loops of \<open>src/drivers/console/main.c\<close>, \<open>src/drivers/junk/main.c\<close> and
  \<open>src/drivers/keyboard/main.c\<close>, and the keyboard itself, \<open>src/drivers/keyboard/keyboard.c\<close>.

  One turn of a loop takes the next request from the channels of the driver, serves it and replies.
  \<open>fs\<close> is what the rest of the system does to memory while the driver waits for the file server to
  confirm that a channel is closed.  The keyboard waits for interrupts; they come as a list of what
  its two ports hold at each of them, in the state.  All three loops keep one contract, the locale \<open>char_driver\<close>.
\<close>

section \<open>What the loops share\<close>

abbreviation (input) "CLOSE_CHANNEL \<equiv> 0x87654321"

definition driver_close :: "(memory \<Rightarrow> memory) \<Rightarrow> cpu_info \<Rightarrow> addr \<Rightarrow> memory \<Rightarrow> memory res" where
  "driver_close fs c cnl m =
    bindr (cnl_reply cnl 0 m) (\<lambda>m1.
    bindr (msg_receive c 0 FS_ID (fs m1)) (\<lambda>(_, _, m2).
      if m2 (message_data (msg_input c + MSG_SIZE * FS_ID)) \<noteq> 0 then Inl (Panic ''KBD: The reply %d is wrong'')
      else Inr m2))"

text \<open>
  \<open>for (i = 0; i < req.count; i++)\<close> counts with an \<open>int\<close>, so it runs into an overflow for counts from
  \<open>2 ^ 31\<close> on.
\<close>

definition int_count :: "addr \<Rightarrow> nat res" where
  "int_count count = (if count < 2 ^ 31 then Inr (unat count) else Inl (Fault ''int overflow''))"

section \<open>The console driver\<close>

primrec print_data :: "nat \<Rightarrow> addr \<Rightarrow> 'a con_scheme \<Rightarrow> 'a con_scheme" where
  "print_data 0 p s = s"
| "print_data (Suc n) p s = print_data n (p + 1) (con_putc (scast (mem s p)) 0xF s)"

definition console_serve :: "addr \<Rightarrow> addr \<Rightarrow> 'a con_scheme \<Rightarrow> 'a con_scheme res" where
  "console_serve from_cnl count s = bindr (int_count count) (\<lambda>n. Inr (print_data n (channel_data from_cnl + 8) s))"

definition console_start :: "byte list list \<Rightarrow> 'a con_scheme \<Rightarrow> 'a con_scheme res" where
  "console_start argv s =
    (if length argv < 3 then Inl (Panic ''Too few arguments for console driver!'')
     else Inr (con_init (atoi (argv ! 1)) (atoi (argv ! 2)) s))"

definition console_turn ::
    "(memory \<Rightarrow> memory) \<Rightarrow> cpu_info \<Rightarrow> nat \<Rightarrow> 'a con_scheme \<Rightarrow> (nat \<times> 'a con_scheme) res" where
  "console_turn fs c i s =
    bindr (cnl_receive_any c i (mem s)) (\<lambda>(i', from_cnl, m1).
      if load64 m1 (channel_data from_cnl) = CLOSE_CHANNEL
      then bindr (driver_close fs c from_cnl m1) (\<lambda>m2. Inr (i', s\<lparr>mem := m2\<rparr>))
      else
        (let count = load64 m1 (channel_data from_cnl) in
         bindr (console_serve from_cnl count (s\<lparr>mem := m1\<rparr>)) (\<lambda>s1.
         bindr (cnl_reply from_cnl (ucast count) (mem s1)) (\<lambda>m2. Inr (i', s1\<lparr>mem := m2\<rparr>)))))"

section \<open>The junk driver\<close>

primrec fill_data :: "nat \<Rightarrow> addr \<Rightarrow> memory \<Rightarrow> memory" where
  "fill_data 0 p m = m"
| "fill_data (Suc n) p m = fill_data n (p + 1) (m(p := 102))"

definition junk_serve :: "addr \<Rightarrow> addr \<Rightarrow> 'a machine_scheme \<Rightarrow> 'a machine_scheme res" where
  "junk_serve from_cnl count s =
    bindr (int_count count) (\<lambda>n. Inr (s\<lparr>mem := fill_data n (channel_data from_cnl + 8) (mem s)\<rparr>))"

definition junk_turn ::
    "(memory \<Rightarrow> memory) \<Rightarrow> cpu_info \<Rightarrow> nat \<Rightarrow> 'a machine_scheme \<Rightarrow> (nat \<times> 'a machine_scheme) res" where
  "junk_turn fs c i s =
    bindr (cnl_receive_any c i (mem s)) (\<lambda>(i', from_cnl, m1).
      if load64 m1 (channel_data from_cnl) = CLOSE_CHANNEL
      then bindr (driver_close fs c from_cnl m1) (\<lambda>m2. Inr (i', s\<lparr>mem := m2\<rparr>))
      else
        (let count = load64 m1 (channel_data from_cnl) in
         bindr (junk_serve from_cnl count (s\<lparr>mem := m1\<rparr>)) (\<lambda>s1.
         bindr (cnl_reply from_cnl (ucast count) (mem s1)) (\<lambda>m2. Inr (i', s1\<lparr>mem := m2\<rparr>)))))"

section \<open>The keyboard\<close>

record kbd = machine +
  buffer :: addr
  bufpos :: cint
  shift_pressed :: bool
  ctrl_pressed :: bool
  alt_pressed :: bool
  irqs :: "(byte \<times> byte) list"

definition keymap :: "cint list list" where
  "keymap = [
     [0, 0, 0, 0, 0, 0, 0, 0],
     [0x1B, 0x1B, 0x1B, 0x1B, 0x1B, 0x1B, 0, 0x1B],
     [49, 33, 0, 0, 49, 33, 0, 0],
     [50, 64, 0x0, 0x0, 50, 64, 0x0, 0x0],
     [51, 35, 0, 0, 51, 35, 0, 0],
     [52, 36, 0, 0, 52, 36, 0, 0],
     [53, 37, 0, 0, 53, 37, 0, 0],
     [54, 94, 0x1E, 0x1E, 54, 94, 0x1E, 0x1E],
     [55, 38, 0, 0, 55, 38, 0, 0],
     [56, 42, 0, 0, 56, 42, 0, 0],
     [57, 40, 0, 0, 57, 40, 0, 0],
     [48, 41, 0, 0, 48, 41, 0, 0],
     [45, 95, 0x1F, 0x1F, 45, 95, 0x1F, 0x1F],
     [61, 43, 0, 0, 61, 43, 0, 0],
     [0x8, 0x8, 0x7F, 0x7F, 0x8, 0x8, 0x7F, 0x7F],
     [0x9, 0xF00, 0, 0, 0x9, 0xF00, 0, 0],
     [113, 81, 0x11, 0x11, 113, 81, 0x11, 0x11],
     [119, 87, 0x17, 0x17, 119, 87, 0x17, 0x17],
     [101, 69, 0x5, 0x5, 101, 69, 0x5, 0x5],
     [114, 82, 0x12, 0x12, 114, 82, 0x12, 0x12],
     [116, 84, 0x14, 0x14, 116, 84, 0x14, 0x14],
     [121, 89, 0x19, 0x19, 121, 89, 0x19, 0x19],
     [117, 85, 0x15, 0x15, 117, 85, 0x15, 0x15],
     [105, 73, 0x9, 0x9, 105, 73, 0x9, 0x9],
     [111, 79, 0xF, 0xF, 111, 79, 0xF, 0xF],
     [112, 80, 0x10, 0x10, 112, 80, 0x10, 0x10],
     [91, 123, 0x1B, 0x1B, 91, 123, 0x1B, 0x1B],
     [93, 125, 0x1D, 0x1D, 93, 125, 0x1D, 0x1D],
     [0xA, 0xA, 0xA, 0xA, 0xA, 0xA, 0xA, 0xA],
     [0, 0, 0, 0, 0, 0, 0, 0],
     [97, 65, 0x1, 0x1, 97, 65, 0x1, 0x1],
     [115, 83, 0x13, 0x13, 115, 83, 0x13, 0x13],
     [100, 68, 0x4, 0x4, 100, 68, 0x4, 0x4],
     [102, 70, 0x6, 0x6, 102, 70, 0x6, 0x6],
     [103, 71, 0x7, 0x7, 103, 71, 0x7, 0x7],
     [104, 72, 0x8, 0x8, 104, 72, 0x8, 0x8],
     [106, 74, 0xA, 0xA, 106, 74, 0xA, 0xA],
     [107, 75, 0xB, 0xB, 107, 75, 0xB, 0xB],
     [108, 76, 0xC, 0xC, 108, 76, 0xC, 0xC],
     [59, 58, 0, 0, 59, 58, 0, 0],
     [39, 34, 0, 0, 39, 34, 0, 0],
     [96, 126, 0, 0, 96, 126, 0, 0],
     [0, 0, 0, 0, 0, 0, 0, 0],
     [92, 124, 0x1C, 0x1C, 92, 124, 0x1C, 0x1C],
     [122, 90, 0x1A, 0x1A, 122, 90, 0x1A, 0x1A],
     [120, 88, 0x18, 0x18, 120, 88, 0x18, 0x18],
     [99, 67, 0x3, 0x3, 99, 67, 0x3, 0x3],
     [118, 86, 0x16, 0x16, 118, 86, 0x16, 0x16],
     [98, 66, 0x2, 0x2, 98, 66, 0x2, 0x2],
     [110, 78, 0xE, 0xE, 110, 78, 0xE, 0xE],
     [109, 77, 0xD, 0xD, 109, 77, 0xD, 0xD],
     [44, 60, 0, 0, 44, 60, 0, 0],
     [46, 62, 0, 0, 46, 62, 0, 0],
     [47, 63, 0, 0, 47, 63, 0, 0],
     [0, 0, 0, 0, 0, 0, 0, 0],
     [42, 42, 42, 42, 42, 42, 42, 42],
     [0, 0, 0, 0, 0, 0, 0, 0],
     [32, 32, 0x0, 32, 32, 32, 0, 32],
     [0, 0, 0, 0, 0, 0, 0, 0],
     [0x3B00, 0x5400, 0x5E00, 0, 0x6800, 0, 0, 0],
     [0x3C00, 0x5500, 0x5F00, 0, 0x6900, 0, 0, 0],
     [0x3D00, 0x5600, 0x6000, 0, 0x6A00, 0, 0, 0],
     [0x3E00, 0x5700, 0x6100, 0, 0x6B00, 0, 0, 0],
     [0x3F00, 0x5800, 0x6200, 0, 0x6C00, 0, 0, 0],
     [0x4000, 0x5900, 0x6300, 0, 0x6D00, 0, 0, 0],
     [0x4100, 0x5A00, 0x6400, 0, 0x6E00, 0, 0, 0],
     [0x4200, 0x5B00, 0x6500, 0, 0x6F00, 0, 0, 0],
     [0x4300, 0x5C00, 0x6600, 0, 0x7000, 0, 0, 0],
     [0x4400, 0x5D00, 0x6700, 0, 0x7100, 0, 0, 0],
     [0, 0, 0, 0, 0, 0, 0, 0],
     [0, 0, 0, 0, 0, 0, 0, 0],
     [0x4700, 55, 55, 55, 55, 55, 55, 55],
     [0x4800, 56, 56, 56, 56, 56, 56, 56],
     [0x4900, 57, 57, 57, 57, 57, 57, 57],
     [45, 45, 45, 45, 45, 45, 45, 45],
     [0x4B00, 52, 52, 52, 52, 52, 52, 52],
     [0x4C00, 53, 53, 53, 53, 53, 53, 53],
     [0x4D00, 54, 54, 54, 54, 54, 54, 54],
     [43, 43, 43, 43, 43, 43, 43, 43],
     [0x4F00, 49, 49, 49, 49, 49, 49, 49],
     [0x5000, 50, 50, 50, 50, 50, 50, 50],
     [0x5100, 51, 51, 51, 51, 51, 51, 51],
     [0x5200, 48, 48, 48, 48, 48, 48, 48],
     [0x5300, 46, 46, 46, 46, 46, 0, 0]]"

definition kbd_add_buf :: "cint \<Rightarrow> 'a kbd_scheme \<Rightarrow> 'a kbd_scheme" where
  "kbd_add_buf data s = s\<lparr>mem := (mem s)(buffer s + scast (bufpos s) := ucast data), bufpos := bufpos s + 1\<rparr>"

text \<open>
  The handler of the interrupt; \<open>stat\<close> and \<open>scan_code\<close> are what the ports 0x64 and 0x60 hold.  The
  \<open>halt\<close> of the code is a fault.
\<close>

definition kbd_proc_data :: "byte \<Rightarrow> byte \<Rightarrow> 'a kbd_scheme \<Rightarrow> 'a kbd_scheme res" where
  "kbd_proc_data stat scan_code s =
    (if stat AND 1 = 0 then Inl (Panic ''Data can't be read from keyboard buffer'')
     else if scan_code = 0xE0 then Inr s
     else if scan_code = 0x1D then Inr (s\<lparr>ctrl_pressed := True\<rparr>)
     else if scan_code = 0x38 then Inr (s\<lparr>alt_pressed := True\<rparr>)
     else if scan_code = 0x2A \<or> scan_code = 0x36 then Inr (s\<lparr>shift_pressed := True\<rparr>)
     else if scan_code = 0x1D OR 0x80 then Inr (s\<lparr>ctrl_pressed := False\<rparr>)
     else if scan_code = 0x38 OR 0x80 then Inr (s\<lparr>alt_pressed := False\<rparr>)
     else if scan_code = 0x2A OR 0x80 \<or> scan_code = 0x36 OR 0x80 then Inr (s\<lparr>shift_pressed := False\<rparr>)
     else if alt_pressed s \<and> ctrl_pressed s \<and> scan_code = 0x53 then Inl (Fault ''halt'')
     else if scan_code AND 0x80 \<noteq> 0 then Inr s
     else if length keymap \<le> unat scan_code then Inl (Fault ''behind the keymap'')
     else Inr (kbd_add_buf (keymap ! unat scan_code !
       (2 * of_bool (ctrl_pressed s) + of_bool (shift_pressed s) + 4 * of_bool (alt_pressed s))) s))"

text \<open>
  \<open>wait_for_completed_request\<close>: the loop wakes up after every interrupt.  When the interrupts run out
  the driver waits.
\<close>

fun wait_loop :: "cint \<Rightarrow> (byte \<times> byte) list \<Rightarrow> 'a kbd_scheme \<Rightarrow> 'a kbd_scheme res" where
  "wait_loop count [] s = Inl Blocked"
| "wait_loop count ((stat, scan_code) # rest) s =
    bindr (kbd_proc_data stat scan_code s) (\<lambda>s1.
      if count \<le>s bufpos s1 then Inr (s1\<lparr>bufpos := 0, irqs := rest\<rparr>) else wait_loop count rest s1)"

definition wait_for_completed_request :: "addr \<Rightarrow> cint \<Rightarrow> 'a kbd_scheme \<Rightarrow> 'a kbd_scheme res" where
  "wait_for_completed_request channel count s = wait_loop count (irqs s) (s\<lparr>buffer := channel\<rparr>)"

definition kbd_serve :: "addr \<Rightarrow> addr \<Rightarrow> 'a kbd_scheme \<Rightarrow> 'a kbd_scheme res" where
  "kbd_serve from_cnl count s = wait_for_completed_request (channel_data from_cnl) (ucast count) s"

definition kbd_turn ::
    "(memory \<Rightarrow> memory) \<Rightarrow> cpu_info \<Rightarrow> nat \<Rightarrow> 'a kbd_scheme \<Rightarrow> (nat \<times> 'a kbd_scheme) res" where
  "kbd_turn fs c i s =
    bindr (cnl_receive_any c i (mem s)) (\<lambda>(i', from_cnl, m1).
      if load64 m1 (channel_data from_cnl) = CLOSE_CHANNEL
      then bindr (driver_close fs c from_cnl m1) (\<lambda>m2. Inr (i', s\<lparr>mem := m2\<rparr>))
      else
        (let count = load64 m1 (channel_data from_cnl) in
         bindr (kbd_serve from_cnl count (s\<lparr>mem := m1\<rparr>)) (\<lambda>s1.
         bindr (cnl_reply from_cnl (ucast count) (mem s1)) (\<lambda>m2. Inr (i', s1\<lparr>mem := m2\<rparr>)))))"

section \<open>The contract of a driver\<close>

text \<open>
  \<open>cnl\<close> is in the list of the driver \<open>d\<close>, no other channel of the list waits, and neither the list nor
  another channel lies in the page of \<open>cnl\<close>.
\<close>

definition sole_caller :: "cpu_info \<Rightarrow> nat \<Rightarrow> addr \<Rightarrow> memory \<Rightarrow> bool" where
  "sole_caller d i cnl m \<longleftrightarrow>
    (let chs = vm_channels (vm_info d) in
     is_driver (ucast (cpuid d)) \<and> i < MAX_CHANNELS \<and> cnl \<noteq> 0 \<and>
     (\<exists>k \<in> set (used_from m chs 0). channel_at m chs k = cnl) \<and>
     (\<forall>k \<in> set (used_from m chs i) \<union> set (used_from m chs 0). channel_at m chs k = cnl \<or>
        \<not> wants m chs k \<and> disjoint_regions (channel_at m chs k) 4 cnl 4096) \<and>
     disjoint_regions chs 256 cnl 4096)"

lemma find_Some_all:
  assumes "x \<in> set xs" "P x" "\<And>y. y \<in> set xs \<Longrightarrow> P y \<Longrightarrow> Q y"
  shows "\<exists>y. find P xs = Some y \<and> Q y"
  using assms by (cases "find P xs") (auto simp: find_None_iff find_Some_iff)

lemma channel_at_outside:
  assumes "disjoint_regions chs 256 cnl 4096" "\<And>x. \<not> in_region cnl 4096 x \<Longrightarrow> m1 x = m x" "k < MAX_CHANNELS"
  shows "channel_at m1 chs k = channel_at m chs k"
  unfolding channel_at_def
proof (rule load_cong)
  fix x assume "in_region (chs + of_nat (8 * k)) 8 x"
  moreover have "unat (of_nat (8 * k) :: addr) = 8 * k" using assms(3) by (intro unat_of_nat_small) simp
  ultimately have "in_region chs 256 x" using assms(3) by (intro in_region_sub [of chs "of_nat (8 * k)" 8]) auto
  then show "m1 x = m x" using assms(1,2) disjoint_regionsD by blast
qed simp

lemma used_from_cong:
  assumes "\<And>k. k < MAX_CHANNELS \<Longrightarrow> channel_at m1 chs k = channel_at m chs k"
  shows "used_from m1 chs i = used_from m chs i"
  unfolding used_from_def by (rule takeWhile_cong) (auto simp: assms)

lemma sole_caller_found:
  assumes "sole_caller d i cnl m" "\<And>x. \<not> in_region cnl 4096 x \<Longrightarrow> m1 x = m x" "ready_send m1 cnl = 1"
  shows "\<exists>i'. cnl_receive_any d i m1 = Inr (i', cnl, store32 m1 cnl 0)"
proof -
  define chs where "chs = vm_channels (vm_info d)"
  note s = assms(1) [unfolded sole_caller_def Let_def, folded chs_def]
  have c: "channel_at m1 chs k = channel_at m chs k" if "k < MAX_CHANNELS" for k
    using s assms(2) that by (intro channel_at_outside [of chs cnl]) auto
  then have u: "used_from m1 chs j = used_from m chs j" for j by (rule used_from_cong)
  have l: "k < MAX_CHANNELS" if "k \<in> set (used_from m chs j)" for k j
    using that by (auto simp: used_from_def dest: set_takeWhileD)
  have w: "wants m1 chs k = wants m chs k"
    if "k < MAX_CHANNELS" "disjoint_regions (channel_at m chs k) 4 cnl 4096" for k
    using that assms(2) unfolding wants_def ready_send_def c [OF that(1)]
    by (intro arg_cong2 [where f = "(=)"] load_cong) (auto dest: disjoint_regionsD)
  obtain k0 where k0: "k0 \<in> set (used_from m chs 0)" "channel_at m chs k0 = cnl" using s by auto
  have "\<exists>k. find (wants m1 chs) (used_from m chs i @ used_from m chs 0) = Some k \<and> channel_at m1 chs k = cnl"
    using k0 s l c w assms(3) by (intro find_Some_all [of k0]) (auto simp: wants_def)
  then show ?thesis
    using cnl_receive_any_find [of d i chs m1] s by (auto simp: chs_def [symmetric] u)
qed

text \<open>What a turn of a driver does to memory, for a program that waits for it.\<close>

definition driver_runs ::
    "('a machine_scheme \<Rightarrow> (nat \<times> 'a machine_scheme) res) \<Rightarrow> 'a machine_scheme \<Rightarrow> memory \<Rightarrow> memory" where
  "driver_runs turn s m = (case turn (s\<lparr>mem := m\<rparr>) of Inr (_, s') \<Rightarrow> mem s' | Inl _ \<Rightarrow> m)"

text \<open>
  A request that is not the magic number is served and answered with its count.  Serving a request that
  the driver can serve succeeds, and writes only into the page of the channel and into the memory
  that the driver owns.
\<close>

locale char_driver =
  fixes turn :: "(memory \<Rightarrow> memory) \<Rightarrow> cpu_info \<Rightarrow> nat \<Rightarrow> 'a machine_scheme \<Rightarrow> (nat \<times> 'a machine_scheme) res"
    and serve :: "addr \<Rightarrow> addr \<Rightarrow> 'a machine_scheme \<Rightarrow> 'a machine_scheme res"
    and can_serve :: "addr \<Rightarrow> addr \<Rightarrow> 'a machine_scheme \<Rightarrow> bool"
    and own :: "addr \<Rightarrow> bool"
  assumes turn_request:
    "\<lbrakk>cnl_receive_any d i (mem s) = Inr (i', cnl, m1); load64 m1 (channel_data cnl) = count; count \<noteq> CLOSE_CHANNEL\<rbrakk> \<Longrightarrow>
      turn fs d i s = bindr (serve cnl count (s\<lparr>mem := m1\<rparr>)) (\<lambda>s1.
        bindr (cnl_reply cnl (ucast count) (mem s1)) (\<lambda>m2. Inr (i', s1\<lparr>mem := m2\<rparr>)))"
    and serve_ok: "can_serve cnl count s \<Longrightarrow> \<exists>s1. serve cnl count s = Inr s1 \<and>
      (\<forall>x. \<not> in_region cnl 4096 x \<longrightarrow> \<not> own x \<longrightarrow> mem s1 x = mem s x)"
begin

lemma answered:
  assumes "sole_caller d i cnl m" "\<And>x. \<not> in_region cnl 4096 x \<Longrightarrow> m2 x = m x" "ready_send m2 cnl = 1"
    "load64 m2 (channel_data cnl) = count" "count \<noteq> CLOSE_CHANNEL" "can_serve cnl count (s\<lparr>mem := store32 m2 cnl 0\<rparr>)"
  shows "\<exists>s1 m5. serve cnl count (s\<lparr>mem := store32 m2 cnl 0\<rparr>) = Inr s1 \<and>
    cnl_receive cnl (driver_runs (turn fs d i) s m2) = Inr m5 \<and> channel_result m5 cnl = ucast count \<and>
    (\<forall>x. \<not> in_region cnl 12 x \<longrightarrow> m5 x = mem s1 x) \<and>
    (\<forall>x. \<not> in_region cnl 4096 x \<longrightarrow> \<not> own x \<longrightarrow> m5 x = m x)"
proof -
  obtain i' where i': "cnl_receive_any d i m2 = Inr (i', cnl, store32 m2 cnl 0)"
    using sole_caller_found [OF assms(1-3)] by auto
  obtain s1 where s1: "serve cnl count (s\<lparr>mem := store32 m2 cnl 0\<rparr>) = Inr s1"
    and own: "\<And>x. \<not> in_region cnl 4096 x \<Longrightarrow> \<not> own x \<Longrightarrow> mem s1 x = store32 m2 cnl 0 x"
    using serve_ok [OF assms(6)] by auto
  define m4 where "m4 = store32 (store32 (mem s1) (cnl + 8) (ucast count)) (cnl + 4) 1"
  have n: "cnl \<noteq> 0" using assms(1) by (simp add: sole_caller_def Let_def)
  have "load64 (store32 m2 cnl 0) (channel_data cnl) = count"
    using assms(4) by (simp add: channel_data_def layout_simps)
  then have t: "driver_runs (turn fs d i) s m2 = m4"
    using turn_request [of d i "s\<lparr>mem := m2\<rparr>" i' cnl] i' s1 n assms(5)
    by (simp add: driver_runs_def cnl_reply_def m4_def)
  have o: "store32 m4 (cnl + 4) 0 x = mem s1 x" if "\<not> in_region cnl 12 x" for x
    using that by (simp add: m4_def store32_outside)
  have p: "\<not> in_region cnl 12 x" "store32 m2 cnl 0 x = m x" if "\<not> in_region cnl 4096 x" for x
    using that assms(2) store32_outside [of cnl x 0 m2 0] by (auto simp: in_region_def)
  have f: "ready_reply m4 cnl = 1" "channel_result (store32 m4 (cnl + 4) 0) cnl = ucast count"
    by (simp_all add: m4_def channel_flags)
  show ?thesis
    using n o own p f by (intro exI [of _ s1] exI [of _ "store32 m4 (cnl + 4) 0"]) (simp add: s1 t cnl_receive_def)
qed

end

section \<open>The drivers keep it\<close>

lemma fill_data_memset: "fill_data n p m = memset_loop n p 102 m"
  by (induction n arbitrary: p m) simp_all

lemma channel_sub: "n < 4076 \<Longrightarrow> in_region (channel_data cnl + 8) n x \<Longrightarrow> in_region cnl 4096 x"
  using in_region_sub [of cnl 20 n x 4096] by (simp add: channel_data_def add.assoc)

definition junk_can :: "addr \<Rightarrow> addr \<Rightarrow> machine \<Rightarrow> bool" where
  "junk_can cnl count s \<longleftrightarrow> count < 4076"

interpretation junk_driver: char_driver junk_turn junk_serve junk_can "\<lambda>_. False"
proof
  fix cnl count and s :: machine assume "junk_can cnl count s"
  then have "unat count < 4076" "count < 2 ^ 31" by (auto simp: junk_can_def word_less_nat_alt)
  then show "\<exists>s1. junk_serve cnl count s = Inr s1 \<and>
      (\<forall>x. \<not> in_region cnl 4096 x \<longrightarrow> \<not> False \<longrightarrow> mem s1 x = mem s x)"
    using channel_sub [of "unat count" cnl]
    by (auto simp: junk_serve_def int_count_def fill_data_memset memset_loop_apply)
qed (auto simp: junk_turn_def)

text \<open>The console owns the screen, and prints what is in the page of the channel.\<close>

abbreviation on_screen :: "addr \<Rightarrow> bool" where
  "on_screen \<equiv> in_region SCR_START SCR_SIZE"

lemma con_puts_outside: "\<not> on_screen x \<Longrightarrow> mem (con_puts bs color s) x = mem s x"
  by (induction bs arbitrary: s) (simp_all add: con_putc_outside)

lemma print_data_puts:
  assumes "bytes_at (mem s) p bs" "\<And>i. i < length bs \<Longrightarrow> \<not> on_screen (p + of_nat i)"
  shows "print_data (length bs) p s = con_puts bs 0xF s"
  using assms
proof (induction bs arbitrary: p s)
  case (Cons b bs)
  have o: "\<not> on_screen (p + 1 + of_nat i)" if "i < length bs" for i
    using Cons.prems(2) [of "Suc i"] that by (simp add: add.assoc)
  moreover have "bytes_at (mem s) (p + 1) bs" using Cons.prems(1) by simp
  ultimately have "bytes_at (mem (con_putc (scast b) 0xF s)) (p + 1) bs"
    by (auto simp: bytes_at_nth con_putc_outside)
  then show ?case using Cons.IH [OF _ o] Cons.prems(1) by simp
qed simp

lemma print_data_outside: "\<not> on_screen x \<Longrightarrow> mem (print_data n p s) x = mem s x"
  by (induction n arbitrary: p s) (simp_all add: con_putc_outside)

definition console_can :: "addr \<Rightarrow> addr \<Rightarrow> con \<Rightarrow> bool" where
  "console_can cnl count s \<longleftrightarrow> count < 4076"

interpretation console_driver: char_driver console_turn console_serve console_can on_screen
proof
  fix cnl count and s :: con assume "console_can cnl count s"
  then have "unat count < 4076" "count < 2 ^ 31" by (auto simp: console_can_def word_less_nat_alt)
  then show "\<exists>s1. console_serve cnl count s = Inr s1 \<and>
      (\<forall>x. \<not> in_region cnl 4096 x \<longrightarrow> \<not> on_screen x \<longrightarrow> mem s1 x = mem s x)"
    by (auto simp: console_serve_def int_count_def print_data_outside)
qed (auto simp: console_turn_def)

section \<open>What is typed on the keyboard\<close>

text \<open>
  A key that is neither released nor a modifier gives a character, which depends on the modifiers held
  down at that moment.  A code outside the table and the combination that stops the machine give none.
\<close>

definition character :: "byte \<Rightarrow> bool" where
  "character c \<longleftrightarrow> c < 0x80 \<and> c \<notin> set [0x1D, 0x38, 0x2A, 0x36]"

definition held :: "byte list \<Rightarrow> bool \<Rightarrow> byte \<Rightarrow> bool" where
  "held keys b c = (if c \<in> set keys then True else if c \<in> set (map (\<lambda>k. k + 0x80) keys) then False else b)"

definition key_char :: "bool \<Rightarrow> bool \<Rightarrow> bool \<Rightarrow> byte \<Rightarrow> byte" where
  "key_char sh ct al c = ucast (keymap ! unat c ! (2 * of_bool ct + of_bool sh + 4 * of_bool al))"

fun typed :: "bool \<Rightarrow> bool \<Rightarrow> bool \<Rightarrow> byte list \<Rightarrow> byte list option" where
  "typed sh ct al [] = Some []"
| "typed sh ct al (c # cs) =
    (if character c
     then if 0x54 \<le> c \<or> al \<and> ct \<and> c = 0x53 then None
          else map_option ((#) (key_char sh ct al c)) (typed sh ct al cs)
     else typed (held [0x2A, 0x36] sh c) (held [0x1D] ct c) (held [0x38] al c) cs)"

lemma high_bit: "c AND 0x80 = 0 \<longleftrightarrow> c < 0x80" for c :: byte
proof -
  have "c AND 0x80 = 0 \<longleftrightarrow> \<not> bit c 7" using and_exp_eq_0_iff_not_bit [of c 7] by simp
  moreover have "bit c 7 \<longleftrightarrow> bit (unat c) 7" by (simp add: bit_unsigned_iff)
  moreover have "bit (unat c) 7 \<longleftrightarrow> odd (unat c div 128)" by (simp add: bit_iff_odd)
  moreover have "unat c < 256" using unsigned_less [of c, where ?'a = nat] by simp
  then have "unat c div 128 = 0 \<or> unat c div 128 = 1" by linarith
  then have "odd (unat c div 128) \<longleftrightarrow> 128 \<le> unat c" by (auto simp: div_eq_0_iff)
  ultimately show ?thesis by (auto simp: word_less_nat_alt)
qed

lemma length_keymap: "length keymap = 84"
  by (simp add: keymap_def)

lemma kbd_proc_char:
  assumes "character c" "c < 0x54" "\<not> (alt_pressed s \<and> ctrl_pressed s \<and> c = 0x53)"
  shows "kbd_proc_data 1 c s = Inr (s\<lparr>bufpos := bufpos s + 1,
    mem := (mem s)(buffer s + scast (bufpos s) := key_char (shift_pressed s) (ctrl_pressed s) (alt_pressed s) c)\<rparr>)"
proof -
  have "unat c < 84" using assms(2) by (simp add: word_less_nat_alt)
  then show ?thesis
    using assms by (auto simp: kbd_proc_data_def character_def kbd_add_buf_def key_char_def high_bit length_keymap)
qed

lemma kbd_proc_other:
  assumes "\<not> character c"
  shows "kbd_proc_data 1 c s = Inr (s\<lparr>shift_pressed := held [0x2A, 0x36] (shift_pressed s) c,
    ctrl_pressed := held [0x1D] (ctrl_pressed s) c, alt_pressed := held [0x38] (alt_pressed s) c\<rparr>)"
  using assms by (auto simp: kbd_proc_data_def character_def held_def high_bit)

text \<open>The codes end with the one that completes the request.\<close>

definition types :: "byte list \<Rightarrow> byte list \<Rightarrow> 'a kbd_scheme \<Rightarrow> bool" where
  "types codes bs s \<longleftrightarrow> codes \<noteq> [] \<and> character (last codes) \<and>
    typed (shift_pressed s) (ctrl_pressed s) (alt_pressed s) codes = Some bs \<and> length bs < 4076"

lemma typed_nonempty: "typed sh ct al cs = Some bs \<Longrightarrow> cs \<noteq> [] \<Longrightarrow> character (last cs) \<Longrightarrow> bs \<noteq> []"
  by (induction sh ct al cs arbitrary: bs rule: typed.induct) (auto split: if_splits)

lemma sle_of_nat:
  "n < 2 ^ 31 \<Longrightarrow> k < 2 ^ 31 \<Longrightarrow> (of_nat n \<le>s (of_nat k :: cint)) = (n \<le> k)"
  by (simp add: word_sle_eq sint_of_nat_cint)

lemma wait_loop_typed:
  assumes "types codes bs s" "bufpos s = of_nat k" "k + length bs < 4076"
  shows "\<exists>s1. wait_loop (of_nat (k + length bs)) (map (Pair 1) codes @ rest) s = Inr s1 \<and> irqs s1 = rest \<and>
    bufpos s1 = 0 \<and> mem s1 = put_bytes (mem s) (buffer s + of_nat k) bs"
  using assms
proof (induction codes arbitrary: s bs k)
  case (Cons c cs)
  show ?case
  proof (cases "character c")
    case True
    then obtain bs' where c: "c < 0x54" "\<not> (alt_pressed s \<and> ctrl_pressed s \<and> c = 0x53)"
      "typed (shift_pressed s) (ctrl_pressed s) (alt_pressed s) cs = Some bs'"
      "bs = key_char (shift_pressed s) (ctrl_pressed s) (alt_pressed s) c # bs'"
      using Cons.prems(1) by (auto simp: types_def not_le split: if_splits)
    define s' where "s' = s\<lparr>bufpos := bufpos s + 1,
      mem := (mem s)(buffer s + of_nat k := key_char (shift_pressed s) (ctrl_pressed s) (alt_pressed s) c)\<rparr>"
    have k: "scast (bufpos s) = (of_nat k :: addr)" using Cons.prems(2,3) scast_of_nat_cint [of k] by simp
    note p = kbd_proc_char [OF True c(1,2), unfolded k, folded s'_def]
    have s': "bufpos s' = of_nat (Suc k)" "buffer s' = buffer s"
      "put_bytes (mem s') (buffer s + of_nat (Suc k)) bs' = put_bytes (mem s) (buffer s + of_nat k) bs"
      using Cons.prems(2,3) c(4) put_bytes_upd [of bs' "mem s" "buffer s + of_nat k"] by (simp_all add: s'_def algebra_simps)
    show ?thesis
    proof (cases "cs = []")
      case True
      then show ?thesis using c(3,4) p s' Cons.prems(3) sle_of_nat [of "Suc k" "Suc k"]
        by (simp add: fun_upd_def)
    next
      case False
      then have "types cs bs' s'" using Cons.prems(1) c by (simp add: types_def s'_def)
      moreover have "bs' \<noteq> []" using typed_nonempty [OF c(3) False] Cons.prems(1) False by (simp add: types_def)
      then have "\<not> of_nat (k + length bs) \<le>s (of_nat (Suc k) :: cint)"
        using Cons.prems(3) c(4) sle_of_nat [of "k + length bs" "Suc k"] by (cases bs') simp_all
      ultimately show ?thesis
        using Cons.IH [of bs' s' "Suc k"] Cons.prems(3) c(4) p s' by (simp add: fun_upd_def)
    qed
  next
    case False
    note p = kbd_proc_other [OF False, of s]
    have "cs \<noteq> []" using Cons.prems(1) False by (auto simp: types_def)
    moreover define s' where "s' = s\<lparr>shift_pressed := held [0x2A, 0x36] (shift_pressed s) c,
      ctrl_pressed := held [0x1D] (ctrl_pressed s) c, alt_pressed := held [0x38] (alt_pressed s) c\<rparr>"
    ultimately have t: "types cs bs s'" using Cons.prems(1) False by (simp add: types_def)
    then have "bs \<noteq> []" unfolding types_def using typed_nonempty by blast
    then have "\<not> of_nat (k + length bs) \<le>s bufpos s'"
      using Cons.prems(2,3) sle_of_nat [of "k + length bs" k] by (cases bs) (simp_all add: s'_def)
    then show ?thesis
      using Cons.IH [OF t _ Cons.prems(3)] Cons.prems(2) p by (simp add: s'_def)
  qed
qed (simp add: types_def)

definition kbd_can :: "addr \<Rightarrow> addr \<Rightarrow> kbd \<Rightarrow> bool" where
  "kbd_can cnl count s \<longleftrightarrow> (\<exists>codes rest bs. types codes bs s \<and> irqs s = map (Pair 1) codes @ rest \<and>
    bufpos s = 0 \<and> count = of_nat (length bs))"

lemma kbd_serve_typed:
  assumes "types codes bs s" "irqs s = map (Pair 1) codes @ rest" "bufpos s = 0" "count = of_nat (length bs)"
  shows "\<exists>s1. kbd_serve cnl count s = Inr s1 \<and> irqs s1 = rest \<and> mem s1 = put_bytes (mem s) (channel_data cnl) bs"
proof -
  have "types codes bs (s\<lparr>buffer := channel_data cnl\<rparr>)" "length bs < 4076"
    using assms(1) by (simp_all add: types_def)
  then show ?thesis
    using wait_loop_typed [of codes bs "s\<lparr>buffer := channel_data cnl\<rparr>" 0 rest] assms(2-4)
    by (auto simp: kbd_serve_def wait_for_completed_request_def ucast_of_nat_down)
qed

interpretation kbd_driver: char_driver kbd_turn kbd_serve kbd_can "\<lambda>_. False"
proof
  fix cnl count and s :: kbd assume "kbd_can cnl count s"
  then obtain codes rest bs where k: "types codes bs s" "irqs s = map (Pair 1) codes @ rest" "bufpos s = 0"
    "count = of_nat (length bs)" by (auto simp: kbd_can_def)
  have "put_bytes m (channel_data cnl) bs x = m x" if "\<not> in_region cnl 4096 x" for m x
    using that k(1) in_region_sub [of cnl 12 "length bs" x 4096]
    by (intro put_bytes_outside) (auto simp: channel_data_def types_def)
  then show "\<exists>s1. kbd_serve cnl count s = Inr s1 \<and>
      (\<forall>x. \<not> in_region cnl 4096 x \<longrightarrow> \<not> False \<longrightarrow> mem s1 x = mem s x)"
    using kbd_serve_typed [OF k, of cnl] by auto
qed (auto simp: kbd_turn_def)

end
