(* ===== verification/Char_Devices.thy ===== *)
theory Char_Devices
  imports Clients Drivers Initrd
begin

text \<open>
  The calls of a program and the turns of the drivers together: what a program writes to the console
  appears on the screen, what is typed on the keyboard arrives in the buffer of the program, and what
  a program reads from the junk device.

  The program waits in \<open>cnl_receive\<close> while the driver takes its turn.  The lemmas on a request are
  proved once for every driver that keeps the contract \<open>char_driver\<close>.
\<close>

section \<open>Requests to any driver\<close>

text \<open>Memory after a request of \<open>n\<close> bytes is taken from the channel, when \<open>m\<close> has the data in place.\<close>

definition sent :: "addr \<Rightarrow> memory \<Rightarrow> memory" where
  "sent cnl m = store32 (store32 m (cnl + 4) 0) cnl 1"

definition asked :: "addr \<Rightarrow> nat \<Rightarrow> memory \<Rightarrow> memory" where
  "asked cnl n m = store64 m (channel_data cnl) (of_nat n)"

lemma sent_flags: "ready_send (sent cnl m) cnl = 1" "load64 (sent cnl m) (channel_data cnl) = load64 m (channel_data cnl)"
  by (simp_all add: sent_def ready_send_def channel_data_def layout_simps)

lemma sent_outside: "\<not> in_region cnl 12 x \<Longrightarrow> sent cnl m x = m x"
  using store32_outside [of cnl x 0 _ 1] by (simp add: sent_def store32_outside)

lemma page_header: "\<not> in_region cnl 4096 x \<Longrightarrow> \<not> in_region cnl 12 x"
  by (auto simp: in_region_def)

lemma asked_load: "load64 (asked cnl n m) (channel_data cnl) = of_nat n"
  by (simp add: asked_def load_store_same)

lemma asked_outside: "\<not> in_region (channel_data cnl) 8 x \<Longrightarrow> asked cnl n m x = m x"
  by (simp add: asked_def store_le_outside0)

lemma asked_outside_page: "\<not> in_region cnl 4096 x \<Longrightarrow> asked cnl n m x = m x"
  using in_region_sub [of cnl 12 8 x 4096] by (intro asked_outside) (auto simp: channel_data_def)

lemma small_count:
  assumes "n < 4076"
  shows "scast (of_nat n :: cint) = (of_nat n :: addr)" "\<not> (4076 :: addr) \<le> of_nat n"
    "of_nat n \<noteq> (CLOSE_CHANNEL :: addr)" "unat (of_nat n :: addr) = n" "of_nat n \<noteq> (- 1 :: cint)"
proof -
  show u: "unat (of_nat n :: addr) = n" using assms by (intro unat_of_nat_small) simp
  show "scast (of_nat n :: cint) = (of_nat n :: addr)" using assms by (intro scast_of_nat_cint) simp
  show "\<not> (4076 :: addr) \<le> of_nat n" using assms u by (simp add: word_le_nat_alt)
  show "of_nat n \<noteq> (CLOSE_CHANNEL :: addr)" using assms u by auto
  have "unat (of_nat n :: cint) = n" using assms by (intro unat_of_nat_small) simp
  then show "of_nat n \<noteq> (- 1 :: cint)" using assms by (auto simp: unsigned_minus_1_eq_mask mask_eq_exp_minus_1)
qed

lemma int_count_small: "n < 4076 \<Longrightarrow> int_count (of_nat n) = Inr n"
  using small_count(4) [of n] by (simp add: int_count_def word_less_nat_alt)

lemma channel_sub_not: "n < 4076 \<Longrightarrow> \<not> in_region cnl 4096 x \<Longrightarrow> \<not> in_region (channel_data cnl + 8) n x"
  using channel_sub by blast

lemma memcpy_nat_outside: "n < 4076 \<Longrightarrow> \<not> in_region d n x \<Longrightarrow> memcpy d s (of_nat n) m x = m x"
  using small_count(4) [of n] by (intro memcpy_outside) simp

lemma count_kept:
  assumes "n < 4076"
  shows "load64 (memcpy (p + 8) buf (of_nat n) m) p = load64 m p"
proof (rule load_cong)
  fix x assume "in_region p 8 x"
  then have "\<not> in_region (p + 8) n x"
    using sep_off_disjoint [of 0 8 8 n p] assms disjoint_regionsD by (auto simp: sep_off_def)
  then show "memcpy (p + 8) buf (of_nat n) m x = m x" using assms by (simp add: memcpy_nat_outside)
qed simp

context char_driver
begin

lemma write_answered:
  assumes fd: "cnl = fd_offset (nth_fd m (vm_fds (vm_info c)) fd)" and d: "sole_caller d i cnl m" and n: "n < 4076"
    and m1: "m1 = memcpy (channel_data cnl + 8) buf (of_nat n) (asked cnl n m)"
    and can: "can_serve cnl (of_nat n) (s\<lparr>mem := store32 (sent cnl m1) cnl 0\<rparr>)"
  shows "\<exists>s1 m5. serve cnl (of_nat n) (s\<lparr>mem := store32 (sent cnl m1) cnl 0\<rparr>) = Inr s1 \<and>
    write_char (driver_runs (turn fs d i) s) c fd buf (of_nat n) m = Inr (of_nat n, m5) \<and>
    (\<forall>x. \<not> in_region cnl 12 x \<longrightarrow> m5 x = mem s1 x) \<and>
    (\<forall>x. \<not> in_region cnl 4096 x \<longrightarrow> \<not> own x \<longrightarrow> m5 x = m x)"
proof -
  have "sent cnl m1 x = m x" if "\<not> in_region cnl 4096 x" for x
    using that n by (simp add: channel_sub_not sent_outside page_header m1 memcpy_nat_outside asked_outside_page)
  moreover have "load64 m1 (channel_data cnl) = of_nat n" using n by (simp add: m1 count_kept asked_load)
  ultimately obtain s1 m5 where
    "serve cnl (of_nat n) (s\<lparr>mem := store32 (sent cnl m1) cnl 0\<rparr>) = Inr s1"
    "cnl_receive cnl (driver_runs (turn fs d i) s (sent cnl m1)) = Inr m5" "channel_result m5 cnl = ucast (of_nat n :: addr)"
    "\<forall>x. \<not> in_region cnl 12 x \<longrightarrow> m5 x = mem s1 x" "\<forall>x. \<not> in_region cnl 4096 x \<longrightarrow> \<not> own x \<longrightarrow> m5 x = m x"
    using answered [OF d _ sent_flags(1) _ small_count(3) [OF n] can, of fs] by (auto simp: sent_flags)
  moreover have "cnl_send cnl m1 = Inr (sent cnl m1)"
    using d by (auto simp: cnl_send_def sent_def sole_caller_def Let_def)
  ultimately show ?thesis
    using n by (auto simp: write_char_def fd [symmetric] small_count m1 asked_def ucast_of_nat_down)
qed

lemma read_answered:
  assumes fd: "cnl = fd_offset (nth_fd m (vm_fds (vm_info c)) fd)" and d: "sole_caller d i cnl m" and n: "n < 4076"
    and can: "can_serve cnl (of_nat n) (s\<lparr>mem := store32 (sent cnl (asked cnl n m)) cnl 0\<rparr>)"
    and buf: "disjoint_regions buf n cnl 4096"
  shows "\<exists>s1 m5. serve cnl (of_nat n) (s\<lparr>mem := store32 (sent cnl (asked cnl n m)) cnl 0\<rparr>) = Inr s1 \<and>
    read_char (driver_runs (turn fs d i) s) c fd buf (of_nat n) m =
      Inr (of_nat n, memcpy buf (channel_data cnl) (of_nat n) m5) \<and>
    (\<forall>x. \<not> in_region cnl 12 x \<longrightarrow> m5 x = mem s1 x) \<and>
    (\<forall>x. \<not> in_region cnl 4096 x \<longrightarrow> \<not> own x \<longrightarrow> m5 x = m x)"
proof -
  have "sent cnl (asked cnl n m) x = m x" if "\<not> in_region cnl 4096 x" for x
    using that by (simp add: sent_outside page_header asked_outside_page)
  then obtain s1 m5 where
    "serve cnl (of_nat n) (s\<lparr>mem := store32 (sent cnl (asked cnl n m)) cnl 0\<rparr>) = Inr s1"
    "cnl_receive cnl (driver_runs (turn fs d i) s (sent cnl (asked cnl n m))) = Inr m5"
    and r: "channel_result m5 cnl = ucast (of_nat n :: addr)"
    and "\<forall>x. \<not> in_region cnl 12 x \<longrightarrow> m5 x = mem s1 x" "\<forall>x. \<not> in_region cnl 4096 x \<longrightarrow> \<not> own x \<longrightarrow> m5 x = m x"
    using answered [OF d _ sent_flags(1) _ small_count(3) [OF n] can, of fs] by (auto simp: sent_flags asked_load)
  moreover have "cnl_send cnl (asked cnl n m) = Inr (sent cnl (asked cnl n m))"
    using d by (auto simp: cnl_send_def sent_def sole_caller_def Let_def)
  moreover have "channel_result (memcpy buf (channel_data cnl) (of_nat n) m5) cnl = channel_result m5 cnl"
    unfolding channel_result_def
  proof (rule load_cong)
    fix x assume "in_region (cnl + 8) 4 x"
    then have "in_region cnl 4096 x" using in_region_sub [of cnl 8 4 x 4096] by simp
    then have "\<not> in_region buf n x" using buf disjoint_regionsD by blast
    then show "memcpy buf (channel_data cnl) (of_nat n) m5 x = m5 x" using n by (simp add: memcpy_nat_outside)
  qed simp
  ultimately show ?thesis
    using n by (auto simp: read_char_def fd [symmetric] small_count asked_def [symmetric] ucast_of_nat_down)
qed

end

section \<open>Writing to the console\<close>

text \<open>The screen and the cursor after a character depend on the screen and the cursor only.\<close>

definition same_screen :: "'a con_scheme \<Rightarrow> 'a con_scheme \<Rightarrow> bool" where
  "same_screen s t \<longleftrightarrow> con_x s = con_x t \<and> con_y s = con_y t \<and> (\<forall>x. on_screen x \<longrightarrow> mem s x = mem t x)"

lemma cell_region:
  assumes "i < 2000" "in_region (SCR_START + of_nat (2 * i)) 2 x"
  shows "on_screen x"
proof -
  have "unat (of_nat (2 * i) :: addr) = 2 * i" using assms(1) by (intro unat_of_nat_small) simp
  then show ?thesis using assms in_region_sub [of SCR_START "of_nat (2 * i)" 2 x SCR_SIZE] by simp
qed

lemma cell_cong: "i < 2000 \<Longrightarrow> (\<And>x. on_screen x \<Longrightarrow> m x = m' x) \<Longrightarrow> cell m i = cell m' i"
  unfolding cell_def by (rule load_cong) (auto dest: cell_region)

lemma set_cell_cong: "m x = m' x \<Longrightarrow> set_cell i v m x = set_cell i v m' x"
  by (simp add: set_cell_def store_le_apply)

lemma move_up_cong:
  "i + n \<le> 1920 \<Longrightarrow> (\<And>x. on_screen x \<Longrightarrow> m x = m' x) \<Longrightarrow> on_screen x \<Longrightarrow> move_up n i m x = move_up n i m' x"
proof (induction n arbitrary: i m m')
  case (Suc n)
  have "cell m (i + 80) = cell m' (i + 80)" using Suc.prems by (intro cell_cong) auto
  then show ?case using Suc.prems by (auto intro!: Suc.IH set_cell_cong)
qed simp

lemma blank_cong: "m x = m' x \<Longrightarrow> blank n i m x = blank n i m' x"
proof (induction n arbitrary: i m m')
  case (Suc n)
  show ?case unfolding blank.simps by (intro Suc.IH set_cell_cong Suc.prems)
qed simp

lemma same_scroll:
  assumes "same_screen s t"
  shows "same_screen (scroll s) (scroll t)"
proof -
  have "blank n i (move_up 1920 0 (mem s)) x = blank n i (move_up 1920 0 (mem t)) x" if "on_screen x" for n i x
    using assms that by (intro blank_cong move_up_cong) (auto simp: same_screen_def)
  then show ?thesis
    using assms by (simp add: same_screen_def scroll_def del: blank.simps move_up.simps)
qed

lemma same_putc: "same_screen s t \<Longrightarrow> same_screen (con_putc ch color s) (con_putc ch color t)"
proof -
  assume st: "same_screen s t"
  have n: "same_screen (put_newline s) (put_newline t)" "same_screen (put_tab s) (put_tab t)"
    unfolding put_newline_def put_tab_def using st by (intro same_scroll; simp add: same_screen_def)+
  define s1 t1 where "s1 = scroll (if con_x s \<ge> COLUMNS then s\<lparr>con_x := 0, con_y := con_y s + 1\<rparr> else s)"
    and "t1 = scroll (if con_x t \<ge> COLUMNS then t\<lparr>con_x := 0, con_y := con_y t + 1\<rparr> else t)"
  have "same_screen s1 t1" unfolding s1_def t1_def using st by (intro same_scroll) (auto simp: same_screen_def)
  then have "same_screen (put_normal ch color s) (put_normal ch color t)"
    unfolding put_normal_def Let_def s1_def [symmetric] t1_def [symmetric] by (auto simp: same_screen_def store_le_apply)
  then show ?thesis using n by (auto simp: con_putc_def same_screen_def)
qed

lemma same_puts: "same_screen s t \<Longrightarrow> same_screen (con_puts bs color s) (con_puts bs color t)"
  by (induction bs arbitrary: s t) (simp_all add: same_putc)

lemma page_data:
  assumes "n < 4076" "i < n"
  shows "in_region cnl 4096 (channel_data cnl + 8 + of_nat i)" "\<not> in_region cnl 12 (channel_data cnl + 8 + of_nat i)"
proof -
  have e: "channel_data cnl + 8 + of_nat i - cnl = (of_nat (20 + i) :: addr)" by (simp add: channel_data_def)
  have u: "unat (of_nat (20 + i) :: addr) = 20 + i" using assms by (intro unat_of_nat_small) simp
  show "in_region cnl 4096 (channel_data cnl + 8 + of_nat i)"
    "\<not> in_region cnl 12 (channel_data cnl + 8 + of_nat i)"
    using assms unfolding in_region_def e u by simp_all
qed

lemma header_store: "\<not> in_region cnl 12 x \<Longrightarrow> store32 (sent cnl m) cnl 0 x = m x"
  using store32_outside [of cnl x 0 "sent cnl m" 0] by (simp add: sent_outside)

lemma data_sent:
  assumes "length bs < 4076" "bytes_at m buf bs" "disjoint_regions buf (length bs) cnl 4096"
  shows "bytes_at (store32 (sent cnl (memcpy (channel_data cnl + 8) buf (of_nat (length bs)) (asked cnl n m))) cnl 0)
    (channel_data cnl + 8) bs"
proof -
  have d: "disjoint_regions (channel_data cnl + 8) (length bs) buf (length bs)"
    using assms(1,3) channel_sub unfolding disjoint_regions_def by blast
  have "bytes_at (asked cnl n m) buf bs = bytes_at m buf bs"
    using assms(1,3) by (intro bytes_at_cong) (auto simp: asked_outside_page dest: disjoint_regionsD)
  then have "bytes_at (memcpy (channel_data cnl + 8) buf (of_nat (length bs)) (asked cnl n m)) (channel_data cnl + 8) bs"
    using assms(1,2) d by (intro bytes_at_memcpy) simp_all
  then show ?thesis
    using assms(1) by (auto simp: bytes_at_nth header_store page_data(2))
qed

text \<open>
  C4.  What a program writes to the console appears on the screen.  When the driver of the console
  takes its turn while the program waits, \<open>write\<close> returns the number of bytes, the screen is as after
  printing the bytes in order at the cursor, and nothing else changes but the page of the channel.
\<close>

theorem write_reaches_screen:
  fixes s :: con
  assumes "cnl = fd_offset (nth_fd m (vm_fds (vm_info c)) fd)" "fd_type (nth_fd m (vm_fds (vm_info c)) fd) = TYPE_CHAR"
    and "sole_caller d i cnl m" "bytes_at m buf bs" "length bs < 4076"
    and "disjoint_regions buf (length bs) cnl 4096" "disjoint_regions cnl 4096 SCR_START SCR_SIZE"
  shows "\<exists>m'. write_file (driver_runs (console_turn fs d i) s) c fd buf (of_nat (length bs)) m = Inr (of_nat (length bs), m') \<and>
    (\<forall>x. on_screen x \<longrightarrow> m' x = mem (con_puts bs 0xF (s\<lparr>mem := m\<rparr>)) x) \<and>
    (\<forall>x. \<not> on_screen x \<longrightarrow> \<not> in_region cnl 4096 x \<longrightarrow> m' x = m x)"
proof -
  let ?n = "length bs"
  define m1 where "m1 = memcpy (channel_data cnl + 8) buf (of_nat ?n) (asked cnl ?n m)"
  define s0 where "s0 = s\<lparr>mem := store32 (sent cnl m1) cnl 0\<rparr>"
  have "console_can cnl (of_nat ?n) s0" using small_count(2) [OF assms(5)] by (simp add: console_can_def not_le)
  from console_driver.write_answered [where fs = fs, OF assms(1,3,5) m1_def this [unfolded s0_def], folded s0_def]
  obtain s1 m' where s1: "console_serve cnl (of_nat ?n) s0 = Inr s1"
    and w: "write_char (driver_runs (console_turn fs d i) s) c fd buf (of_nat ?n) m = Inr (of_nat ?n, m')"
    and o: "\<forall>x. \<not> in_region cnl 12 x \<longrightarrow> m' x = mem s1 x" "\<forall>x. \<not> in_region cnl 4096 x \<longrightarrow> \<not> on_screen x \<longrightarrow> m' x = m x"
    by auto
  have "\<not> on_screen (channel_data cnl + 8 + of_nat j)" if "j < ?n" for j
    using page_data(1) [OF assms(5) that] assms(7) disjoint_regionsD by blast
  then have "s1 = con_puts bs 0xF s0"
    using s1 data_sent [OF assms(5,4,6)] print_data_puts [of s0 "channel_data cnl + 8" bs] assms(5)
    by (simp add: console_serve_def int_count_small s0_def m1_def)
  moreover have p: "\<not> in_region cnl 4096 x" if "on_screen x" for x using assms(7) that disjoint_regionsD by blast
  then have "same_screen s0 (s\<lparr>mem := m\<rparr>)"
    using assms(5) by (simp add: same_screen_def s0_def header_store page_header m1_def memcpy_nat_outside channel_sub_not asked_outside_page)
  ultimately have "on_screen x \<longrightarrow> m' x = mem (con_puts bs 0xF (s\<lparr>mem := m\<rparr>)) x" for x
    using o(1) p page_header same_puts [of s0 "s\<lparr>mem := m\<rparr>" bs "0xF"] by (simp add: same_screen_def)
  then show ?thesis using w o(2) assms(2) by (auto simp: write_file_def)
qed

section \<open>Reading from the keyboard and from the junk device\<close>

lemma buf_read:
  assumes "n < 4076" "disjoint_regions buf n cnl 4096"
  shows "disjoint_regions buf n (channel_data cnl) n"
    "\<not> in_region cnl 4096 x \<Longrightarrow> \<not> in_region buf n x \<Longrightarrow> memcpy buf (channel_data cnl) (of_nat n) m x = m x"
proof -
  have "in_region cnl 4096 x" if "in_region (channel_data cnl) n x" for x
    using assms(1) that in_region_sub [of cnl 12 n x 4096] by (simp add: channel_data_def)
  then show "disjoint_regions buf n (channel_data cnl) n" using assms(2) by (auto simp: disjoint_regions_def)
qed (simp add: assms(1) memcpy_nat_outside)

lemma data_region:
  assumes "in_region (channel_data cnl) n x" "n < 4076"
  shows "\<not> in_region cnl 12 x"
  using assms sep_off_disjoint [of 0 12 12 n cnl] by (auto simp: sep_off_def channel_data_def dest: disjoint_regionsD)

text \<open>
  C8.  What is typed arrives.  While a program waits in \<open>read\<close> and the user presses and releases keys, the
  last of which completes the request, the driver of the keyboard answers with the characters of the
  keys in order, as the modifiers held down at each of them say.  Only the buffer of the program and
  the page of the channel change.
\<close>

theorem read_gets_typed:
  fixes s :: kbd
  assumes "cnl = fd_offset (nth_fd m (vm_fds (vm_info c)) fd)" "fd_type (nth_fd m (vm_fds (vm_info c)) fd) = TYPE_CHAR"
    and "sole_caller d i cnl m" "types codes bs s" "irqs s = map (Pair 1) codes @ rest" "bufpos s = 0"
    and "disjoint_regions buf (length bs) cnl 4096"
  shows "\<exists>m'. read_file (driver_runs (kbd_turn fs d i) s) c tmp fd buf (of_nat (length bs)) m = Inr (of_nat (length bs), m') \<and>
    bytes_at m' buf bs \<and>
    (\<forall>x. \<not> in_region cnl 4096 x \<longrightarrow> \<not> in_region buf (length bs) x \<longrightarrow> m' x = m x)"
proof -
  let ?n = "length bs"
  have n: "?n < 4076" using assms(4) by (simp add: types_def)
  define s0 where "s0 = s\<lparr>mem := store32 (sent cnl (asked cnl ?n m)) cnl 0\<rparr>"
  have s0: "types codes bs s0" "irqs s0 = map (Pair 1) codes @ rest" "bufpos s0 = 0"
    using assms(4-6) by (simp_all add: s0_def types_def)
  then have "kbd_can cnl (of_nat ?n) s0" by (auto simp: kbd_can_def)
  from kbd_driver.read_answered [where fs = fs, OF assms(1,3) n this [unfolded s0_def] assms(7), folded s0_def]
  obtain s1 m5 where s1: "kbd_serve cnl (of_nat ?n) s0 = Inr s1"
    and r: "read_char (driver_runs (kbd_turn fs d i) s) c fd buf (of_nat ?n) m =
      Inr (of_nat ?n, memcpy buf (channel_data cnl) (of_nat ?n) m5)"
    and o: "\<forall>x. \<not> in_region cnl 12 x \<longrightarrow> m5 x = mem s1 x" "\<forall>x. \<not> in_region cnl 4096 x \<longrightarrow> m5 x = m x"
    by auto
  have "mem s1 = put_bytes (mem s0) (channel_data cnl) bs" using kbd_serve_typed [OF s0 refl, of cnl] s1 by auto
  then have "bytes_at (mem s1) (channel_data cnl) bs" using n by (simp add: bytes_at_put_bytes)
  moreover have "bytes_at m5 (channel_data cnl) bs = bytes_at (mem s1) (channel_data cnl) bs"
    using o(1) n by (intro bytes_at_cong) (auto dest: data_region)
  ultimately have "bytes_at (memcpy buf (channel_data cnl) (of_nat ?n) m5) buf bs"
    using n buf_read(1) [OF n assms(7)] by (intro bytes_at_memcpy) simp_all
  then show ?thesis
    using r o(2) assms(2) buf_read(2) [OF n assms(7)] by (auto simp: read_file_def)
qed

lemma bytes_at_store: "n \<le> 2 ^ 64 \<Longrightarrow> bytes_at (store_le n m a w) a (le_bytes n w)"
proof -
  assume n: "n \<le> 2 ^ 64"
  have "unat (of_nat i :: addr) = i" if "i < n" for i using that n by (intro unat_of_nat_small) simp
  then show ?thesis using n by (simp add: bytes_at_nth le_bytes_def store_le_apply in_region_def)
qed

lemma junk_serve_data:
  assumes "n < 4076"
  shows "\<exists>s1. junk_serve cnl (of_nat n) (s\<lparr>mem := store32 (sent cnl (asked cnl n m)) cnl 0\<rparr>) = Inr s1 \<and>
    bytes_at (mem s1) (channel_data cnl) (le_bytes 8 (of_nat n :: addr) @ replicate n 102)"
proof -
  let ?m0 = "store32 (sent cnl (asked cnl n m)) cnl 0" and ?p = "channel_data cnl"
  let ?m1 = "memset_loop n (?p + 8) 102 ?m0"
  have "?m1 x = asked cnl n m x" if "in_region ?p 8 x" for x
    using that assms data_region [OF that] disjoint_regionsD [OF sep_off_disjoint [of 0 8 8 n ?p], of x]
    by (auto simp: memset_loop_apply header_store sep_off_def)
  then have "bytes_at ?m1 ?p (le_bytes 8 (of_nat n :: addr)) = bytes_at (asked cnl n m) ?p (le_bytes 8 (of_nat n :: addr))"
    by (intro bytes_at_cong) auto
  then have "bytes_at ?m1 ?p (le_bytes 8 (of_nat n :: addr))" by (simp add: asked_def bytes_at_store)
  moreover have "bytes_at ?m1 (?p + 8) (replicate n 102)"
    using assms by (auto simp: bytes_at_nth memset_loop_apply intro: in_regionI)
  ultimately show ?thesis
    using assms by (simp add: junk_serve_def int_count_small fill_data_memset bytes_at_append)
qed

text \<open>
  A program that reads from the junk device gets the count of its own request: the driver writes
  its data behind the eight bytes of the request, \<open>read\<close> copies from the start of them.  The first
  eight bytes read are the little-endian count; only what follows is the letter \<open>f\<close>.
\<close>

lemma junk_read_sees_count:
  fixes s :: machine
  assumes "cnl = fd_offset (nth_fd m (vm_fds (vm_info c)) fd)" "fd_type (nth_fd m (vm_fds (vm_info c)) fd) = TYPE_CHAR"
    and "sole_caller d i cnl m" "n < 4076" "disjoint_regions buf n cnl 4096"
  shows "\<exists>m'. read_file (driver_runs (junk_turn fs d i) s) c tmp fd buf (of_nat n) m = Inr (of_nat n, m') \<and>
    bytes_at m' buf (take n (le_bytes 8 (of_nat n :: addr) @ replicate n 102))"
proof -
  let ?bs = "take n (le_bytes 8 (of_nat n :: addr) @ replicate n 102)"
  have can: "junk_can cnl (of_nat n) s'" for s' using small_count(2) [OF assms(4)] by (simp add: junk_can_def not_le)
  obtain s1 m5 where s1: "junk_serve cnl (of_nat n) (s\<lparr>mem := store32 (sent cnl (asked cnl n m)) cnl 0\<rparr>) = Inr s1"
    and r: "read_char (driver_runs (junk_turn fs d i) s) c fd buf (of_nat n) m =
      Inr (of_nat n, memcpy buf (channel_data cnl) (of_nat n) m5)"
    and o: "\<forall>x. \<not> in_region cnl 12 x \<longrightarrow> m5 x = mem s1 x"
    using junk_driver.read_answered [where fs = fs and s = s, OF assms(1,3,4) can assms(5)] by auto
  have "bytes_at (mem s1) (channel_data cnl) ?bs"
    using junk_serve_data [OF assms(4), where cnl = cnl and s = s and m = m] s1 by (intro bytes_at_take) simp
  moreover have "bytes_at m5 (channel_data cnl) ?bs = bytes_at (mem s1) (channel_data cnl) ?bs"
    using o assms(4) by (intro bytes_at_cong) (auto dest: data_region)
  moreover have "length ?bs = n" by simp
  ultimately have "bytes_at (memcpy buf (channel_data cnl) (of_nat n) m5) buf ?bs"
    using bytes_at_memcpy [of buf ?bs "channel_data cnl" m5] buf_read(1) [OF assms(4,5)] assms(4) by simp
  then show ?thesis using r assms(2) by (auto simp: read_file_def)
qed

section \<open>Witnesses\<close>

text \<open>
  A program whose descriptor 1 is the channel at 0x4000, the second of the two channels of the driver
  \<open>demo_driver\<close>, and a word in its memory.
\<close>

definition demo_user :: cpu_info where
  "demo_user = zero_cpu\<lparr>cpuid := 6, vm_info := zero_vm\<lparr>vm_fds := 0x8000\<rparr>\<rparr>"

definition demo_user_mem :: memory where
  "demo_user_mem = store_le 2 (store64 (store32 (store64 (store64 (\<lambda>_. 0) 0x1000 0x3000) 0x1008 0x4000) 0x8018 TYPE_CHAR)
     0x8028 0x4000) 0x9000 (0x6948 :: 16 word)"

lemma demo_user_fd:
  "fd_offset (nth_fd demo_user_mem (vm_fds (vm_info demo_user)) 1) = 0x4000"
  "fd_type (nth_fd demo_user_mem (vm_fds (vm_info demo_user)) 1) = TYPE_CHAR"
  by (simp_all add: nth_fd_def get_fd_def demo_user_def zero_cpu_def zero_vm_def demo_user_mem_def mem_eval)

lemma demo_sole_caller: "sole_caller demo_driver 0 0x4000 demo_user_mem"
proof -
  have u: "[0..<MAX_CHANNELS] = 0 # 1 # 2 # [3..<MAX_CHANNELS]" by (simp add: upt_conv_Cons)
  have "used_from demo_user_mem 0x1000 0 = [0, 1]"
    unfolding used_from_def u by (simp add: channel_at_def demo_user_mem_def mem_eval)
  moreover have "channel_at demo_user_mem 0x1000 0 = 0x3000" "channel_at demo_user_mem 0x1000 1 = 0x4000"
    "\<not> wants demo_user_mem 0x1000 0"
    by (simp_all add: channel_at_def wants_def ready_send_def demo_user_mem_def mem_eval)
  moreover have "is_driver (ucast (cpuid demo_driver))" "vm_channels (vm_info demo_driver) = 0x1000"
    by (simp_all add: demo_driver_def zero_cpu_def zero_vm_def is_driver_def)
  moreover have "disjoint_regions 0x1000 256 0x4000 4096" "disjoint_regions 0x3000 4 0x4000 4096"
    by (rule disjoint_regionsI; simp)+
  ultimately show ?thesis by (simp add: sole_caller_def Let_def)
qed

lemma demo_word: "bytes_at demo_user_mem 0x9000 [0x48, 0x69]"
  by (simp add: demo_user_mem_def store_le_apply in_region_def drop_bit_eq_div)

theorem write_reaches_screen_witness:
  "\<exists>m'. write_file (driver_runs (console_turn id demo_driver 0) \<lparr>mem = (\<lambda>_. 0), con_x = 0, con_y = 0, ports = []\<rparr>)
      demo_user 1 0x9000 2 demo_user_mem = Inr (2, m') \<and>
    (\<forall>x. on_screen x \<longrightarrow> m' x =
      mem (con_puts [0x48, 0x69] 0xF \<lparr>mem = demo_user_mem, con_x = 0, con_y = 0, ports = []\<rparr>) x)"
proof -
  have "disjoint_regions 0x9000 (length [0x48, 0x69 :: byte]) 0x4000 4096" "disjoint_regions 0x4000 4096 SCR_START SCR_SIZE"
    by (rule disjoint_regionsI; simp)+
  then show ?thesis
    using write_reaches_screen [OF demo_user_fd(1) [symmetric] demo_user_fd(2) demo_sole_caller demo_word,
      of id "\<lparr>mem = (\<lambda>_. 0), con_x = 0, con_y = 0, ports = []\<rparr>"] by auto
qed

text \<open>Shift, h, shift released, i.\<close>

definition demo_kbd :: kbd where
  "demo_kbd = \<lparr>mem = (\<lambda>_. 0), buffer = 0, bufpos = 0, shift_pressed = False, ctrl_pressed = False,
     alt_pressed = False, irqs = map (Pair 1) [0x2A, 0x23, 0xAA, 0x17]\<rparr>"

lemma demo_types: "types [0x2A, 0x23, 0xAA, 0x17] [0x48, 0x69] demo_kbd"
  by (simp add: types_def demo_kbd_def character_def held_def key_char_def keymap_def)

theorem read_gets_typed_witness:
  "\<exists>m'. read_file (driver_runs (kbd_turn id demo_driver 0) demo_kbd) demo_user 0 1 0xA000 2 demo_user_mem = Inr (2, m') \<and>
    bytes_at m' 0xA000 [0x48, 0x69]"
proof -
  have "disjoint_regions 0xA000 (length [0x48, 0x69 :: byte]) 0x4000 4096" by (rule disjoint_regionsI; simp)
  moreover have "irqs demo_kbd = map (Pair 1) [0x2A, 0x23, 0xAA, 0x17] @ []" "bufpos demo_kbd = 0"
    by (simp_all add: demo_kbd_def)
  ultimately show ?thesis
    using read_gets_typed [OF demo_user_fd(1) [symmetric] demo_user_fd(2) demo_sole_caller demo_types, of _ "0xA000" id 0]
    by auto
qed

lemma junk_read_sees_count_witness:
  "\<exists>m'. read_file (driver_runs (junk_turn id demo_driver 0) \<lparr>mem = (\<lambda>_. 0)\<rparr>) demo_user 0 1 0xA000 9 demo_user_mem = Inr (9, m') \<and>
    bytes_at m' 0xA000 [9, 0, 0, 0, 0, 0, 0, 0, 102]"
proof -
  have "disjoint_regions 0xA000 9 0x4000 4096" by (rule disjoint_regionsI; simp)
  moreover have "take 9 (le_bytes 8 (of_nat 9 :: addr) @ replicate 9 102) = [9, 0, 0, 0, 0, 0, 0, 0, 102]"
    by (simp add: le_bytes_def upt_conv_Cons)
  ultimately show ?thesis
    using junk_read_sees_count [OF demo_user_fd(1) [symmetric] demo_user_fd(2) demo_sole_caller, of 9 "0xA000" id
      "\<lparr>mem = (\<lambda>_. 0)\<rparr>" 0] by simp
qed

end
