(* ===== verification/Spec2Isabelle.thy ===== *)
theory Spec2Isabelle
  imports Boot_Aps Boot_Console Monitor E1000 Exec_Load Char_Devices
begin

text \<open>
  Savannah is a multicore operating system in which every process is a virtual machine on a core of its own.  There
  is no kernel that the processes share.  Each core runs a small monitor; two of the processes are servers, the
  process manager and the file server; drivers are processes too.  All of them talk by messages and by channels in
  shared memory.  This development models that system from the second boot stage on and proves what its parts promise.

  \<^bold>\<open>Conventions.\<close>  Memory is a function from 64-bit addresses to bytes; integers have the width of the source and
  wrap.  A routine takes the state and returns \<open>'a res\<close>: a new state and result, or the reason it stops, \<open>Panic\<close> with the
  text of the source, \<open>Fault\<close> for an access that C leaves undefined, \<open>Blocked\<close> for a busy wait whose condition does
  not hold.  Where a routine waits for another program, what that program does meanwhile is a parameter.

  \<^bold>\<open>Foundations.\<close>
  \<^item> \<open>Savannah_Prelude\<close>: the result type, loops, facts about words.
  \<^item> \<open>Machine_Memory\<close>: memory, regions, arrays, and \<open>src/lib/string.c\<close>.
  \<^item> \<open>Cpu_Types\<close>: \<open>struct cpu_info\<close> and the layouts of messages, descriptors and channels (\<open>src/include\<close>).
  \<^item> \<open>Printf\<close>: \<open>src/lib/printf.c\<close>, \<open>stdlib.c\<close>; output stays within the buffer (C30).

  \<^bold>\<open>Memory of the process manager\<close> (\<open>src/vms/pm/memory.c\<close>, \<open>pmap.c\<close>).
  \<^item> \<open>Block_Alloc\<close> is the code: a doubly linked list in an array.  \<open>Block_Spec\<close> is the contract: a list of blocks
    with reference counts that tiles the memory.  \<open>Block_Refine\<close> shows that the first implements the second.
    \<open>Block_Props\<close> states the result for callers: first fit (C2), a well-formed state after every sequence of
    calls (C5), release (C6) and refusal (C28).
  \<^item> \<open>Page_Map\<close> is the code of the page tables; \<open>Page_Tables\<close> is the walk of the processor; \<open>Page_Region\<close> has the
    locale \<open>table_alloc\<close>, what the mapping code asks of its allocator.  \<open>Process_Tables\<close> interprets it on the page
    allocator: a mapped address translates to the address asked for and no other translation changes (C1, C7, C18).

  \<^bold>\<open>Messages and channels.\<close>
  \<^item> \<open>Ipc\<close> (\<open>src/lib/ipc.c\<close>, \<open>bitmap.c\<close>): a message that is sent is received (C21), and the two ways to lose one: two
    senders that race for the bitmap (C31), and a sender with number 31 (C32).
  \<^item> \<open>Channel\<close> (\<open>src/lib/channel.c\<close>, \<open>lib_mem.c\<close>): round trip (C19) and fair polling (C20).

  \<^bold>\<open>Servers.\<close>
  \<^item> \<open>Process_State\<close>, \<open>Process_Manager\<close>, \<open>Process_Props\<close> (\<open>src/vms/pm/main.c\<close>): state, handlers and the turn of the
    loop; \<open>waitpid\<close> never collects a child (C17).  \<open>Exec_Args\<close>: the arguments of \<open>exec\<close> on the new
    stack (C16).  \<open>Channel_Lists\<close>: the channels of a driver (C29).
  \<^item> \<open>File_System\<close>, \<open>File_Props\<close> (\<open>src/vms/fs/main.c\<close>) and \<open>Initrd\<close> (\<open>src/initrd/create_initrd.c\<close>): what the tool packs,
    the server finds and reads (C14, C15).
  \<^item> \<open>Clients\<close> (\<open>src/lib/fs.c\<close>, \<open>pm.c\<close>): the system calls.  \<open>Exec_Load\<close> and the theorems below join the two servers over a
    message (C3, C33).

  \<^bold>\<open>Drivers.\<close>
  \<^item> \<open>Console\<close> (also \<open>src/lib/debug_console.c\<close>, \<open>panic.c\<close>, \<open>debug.c\<close>) and \<open>Drivers\<close> (\<open>src/drivers/console\<close>, \<open>keyboard\<close>, \<open>junk\<close>),
    with the locale \<open>char_driver\<close> interpreted on all three.  \<open>Char_Devices\<close>: what is written reaches the screen, what is
    typed reaches the reader (C4, C8).
  \<^item> \<open>Pci\<close> (\<open>src/drivers/pci\<close>): base address registers (C25), the table of devices (C26).
  \<^item> \<open>E1000\<close> (\<open>src/drivers/net/e1000\<close>): the transmit ring is a queue while it is not full (C13), the rings after initialisation
    (C27), a received packet has the length of the one before (C40).

  \<^bold>\<open>Boot and monitor.\<close>
  \<^item> \<open>Boot_Memory\<close> (\<open>src/boot/stage2/memory.c\<close>, \<open>pmap.c\<close>): blocks do not overlap (C23); \<open>table_alloc\<close> holds again, so the
    mapping theorem does (C22).
  \<^item> \<open>Boot_Processors\<close> (\<open>cpuinfo.c\<close>, \<open>mp.c\<close>): search and walk of the tables of the firmware (C34, C35, C36).
  \<^item> \<open>Boot_Main\<close> (\<open>main.c\<close>): all that is loaded and mapped; with 1 GB pages the boot stops (C38).
  \<^item> \<open>Boot_Aps\<close> (\<open>mp.c\<close>, \<open>boot_aps.S\<close>, \<open>dev/lapic.c\<close>): every other processor enters its monitor (C11).
  \<^item> \<open>Boot_Console\<close> (\<open>console.c\<close>, \<open>printk.c\<close>).
  \<^item> \<open>Interrupts\<close>: descriptor tables, controllers, timers of both \<open>src/boot/stage2\<close> and \<open>src/lib\<close> (C37).
  \<^item> \<open>Threads\<close> (\<open>src/lib/thread\<close>): round robin (C9).
  \<^item> \<open>Monitor\<close> (\<open>src/vmm\<close>): the guest is entered (C10), and after every exit the monitor waits for a message or enters it again (C12); the
    control fields (C24); the host tables (C39).

  \<^bold>\<open>Bounds.\<close>  The walk of \<open>alloc_mem_pages\<close> has one unit of fuel per node of the array, and the list has no more nodes
  than that.  \<open>lapic_icr_wait\<close> polls 100000 times as the source does; C11 assumes a controller that is ready
  before.  \<open>lapic_send_ipi\<close> polls without a bound and so is given the number of reads after which the register is free.
  \<open>strcpy\<close>, \<open>strlen\<close>, \<open>strcmp\<close>, \<open>mp_scan\<close> and \<open>mp_walk\<close> are partial functions; the string routines are
  shown to return on terminated strings, the other two on any memory.  The scans of \<open>Ipc\<close>, \<open>Channel\<close> and \<open>Pci\<close> have termination proofs.

  \<^bold>\<open>Not modelled.\<close>
  \<^item> \<open>src/boot/stage1\<close>: the 32-bit program before the second stage; the model starts from its result.
  \<^item> \<open>src/vms/init\<close> and the programs of \<open>src/bin\<close>: sequences of modelled calls, apart from the scheduler of
    \<open>login.c\<close>, which is in \<open>Interrupts\<close>.
  \<^item> Assembly other than the end of \<open>boot_aps.S\<close>: register saving and entry code, for which there is no model of the
    instruction set.  The trap handlers, which print registers.
  \<^item> \<open>src/boot/stage2/dev/keyboard.c\<close>, \<open>string.c\<close>: near copies of modelled code; \<open>dev/cga.c\<close> and
    \<open>src/vms/pm/mp.c\<close>: not built.
  \<^item> \<open>src/lib/lwip\<close>: third-party code; what \<open>E1000\<close> needs of it is a parameter.  The start of the stack and the echo
    callbacks in \<open>lwip-input.c\<close> only call it.
  \<^item> \<open>src/tools\<close>: generators of constants.
  \<^item> Caches, store buffers and the order of memory accesses of several processors, apart from the interleavings of
    \<open>set_bit\<close> in \<open>Ipc\<close>.
\<close>

section \<open>From exec to the program\<close>

text \<open>
  C3.  The process manager gets the program it asks for.  When it sends the path of a file of the
  image, of at most seven characters, to the file server, the turn of the server that takes the
  request answers with the address of the contents of that file.
\<close>

theorem exec_load_end_to_end:
  assumes lay: "ipc_layout (cpus s) n inb outb bm" "2 < n" "\<not> pending (mem s) bm FS_ID PM_ID"
    and img: "files_ok files" "length junk = 32" "create_initrd junk files = Inr img" "bytes_at (mem s) (filesystem s) img"
    and prog: "i < length files" "files ! i = (name, Some c)" "str_at (mem s) path name" "length name < 8"
    and apart: "disjoint_regions path 8 (msg_output (cpus s PM_ID)) 64"
      "disjoint_regions (filesystem s) (length img) (msg_output (cpus s PM_ID)) 64"
      "disjoint_regions (filesystem s) (length img) (bm + 8) 8"
      "disjoint_regions (filesystem s) (length img) (inb + 64) 64"
  shows "\<exists>m1 s'. msg_send (cpus s PM_ID) FS_ID LOAD_IPC path 8 (mem s) = Inr m1 \<and>
    fs_turn driver pm (s\<lparr>mem := m1\<rparr>) = Inr s' \<and> message_number (mem s') (msg_input (cpus s PM_ID) + 64) = LOAD_IPC \<and>
    bytes_at (mem s') (load64 (mem s') (message_data (msg_input (cpus s PM_ID) + 64))) c"
proof -
  let ?o = "msg_output (cpus s PM_ID)"
  have inb: "msg_input (cpus s PM_ID) = inb" using ipc_layoutD(3) [OF lay(1), of 0] lay(2) by simp
  have len: "length img \<le> 2 ^ 64"
    using create_initrd_total [OF img(1,2)] img(1,3) by (auto simp: files_ok_def data_start_def)
  obtain m1 m2 where m: "msg_send (cpus s PM_ID) FS_ID LOAD_IPC path 8 (mem s) = Inr m1"
    "msg_check (cpus s FS_ID) m1 = Inr (?o, m2)" "message_from m2 ?o = PM_ID" "message_number m2 ?o = LOAD_IPC"
    "\<And>i. i < 8 \<Longrightarrow> m2 (message_data ?o + of_nat i) = mem s (path + of_nat i)"
    "\<And>x. \<not> in_region ?o 24 x \<Longrightarrow> \<not> in_region (bm + 8) 8 x \<Longrightarrow> m2 x = mem s x"
    using msg_delivered [OF lay(1), of 0 1 8 path "mem s" LOAD_IPC] lay(2,3) apart(1) by auto
  have im: "bytes_at m2 (filesystem s) img"
    using disjoint_regionsD [OF apart(2)] disjoint_regionsD [OF apart(3)] in_region_mono [of ?o 24 _ 64]
    by (intro image_kept [OF img(4) len] m(6)) auto
  have path: "str_at m2 (message_data ?o) name" using path_in_box [OF prog(3,4) m(5)] .
  let ?w = "filesystem s + of_nat (data_start files + sizes (take i files))"
  have "local_load (message_data ?o) (s\<lparr>mem := m2\<rparr>) = Inr ?w"
    using local_load_image [of files junk img "s\<lparr>mem := m2\<rparr>" i name c "message_data ?o"] img(1-3) im prog(1,2) path by simp
  then obtain m' where m': "fs_turn driver pm (s\<lparr>mem := m1\<rparr>) = Inr (s\<lparr>mem := m'\<rparr>)" "message_number m' (inb + 64) = LOAD_IPC"
    "load64 m' (message_data (inb + 64)) = ?w" "\<And>x. \<not> in_region (inb + 64) 64 x \<Longrightarrow> m' x = m2 x"
    using fs_turn_load [of "s\<lparr>mem := m1\<rparr>" ?o m2 ?w n inb outb bm driver pm] m(2-4) lay by auto
  have "bytes_at m' (filesystem s) img"
    using disjoint_regionsD [OF apart(4)] by (intro image_kept [OF im len] m'(4)) auto
  from image_entry(3) [OF img(1-3) this prog(1,2)] show ?thesis
    using m(1) m'(1-3) by (auto simp: inb)
qed

definition demo_system :: "byte list \<Rightarrow> fs" where
  "demo_system img = \<lparr>mem = put_bytes (put_bytes (\<lambda>_. 0) 0x1000000 img) 0x2000 (chars ''init''), cpus = demo_cpus,
     filesystem = 0x1000000, frame = 0\<rparr>"

theorem exec_load_end_to_end_witness:
  "\<exists>img m1 s'. create_initrd (replicate 32 7) demo_files = Inr img \<and>
    msg_send (demo_cpus 0) 1 4 0x2000 8 (mem (demo_system img)) = Inr m1 \<and>
    fs_turn id id ((demo_system img)\<lparr>mem := m1\<rparr>) = Inr s' \<and>
    bytes_at (mem s') (load64 (mem s') 0x400050) [1, 2, 3]"
proof -
  obtain img where img: "create_initrd (replicate 32 7) demo_files = Inr img" "length img = 231"
    using create_initrd_total [OF demo_files_ok(1), of "replicate 32 7"] demo_files_ok(2) by auto
  let ?s = "demo_system img"
  have s: "cpus ?s = demo_cpus" "filesystem ?s = 0x1000000"
    "mem ?s = put_bytes (put_bytes (\<lambda>_. 0) 0x1000000 img) 0x2000 (chars ''init'')"
    by (simp_all add: demo_system_def)
  have far: "mem ?s x = put_bytes (\<lambda>_. 0) 0x2000 (chars ''init'') x" if "unat x < 0x1000000" for x
    using that img(2) put_bytes_outside [of img "0x1000000" x "\<lambda>_. 0"] by (simp add: s chars_def in_region_nowrap)
  have "bytes_at (mem ?s) 0x1000000 img = bytes_at (put_bytes (\<lambda>_. 0) 0x1000000 img) 0x1000000 img"
    unfolding s(3) using img(2) by (intro bytes_at_cong) (auto simp: chars_def in_region_nowrap)
  then have im: "bytes_at (mem ?s) (filesystem ?s) img" using img(2) by (simp add: bytes_at_put_bytes s(2))
  have "load64 (mem ?s) 0x800008 = load64 (\<lambda>_. 0) 0x800008"
    by (rule load_cong) (auto simp: far chars_def in_region_nowrap)
  then have p: "\<not> pending (mem ?s) 0x800000 FS_ID PM_ID" by (simp add: pending_def load_zero)
  have prog: "0 < length demo_files" "demo_files ! 0 = (chars ''init'', Some [1, 2, 3])"
    "str_at (mem ?s) 0x2000 (chars ''init'')" "length (chars ''init'') < 8"
    by (simp_all add: demo_files_def chars_def far)
  have apart: "disjoint_regions 0x2000 8 (msg_output (cpus ?s PM_ID)) 64"
    "disjoint_regions (filesystem ?s) (length img) (msg_output (cpus ?s PM_ID)) 64"
    "disjoint_regions (filesystem ?s) (length img) (0x800000 + 8) 8"
    "disjoint_regions (filesystem ?s) (length img) (0x400000 + 64) 64"
    by (rule disjoint_regionsI; simp add: s demo_fields img(2))+
  have lay: "ipc_layout (cpus ?s) 32 0x400000 0x600000 0x800000" using demo_layout by (simp add: s)
  show ?thesis
    using exec_load_end_to_end [OF lay _ p demo_files_ok(1) _ img(1) im prog apart, of id id] img(1)
    by (simp add: s(1) demo_fields message_data_def) blast
qed



end
